(* ===== verification/CPrelude.thy ===== *)
theory CPrelude
  imports Main "HOL-Library.Word" "HOL-Library.Monad_Syntax"
begin

section \<open>Vocabulary shared by the component theories\<close>

text \<open>
  C pointers are addresses (natural numbers, \<open>0\<close> is \<open>NULL\<close>), C strings are HOL strings
  without their terminating zero, C \<open>int\<close> is \<open>int\<close> where no operation of the code can leave
  the 32-bit range under the stated preconditions, and a machine word where wrap-around matters.
  The library functions of C that the code calls (\<open>malloc\<close>, the \<open>ctype.h\<close> predicates,
  \<open>strcmp\<close>, \<open>memcpy\<close>) are modelled here as far as the code uses them; the character
  predicates are those of the C locale on an ASCII host with a signed \<open>char\<close>, as in the Linux
  build of the library.
\<close>

unbundle bit_operations_syntax

type_synonym ptr = nat

abbreviation (input) NULL :: ptr where
  "NULL \<equiv> 0"

type_synonym byte = "8 word"
type_synonym cint = "32 word"

named_theorems chain_simps \<open>rewriting of pointer chains\<close>

subsection \<open>Storage: words at addresses and a bump-pointer malloc\<close>

text \<open>
  \<open>hword\<close> gives the pointer-sized word stored at an address. \<open>malloc\<close> hands out fresh
  addresses from \<open>hbrk\<close> upwards until \<open>hlimit\<close>; \<open>safeMalloc\<close> of \<open>c/alloc.c\<close> clears what it
  returns. \<open>hfreed\<close> records what was given back, in order, with the size passed to
  \<open>safeFree\<close>.
\<close>

record heap =
  hword :: "ptr \<Rightarrow> ptr"
  hbrk :: nat
  hlimit :: nat
  hfreed :: "(ptr \<times> nat) list"

definition safeMalloc :: "nat \<Rightarrow> heap \<Rightarrow> ptr \<times> heap" where
  "safeMalloc n h =
     (if hbrk h + n \<le> hlimit h
      then (hbrk h, h\<lparr>hbrk := hbrk h + n,
                       hword := (\<lambda>a. if hbrk h \<le> a \<and> a < hbrk h + n then 0 else hword h a)\<rparr>)
      else (NULL, h))"

definition safeFree :: "ptr \<Rightarrow> nat \<Rightarrow> heap \<Rightarrow> heap" where
  "safeFree p n h = h\<lparr>hfreed := hfreed h @ [(p, n)]\<rparr>"

definition store_word :: "ptr \<Rightarrow> ptr \<Rightarrow> heap \<Rightarrow> heap" where
  "store_word a v h = h\<lparr>hword := (hword h)(a := v)\<rparr>"

lemma store_word_simps [simp]:
  "hbrk (store_word a v h) = hbrk h"
  "hlimit (store_word a v h) = hlimit h"
  "hfreed (store_word a v h) = hfreed h"
  "hword (store_word a v h) = (hword h)(a := v)"
  by (simp_all add: store_word_def)

lemma safeFree_simps [simp]:
  "hbrk (safeFree p n h) = hbrk h"
  "hlimit (safeFree p n h) = hlimit h"
  "hword (safeFree p n h) = hword h"
  "hfreed (safeFree p n h) = hfreed h @ [(p, n)]"
  by (simp_all add: safeFree_def)

lemma safeMalloc_brk_mono: "safeMalloc n h = (p, h') \<Longrightarrow> hbrk h \<le> hbrk h'"
  by (auto simp: safeMalloc_def split: if_splits)

lemma safeMalloc_below: "safeMalloc n h = (p, h') \<Longrightarrow> a < hbrk h \<Longrightarrow> hword h' a = hword h a"
  by (auto simp: safeMalloc_def split: if_splits)

lemma safeMalloc_room: "hbrk h + n \<le> hlimit h \<Longrightarrow> fst (safeMalloc n h) = hbrk h"
  by (simp add: safeMalloc_def)

subsection \<open>Chains of pointers\<close>

text \<open>\<open>hchain f p xs\<close>: following \<open>f\<close> from \<open>p\<close> visits exactly \<open>xs\<close> and then \<open>NULL\<close>.\<close>

fun hchain :: "(ptr \<Rightarrow> ptr) \<Rightarrow> ptr \<Rightarrow> ptr list \<Rightarrow> bool" where
  "hchain f p [] = (p = NULL)"
| "hchain f p (x # xs) = (p = x \<and> x \<noteq> NULL \<and> hchain f (f x) xs)"

lemma hchain_upd_other [chain_simps]: "a \<notin> set xs \<Longrightarrow> hchain (f(a := v)) p xs = hchain f p xs"
  by (induction xs arbitrary: p) auto

lemma hchain_cong: "(\<And>a. a \<in> set xs \<Longrightarrow> f a = g a) \<Longrightarrow> hchain f p xs = hchain g p xs"
  by (induction xs arbitrary: p) auto

lemma hchain_unique: "hchain f p xs \<Longrightarrow> hchain f p ys \<Longrightarrow> xs = ys"
proof (induction xs arbitrary: p ys)
  case Nil
  then show ?case by (cases ys) auto
next
  case (Cons x xs)
  then show ?case by (cases ys) auto
qed

lemma hchain_null [simp]: "hchain f NULL xs = (xs = [])"
  by (cases xs) auto

lemma hchain_cases: "hchain f p xs \<Longrightarrow> p \<noteq> NULL \<Longrightarrow> \<exists>ys. xs = p # ys \<and> hchain f (f p) ys"
  by (cases xs) auto

subsection \<open>The interface of a block allocator\<close>

text \<open>
  What the containers rely on: \<open>ok s live\<close> says that the allocator's state \<open>s\<close> is sound
  while the client holds exactly the blocks of \<open>live\<close>.
\<close>

locale block_allocator =
  fixes alloc :: "'s \<Rightarrow> (ptr \<times> 's) option"
    and release :: "'s \<Rightarrow> ptr \<Rightarrow> 's"
    and ok :: "'s \<Rightarrow> ptr set \<Rightarrow> bool"
  assumes alloc_ok: "ok s live \<Longrightarrow> alloc s = Some (p, s') \<Longrightarrow>
      ok s' (insert p live) \<and> p \<notin> live \<and> p \<noteq> NULL"
    and release_ok: "ok s live \<Longrightarrow> p \<in> live \<Longrightarrow> ok (release s p) (live - {p})"
begin

text \<open>Releasing a list of different blocks that are all held.\<close>

lemma release_all_ok:
  "ok s live \<Longrightarrow> distinct ps \<Longrightarrow> set ps \<subseteq> live \<Longrightarrow> ok (foldl release s ps) (live - set ps)"
proof (induction ps arbitrary: s live)
  case Nil
  then show ?case by simp
next
  case (Cons p ps)
  then have "ok (release s p) (live - {p})" and "set ps \<subseteq> live - {p}"
    by (auto intro: release_ok)
  from Cons.IH [OF this(1) _ this(2)] Cons.prems(2)
  have "ok (foldl release (release s p) ps) (live - {p} - set ps)" by simp
  then show ?case by (simp add: Diff_insert2 [symmetric])
qed

text \<open>An allocation right after a release may reuse the block, never one still held.\<close>

lemma realloc_ok:
  assumes "ok s live" "p \<in> live" "alloc (release s p) = Some (q, s')"
  shows "ok s' (insert q (live - {p})) \<and> q \<notin> live - {p}"
  using alloc_ok [OF release_ok [OF assms(1,2)] assms(3)] by blast

end

subsection \<open>Replacing one list in a list of lists\<close>

lemma concat_update_split:
  assumes "i < length xss"
  shows "\<exists>A B. concat xss = A @ xss ! i @ B \<and> (\<forall>c. concat (xss[i := c]) = A @ c @ B)"
proof (intro exI conjI allI)
  show "concat xss = concat (take i xss) @ xss ! i @ concat (drop (Suc i) xss)"
    using arg_cong [OF id_take_nth_drop [OF assms], of concat] by simp
  show "concat (xss[i := c]) = concat (take i xss) @ c @ concat (drop (Suc i) xss)" for c
    using assms by (simp add: upd_conv_take_nth_drop)
qed

subsection \<open>The interface of a keyed store\<close>

text \<open>
  What the clients of the hash tables rely on: a lookup sees the last value put under a key
  that the store takes to be the same, removal forgets it, and nothing else changes.
  \<open>put\<close> may fail for lack of storage.
\<close>

locale keyed_store =
  fixes find :: "'s \<Rightarrow> 'k \<Rightarrow> 'v option"
    and put :: "'s \<Rightarrow> 'k \<Rightarrow> 'v \<Rightarrow> 's option"
    and remove :: "'s \<Rightarrow> 'k \<Rightarrow> 's"
    and same :: "'s \<Rightarrow> 'k \<Rightarrow> 'k \<Rightarrow> bool"
    and sound :: "'s \<Rightarrow> bool"
  assumes put_sound: "sound s \<Longrightarrow> put s k v = Some s' \<Longrightarrow> sound s' \<and> same s' = same s"
    and remove_sound: "sound s \<Longrightarrow> sound (remove s k) \<and> same (remove s k) = same s"
    and find_put: "sound s \<Longrightarrow> put s k v = Some s' \<Longrightarrow>
        find s' k' = (if same s k k' then Some v else find s k')"
    and find_remove: "sound s \<Longrightarrow>
        find (remove s k) k' = (if same s k k' then None else find s k')"
    and same_refl: "sound s \<Longrightarrow> same s k k"
begin

lemma find_put_same: "sound s \<Longrightarrow> put s k v = Some s' \<Longrightarrow> find s' k = Some v"
  by (simp add: find_put same_refl)

lemma put_put_find:
  "sound s \<Longrightarrow> put s k v = Some s1 \<Longrightarrow> put s1 k v' = Some s2 \<Longrightarrow> put s k v' = Some s3 \<Longrightarrow>
     find s2 k' = find s3 k'"
  using put_sound [of s k v s1] find_put [of s k v s1] find_put [of s1 k v' s2]
    find_put [of s k v' s3] by simp

lemma remove_absent:
  "sound s \<Longrightarrow> (\<And>k'. same s k k' \<Longrightarrow> find s k' = None) \<Longrightarrow> find (remove s k) k' = find s k'"
  by (simp add: find_remove)

lemma put_remove_find:
  "sound s \<Longrightarrow> put s k v = Some s1 \<Longrightarrow> find (remove s1 k) k' = (if same s k k' then None else find s k')"
  using put_sound [of s k v s1] by (simp add: find_remove find_put)

text \<open>Storing a list of pairs, the last one for a key wins.\<close>

primrec put_all :: "'s \<Rightarrow> ('k \<times> 'v) list \<Rightarrow> 's option" where
  "put_all s [] = Some s"
| "put_all s (kv # kvs) = (case put s (fst kv) (snd kv) of None \<Rightarrow> None | Some s' \<Rightarrow> put_all s' kvs)"

primrec last_value :: "('k \<Rightarrow> 'k \<Rightarrow> bool) \<Rightarrow> 'v option \<Rightarrow> ('k \<times> 'v) list \<Rightarrow> 'k \<Rightarrow> 'v option" where
  "last_value eq d [] k = d"
| "last_value eq d (kv # kvs) k =
     last_value eq (if eq (fst kv) k then Some (snd kv) else d) kvs k"

lemma find_put_all:
  "sound s \<Longrightarrow> put_all s kvs = Some s' \<Longrightarrow>
     sound s' \<and> same s' = same s \<and> find s' k = last_value (same s) (find s k) kvs k"
proof (induction kvs arbitrary: s)
  case Nil
  then show ?case by simp
next
  case (Cons kv kvs)
  then obtain s1 where s1: "put s (fst kv) (snd kv) = Some s1" "put_all s1 kvs = Some s'"
    by (auto split: option.splits)
  from put_sound [OF Cons.prems(1) s1(1)] Cons.IH [OF _ s1(2)] find_put [OF Cons.prems(1) s1(1)]
  show ?case by simp
qed

end

end
