(* ===== verification/FixedBlock.thy ===== *)
theory FixedBlock
  imports CPrelude
begin

section \<open>The fixed block manager\<close>

text \<open>
  \<open>fixedBlockMgr\<close> of \<open>c/collections.c\<close>: blocks of one size are carved out of extents obtained
  from \<open>safeMalloc\<close>; released blocks go to a free list threaded through the blocks
  themselves (their first word is the link), and are handed out again before anything is
  carved. The first word of an extent links it to the extent obtained before it, so that
  \<open>fbMgrDestroy\<close> can give all of them back.
\<close>

record fixedBlockMgr =
  owner :: ptr
  allExtents :: ptr
  freeList :: ptr
  currentBlock :: ptr
  blockSize :: nat
  blocksPerExtend :: nat
  blocksRemaining :: nat

definition FB_HEADER_LENGTH :: nat where
  "FB_HEADER_LENGTH = 8"

definition fbMgrCreate :: "nat \<Rightarrow> nat \<Rightarrow> ptr \<Rightarrow> fixedBlockMgr" where
  "fbMgrCreate bsize bpe own =
     \<lparr>owner = own, allExtents = NULL, freeList = NULL, currentBlock = NULL,
      blockSize = bsize, blocksPerExtend = bpe, blocksRemaining = 0\<rparr>"

text \<open>
  The result is \<open>None\<close> where the code stores through the null pointer that a failed
  \<open>safeMalloc\<close> gave it.
\<close>

definition fbMgrExtend :: "fixedBlockMgr \<Rightarrow> heap \<Rightarrow> (fixedBlockMgr \<times> heap) option" where
  "fbMgrExtend m h =
     (case safeMalloc (blockSize m * blocksPerExtend m + FB_HEADER_LENGTH) h of
        (p, h1) \<Rightarrow>
          if p = NULL then None
          else Some (m\<lparr>blocksRemaining := blocksPerExtend m,
                       allExtents := p,
                       currentBlock := p + FB_HEADER_LENGTH\<rparr>,
                     store_word p (allExtents m) h1))"

definition fbMgrAlloc :: "fixedBlockMgr \<Rightarrow> heap \<Rightarrow> (ptr \<times> fixedBlockMgr \<times> heap) option" where
  "fbMgrAlloc m h =
     (if freeList m \<noteq> NULL
      then Some (freeList m, m\<lparr>freeList := hword h (freeList m)\<rparr>, h)
      else (case (if blocksRemaining m = 0 then fbMgrExtend m h else Some (m, h)) of
              None \<Rightarrow> None
            | Some (m1, h1) \<Rightarrow>
                Some (currentBlock m1,
                      m1\<lparr>currentBlock := currentBlock m1 + blockSize m1,
                         blocksRemaining := blocksRemaining m1 - 1\<rparr>, h1)))"

text \<open>The guard for a null manager, in front of the body above.\<close>

definition fbMgrAllocPtr ::
  "fixedBlockMgr option \<Rightarrow> heap \<Rightarrow> (ptr \<times> fixedBlockMgr option \<times> heap) option" where
  "fbMgrAllocPtr mp h =
     (case mp of
        None \<Rightarrow> Some (NULL, None, h)
      | Some m \<Rightarrow> map_option (\<lambda>(p, m1, h1). (p, Some m1, h1)) (fbMgrAlloc m h))"

definition fbMgrFree :: "fixedBlockMgr \<Rightarrow> ptr \<Rightarrow> heap \<Rightarrow> fixedBlockMgr \<times> heap" where
  "fbMgrFree m block h = (m\<lparr>freeList := block\<rparr>, store_word block (freeList m) h)"

text \<open>The loop of \<open>fbMgrDestroy\<close> follows the extent chain; \<open>None\<close> would be a loop for ever.\<close>

partial_function (option) fbMgrFreeExtents :: "nat \<Rightarrow> ptr \<Rightarrow> heap \<Rightarrow> heap option" where
  "fbMgrFreeExtents n extent h =
     (if extent = NULL then Some h
      else fbMgrFreeExtents n (hword h extent) (safeFree extent n h))"

definition fbMgrDestroy :: "ptr \<Rightarrow> nat \<Rightarrow> fixedBlockMgr \<Rightarrow> heap \<Rightarrow> heap option" where
  "fbMgrDestroy self selfSize m h =
     map_option (safeFree self selfSize)
       (fbMgrFreeExtents (blockSize m * blocksPerExtend m + FB_HEADER_LENGTH) (allExtents m) h)"

subsection \<open>The invariant\<close>

definition extent_size :: "fixedBlockMgr \<Rightarrow> nat" where
  "extent_size m = blockSize m * blocksPerExtend m + FB_HEADER_LENGTH"

definition block_at :: "fixedBlockMgr \<Rightarrow> ptr \<Rightarrow> nat \<Rightarrow> ptr" where
  "block_at m e i = e + FB_HEADER_LENGTH + i * blockSize m"

definition blocks_in :: "fixedBlockMgr \<Rightarrow> ptr \<Rightarrow> nat \<Rightarrow> ptr set" where
  "blocks_in m e n = block_at m e ` {..<n}"

text \<open>The blocks carved so far: all of the older extents, a prefix of the newest one.\<close>

fun carved :: "fixedBlockMgr \<Rightarrow> ptr list \<Rightarrow> ptr set" where
  "carved m [] = {}"
| "carved m (e # es) =
     blocks_in m e (blocksPerExtend m - blocksRemaining m)
     \<union> (\<Union>x \<in> set es. blocks_in m x (blocksPerExtend m))"

definition extents_ok :: "fixedBlockMgr \<Rightarrow> nat \<Rightarrow> ptr list \<Rightarrow> bool" where
  "extents_ok m lim exts \<longleftrightarrow>
     sorted_wrt (\<lambda>a b. b + extent_size m \<le> a) exts \<and>
     (\<forall>e \<in> set exts. 0 < e \<and> e + extent_size m \<le> lim)"

definition cursor_ok :: "fixedBlockMgr \<Rightarrow> ptr list \<Rightarrow> bool" where
  "cursor_ok m exts \<longleftrightarrow>
     8 \<le> blockSize m \<and> 0 < blocksPerExtend m \<and> blocksRemaining m \<le> blocksPerExtend m \<and>
     (case exts of
        [] \<Rightarrow> blocksRemaining m = 0
      | e # _ \<Rightarrow> currentBlock m = block_at m e (blocksPerExtend m - blocksRemaining m))"

text \<open>
  \<open>fb_inv m h exts free live\<close>: the extents of the manager are \<open>exts\<close> (newest first), its
  free list is \<open>free\<close>, and the blocks its client holds are \<open>live\<close>.
\<close>

definition fb_inv :: "fixedBlockMgr \<Rightarrow> heap \<Rightarrow> ptr list \<Rightarrow> ptr list \<Rightarrow> ptr set \<Rightarrow> bool" where
  "fb_inv m h exts free live \<longleftrightarrow>
     0 < hbrk h \<and> cursor_ok m exts \<and> extents_ok m (hbrk h) exts \<and>
     hchain (hword h) (allExtents m) exts \<and> hchain (hword h) (freeList m) free \<and>
     distinct free \<and> set free \<inter> live = {} \<and> set free \<union> live = carved m exts"

definition fb_ok :: "fixedBlockMgr \<Rightarrow> heap \<Rightarrow> ptr set \<Rightarrow> bool" where
  "fb_ok m h live \<longleftrightarrow> (\<exists>exts free. fb_inv m h exts free live)"

lemma fb_okI: "fb_inv m h exts free live \<Longrightarrow> fb_ok m h live"
  by (auto simp: fb_ok_def)

lemma fb_okE:
  assumes "fb_ok m h live"
  obtains exts free where "fb_inv m h exts free live"
  using assms by (auto simp: fb_ok_def)

lemma fb_ok_create:
  "0 < hbrk h \<Longrightarrow> 8 \<le> bsize \<Longrightarrow> 0 < bpe \<Longrightarrow> fb_ok (fbMgrCreate bsize bpe own) h {}"
  by (rule fb_okI [of _ _ "[]" "[]"])
     (simp add: fb_inv_def cursor_ok_def extents_ok_def fbMgrCreate_def)

subsection \<open>Geometry of extents and blocks\<close>

lemma extents_ok_Nil [simp]: "extents_ok m lim []"
  by (simp add: extents_ok_def)

lemma extents_ok_mono: "extents_ok m a exts \<Longrightarrow> a \<le> b \<Longrightarrow> extents_ok m b exts"
  by (force simp: extents_ok_def)

lemma extents_ok_Cons:
  "extents_ok m lim (e # es) \<longleftrightarrow>
     0 < e \<and> e + extent_size m \<le> lim \<and> extents_ok m e es \<and> extents_ok m lim es"
  by (auto simp: extents_ok_def)

lemma block_at_bounds:
  assumes "i < blocksPerExtend m"
  shows "e + FB_HEADER_LENGTH \<le> block_at m e i"
    and "block_at m e i + blockSize m \<le> e + extent_size m"
proof -
  from assms have "Suc i * blockSize m \<le> blocksPerExtend m * blockSize m"
    by (intro mult_le_mono1) simp
  then show "block_at m e i + blockSize m \<le> e + extent_size m"
    by (simp add: block_at_def extent_size_def algebra_simps)
qed (simp add: block_at_def)

lemma block_at_mono: "i < j \<Longrightarrow> block_at m e i + blockSize m \<le> block_at m e j"
proof -
  assume "i < j"
  then have "Suc i * blockSize m \<le> j * blockSize m"
    by (intro mult_le_mono1) simp
  then show ?thesis by (simp add: block_at_def algebra_simps)
qed

lemma blocks_in_Suc: "blocks_in m e (Suc n) = insert (block_at m e n) (blocks_in m e n)"
  by (auto simp: blocks_in_def lessThan_Suc)

lemma blocks_in_0 [simp]: "blocks_in m e 0 = {}"
  by (simp add: blocks_in_def)

text \<open>Every carved block lies in one of the extents, behind its header.\<close>

lemma carved_in_extent:
  assumes "b \<in> carved m exts"
  shows "\<exists>e \<in> set exts. \<exists>i < blocksPerExtend m. b = block_at m e i"
proof (cases exts)
  case Nil
  with assms show ?thesis by simp
next
  case (Cons e es)
  from assms Cons consider
      i where "i < blocksPerExtend m - blocksRemaining m" "b = block_at m e i"
    | x i where "x \<in> set es" "i < blocksPerExtend m" "b = block_at m x i"
    by (auto simp: blocks_in_def)
  then show ?thesis
  proof cases
    case 1
    then have "i < blocksPerExtend m" by simp
    with 1 Cons show ?thesis by auto
  next
    case 2
    with Cons show ?thesis by auto
  qed
qed

lemma carved_below:
  assumes "b \<in> carved m exts" "extents_ok m lim exts"
  shows "FB_HEADER_LENGTH < b" and "b + blockSize m \<le> lim"
proof -
  from carved_in_extent [OF assms(1)] obtain e i
    where e: "e \<in> set exts" and i: "i < blocksPerExtend m" and b: "b = block_at m e i"
    by blast
  from e assms(2) have "0 < e" "e + extent_size m \<le> lim"
    by (auto simp: extents_ok_def)
  with block_at_bounds [OF i, of e] b
  show "FB_HEADER_LENGTH < b" and "b + blockSize m \<le> lim" by linarith+
qed

lemma extents_apart:
  "extents_ok m lim exts \<Longrightarrow> x \<in> set exts \<Longrightarrow> y \<in> set exts \<Longrightarrow> x \<noteq> y \<Longrightarrow>
     x + extent_size m \<le> y \<or> y + extent_size m \<le> x"
  by (induction exts) (auto simp: extents_ok_def)

text \<open>Different carved blocks do not overlap.\<close>

lemma carved_disjoint:
  assumes a: "a \<in> carved m exts" and b: "b \<in> carved m exts" and ne: "a \<noteq> b"
    and ok: "extents_ok m lim exts"
  shows "a + blockSize m \<le> b \<or> b + blockSize m \<le> a"
proof -
  from carved_in_extent [OF a] obtain e i
    where e: "e \<in> set exts" and i: "i < blocksPerExtend m" and ea: "a = block_at m e i" by blast
  from carved_in_extent [OF b] obtain f j
    where f: "f \<in> set exts" and j: "j < blocksPerExtend m" and fb: "b = block_at m f j" by blast
  show ?thesis
  proof (cases "e = f")
    case True
    with ne ea fb have "i \<noteq> j" by auto
    then consider "i < j" | "j < i" by linarith
    then show ?thesis
      by cases (use block_at_mono True ea fb in blast)+
  next
    case False
    with extents_apart [OF ok e f] consider
      "e + extent_size m \<le> f" | "f + extent_size m \<le> e" by blast
    then show ?thesis
      using block_at_bounds [OF i, of e] block_at_bounds [OF j, of f] ea fb by cases linarith+
  qed
qed

text \<open>A word stored in a carved block (or above all extents) touches no extent header.\<close>

lemma carved_not_extent:
  assumes "b \<in> carved m exts" "extents_ok m lim exts" "0 < blockSize m"
  shows "b \<notin> set exts"
proof
  assume bx: "b \<in> set exts"
  from carved_in_extent [OF assms(1)] obtain e i
    where e: "e \<in> set exts" and i: "i < blocksPerExtend m" and b: "b = block_at m e i" by blast
  from block_at_bounds [OF i, of e] b assms(3) have "e < b" and "b < e + extent_size m"
    by (auto simp: FB_HEADER_LENGTH_def)
  then show False
    using extents_apart [OF assms(2) bx e] by (auto simp: extent_size_def)
qed

subsection \<open>Allocation, release, destruction\<close>

lemma fb_inv_facts:
  assumes "fb_inv m h exts free live"
  shows "8 \<le> blockSize m" "0 < blocksPerExtend m" "blocksRemaining m \<le> blocksPerExtend m"
    "extents_ok m (hbrk h) exts" "hchain (hword h) (allExtents m) exts"
    "hchain (hword h) (freeList m) free" "distinct free" "set free \<inter> live = {}"
    "set free \<union> live = carved m exts" "live \<subseteq> carved m exts" "set free \<subseteq> carved m exts"
    "cursor_ok m exts" "0 < hbrk h"
  using assms by (auto simp: fb_inv_def cursor_ok_def)

lemma carved_cong [simp]:
  "carved (m\<lparr>freeList := x\<rparr>) exts = carved m exts"
  "extents_ok (m\<lparr>freeList := x\<rparr>) = extents_ok m"
  "cursor_ok (m\<lparr>freeList := x\<rparr>) = cursor_ok m"
  by (cases exts; auto simp: blocks_in_def block_at_def)
     (auto simp: fun_eq_iff extents_ok_def extent_size_def cursor_ok_def block_at_def split: list.split)

text \<open>Taking the head of the free list.\<close>

lemma fb_inv_alloc_reuse:
  assumes inv: "fb_inv m h exts free live" and ne: "freeList m \<noteq> NULL"
  shows "\<exists>free'. free = freeList m # free' \<and>
           fb_inv (m\<lparr>freeList := hword h (freeList m)\<rparr>) h exts free' (insert (freeList m) live)"
proof -
  from hchain_cases [OF fb_inv_facts(6) [OF inv] ne] obtain free'
    where "free = freeList m # free'" "hchain (hword h) (hword h (freeList m)) free'" by blast
  with inv show ?thesis by (auto simp: fb_inv_def)
qed

text \<open>Carving the next block of the newest extent.\<close>

lemma carve_step:
  assumes "cursor_ok m (e # es)" "0 < blocksRemaining m"
  defines "m' \<equiv> m\<lparr>currentBlock := currentBlock m + blockSize m,
                   blocksRemaining := blocksRemaining m - 1\<rparr>"
  shows "cursor_ok m' (e # es)"
    and "carved m' (e # es) = insert (currentBlock m) (carved m (e # es))"
    and "extents_ok m' = extents_ok m"
    and "carved m (e # es) \<inter> {currentBlock m} = {} \<or> \<not> extents_ok m lim (e # es)"
proof -
  from assms(1) have "blocksRemaining m \<le> blocksPerExtend m"
    by (simp add: cursor_ok_def)
  with assms(2) have "blocksPerExtend m - (blocksRemaining m - 1)
      = Suc (blocksPerExtend m - blocksRemaining m)"
    by arith
  with assms show "cursor_ok m' (e # es)"
    and "carved m' (e # es) = insert (currentBlock m) (carved m (e # es))"
    by (auto simp: cursor_ok_def blocks_in_Suc block_at_def blocks_in_def)
  show "extents_ok m' = extents_ok m"
    by (simp add: m'_def fun_eq_iff extents_ok_def extent_size_def)
  show "carved m (e # es) \<inter> {currentBlock m} = {} \<or> \<not> extents_ok m lim (e # es)"
  proof (rule disjCI)
    let ?n = "blocksPerExtend m - blocksRemaining m"
    assume "\<not> \<not> extents_ok m lim (e # es)"
    then have ok: "extents_ok m e es" by (simp add: extents_ok_Cons)
    from assms(1) have cur: "currentBlock m = block_at m e ?n" and bs: "0 < blockSize m"
      by (auto simp: cursor_ok_def)
    have "block_at m e ?n \<notin> blocks_in m e ?n"
      using block_at_mono [of _ ?n m e] bs by (fastforce simp: blocks_in_def)
    moreover have "block_at m e ?n \<notin> blocks_in m x (blocksPerExtend m)" if "x \<in> set es" for x
    proof
      assume "block_at m e ?n \<in> blocks_in m x (blocksPerExtend m)"
      then obtain i where i: "i < blocksPerExtend m" and eq: "block_at m e ?n = block_at m x i"
        by (auto simp: blocks_in_def)
      from that ok have "x + extent_size m \<le> e" by (auto simp: extents_ok_def)
      with block_at_bounds(2) [OF i, of x] eq bs show False by (simp add: block_at_def)
    qed
    ultimately show "carved m (e # es) \<inter> {currentBlock m} = {}"
      by (auto simp: cur)
  qed
qed

text \<open>Getting a new extent when nothing is left to carve.\<close>

lemma fb_inv_extend:
  assumes inv: "fb_inv m h exts free live" and rem: "blocksRemaining m = 0"
    and ext: "fbMgrExtend m h = Some (m1, h1)"
  shows "fb_inv m1 h1 (allExtents m1 # exts) free live"
    and "0 < blocksRemaining m1" and "freeList m1 = freeList m" and "blockSize m1 = blockSize m"
proof -
  note f = fb_inv_facts [OF inv]
  let ?p = "hbrk h"
  from ext f(13) have m1: "m1 = m\<lparr>blocksRemaining := blocksPerExtend m, allExtents := ?p,
                          currentBlock := ?p + FB_HEADER_LENGTH\<rparr>"
    and h1: "h1 = store_word ?p (allExtents m) (snd (safeMalloc (extent_size m) h))"
    and room: "?p + extent_size m \<le> hlimit h"
    by (auto simp: fbMgrExtend_def safeMalloc_def extent_size_def split: if_splits)
  from m1 show "0 < blocksRemaining m1" "freeList m1 = freeList m" "blockSize m1 = blockSize m"
    using f(2) by auto
  have sz: "extent_size m1 = extent_size m" "blocksPerExtend m1 = blocksPerExtend m"
    "blockSize m1 = blockSize m"
    by (simp_all add: m1 extent_size_def)
  have brk: "hbrk h1 = ?p + extent_size m"
    using room by (simp add: h1 safeMalloc_def)
  have words: "hword h1 a = hword h a" if "a < ?p" for a
    using that room by (simp add: h1 safeMalloc_def)
  have pos: "0 < extent_size m" by (simp add: extent_size_def FB_HEADER_LENGTH_def)
  have below: "a < ?p" if "a \<in> set exts \<union> set free" for a
    using that f(4) pos carved_below(2) [OF _ f(4)] f(1,11)
    by (fastforce simp: extents_ok_def)
  have "hchain (hword h1) (allExtents m) exts \<and> hchain (hword h1) (freeList m) free"
    using f(5,6) hchain_cong [of exts "hword h1" "hword h"] hchain_cong [of free "hword h1" "hword h"]
      words below by auto
  moreover have "hword h1 ?p = allExtents m" by (simp add: h1)
  moreover have "extents_ok m1 (hbrk h1) (?p # exts)"
    using f(4) f(13) by (auto simp: extents_ok_def sz brk)
  moreover have "cursor_ok m1 (?p # exts)"
    using f(12) by (auto simp: cursor_ok_def m1 block_at_def)
  moreover have "carved m1 (?p # exts) = carved m exts"
    using rem f(3) by (cases exts) (auto simp: m1 blocks_in_def block_at_def)
  ultimately show "fb_inv m1 h1 (allExtents m1 # exts) free live"
    using f by (auto simp: fb_inv_def brk m1)
qed

lemma fb_inv_alloc:
  assumes inv: "fb_inv m h exts free live" and al: "fbMgrAlloc m h = Some (p, m', h')"
  shows "\<exists>exts' free'. fb_inv m' h' exts' free' (insert p live) \<and> p \<notin> live \<and> 8 < p \<and>
           p \<in> carved m' exts'"
proof (cases "freeList m = NULL")
  case False
  with al have eq: "p = freeList m" "m' = m\<lparr>freeList := hword h (freeList m)\<rparr>" "h' = h"
    by (auto simp: fbMgrAlloc_def)
  from fb_inv_alloc_reuse [OF inv False] obtain free'
    where free: "free = p # free'" and inv': "fb_inv m' h' exts free' (insert p live)"
    using eq by auto
  moreover have "p \<in> carved m exts" using fb_inv_facts(11) [OF inv] free by auto
  ultimately show ?thesis
    using carved_below(1) [OF _ fb_inv_facts(4) [OF inv]] fb_inv_facts(8) [OF inv] free eq
    by (auto simp: FB_HEADER_LENGTH_def)
next
  case True
  have "\<exists>m1 h1 exts1. (if blocksRemaining m = 0 then fbMgrExtend m h else Some (m, h)) = Some (m1, h1)
          \<and> fb_inv m1 h1 exts1 free live \<and> 0 < blocksRemaining m1"
  proof (cases "blocksRemaining m = 0")
    case rem: True
    with al True obtain m1 h1 where "fbMgrExtend m h = Some (m1, h1)"
      by (auto simp: fbMgrAlloc_def split: option.splits)
    with fb_inv_extend [OF inv rem] rem show ?thesis by auto
  qed (use inv in auto)
  then obtain m1 h1 exts1
    where step: "(if blocksRemaining m = 0 then fbMgrExtend m h else Some (m, h)) = Some (m1, h1)"
      and inv1: "fb_inv m1 h1 exts1 free live" and pos: "0 < blocksRemaining m1" by blast
  from al True step have p: "p = currentBlock m1" and h': "h' = h1"
    and m': "m' = m1\<lparr>currentBlock := currentBlock m1 + blockSize m1,
                     blocksRemaining := blocksRemaining m1 - 1\<rparr>"
    by (auto simp: fbMgrAlloc_def)
  note f = fb_inv_facts [OF inv1]
  from f(12) pos obtain e es where ex: "exts1 = e # es"
    by (cases exts1) (auto simp: cursor_ok_def)
  note c = carve_step [OF f(12) [unfolded ex] pos, folded m' p]
  from c(4) [of "hbrk h1"] f(4) ex have new: "p \<notin> carved m1 exts1" by auto
  have "fb_inv m' h' exts1 free (insert p live)"
    using inv1 new c(1-3) f(10,11) by (auto simp: fb_inv_def ex h' m')
  moreover have "p \<in> carved m' exts1" using c(2) ex by simp
  moreover from this have "8 < p"
    using carved_below(1) f(4) c(3) by (metis FB_HEADER_LENGTH_def)
  ultimately show ?thesis using new f(10) by blast
qed


lemma fb_inv_free:
  assumes inv: "fb_inv m h exts free live" and p: "p \<in> live"
  shows "fb_inv (fst (fbMgrFree m p h)) (snd (fbMgrFree m p h)) exts (p # free) (live - {p})"
proof -
  note f = fb_inv_facts [OF inv]
  from p f(10) have c: "p \<in> carved m exts" by blast
  from f(1) carved_not_extent [OF c f(4)] have "p \<notin> set exts" by simp
  moreover from carved_below(1) [OF c f(4)] have "p \<noteq> NULL" by simp
  moreover from p f(8) have "p \<notin> set free" by blast
  ultimately show ?thesis
    using inv p c f(8,9) by (auto simp: fb_inv_def fbMgrFree_def chain_simps)
qed

lemma fb_ok_free: "fb_ok m h live \<Longrightarrow> p \<in> live \<Longrightarrow>
  fb_ok (fst (fbMgrFree m p h)) (snd (fbMgrFree m p h)) (live - {p})"
  by (auto simp: fb_ok_def intro: fb_inv_free)

lemma fb_ok_alloc:
  assumes "fb_ok m h live" "fbMgrAlloc m h = Some (p, m', h')"
  shows "fb_ok m' h' (insert p live) \<and> p \<notin> live \<and> p \<noteq> NULL"
proof -
  from assms(1) obtain exts free where "fb_inv m h exts free live" by (rule fb_okE)
  from fb_inv_alloc [OF this assms(2)] show ?thesis by (auto intro: fb_okI)
qed

text \<open>The client may write anywhere inside a block it holds.\<close>

lemma fb_ok_write:
  assumes "fb_ok m h live" "b \<in> live" "b \<le> a" "a < b + blockSize m"
  shows "fb_ok m (store_word a v h) live"
proof -
  from assms(1) obtain exts free where inv: "fb_inv m h exts free live" by (rule fb_okE)
  note f = fb_inv_facts [OF inv]
  from assms(2) f(10) have c: "b \<in> carved m exts" by blast
  have "a \<notin> set exts"
  proof
    assume a: "a \<in> set exts"
    from carved_in_extent [OF c] obtain e i
      where e: "e \<in> set exts" and i: "i < blocksPerExtend m" and b: "b = block_at m e i" by blast
    from block_at_bounds [OF i, of e] b assms(3,4) have "e < a" "a < e + extent_size m"
      by (auto simp: FB_HEADER_LENGTH_def)
    with extents_apart [OF f(4) a e] show False by (auto simp: extent_size_def FB_HEADER_LENGTH_def)
  qed
  moreover have "a \<notin> set free"
  proof
    assume a: "a \<in> set free"
    with f(11) have ca: "a \<in> carved m exts" by blast
    from a assms(2) f(8) have "a \<noteq> b" by blast
    from carved_disjoint [OF ca c this f(4)] assms(3,4) f(1) show False by auto
  qed
  ultimately have "fb_inv m (store_word a v h) exts free live"
    using inv by (auto simp: fb_inv_def chain_simps)
  then show ?thesis by (rule fb_okI)
qed

text \<open>Storage obtained by anybody else does not disturb the manager.\<close>

lemma fb_ok_other_malloc:
  assumes "fb_ok m h live" "safeMalloc n h = (p, h')"
  shows "fb_ok m h' live"
proof -
  from assms(1) obtain exts free where inv: "fb_inv m h exts free live" by (rule fb_okE)
  note f = fb_inv_facts [OF inv]
  have below: "a < hbrk h" if "a \<in> set exts \<union> set free" for a
    using that f(4) carved_below(2) [OF _ f(4)] f(1,11)
    by (fastforce simp: extents_ok_def extent_size_def FB_HEADER_LENGTH_def)
  have "hchain (hword h') (allExtents m) exts \<and> hchain (hword h') (freeList m) free"
    using f(5,6) hchain_cong [of exts "hword h'" "hword h"] hchain_cong [of free "hword h'" "hword h"]
      safeMalloc_below [OF assms(2)] below by auto
  with inv extents_ok_mono [OF f(4) safeMalloc_brk_mono [OF assms(2)]]
    safeMalloc_brk_mono [OF assms(2)]
  have "fb_inv m h' exts free live" by (auto simp: fb_inv_def)
  then show ?thesis by (rule fb_okI)
qed

lemma fb_ok_safeFree: "fb_ok m h live \<Longrightarrow> fb_ok m (safeFree p n h) live"
  by (auto simp: fb_ok_def fb_inv_def)

lemma fbMgrFreeExtents_chain:
  "hchain (hword h) p exts \<Longrightarrow>
     fbMgrFreeExtents n p h = Some (h\<lparr>hfreed := hfreed h @ map (\<lambda>e. (e, n)) exts\<rparr>)"
proof (induction exts arbitrary: p h)
  case Nil
  then show ?case by (simp add: fbMgrFreeExtents.simps)
next
  case (Cons e exts)
  then have p: "p = e" "e \<noteq> NULL" and ch: "hchain (hword (safeFree e n h)) (hword h e) exts"
    by auto
  from Cons.IH [OF ch] p show ?case
    by (subst fbMgrFreeExtents.simps) (simp add: safeFree_def)
qed

lemma extents_ok_distinct: "extents_ok m lim exts \<Longrightarrow> distinct exts"
  by (induction exts) (auto simp: extents_ok_def extent_size_def FB_HEADER_LENGTH_def)

lemma fb_ok_live_pos:
  assumes "fb_ok m h live" "p \<in> live"
  shows "8 < p"
proof -
  from assms obtain exts free where inv: "fb_inv m h exts free live" by (auto simp: fb_ok_def)
  from fb_inv_facts(10) [OF inv] assms(2) carved_below(1) [OF _ fb_inv_facts(4) [OF inv]]
  show ?thesis by (auto simp: FB_HEADER_LENGTH_def)
qed

lemma fbMgrAlloc_room:
  assumes "fb_ok m h live" "hbrk h + extent_size m \<le> hlimit h"
  shows "\<exists>p m' h'. fbMgrAlloc m h = Some (p, m', h')"
proof -
  from assms(1) have "0 < hbrk h" by (auto simp: fb_ok_def fb_inv_def)
  with assms(2) show ?thesis
    by (auto simp: fbMgrAlloc_def fbMgrExtend_def safeMalloc_def extent_size_def split: option.splits)
qed

subsection \<open>The manager as a block allocator\<close>

definition fb_alloc :: "fixedBlockMgr \<times> heap \<Rightarrow> (ptr \<times> fixedBlockMgr \<times> heap) option" where
  "fb_alloc s = fbMgrAlloc (fst s) (snd s)"

definition fb_release :: "fixedBlockMgr \<times> heap \<Rightarrow> ptr \<Rightarrow> fixedBlockMgr \<times> heap" where
  "fb_release s p = fbMgrFree (fst s) p (snd s)"

definition fb_sound :: "fixedBlockMgr \<times> heap \<Rightarrow> ptr set \<Rightarrow> bool" where
  "fb_sound s live \<longleftrightarrow> fb_ok (fst s) (snd s) live"

interpretation fb: block_allocator fb_alloc fb_release fb_sound
proof unfold_locales
  fix s live p and s' :: "fixedBlockMgr \<times> heap"
  assume "fb_sound s live" "fb_alloc s = Some (p, s')"
  then show "fb_sound s' (insert p live) \<and> p \<notin> live \<and> p \<noteq> NULL"
    using fb_ok_alloc [of "fst s" "snd s" live p "fst s'" "snd s'"]
    by (auto simp: fb_sound_def fb_alloc_def)
next
  fix s live p
  assume "fb_sound s live" "p \<in> live"
  then show "fb_sound (fb_release s p) (live - {p})"
    using fb_ok_free by (auto simp: fb_sound_def fb_release_def)
qed

subsection \<open>A small manager for the examples\<close>

definition demo_heap :: heap where
  "demo_heap = \<lparr>hword = (\<lambda>_. 0), hbrk = 64, hlimit = 100000, hfreed = []\<rparr>"

definition demo_mgr :: fixedBlockMgr where
  "demo_mgr = \<lparr>owner = 0, allExtents = 64, freeList = NULL, currentBlock = 96,
     blockSize = 24, blocksPerExtend = 4, blocksRemaining = 3\<rparr>"

definition demo_heap1 :: heap where
  "demo_heap1 = store_word 64 0 (snd (safeMalloc 104 demo_heap))"

lemma demo_heap_brk [simp]: "hbrk demo_heap = 64"
  by (simp add: demo_heap_def)

lemma demo_alloc: "fbMgrAlloc (fbMgrCreate 24 4 0) demo_heap = Some (72, demo_mgr, demo_heap1)"
  by (simp add: fbMgrAlloc_def fbMgrExtend_def fbMgrCreate_def demo_heap_def demo_heap1_def
      demo_mgr_def safeMalloc_def FB_HEADER_LENGTH_def)

lemma demo_ok: "fb_ok demo_mgr demo_heap1 {72}"
  using fb_ok_alloc [OF fb_ok_create demo_alloc] by simp

lemma demo_inv: "fb_inv demo_mgr demo_heap1 [64] [] {72}"
  by (simp add: fb_inv_def cursor_ok_def extents_ok_def demo_mgr_def demo_heap1_def
      demo_heap_def safeMalloc_def block_at_def blocks_in_def FB_HEADER_LENGTH_def extent_size_def
      lessThan_Suc)

subsection \<open>Properties\<close>



text \<open>
  C2. A released block is reused first: the next allocation returns exactly that block and
  the manager is as it was before the release.
\<close>

theorem fbMgrFree_then_alloc:
  assumes "fb_ok m h live" "p \<in> live" "fbMgrFree m p h = (m1, h1)"
  shows "fb_ok m1 h1 (live - {p}) \<and> fbMgrAlloc m1 h1 = Some (p, m, h1)"
proof -
  from fb_ok_live_pos [OF assms(1,2)] have "p \<noteq> NULL" by simp
  with assms(3) have "fbMgrAlloc m1 h1 = Some (p, m, h1)"
    by (auto simp: fbMgrFree_def fbMgrAlloc_def)
  with fb_ok_free [OF assms(1,2)] assms(3) show ?thesis by simp
qed

theorem fbMgrFree_then_alloc_witness:
  "fbMgrAlloc (fst (fbMgrFree demo_mgr 72 demo_heap1)) (snd (fbMgrFree demo_mgr 72 demo_heap1)) =
     Some (72, demo_mgr, snd (fbMgrFree demo_mgr 72 demo_heap1))"
  using fbMgrFree_then_alloc [OF demo_ok, of 72] by simp

text \<open>
  C3. Destroying a sound manager ends, and gives back every extent it ever obtained exactly
  once, with the size it was obtained with, and then the manager itself.
\<close>

theorem fbMgrDestroy_frees_all:
  assumes "fb_inv m h exts free live"
  shows "\<exists>h'. fbMgrDestroy self selfSize m h = Some h' \<and> distinct exts \<and>
     hfreed h' = hfreed h @ map (\<lambda>e. (e, extent_size m)) exts @ [(self, selfSize)]"
proof -
  note f = fb_inv_facts [OF assms]
  from extents_ok_distinct [OF f(4)] show ?thesis
    using fbMgrFreeExtents_chain [OF f(5)] by (simp add: fbMgrDestroy_def extent_size_def)
qed

theorem fbMgrDestroy_frees_all_witness:
  "\<exists>h'. fbMgrDestroy 32 48 demo_mgr demo_heap1 = Some h' \<and>
     hfreed h' = hfreed demo_heap1 @ [(64, 104), (32, 48)]"
  using fbMgrDestroy_frees_all [OF demo_inv, of 32 48]
  by (simp add: extent_size_def demo_mgr_def FB_HEADER_LENGTH_def)

end
