(* ===== verification/HashTable.thy ===== *)
theory HashTable
  imports FixedBlock
begin

section \<open>The general hash table\<close>

text \<open>
  \<open>hashtable\<close> of \<open>c/collections.c\<close>: a vector of chains that is never resized. A chain is the
  list of its entries in order; every entry carries the address of the block it lives in, so
  that what is on a chain and what is on the block manager's free list can be compared. Keys
  and values are \<open>void*\<close>; hash and comparison functions read the bytes behind a key pointer
  (\<open>wbytes\<close>). Function pointers that may be null are \<open>option\<close>s; the reclaimers and the
  destroyer of \<open>htPrune\<close> are observed by the calls made to them, in order (\<open>wlog\<close>).
\<close>

datatype callback = ReclaimKey ptr | ReclaimValue ptr | DestroyValue ptr

record world =
  wheap :: heap
  wbytes :: "ptr \<Rightarrow> byte list"
  wlog :: "callback list"

record hashentry =
  eaddr :: ptr
  ekey :: ptr
  evalue :: ptr

record hashtable =
  backboneSize :: nat
  backbone :: "hashentry list list"
  mgr :: fixedBlockMgr
  hashFunction :: "((ptr \<Rightarrow> byte list) \<Rightarrow> ptr \<Rightarrow> cint) option"
  comparator :: "((ptr \<Rightarrow> byte list) \<Rightarrow> ptr \<Rightarrow> ptr \<Rightarrow> bool) option"
  keyReclaimer :: bool
  valueReclaimer :: bool
  keepEntry :: "(ptr \<Rightarrow> bool) option"
  entryExpired :: "(ptr \<Rightarrow> bool) option"
  removeEntry :: "(ptr \<Rightarrow> bool) option"

subsection \<open>Hash and comparison functions\<close>

text \<open>Pointers carry integers by sign extension and truncation (\<open>h/zowetypes.h\<close>).\<close>

definition INT_FROM_POINTER :: "ptr \<Rightarrow> cint" where
  "INT_FROM_POINTER p = word_of_nat p"

definition POINTER_FROM_INT :: "cint \<Rightarrow> ptr" where
  "POINTER_FROM_INT i = unat (scast i :: 64 word)"

definition POINTER_FROM_UINT :: "cint \<Rightarrow> ptr" where
  "POINTER_FROM_UINT i = unat (ucast i :: 64 word)"

text \<open>\<open>stringHash\<close> (djb2 on a signed \<open>char\<close>) and \<open>stringCompare\<close>; \<open>wbytes\<close> of a string
  pointer is the string without its terminating zero.\<close>

fun stringHashLoop :: "cint \<Rightarrow> byte list \<Rightarrow> cint" where
  "stringHashLoop hash [] = hash"
| "stringHashLoop hash (c # cs) = stringHashLoop ((push_bit 5 hash + hash) + scast c) cs"

definition stringHash :: "(ptr \<Rightarrow> byte list) \<Rightarrow> ptr \<Rightarrow> cint" where
  "stringHash mem key = stringHashLoop 5381 (mem key) AND 0x7FFFFFFF"

definition stringCompare :: "(ptr \<Rightarrow> byte list) \<Rightarrow> ptr \<Rightarrow> ptr \<Rightarrow> bool" where
  "stringCompare mem key1 key2 = (mem key1 = mem key2)"

definition LRU_DIGEST_LENGTH :: nat where
  "LRU_DIGEST_LENGTH = 16"

text \<open>The \<open>i\<close>-th \<open>int\<close> of a digest, little-endian.\<close>

definition int_at :: "byte list \<Rightarrow> nat \<Rightarrow> cint" where
  "int_at bs i = word_rcat (rev (take 4 (drop i bs)))"

definition digestHash :: "(ptr \<Rightarrow> byte list) \<Rightarrow> ptr \<Rightarrow> cint" where
  "digestHash mem key =
     foldl (\<lambda>hash i. hash XOR int_at (mem key) i) 0 [0, 4, 8, 12] AND 0x7FFFFFFF"

definition digestCompare :: "(ptr \<Rightarrow> byte list) \<Rightarrow> ptr \<Rightarrow> ptr \<Rightarrow> bool" where
  "digestCompare mem k1 k2 =
     (take LRU_DIGEST_LENGTH (mem k1) = take LRU_DIGEST_LENGTH (mem k2))"

subsection \<open>Construction and the walk along a chain\<close>

definition HASHENTRY_SIZE :: nat where
  "HASHENTRY_SIZE = 24"

definition htCreate :: "nat \<Rightarrow> ((ptr \<Rightarrow> byte list) \<Rightarrow> ptr \<Rightarrow> cint) option \<Rightarrow>
    ((ptr \<Rightarrow> byte list) \<Rightarrow> ptr \<Rightarrow> ptr \<Rightarrow> bool) option \<Rightarrow> bool \<Rightarrow> bool \<Rightarrow> ptr \<Rightarrow> hashtable" where
  "htCreate bbSize hash compare keyRec valueRec self =
     \<lparr>backboneSize = bbSize, backbone = replicate bbSize [],
      mgr = fbMgrCreate HASHENTRY_SIZE 256 self,
      hashFunction = hash, comparator = compare,
      keyReclaimer = keyRec, valueReclaimer = valueRec,
      keepEntry = None, entryExpired = None, removeEntry = None\<rparr>"

definition htAlter :: "hashtable \<Rightarrow> (ptr \<Rightarrow> bool) option \<Rightarrow> (ptr \<Rightarrow> bool) option \<Rightarrow>
    (ptr \<Rightarrow> bool) option \<Rightarrow> hashtable" where
  "htAlter ht keep expired rem =
     ht\<lparr>keepEntry := keep, entryExpired := expired, removeEntry := rem\<rparr>"

text \<open>The first entry of a chain that satisfies the test, with what precedes and follows it.\<close>

fun chain_find :: "('e \<Rightarrow> bool) \<Rightarrow> 'e list \<Rightarrow> ('e list \<times> 'e \<times> 'e list) option" where
  "chain_find P [] = None"
| "chain_find P (e # es) =
     (if P e then Some ([], e, es)
      else map_option (\<lambda>(pre, x, post). (e # pre, x, post)) (chain_find P es))"

definition hook :: "(ptr \<Rightarrow> bool) option \<Rightarrow> ptr \<Rightarrow> bool" where
  "hook f v = (case f of None \<Rightarrow> False | Some g \<Rightarrow> g v)"

definition log_if :: "bool \<Rightarrow> callback \<Rightarrow> world \<Rightarrow> world" where
  "log_if b c w = (if b then w\<lparr>wlog := wlog w @ [c]\<rparr> else w)"

definition hash_of :: "hashtable \<Rightarrow> world \<Rightarrow> ptr \<Rightarrow> cint" where
  "hash_of ht w key =
     (case hashFunction ht of Some f \<Rightarrow> f (wbytes w) key | None \<Rightarrow> INT_FROM_POINTER key)"

definition place_of :: "hashtable \<Rightarrow> world \<Rightarrow> ptr \<Rightarrow> nat" where
  "place_of ht w key = unat (hash_of ht w key AND 0x7FFFFFFF) mod backboneSize ht"

definition key_same :: "hashtable \<Rightarrow> world \<Rightarrow> ptr \<Rightarrow> ptr \<Rightarrow> bool" where
  "key_same ht w k1 k2 =
     (case comparator ht of Some c \<Rightarrow> c (wbytes w) k1 k2 | None \<Rightarrow> k1 = k2)"

definition htDequeue :: "hashtable \<Rightarrow> world \<Rightarrow> nat \<Rightarrow> hashentry list \<Rightarrow> hashentry \<Rightarrow>
    hashentry list \<Rightarrow> bool \<Rightarrow> hashtable \<times> world" where
  "htDequeue ht w place pre entry post valueReclaim =
     (let ht1 = ht\<lparr>backbone := (backbone ht)[place := pre @ post]\<rparr>;
          w1 = log_if (keyReclaimer ht) (ReclaimKey (ekey entry)) w;
          w2 = log_if (valueReclaim \<and> valueReclaimer ht) (ReclaimValue (evalue entry)) w1;
          (m, h) = fbMgrFree (mgr ht) (eaddr entry) (wheap w2)
      in (ht1\<lparr>mgr := m\<rparr>, w2\<lparr>wheap := h\<rparr>))"

subsection \<open>Lookup\<close>

text \<open>
  The three getters differ in the slot they search, in how they compare keys and in how they
  read the answer of \<open>entryExpired\<close>. \<open>htGetAt\<close> is the loop they share.
\<close>

definition htGetAt :: "hashtable \<Rightarrow> world \<Rightarrow> nat \<Rightarrow> (hashentry \<Rightarrow> bool) \<Rightarrow> (ptr \<Rightarrow> bool) \<Rightarrow>
    ptr \<times> hashtable \<times> world" where
  "htGetAt ht w place matches expired =
     (case chain_find matches (backbone ht ! place) of
        None \<Rightarrow> (NULL, ht, w)
      | Some (pre, entry, post) \<Rightarrow>
          let value = evalue entry in
          if expired value then (NULL, htDequeue ht w place pre entry post True)
          else if hook (removeEntry ht) value
          then (value, htDequeue ht w place pre entry post False)
          else (value, ht, w))"

definition htGet :: "hashtable \<Rightarrow> world \<Rightarrow> ptr \<Rightarrow> ptr \<times> hashtable \<times> world" where
  "htGet ht w key =
     htGetAt ht w (place_of ht w key) (\<lambda>e. key_same ht w (ekey e) key) (hook (entryExpired ht))"

definition int_place :: "hashtable \<Rightarrow> cint \<Rightarrow> nat" where
  "int_place ht key = unat (key AND 0x7FFFFFFF) mod backboneSize ht"

definition uint_place :: "hashtable \<Rightarrow> cint \<Rightarrow> nat" where
  "uint_place ht key = unat key mod backboneSize ht"

text \<open>\<open>htIntGet\<close> negates the answer of \<open>entryExpired\<close>, unlike the other getters.\<close>

definition htIntGet :: "hashtable \<Rightarrow> world \<Rightarrow> cint \<Rightarrow> ptr \<times> hashtable \<times> world" where
  "htIntGet ht w key =
     htGetAt ht w (int_place ht key) (\<lambda>e. INT_FROM_POINTER (ekey e) = key)
       (\<lambda>v. case entryExpired ht of None \<Rightarrow> False | Some f \<Rightarrow> \<not> f v)"

definition htUIntGet :: "hashtable \<Rightarrow> world \<Rightarrow> cint \<Rightarrow> ptr \<times> hashtable \<times> world" where
  "htUIntGet ht w key =
     htGetAt ht w (uint_place ht key) (\<lambda>e. INT_FROM_POINTER (ekey e) = key)
       (hook (entryExpired ht))"

subsection \<open>Insertion\<close>

text \<open>
  Result code 0: a new entry at the front of the chain; 1: an existing entry was replaced;
  2: \<open>keepEntry\<close> refused. \<open>None\<close>: the block manager got no storage.
\<close>

definition htPutAt :: "hashtable \<Rightarrow> world \<Rightarrow> nat \<Rightarrow> (hashentry \<Rightarrow> bool) \<Rightarrow> ptr \<Rightarrow> ptr \<Rightarrow>
    (nat \<times> hashtable \<times> world) option" where
  "htPutAt ht w place matches key value =
     (case chain_find matches (backbone ht ! place) of
        Some (pre, entry, post) \<Rightarrow>
          if hook (keepEntry ht) (evalue entry) then Some (2, ht, w)
          else
            let w1 = log_if (keyReclaimer ht) (ReclaimKey (ekey entry)) w;
                w2 = log_if (valueReclaimer ht) (ReclaimValue (evalue entry)) w1
            in Some (1, ht\<lparr>backbone :=
                         (backbone ht)[place := pre @ entry\<lparr>ekey := key, evalue := value\<rparr> # post]\<rparr>, w2)
      | None \<Rightarrow>
          (case fbMgrAlloc (mgr ht) (wheap w) of
             None \<Rightarrow> None
           | Some (p, m, h) \<Rightarrow>
               Some (0, ht\<lparr>mgr := m, backbone :=
                        (backbone ht)[place := \<lparr>eaddr = p, ekey = key, evalue = value\<rparr>
                                               # backbone ht ! place]\<rparr>,
                     w\<lparr>wheap := h\<rparr>)))"

definition htPut2 :: "hashtable \<Rightarrow> world \<Rightarrow> ptr \<Rightarrow> ptr \<Rightarrow> (nat \<times> hashtable \<times> world) option" where
  "htPut2 ht w key value =
     htPutAt ht w (place_of ht w key) (\<lambda>e. key_same ht w (ekey e) key) key value"

definition htPut :: "hashtable \<Rightarrow> world \<Rightarrow> ptr \<Rightarrow> ptr \<Rightarrow> (nat \<times> hashtable \<times> world) option" where
  "htPut ht w key value = htPut2 ht w key value"

definition htIntPut2 :: "hashtable \<Rightarrow> world \<Rightarrow> cint \<Rightarrow> ptr \<Rightarrow> (nat \<times> hashtable \<times> world) option" where
  "htIntPut2 ht w key value =
     htPutAt ht w (int_place ht key) (\<lambda>e. INT_FROM_POINTER (ekey e) = key)
       (POINTER_FROM_INT key) value"

definition htIntPut :: "hashtable \<Rightarrow> world \<Rightarrow> cint \<Rightarrow> ptr \<Rightarrow> (nat \<times> hashtable \<times> world) option" where
  "htIntPut ht w key value = htIntPut2 ht w key value"

definition htUIntPut :: "hashtable \<Rightarrow> world \<Rightarrow> cint \<Rightarrow> ptr \<Rightarrow> (nat \<times> hashtable \<times> world) option" where
  "htUIntPut ht w key value =
     htPutAt ht w (uint_place ht key) (\<lambda>e. INT_FROM_POINTER (ekey e) = key)
       (POINTER_FROM_UINT key) value"

subsection \<open>Removal, pruning, traversal, destruction\<close>

definition htRemove :: "hashtable \<Rightarrow> world \<Rightarrow> ptr \<Rightarrow> nat \<times> hashtable \<times> world" where
  "htRemove ht w key =
     (let place = place_of ht w key in
      case chain_find (\<lambda>e. key_same ht w (ekey e) key) (backbone ht ! place) of
        None \<Rightarrow> (0, ht, w)
      | Some (pre, entry, post) \<Rightarrow> (1, htDequeue ht w place pre entry post True))"

text \<open>One slot of \<open>htPrune\<close>: matching entries are unlinked, reclaimed and released in turn.\<close>

fun prune_chain :: "(ptr \<Rightarrow> ptr \<Rightarrow> bool) \<Rightarrow> bool \<Rightarrow> bool \<Rightarrow> hashentry list \<Rightarrow>
    fixedBlockMgr \<Rightarrow> world \<Rightarrow> nat \<times> hashentry list \<times> fixedBlockMgr \<times> world" where
  "prune_chain matcher keyRec destroyer [] m w = (0, [], m, w)"
| "prune_chain matcher keyRec destroyer (e # es) m w =
     (if matcher (ekey e) (evalue e)
      then let w1 = log_if keyRec (ReclaimKey (ekey e)) w;
               w2 = log_if destroyer (DestroyValue (evalue e)) w1;
               (m1, h1) = fbMgrFree m (eaddr e) (wheap w2);
               (n, es', m2, w3) = prune_chain matcher keyRec destroyer es m1 (w2\<lparr>wheap := h1\<rparr>)
           in (Suc n, es', m2, w3)
      else let (n, es', m2, w3) = prune_chain matcher keyRec destroyer es m w
           in (n, e # es', m2, w3))"

fun prune_chains :: "(ptr \<Rightarrow> ptr \<Rightarrow> bool) \<Rightarrow> bool \<Rightarrow> bool \<Rightarrow> hashentry list list \<Rightarrow>
    fixedBlockMgr \<Rightarrow> world \<Rightarrow> nat \<times> hashentry list list \<times> fixedBlockMgr \<times> world" where
  "prune_chains matcher keyRec destroyer [] m w = (0, [], m, w)"
| "prune_chains matcher keyRec destroyer (c # cs) m w =
     (let (n1, c', m1, w1) = prune_chain matcher keyRec destroyer c m w;
          (n2, cs', m2, w2) = prune_chains matcher keyRec destroyer cs m1 w1
      in (n1 + n2, c' # cs', m2, w2))"

definition htPrune :: "hashtable \<Rightarrow> world \<Rightarrow> (ptr \<Rightarrow> ptr \<Rightarrow> bool) \<Rightarrow> bool \<Rightarrow>
    nat \<times> hashtable \<times> world" where
  "htPrune ht w matcher destroyer =
     (let (n, bb, m, w1) = prune_chains matcher (keyReclaimer ht) destroyer (backbone ht) (mgr ht) w
      in (n, ht\<lparr>backbone := bb, mgr := m\<rparr>, w1))"

definition htCount :: "hashtable \<Rightarrow> nat" where
  "htCount ht = foldl (\<lambda>count chain. count + length chain) 0 (backbone ht)"

text \<open>The calls \<open>htMap\<close> and \<open>htMap2\<close> make to their visitor, in order.\<close>

definition htMap :: "hashtable \<Rightarrow> (ptr \<times> ptr) list" where
  "htMap ht = concat (map (map (\<lambda>e. (ekey e, evalue e))) (backbone ht))"

definition htMap2 :: "hashtable \<Rightarrow> 'u \<Rightarrow> ('u \<times> ptr \<times> ptr) list" where
  "htMap2 ht userData = map (\<lambda>(k, v). (userData, k, v)) (htMap ht)"

definition destroy_entry :: "hashtable \<Rightarrow> world \<Rightarrow> hashentry \<Rightarrow> world" where
  "destroy_entry ht w e =
     log_if (valueReclaimer ht) (ReclaimValue (evalue e))
       (log_if (keyReclaimer ht) (ReclaimKey (ekey e)) w)"

definition HASHTABLE_SIZE :: nat where
  "HASHTABLE_SIZE = 80"

definition FBMGR_SIZE :: nat where
  "FBMGR_SIZE = 48"

definition htDestroy :: "ptr \<Rightarrow> ptr \<Rightarrow> ptr \<Rightarrow> hashtable \<Rightarrow> world \<Rightarrow> world option" where
  "htDestroy self mgrAddr backboneAddr ht w =
     (let w1 = (if keyReclaimer ht \<or> valueReclaimer ht
                then foldl (destroy_entry ht) w (concat (backbone ht)) else w)
      in case fbMgrDestroy mgrAddr FBMGR_SIZE (mgr ht) (wheap w1) of
           None \<Rightarrow> None
         | Some h \<Rightarrow> Some (w1\<lparr>wheap := safeFree self HASHTABLE_SIZE
                                      (safeFree backboneAddr (8 * backboneSize ht) h)\<rparr>))"

subsection \<open>Chains\<close>

lemma chain_find_Some_iff:
  "chain_find P es = Some (pre, x, post) \<longleftrightarrow>
     es = pre @ x # post \<and> P x \<and> (\<forall>y \<in> set pre. \<not> P y)"
proof (induction es arbitrary: pre)
  case Nil
  then show ?case by simp
next
  case (Cons e es)
  then show ?case by (cases pre) (auto split: if_splits)
qed

lemma chain_find_map:
  "chain_find P (map f es) =
     map_option (\<lambda>(pre, x, post). (map f pre, f x, map f post)) (chain_find (\<lambda>e. P (f e)) es)"
  by (induction es) (auto simp: option.map_comp comp_def case_prod_unfold)

lemma chain_find_None_iff: "chain_find P es = None \<longleftrightarrow> (\<forall>y \<in> set es. \<not> P y)"
  by (induction es) auto

fun first_value :: "(hashentry \<Rightarrow> bool) \<Rightarrow> hashentry list \<Rightarrow> ptr option" where
  "first_value P [] = None"
| "first_value P (e # es) = (if P e then Some (evalue e) else first_value P es)"

lemma first_value_find:
  "first_value P es = map_option (\<lambda>(pre, x, post). evalue x) (chain_find P es)"
  by (induction es) (auto simp: option.map_comp comp_def case_prod_unfold)

lemma first_value_append:
  "first_value P (xs @ ys) =
     (case first_value P xs of None \<Rightarrow> first_value P ys | Some v \<Rightarrow> Some v)"
  by (induction xs) auto

lemma first_value_None_iff: "first_value P es = None \<longleftrightarrow> (\<forall>y \<in> set es. \<not> P y)"
  by (induction es) auto

lemma first_value_cong:
  "(\<And>e. e \<in> set es \<Longrightarrow> P e = Q e) \<Longrightarrow> first_value P es = first_value Q es"
  by (induction es) auto

subsection \<open>The storage invariant\<close>

text \<open>
  \<open>ht_mem\<close>: the blocks on the chains are all different, and they are exactly the blocks the
  table holds of its block manager; so nothing on a chain is on the free list.
\<close>

definition entry_addrs :: "hashtable \<Rightarrow> ptr list" where
  "entry_addrs ht = map eaddr (concat (backbone ht))"

definition ht_mem :: "hashtable \<Rightarrow> world \<Rightarrow> bool" where
  "ht_mem ht w \<longleftrightarrow>
     0 < backboneSize ht \<and> length (backbone ht) = backboneSize ht \<and>
     distinct (entry_addrs ht) \<and> fb_ok (mgr ht) (wheap w) (set (entry_addrs ht))"

lemma log_if_simps [simp]:
  "wheap (log_if b c w) = wheap w" "wbytes (log_if b c w) = wbytes w"
  by (simp_all add: log_if_def)

lemma ht_mem_create: "0 < hbrk (wheap w) \<Longrightarrow> 0 < n \<Longrightarrow> ht_mem (htCreate n f c kr vr self) w"
  by (simp add: ht_mem_def htCreate_def entry_addrs_def fb_ok_create HASHENTRY_SIZE_def)

lemma ht_mem_dequeue:
  assumes mem: "ht_mem ht w" and p: "place < backboneSize ht"
    and bb: "backbone ht ! place = pre @ entry # post"
    and dq: "htDequeue ht w place pre entry post vr = (ht', w')"
  shows "ht_mem ht' w'"
proof -
  from p mem have len: "place < length (backbone ht)" by (simp add: ht_mem_def)
  from concat_update_split [OF len] obtain A B
    where c: "concat (backbone ht) = A @ backbone ht ! place @ B"
      and u: "concat ((backbone ht)[place := pre @ post]) = A @ (pre @ post) @ B" by blast
  define live where "live = set (entry_addrs ht)"
  have in_live: "eaddr entry \<in> live" by (simp add: live_def entry_addrs_def c bb)
  have d: "distinct (entry_addrs ht)" and ok: "fb_ok (mgr ht) (wheap w) live"
    using mem by (auto simp: ht_mem_def live_def)
  from dq have ht': "backbone ht' = (backbone ht)[place := pre @ post]"
      "backboneSize ht' = backboneSize ht"
      "mgr ht' = fst (fbMgrFree (mgr ht) (eaddr entry) (wheap w))"
      "wheap w' = snd (fbMgrFree (mgr ht) (eaddr entry) (wheap w))"
    by (auto simp: htDequeue_def Let_def split: prod.splits)
  have "distinct (entry_addrs ht')" and "set (entry_addrs ht') = live - {eaddr entry}"
    using d by (auto simp: entry_addrs_def ht' u c bb live_def)
  with fb_ok_free [OF ok in_live] mem show ?thesis
    by (simp add: ht_mem_def ht')
qed

lemma chain_find_at:
  "chain_find P (backbone ht ! place) = Some (pre, entry, post) \<Longrightarrow>
     backbone ht ! place = pre @ entry # post"
  by (simp add: chain_find_Some_iff)

lemma ht_mem_getAt:
  assumes mem: "ht_mem ht w" and p: "place < backboneSize ht"
    and g: "htGetAt ht w place P X = (v, ht', w')"
  shows "ht_mem ht' w'"
  using g mem ht_mem_dequeue [OF mem p]
  by (auto simp: htGetAt_def Let_def chain_find_Some_iff split: option.splits if_splits prod.splits)

lemma ht_mem_putAt:
  assumes mem: "ht_mem ht w" and p: "place < backboneSize ht"
    and pt: "htPutAt ht w place P key value = Some (rc, ht', w')"
  shows "ht_mem ht' w'"
proof -
  from p mem have len: "place < length (backbone ht)" by (simp add: ht_mem_def)
  from concat_update_split [OF len] obtain A B
    where c: "concat (backbone ht) = A @ backbone ht ! place @ B"
      and u: "\<And>x. concat ((backbone ht)[place := x]) = A @ x @ B" by blast
  show ?thesis
  proof (cases "chain_find P (backbone ht ! place)")
    case None
    with pt obtain q m h where al: "fbMgrAlloc (mgr ht) (wheap w) = Some (q, m, h)"
      and eq: "ht' = ht\<lparr>mgr := m, backbone := (backbone ht)[place :=
                 \<lparr>eaddr = q, ekey = key, evalue = value\<rparr> # backbone ht ! place]\<rparr>"
        "w' = w\<lparr>wheap := h\<rparr>"
      by (auto simp: htPutAt_def split: option.splits)
    from fb_ok_alloc [OF _ al] mem have
      "fb_ok m h (insert q (set (entry_addrs ht))) \<and> q \<notin> set (entry_addrs ht)"
      by (auto simp: ht_mem_def)
    moreover have "set (entry_addrs ht') = insert q (set (entry_addrs ht))"
      and "distinct (entry_addrs ht') \<longleftrightarrow> q \<notin> set (entry_addrs ht) \<and> distinct (entry_addrs ht)"
      by (auto simp: entry_addrs_def eq u c)
    ultimately show ?thesis using mem by (simp add: ht_mem_def eq)
  next
    case (Some r)
    then obtain pre x post where r: "chain_find P (backbone ht ! place) = Some (pre, x, post)"
      by (cases r) auto
    note b = chain_find_at [OF r]
    from pt r have "ht' = ht \<and> w' = w \<or>
        ht' = ht\<lparr>backbone := (backbone ht)[place := pre @ x\<lparr>ekey := key, evalue := value\<rparr> # post]\<rparr>
        \<and> wheap w' = wheap w"
      by (auto simp: htPutAt_def Let_def split: if_splits)
    moreover have "entry_addrs (ht\<lparr>backbone :=
        (backbone ht)[place := pre @ x\<lparr>ekey := key, evalue := value\<rparr> # post]\<rparr>) = entry_addrs ht"
      by (simp add: entry_addrs_def u c b)
    ultimately show ?thesis using mem by (auto simp: ht_mem_def)
  qed
qed

lemma place_of_less: "0 < backboneSize ht \<Longrightarrow> place_of ht w k < backboneSize ht"
  by (simp add: place_of_def)

lemma ht_mem_pos: "ht_mem ht w \<Longrightarrow> 0 < backboneSize ht"
  by (simp add: ht_mem_def)

lemma ht_mem_get: "ht_mem ht w \<Longrightarrow> htGet ht w k = (v, ht', w') \<Longrightarrow> ht_mem ht' w'"
  unfolding htGet_def by (rule ht_mem_getAt) (auto intro: place_of_less ht_mem_pos)

lemma ht_mem_put: "ht_mem ht w \<Longrightarrow> htPut ht w k v = Some (rc, ht', w') \<Longrightarrow> ht_mem ht' w'"
  unfolding htPut_def htPut2_def by (rule ht_mem_putAt) (auto intro: place_of_less ht_mem_pos)

lemma ht_mem_remove: "ht_mem ht w \<Longrightarrow> htRemove ht w k = (rc, ht', w') \<Longrightarrow> ht_mem ht' w'"
  using ht_mem_dequeue [of ht w "place_of ht w k"] place_of_less [OF ht_mem_pos]
  by (auto simp: htRemove_def Let_def chain_find_Some_iff split: option.splits prod.splits)

subsection \<open>The key invariant and the abstract map\<close>

text \<open>
  \<open>keys_ok\<close>: the comparison function is an equivalence that the hash function respects.
  \<open>ht_keys\<close>: every entry hangs in the slot of its key, and no chain holds a key twice.
\<close>

definition keys_ok :: "hashtable \<Rightarrow> world \<Rightarrow> bool" where
  "keys_ok ht w \<longleftrightarrow>
     (\<forall>a. key_same ht w a a) \<and>
     (\<forall>a b. key_same ht w a b \<longrightarrow> key_same ht w b a) \<and>
     (\<forall>a b c. key_same ht w a b \<longrightarrow> key_same ht w b c \<longrightarrow> key_same ht w a c) \<and>
     (\<forall>a b. key_same ht w a b \<longrightarrow> place_of ht w a = place_of ht w b)"

definition chain_ok :: "hashtable \<Rightarrow> world \<Rightarrow> nat \<Rightarrow> hashentry list \<Rightarrow> bool" where
  "chain_ok ht w i c \<longleftrightarrow>
     (\<forall>e \<in> set c. place_of ht w (ekey e) = i) \<and>
     sorted_wrt (\<lambda>a b. \<not> key_same ht w (ekey a) (ekey b)) c"

definition ht_keys :: "hashtable \<Rightarrow> world \<Rightarrow> bool" where
  "ht_keys ht w \<longleftrightarrow> keys_ok ht w \<and> (\<forall>i < backboneSize ht. chain_ok ht w i (backbone ht ! i))"

definition no_hooks :: "hashtable \<Rightarrow> bool" where
  "no_hooks ht \<longleftrightarrow> keepEntry ht = None \<and> entryExpired ht = None \<and> removeEntry ht = None"

definition ht_lookup :: "hashtable \<Rightarrow> world \<Rightarrow> ptr \<Rightarrow> ptr option" where
  "ht_lookup ht w key =
     first_value (\<lambda>e. key_same ht w (ekey e) key) (backbone ht ! place_of ht w key)"

lemma keys_okD:
  assumes "keys_ok ht w"
  shows "key_same ht w a a"
    and "key_same ht w a b \<Longrightarrow> key_same ht w b a"
    and "key_same ht w a b \<Longrightarrow> key_same ht w b c \<Longrightarrow> key_same ht w a c"
    and "key_same ht w a b \<Longrightarrow> place_of ht w a = place_of ht w b"
  using assms unfolding keys_ok_def by blast+

text \<open>What the keys of a table depend on.\<close>

lemma key_functions_cong:
  assumes "hashFunction ht' = hashFunction ht" "comparator ht' = comparator ht"
    "backboneSize ht' = backboneSize ht" "wbytes w' = wbytes w"
  shows "key_same ht' w' = key_same ht w" "place_of ht' w' = place_of ht w"
    "keys_ok ht' w' = keys_ok ht w" "chain_ok ht' w' = chain_ok ht w"
proof -
  show s: "key_same ht' w' = key_same ht w" and p: "place_of ht' w' = place_of ht w"
    by (intro ext; use assms in \<open>simp add: key_same_def place_of_def hash_of_def split: option.split\<close>)+
  show "keys_ok ht' w' = keys_ok ht w" "chain_ok ht' w' = chain_ok ht w"
    by (simp_all add: keys_ok_def chain_ok_def s p fun_eq_iff)
qed

lemma chain_ok_middle:
  assumes k: "keys_ok ht w" and c: "chain_ok ht w i (pre @ x # post)" and y: "y \<in> set pre \<union> set post"
  shows "\<not> key_same ht w (ekey y) (ekey x)"
  using c y keys_okD(2) [OF k] by (auto simp: chain_ok_def sorted_wrt_append)

lemma chain_ok_drop: "chain_ok ht w i (pre @ x # post) \<Longrightarrow> chain_ok ht w i (pre @ post)"
  by (auto simp: chain_ok_def sorted_wrt_append)

lemma chain_ok_replace:
  assumes k: "keys_ok ht w" and c: "chain_ok ht w i (pre @ x # post)"
    and s: "key_same ht w (ekey x) (ekey x')"
  shows "chain_ok ht w i (pre @ x' # post)"
proof -
  have "\<not> key_same ht w (ekey y) (ekey x')" "\<not> key_same ht w (ekey x') (ekey y)"
    if "y \<in> set pre \<union> set post" for y
    using chain_ok_middle [OF k c that] keys_okD(2,3) [OF k] s by blast+
  then show ?thesis
    using c keys_okD(4) [OF k s] by (auto simp: chain_ok_def sorted_wrt_append)
qed

lemma chain_ok_push:
  assumes k: "keys_ok ht w" and c: "chain_ok ht w i c" and p: "place_of ht w (ekey x) = i"
    and n: "\<forall>y \<in> set c. \<not> key_same ht w (ekey y) (ekey x)"
  shows "chain_ok ht w i (x # c)"
  using c p n keys_okD(2) [OF k] by (auto simp: chain_ok_def)

text \<open>Searching for a key in a chain from which the entry of some key was taken.\<close>

lemma first_value_drop:
  assumes k: "keys_ok ht w" and c: "chain_ok ht w i (pre @ x # post)"
    and x: "key_same ht w (ekey x) key"
  shows "first_value (\<lambda>e. key_same ht w (ekey e) key') (pre @ post) =
     (if key_same ht w key key' then None
      else first_value (\<lambda>e. key_same ht w (ekey e) key') (pre @ x # post))"
proof (cases "key_same ht w key key'")
  case True
  then have "\<not> key_same ht w (ekey y) key'" if "y \<in> set (pre @ post)" for y
    using chain_ok_middle [OF k c, of y] that keys_okD(2,3) [OF k] x by (metis Un_iff set_append)
  with True show ?thesis by (simp add: first_value_None_iff)
next
  case False
  then have "\<not> key_same ht w (ekey x) key'"
    using keys_okD(2,3) [OF k] x by blast
  with False show ?thesis by (simp add: first_value_append split: option.split)
qed

lemma first_value_replace:
  assumes k: "keys_ok ht w" and pre: "\<forall>y \<in> set pre. \<not> key_same ht w (ekey y) key"
    and x: "key_same ht w (ekey x) key" and x': "ekey x' = key"
  shows "first_value (\<lambda>e. key_same ht w (ekey e) key') (pre @ x' # post) =
     (if key_same ht w key key' then Some (evalue x')
      else first_value (\<lambda>e. key_same ht w (ekey e) key') (pre @ x # post))"
proof (cases "key_same ht w key key'")
  case True
  then have "first_value (\<lambda>e. key_same ht w (ekey e) key') pre = None"
    using pre keys_okD(2,3) [OF k] by (metis first_value_None_iff)
  with True x' show ?thesis by (simp add: first_value_append)
next
  case False
  then have "\<not> key_same ht w (ekey x) key'"
    using keys_okD(2,3) [OF k] x by blast
  with False x' show ?thesis by (simp add: first_value_append split: option.split)
qed

text \<open>Replacing one slot.\<close>

definition set_slot :: "hashtable \<Rightarrow> nat \<Rightarrow> hashentry list \<Rightarrow> hashtable" where
  "set_slot ht i c = ht\<lparr>backbone := (backbone ht)[i := c]\<rparr>"

lemma same_functions_slot:
  assumes "backbone ht' = (backbone ht)[i := c]" "hashFunction ht' = hashFunction ht"
    "comparator ht' = comparator ht" "backboneSize ht' = backboneSize ht" "wbytes w' = wbytes w"
    "length (backbone ht) = backboneSize ht" "i < backboneSize ht" "ht_keys ht w" "chain_ok ht w i c"
  shows "ht_keys ht' w'"
    and "ht_lookup ht' w' k =
      (if place_of ht w k = i then first_value (\<lambda>e. key_same ht w (ekey e) k) c else ht_lookup ht w k)"
proof -
  note cong = key_functions_cong [OF assms(2-5)]
  show "ht_keys ht' w'"
    using assms by (auto simp: ht_keys_def cong nth_list_update)
  show "ht_lookup ht' w' k =
      (if place_of ht w k = i then first_value (\<lambda>e. key_same ht w (ekey e) k) c else ht_lookup ht w k)"
    using assms by (auto simp: ht_lookup_def cong nth_list_update)
qed

text \<open>
  The full invariant of a table without hooks, and the effect of each operation on the map.
\<close>

definition ht_inv :: "hashtable \<Rightarrow> world \<Rightarrow> bool" where
  "ht_inv ht w \<longleftrightarrow> ht_mem ht w \<and> ht_keys ht w"

definition same_fixed :: "hashtable \<Rightarrow> world \<Rightarrow> hashtable \<Rightarrow> world \<Rightarrow> bool" where
  "same_fixed ht w ht' w' \<longleftrightarrow>
     hashFunction ht' = hashFunction ht \<and> comparator ht' = comparator ht \<and>
     backboneSize ht' = backboneSize ht \<and> wbytes w' = wbytes w \<and>
     keepEntry ht' = keepEntry ht \<and> entryExpired ht' = entryExpired ht \<and>
     removeEntry ht' = removeEntry ht"

lemma dequeue_same_fixed:
  assumes "htDequeue ht w place pre entry post vr = (ht', w')"
  shows "same_fixed ht w ht' w'" and "backbone ht' = (backbone ht)[place := pre @ post]"
  using assms by (auto simp: htDequeue_def Let_def same_fixed_def split: prod.splits)

lemma same_fixedD:
  assumes "same_fixed ht w ht' w'"
  shows "hashFunction ht' = hashFunction ht" "comparator ht' = comparator ht"
    "backboneSize ht' = backboneSize ht" "wbytes w' = wbytes w" "no_hooks ht' = no_hooks ht"
    "key_same ht' w' = key_same ht w" "place_of ht' w' = place_of ht w"
  using assms key_functions_cong [of ht' ht w' w] by (auto simp: same_fixed_def no_hooks_def)

lemma ht_remove_map:
  assumes inv: "ht_inv ht w" and rm: "htRemove ht w key = (rc, ht', w')"
  shows "ht_inv ht' w' \<and> same_fixed ht w ht' w' \<and>
    (rc = 1 \<longleftrightarrow> ht_lookup ht w key \<noteq> None) \<and>
    ht_lookup ht' w' key' = (if key_same ht w key key' then None else ht_lookup ht w key')"
proof -
  from inv have mem: "ht_mem ht w" and keys: "ht_keys ht w" and k: "keys_ok ht w"
    by (auto simp: ht_inv_def ht_keys_def)
  let ?p = "place_of ht w key"
  from mem have len: "length (backbone ht) = backboneSize ht" and p: "?p < backboneSize ht"
    by (auto simp: ht_mem_def place_of_less)
  have c: "chain_ok ht w ?p (backbone ht ! ?p)" using keys p by (simp add: ht_keys_def)
  have mem': "ht_mem ht' w'" by (rule ht_mem_remove [OF mem rm])
  show ?thesis
  proof (cases "chain_find (\<lambda>e. key_same ht w (ekey e) key) (backbone ht ! ?p)")
    case None
    with rm have eq: "rc = 0" "ht' = ht" "w' = w" by (auto simp: htRemove_def Let_def)
    have none: "ht_lookup ht w key = None"
      using None by (simp add: ht_lookup_def first_value_find)
    have "ht_lookup ht w key' = None" if "key_same ht w key key'"
    proof -
      from None have "\<forall>y \<in> set (backbone ht ! ?p). \<not> key_same ht w (ekey y) key"
        by (simp add: chain_find_None_iff)
      with that keys_okD(2,3) [OF k]
      have "\<forall>y \<in> set (backbone ht ! ?p). \<not> key_same ht w (ekey y) key'" by blast
      with keys_okD(4) [OF k that] show ?thesis by (simp add: ht_lookup_def first_value_None_iff)
    qed
    with none inv eq show ?thesis by (auto simp: same_fixed_def)
  next
    case (Some r)
    then obtain pre x post
      where r: "chain_find (\<lambda>e. key_same ht w (ekey e) key) (backbone ht ! ?p) = Some (pre, x, post)"
      by (cases r) auto
    from r have b: "backbone ht ! ?p = pre @ x # post" and x: "key_same ht w (ekey x) key"
      by (auto simp: chain_find_Some_iff)
    from rm r have rc: "rc = 1" and dq: "htDequeue ht w ?p pre x post True = (ht', w')"
      by (auto simp: htRemove_def Let_def)
    note fx = dequeue_same_fixed [OF dq]
    have drop: "chain_ok ht w ?p (pre @ post)" by (rule chain_ok_drop) (use c b in simp)
    note slot = same_functions_slot [OF fx(2) same_fixedD(1-4) [OF fx(1)] len p keys drop]
    have "ht_lookup ht' w' key' = (if key_same ht w key key' then None else ht_lookup ht w key')"
      using first_value_drop [OF k c [unfolded b] x, of key'] keys_okD(4) [OF k, of key key']
      unfolding slot(2) by (auto simp: ht_lookup_def b)
    moreover have "ht_lookup ht w key \<noteq> None"
      using r by (simp add: ht_lookup_def first_value_find)
    ultimately show ?thesis
      using mem' slot(1) fx(1) rc by (simp add: ht_inv_def)
  qed
qed

lemma ht_put_map:
  assumes inv: "ht_inv ht w" and nh: "keepEntry ht = None"
    and pt: "htPut ht w key value = Some (rc, ht', w')"
  shows "ht_inv ht' w' \<and> same_fixed ht w ht' w' \<and>
    (rc = (if ht_lookup ht w key = None then 0 else 1)) \<and>
    ht_lookup ht' w' key' = (if key_same ht w key key' then Some value else ht_lookup ht w key')"
proof -
  from inv have mem: "ht_mem ht w" and keys: "ht_keys ht w" and k: "keys_ok ht w"
    by (auto simp: ht_inv_def ht_keys_def)
  let ?p = "place_of ht w key"
  let ?P = "\<lambda>e. key_same ht w (ekey e) key"
  from mem have len: "length (backbone ht) = backboneSize ht" and p: "?p < backboneSize ht"
    by (auto simp: ht_mem_def place_of_less)
  have c: "chain_ok ht w ?p (backbone ht ! ?p)" using keys p by (simp add: ht_keys_def)
  have mem': "ht_mem ht' w'" by (rule ht_mem_put [OF mem pt])
  show ?thesis
  proof (cases "chain_find ?P (backbone ht ! ?p)")
    case None
    with pt obtain q where fx: "same_fixed ht w ht' w'" and rc: "rc = 0"
      and bb: "backbone ht' = (backbone ht)[?p := \<lparr>eaddr = q, ekey = key, evalue = value\<rparr> # backbone ht ! ?p]"
      by (auto simp: htPut_def htPut2_def htPutAt_def same_fixed_def split: option.splits)
    from None have n: "\<forall>y \<in> set (backbone ht ! ?p). \<not> ?P y" by (simp add: chain_find_None_iff)
    then have none: "ht_lookup ht w key = None" by (simp add: ht_lookup_def first_value_None_iff)
    have push: "chain_ok ht w ?p (\<lparr>eaddr = q, ekey = key, evalue = value\<rparr> # backbone ht ! ?p)"
      by (rule chain_ok_push [OF k c]) (use n in auto)
    note slot = same_functions_slot [OF bb same_fixedD(1-4) [OF fx] len p keys push]
    have "ht_lookup ht' w' key' = (if key_same ht w key key' then Some value else ht_lookup ht w key')"
      using keys_okD(4) [OF k, of key key'] unfolding slot(2) by (auto simp: ht_lookup_def)
    with none rc fx mem' slot(1) show ?thesis by (simp add: ht_inv_def)
  next
    case (Some r)
    then obtain pre x post where r: "chain_find ?P (backbone ht ! ?p) = Some (pre, x, post)"
      by (cases r) auto
    let ?x = "x\<lparr>ekey := key, evalue := value\<rparr>"
    from r have b: "backbone ht ! ?p = pre @ x # post" and x: "?P x" and pre: "\<forall>y \<in> set pre. \<not> ?P y"
      by (auto simp: chain_find_Some_iff)
    from pt r nh have fx: "same_fixed ht w ht' w'" and rc: "rc = 1"
      and bb: "backbone ht' = (backbone ht)[?p := pre @ ?x # post]"
      by (auto simp: htPut_def htPut2_def htPutAt_def same_fixed_def hook_def Let_def)
    have rep: "chain_ok ht w ?p (pre @ ?x # post)"
      by (rule chain_ok_replace [OF k c [unfolded b]]) (use x in simp)
    note slot = same_functions_slot [OF bb same_fixedD(1-4) [OF fx] len p keys rep]
    have "ht_lookup ht' w' key' = (if key_same ht w key key' then Some value else ht_lookup ht w key')"
      using first_value_replace [OF k pre x, of ?x key' post] keys_okD(4) [OF k, of key key']
      unfolding slot(2) by (auto simp: ht_lookup_def b)
    moreover have "ht_lookup ht w key \<noteq> None"
      using r by (simp add: ht_lookup_def first_value_find)
    ultimately show ?thesis using rc fx mem' slot(1) by (simp add: ht_inv_def)
  qed
qed

lemma ht_get_map:
  assumes "no_hooks ht"
  shows "htGet ht w key = (case ht_lookup ht w key of None \<Rightarrow> NULL | Some v \<Rightarrow> v, ht, w)"
  using assms
  by (auto simp: htGet_def htGetAt_def ht_lookup_def first_value_find hook_def no_hooks_def Let_def
      split: option.splits)

subsection \<open>Pruning\<close>

definition pruned :: "(ptr \<Rightarrow> ptr \<Rightarrow> bool) \<Rightarrow> hashentry \<Rightarrow> bool" where
  "pruned matcher e = matcher (ekey e) (evalue e)"

definition prune_calls :: "bool \<Rightarrow> bool \<Rightarrow> hashentry list \<Rightarrow> callback list" where
  "prune_calls keyRec destroyer es =
     concat (map (\<lambda>e. (if keyRec then [ReclaimKey (ekey e)] else []) @
                      (if destroyer then [DestroyValue (evalue e)] else [])) es)"

lemma wlog_log_if: "wlog (log_if b c w) = wlog w @ (if b then [c] else [])"
  by (simp add: log_if_def)

lemma prune_chain_spec:
  "prune_chain matcher kr d c m w = (n, c', m', w') \<Longrightarrow>
     n = length (filter (pruned matcher) c) \<and> c' = filter (\<lambda>e. \<not> pruned matcher e) c \<and>
     (m', wheap w') = foldl fb_release (m, wheap w) (map eaddr (filter (pruned matcher) c)) \<and>
     wlog w' = wlog w @ prune_calls kr d (filter (pruned matcher) c) \<and> wbytes w' = wbytes w"
proof (induction c arbitrary: m w n c' m' w')
  case Nil
  then show ?case by (simp add: prune_calls_def)
next
  case (Cons e es)
  show ?case
  proof (cases "matcher (ekey e) (evalue e)")
    case True
    define w2 where "w2 = log_if d (DestroyValue (evalue e)) (log_if kr (ReclaimKey (ekey e)) w)"
    obtain m1 h1 where f: "fbMgrFree m (eaddr e) (wheap w) = (m1, h1)" by fastforce
    obtain n2 c2 m2 w3 where r: "prune_chain matcher kr d es m1 (w2\<lparr>wheap := h1\<rparr>) = (n2, c2, m2, w3)"
      by (metis prod.exhaust)
    from Cons.prems True f r have eq: "n = Suc n2" "c' = c2" "m' = m2" "w' = w3"
      by (auto simp: w2_def [symmetric] Let_def)
    have "wheap w2 = wheap w" "wbytes w2 = wbytes w" by (simp_all add: w2_def)
    with Cons.IH [OF r] True f eq show ?thesis
      by (auto simp: pruned_def prune_calls_def fb_release_def w2_def wlog_log_if)
  next
    case False
    obtain n2 c2 m2 w3 where r: "prune_chain matcher kr d es m w = (n2, c2, m2, w3)"
      by (metis prod.exhaust)
    with Cons.prems False Cons.IH [OF r] show ?thesis by (auto simp: pruned_def)
  qed
qed

lemma prune_chains_spec:
  "prune_chains matcher kr d cs m w = (n, cs', m', w') \<Longrightarrow>
     n = length (filter (pruned matcher) (concat cs)) \<and>
     cs' = map (filter (\<lambda>e. \<not> pruned matcher e)) cs \<and>
     (m', wheap w') = foldl fb_release (m, wheap w) (map eaddr (filter (pruned matcher) (concat cs))) \<and>
     wlog w' = wlog w @ prune_calls kr d (filter (pruned matcher) (concat cs)) \<and> wbytes w' = wbytes w"
proof (induction cs arbitrary: m w n cs' m' w')
  case Nil
  then show ?case by (simp add: prune_calls_def)
next
  case (Cons c cs)
  obtain n1 c1 m1 w1 where 1: "prune_chain matcher kr d c m w = (n1, c1, m1, w1)"
    by (metis prod.exhaust)
  obtain n2 c2 m2 w2 where 2: "prune_chains matcher kr d cs m1 w1 = (n2, c2, m2, w2)"
    by (metis prod.exhaust)
  from prune_chain_spec [OF 1]
  have s1: "(m1, wheap w1) = foldl fb_release (m, wheap w) (map eaddr (filter (pruned matcher) c))"
    by blast
  from Cons.IH [OF 2] prune_chain_spec [OF 1] Cons.prems 1 2
  show ?case by (auto simp: prune_calls_def s1)
qed

lemma concat_filter_map: "concat (map (filter P) xss) = filter P (concat xss)"
  by (simp add: filter_concat)

lemma set_map_filter_diff:
  "distinct (map f xs) \<Longrightarrow>
     set (map f xs) - set (map f (filter P xs)) = set (map f (filter (\<lambda>x. \<not> P x) xs))"
  by (induction xs) auto

lemma ht_mem_prune:
  assumes mem: "ht_mem ht w" and pr: "htPrune ht w matcher d = (n, ht', w')"
  shows "ht_mem ht' w'"
proof -
  obtain bb m w1 where r: "prune_chains matcher (keyReclaimer ht) d (backbone ht) (mgr ht) w = (n, bb, m, w1)"
    and eq: "ht' = ht\<lparr>backbone := bb, mgr := m\<rparr>" "w' = w1"
    using pr by (auto simp: htPrune_def split: prod.splits)
  note spec = prune_chains_spec [OF r]
  let ?gone = "filter (pruned matcher) (concat (backbone ht))"
  let ?kept = "filter (\<lambda>e. \<not> pruned matcher e) (concat (backbone ht))"
  from mem have d: "distinct (entry_addrs ht)"
    and fbs: "fb_sound (mgr ht, wheap w) (set (entry_addrs ht))"
    by (auto simp: ht_mem_def fb_sound_def)
  have addrs: "entry_addrs ht' = map eaddr ?kept"
    using spec by (simp add: entry_addrs_def eq concat_filter_map)
  have dg: "distinct (map eaddr ?gone)" and dk: "distinct (map eaddr ?kept)"
    using d by (auto simp: entry_addrs_def distinct_map_filter)
  have diff: "set (entry_addrs ht) - set (map eaddr ?gone) = set (map eaddr ?kept)"
    unfolding entry_addrs_def by (rule set_map_filter_diff) (use d in \<open>simp add: entry_addrs_def\<close>)
  have "fb_sound (foldl fb_release (mgr ht, wheap w) (map eaddr ?gone))
          (set (entry_addrs ht) - set (map eaddr ?gone))"
    by (rule fb.release_all_ok [OF fbs dg]) (auto simp: entry_addrs_def)
  moreover have "foldl fb_release (mgr ht, wheap w) (map eaddr ?gone) = (m, wheap w1)"
    using spec by simp
  ultimately have "fb_ok m (wheap w1) (set (entry_addrs ht'))"
    using diff addrs by (simp add: fb_sound_def)
  with mem spec dk addrs show ?thesis
    by (auto simp: ht_mem_def eq)
qed

lemma foldl_length_concat: "foldl (\<lambda>n c. n + length c) k cs = k + length (concat cs)"
  by (induction cs arbitrary: k) auto

lemma htCount_concat: "htCount ht = length (concat (backbone ht))"
  by (simp add: htCount_def foldl_length_concat)

lemma first_value_filter:
  assumes k: "keys_ok ht w" and c: "chain_ok ht w i c"
  shows "first_value (\<lambda>e. key_same ht w (ekey e) key) (filter Q c) =
    (case chain_find (\<lambda>e. key_same ht w (ekey e) key) c of
       None \<Rightarrow> None | Some (pre, x, post) \<Rightarrow> if Q x then Some (evalue x) else None)"
proof (cases "chain_find (\<lambda>e. key_same ht w (ekey e) key) c")
  case None
  then have "\<forall>y \<in> set c. \<not> key_same ht w (ekey y) key" by (simp add: chain_find_None_iff)
  with None show ?thesis by (simp add: first_value_None_iff)
next
  case (Some r)
  then obtain pre x post where r: "r = (pre, x, post)" by (cases r)
  from Some r have b: "c = pre @ x # post" and x: "key_same ht w (ekey x) key"
    by (auto simp: chain_find_Some_iff)
  have "\<not> key_same ht w (ekey y) key" if "y \<in> set pre \<union> set post" for y
    using chain_ok_middle [OF k c [unfolded b] that] keys_okD(2,3) [OF k] x by blast
  then have "first_value (\<lambda>e. key_same ht w (ekey e) key) (filter Q pre) = None"
    and "first_value (\<lambda>e. key_same ht w (ekey e) key) (filter Q post) = None"
    by (auto simp: first_value_None_iff)
  then show ?thesis using Some r b x by (auto simp: first_value_append)
qed

subsection \<open>The table as a keyed store\<close>

definition hs_find :: "hashtable \<times> world \<Rightarrow> ptr \<Rightarrow> ptr option" where
  "hs_find s k = ht_lookup (fst s) (snd s) k"

definition hs_put :: "hashtable \<times> world \<Rightarrow> ptr \<Rightarrow> ptr \<Rightarrow> (hashtable \<times> world) option" where
  "hs_put s k v = map_option snd (htPut (fst s) (snd s) k v)"

definition hs_remove :: "hashtable \<times> world \<Rightarrow> ptr \<Rightarrow> hashtable \<times> world" where
  "hs_remove s k = snd (htRemove (fst s) (snd s) k)"

definition hs_same :: "hashtable \<times> world \<Rightarrow> ptr \<Rightarrow> ptr \<Rightarrow> bool" where
  "hs_same s = key_same (fst s) (snd s)"

definition hs_sound :: "hashtable \<times> world \<Rightarrow> bool" where
  "hs_sound s \<longleftrightarrow> ht_inv (fst s) (snd s) \<and> no_hooks (fst s)"

interpretation hs: keyed_store hs_find hs_put hs_remove hs_same hs_sound
proof unfold_locales
  fix s :: "hashtable \<times> world" and k k' v s'
  obtain ht w where s: "s = (ht, w)" by (cases s)
  { assume so: "hs_sound s" and p: "hs_put s k v = Some s'"
    obtain ht' w' where s': "s' = (ht', w')" by (cases s')
    from p obtain rc where "htPut ht w k v = Some (rc, ht', w')" by (auto simp: s s' hs_put_def)
    note m = ht_put_map [OF _ _ this]
    from so have "ht_inv ht w" "keepEntry ht = None" "no_hooks ht"
      by (auto simp: s hs_sound_def no_hooks_def)
    with m [of k'] same_fixedD(5,6) [of ht w ht' w']
    show "hs_sound s' \<and> hs_same s' = hs_same s"
      and "hs_find s' k' = (if hs_same s k k' then Some v else hs_find s k')"
      by (auto simp: s s' hs_sound_def hs_same_def hs_find_def) }
  { assume so: "hs_sound s"
    obtain rc ht' w' where r: "htRemove ht w k = (rc, ht', w')" by (metis prod.exhaust)
    note m = ht_remove_map [OF _ r]
    from so have "ht_inv ht w" "no_hooks ht" by (auto simp: s hs_sound_def)
    with m [of k'] same_fixedD(5,6) [of ht w ht' w'] r
    show "hs_sound (hs_remove s k) \<and> hs_same (hs_remove s k) = hs_same s"
      and "hs_find (hs_remove s k) k' = (if hs_same s k k' then None else hs_find s k')"
      by (auto simp: s hs_sound_def hs_same_def hs_find_def hs_remove_def) }
  show "hs_same s k k" if "hs_sound s"
    using that by (auto simp: hs_sound_def hs_same_def ht_inv_def ht_keys_def keys_ok_def)
qed

subsection \<open>Key functions of the code\<close>

lemma keys_ok_natural:
  "hashFunction ht = None \<Longrightarrow> comparator ht = None \<Longrightarrow> keys_ok ht w"
  by (simp add: keys_ok_def key_same_def)

lemma keys_ok_string:
  "hashFunction ht = Some stringHash \<Longrightarrow> comparator ht = Some stringCompare \<Longrightarrow> keys_ok ht w"
  by (simp add: keys_ok_def key_same_def stringCompare_def place_of_def hash_of_def stringHash_def)

lemma int_at_take: "i + 4 \<le> n \<Longrightarrow> int_at (take n bs) i = int_at bs i"
  by (simp add: int_at_def drop_take min_def)

lemma digestHash_cong:
  "digestCompare mem a b \<Longrightarrow> digestHash mem a = digestHash mem b"
  using int_at_take [of _ 16 "mem a"] int_at_take [of _ 16 "mem b"]
  by (simp add: digestCompare_def LRU_DIGEST_LENGTH_def digestHash_def)

lemma keys_ok_digest:
  "hashFunction ht = Some digestHash \<Longrightarrow> comparator ht = Some digestCompare \<Longrightarrow> keys_ok ht w"
  unfolding keys_ok_def
  by (intro conjI allI impI;
      simp add: key_same_def place_of_def hash_of_def digestHash_cong; simp add: digestCompare_def)

lemma ht_inv_create:
  assumes "0 < hbrk (wheap w)" "0 < n" "keys_ok (htCreate n f c kr vr self) w"
  shows "ht_inv (htCreate n f c kr vr self) w" "no_hooks (htCreate n f c kr vr self)"
  using assms ht_mem_create [OF assms(1,2)]
  by (auto simp: ht_inv_def ht_keys_def chain_ok_def htCreate_def no_hooks_def)

subsection \<open>Every sequence of operations\<close>

text \<open>
  One rule per operation, with any hooks, any key functions and any change by the clients of
  the bytes behind the keys.
\<close>

inductive ht_step :: "hashtable \<times> world \<Rightarrow> hashtable \<times> world \<Rightarrow> bool" where
  get: "htGet ht w k = (v, ht', w') \<Longrightarrow> ht_step (ht, w) (ht', w')"
| int_get: "htIntGet ht w i = (v, ht', w') \<Longrightarrow> ht_step (ht, w) (ht', w')"
| uint_get: "htUIntGet ht w i = (v, ht', w') \<Longrightarrow> ht_step (ht, w) (ht', w')"
| put: "htPut ht w k v = Some (rc, ht', w') \<Longrightarrow> ht_step (ht, w) (ht', w')"
| int_put: "htIntPut ht w i v = Some (rc, ht', w') \<Longrightarrow> ht_step (ht, w) (ht', w')"
| uint_put: "htUIntPut ht w i v = Some (rc, ht', w') \<Longrightarrow> ht_step (ht, w) (ht', w')"
| remove: "htRemove ht w k = (rc, ht', w') \<Longrightarrow> ht_step (ht, w) (ht', w')"
| prune: "htPrune ht w matcher d = (n, ht', w') \<Longrightarrow> ht_step (ht, w) (ht', w')"
| alter: "ht_step (ht, w) (htAlter ht keep expired rem, w)"
| client: "ht_step (ht, w) (ht, w\<lparr>wbytes := b\<rparr>)"

lemma ht_places_less:
  assumes "ht_mem ht w"
  shows "int_place ht i < backboneSize ht" "uint_place ht i < backboneSize ht"
  using ht_mem_pos [OF assms] by (simp_all add: int_place_def uint_place_def)

lemma ht_step_mem: "ht_step s t \<Longrightarrow> ht_mem (fst s) (snd s) \<Longrightarrow> ht_mem (fst t) (snd t)"
proof (induction rule: ht_step.induct)
  case (get ht w k v ht' w')
  then show ?case using ht_mem_get [of ht w] by simp
next
  case (int_get ht w i v ht' w')
  have "ht_mem ht w" using int_get.prems by simp
  from ht_mem_getAt [OF this ht_places_less(1) [OF this] int_get.hyps [unfolded htIntGet_def]]
  show ?case by simp
next
  case (uint_get ht w i v ht' w')
  have "ht_mem ht w" using uint_get.prems by simp
  from ht_mem_getAt [OF this ht_places_less(2) [OF this] uint_get.hyps [unfolded htUIntGet_def]]
  show ?case by simp
next
  case (put ht w k v rc ht' w')
  then show ?case using ht_mem_put [of ht w] by simp
next
  case (int_put ht w i v rc ht' w')
  have "ht_mem ht w" using int_put.prems by simp
  from ht_mem_putAt [OF this ht_places_less(1) [OF this]
      int_put.hyps [unfolded htIntPut_def htIntPut2_def]]
  show ?case by simp
next
  case (uint_put ht w i v rc ht' w')
  have "ht_mem ht w" using uint_put.prems by simp
  from ht_mem_putAt [OF this ht_places_less(2) [OF this] uint_put.hyps [unfolded htUIntPut_def]]
  show ?case by simp
next
  case (remove ht w k rc ht' w')
  then show ?case using ht_mem_remove [of ht w] by simp
next
  case (prune ht w matcher d n ht' w')
  then show ?case using ht_mem_prune [of ht w] by simp
next
  case (alter ht w keep expired rem)
  then show ?case by (simp add: htAlter_def ht_mem_def entry_addrs_def)
next
  case (client ht w b)
  then show ?case by (simp add: ht_mem_def)
qed

lemma ht_run_mem:
  "ht_step\<^sup>*\<^sup>* s t \<Longrightarrow> ht_mem (fst s) (snd s) \<Longrightarrow> ht_mem (fst t) (snd t)"
  by (induction rule: rtranclp_induct) (auto intro: ht_step_mem)

subsection \<open>A small table for the examples\<close>

definition demo_world :: world where
  "demo_world = \<lparr>wheap = demo_heap, wbytes = (\<lambda>_. []), wlog = []\<rparr>"

definition demo_table :: hashtable where
  "demo_table = htCreate 4 None None True True 0"

text \<open>After \<open>htPut(demo_table, 6, 7)\<close>.\<close>

definition demo_put :: "nat \<times> hashtable \<times> world" where
  "demo_put = the (htPut demo_table demo_world 6 7)"

lemma demo_table_ok: "ht_inv demo_table demo_world" "no_hooks demo_table"
proof -
  have "keys_ok (htCreate 4 None None True True 0) demo_world"
    by (simp add: keys_ok_natural htCreate_def)
  from ht_inv_create [OF _ _ this]
  show "ht_inv demo_table demo_world" "no_hooks demo_table"
    by (simp_all add: demo_table_def demo_world_def)
qed

lemma demo_row: "(replicate 4 [])[2 := x] = [[], [], x, []]" "replicate 4 [] ! 2 = []"
  by (simp_all add: numeral_eq_Suc)

lemma demo_htPut: "htPut demo_table demo_world 6 7 =
    Some (fst demo_put, fst (snd demo_put), snd (snd demo_put))"
  by (simp add: demo_put_def demo_table_def demo_world_def htPut_def htPut2_def htPutAt_def
      htCreate_def place_of_def hash_of_def INT_FROM_POINTER_def fbMgrAlloc_def fbMgrExtend_def
      fbMgrCreate_def safeMalloc_def demo_heap_def FB_HEADER_LENGTH_def HASHENTRY_SIZE_def)

lemma demo_put_slots: "backbone (fst (snd demo_put)) =
    [[], [], [\<lparr>eaddr = 72, ekey = 6, evalue = 7\<rparr>], []]" "keyReclaimer (fst (snd demo_put))"
    "entryExpired (fst (snd demo_put)) = None" "wlog (snd (snd demo_put)) = []"
    "backboneSize (fst (snd demo_put)) = 4"
  by (simp_all add: demo_put_def demo_table_def demo_world_def htPut_def htPut2_def htPutAt_def
      htCreate_def place_of_def hash_of_def INT_FROM_POINTER_def fbMgrAlloc_def fbMgrExtend_def
      fbMgrCreate_def safeMalloc_def demo_heap_def FB_HEADER_LENGTH_def HASHENTRY_SIZE_def
      demo_row)

subsection \<open>Properties\<close>

text \<open>
  C4. In a table without hooks whose comparison is an equivalence that the hash respects, a
  get after a successful put returns the stored value for every key that compares equal, and
  for every other key what it returned before; the put says whether it replaced.
\<close>

theorem htPut_then_htGet:
  assumes "ht_inv ht w" "no_hooks ht" "htPut ht w k v = Some (rc, ht', w')"
  shows "fst (htGet ht' w' k') = (if key_same ht w k k' then v else fst (htGet ht w k')) \<and>
    rc = (if ht_lookup ht w k = None then 0 else 1) \<and> ht_inv ht' w' \<and> no_hooks ht'"
proof -
  have so: "hs_sound (ht, w)" using assms(1,2) by (simp add: hs_sound_def)
  have pt: "hs_put (ht, w) k v = Some (ht', w')" using assms(3) by (simp add: hs_put_def)
  from hs.put_sound [OF so pt] have "ht_inv ht' w'" "no_hooks ht'" by (auto simp: hs_sound_def)
  moreover from hs.find_put [OF so pt, of k']
  have "fst (htGet ht' w' k') = (if key_same ht w k k' then v else fst (htGet ht w k'))"
    using assms(2) \<open>no_hooks ht'\<close> by (simp add: ht_get_map hs_find_def hs_same_def)
  ultimately show ?thesis
    using ht_put_map [OF assms(1) _ assms(3)] assms(2) by (simp add: no_hooks_def)
qed

theorem htPut_then_htGet_witness:
  "fst (htGet (fst (snd demo_put)) (snd (snd demo_put)) 6) = 7 \<and> fst demo_put = 0"
  using htPut_then_htGet [OF demo_table_ok demo_htPut, of 6] demo_table_ok(1)
  by (auto simp: key_same_def demo_table_def htCreate_def ht_lookup_def place_of_def)

text \<open>
  C5. After any sequence of operations on a new table, with any hooks, reclaimers and key
  functions, no block is on two chains or twice on one, and the blocks on the chains are
  exactly those the block manager has handed out: none of them is on its free list.
\<close>

theorem ht_blocks_never_shared:
  assumes "ht_step\<^sup>*\<^sup>* (htCreate n f c kr vr self, w0) (ht, w)"
    and "0 < n" "0 < hbrk (wheap w0)"
  shows "distinct (entry_addrs ht) \<and> fb_ok (mgr ht) (wheap w) (set (entry_addrs ht)) \<and>
    length (backbone ht) = backboneSize ht"
  using ht_run_mem [OF assms(1)] ht_mem_create [OF assms(3,2)] by (simp add: ht_mem_def)

theorem ht_blocks_never_shared_witness:
  "fb_ok (mgr (fst (snd demo_put))) (wheap (snd (snd demo_put)))
     (set (entry_addrs (fst (snd demo_put))))"
proof -
  have "ht_step\<^sup>*\<^sup>* (demo_table, demo_world) (fst (snd demo_put), snd (snd demo_put))"
    by (intro r_into_rtranclp ht_step.put [OF demo_htPut])
  from ht_blocks_never_shared [OF this [unfolded demo_table_def]] show ?thesis
    by (simp add: demo_world_def)
qed

text \<open>
  C6. \<open>htPrune\<close> removes exactly the entries the matcher accepts, keeps the order of the
  others, returns the number removed, reclaims the key of each and hands each value to the
  destroyer, in chain order, and leaves the storage sound.
\<close>

theorem htPrune_exact:
  assumes "ht_mem ht w" "htPrune ht w matcher d = (n, ht', w')"
  shows "backbone ht' = map (filter (\<lambda>e. \<not> pruned matcher e)) (backbone ht) \<and>
    htCount ht' + n = htCount ht \<and>
    wlog w' = wlog w @
      prune_calls (keyReclaimer ht) d (filter (pruned matcher) (concat (backbone ht))) \<and>
    ht_mem ht' w'"
proof -
  obtain bb m w1 where
    r: "prune_chains matcher (keyReclaimer ht) d (backbone ht) (mgr ht) w = (n, bb, m, w1)"
    and eq: "ht' = ht\<lparr>backbone := bb, mgr := m\<rparr>" "w' = w1"
    using assms(2) by (auto simp: htPrune_def split: prod.splits)
  note s = prune_chains_spec [OF r]
  have "htCount ht' + n = htCount ht"
    using s sum_length_filter_compl [of "pruned matcher" "concat (backbone ht)"]
    by (simp add: htCount_concat eq concat_filter_map)
  with s ht_mem_prune [OF assms] show ?thesis by (simp add: eq)
qed

theorem htPrune_exact_witness:
  "\<exists>ht' w'. htPrune (fst (snd demo_put)) (snd (snd demo_put)) (\<lambda>k v. k = 6) True = (1, ht', w') \<and>
     backbone ht' = [[], [], [], []] \<and> wlog w' = [ReclaimKey 6, DestroyValue 7]"
proof -
  obtain n ht' w' where
    r: "htPrune (fst (snd demo_put)) (snd (snd demo_put)) (\<lambda>k v. k = 6) True = (n, ht', w')"
    by (metis prod.exhaust)
  have "ht_mem demo_table demo_world" using demo_table_ok by (simp add: ht_inv_def)
  from htPrune_exact [OF ht_mem_put [OF this demo_htPut] r] r show ?thesis
    by (auto simp: demo_put_slots htCount_concat pruned_def prune_calls_def)
qed



end
