(* ===== verification/LongHash.thy ===== *)
theory LongHash
  imports HashTable
begin

section \<open>The hash table with 64-bit integer keys\<close>

text \<open>
  \<open>LongHashtable\<close> of \<open>c/collections.c\<close>. Keys are \<open>int64\<close> values whose sign bit is cleared
  before they are stored or looked up; there is no key reclaimer, and \<open>lhtDestroy\<close> gives back
  the storage without calling the value reclaimer. The table is related to the general one:
  every operation is an operation of \<open>HashTable\<close> on the image of the table.
\<close>

record longHashEntry =
  laddr :: ptr
  lkey :: "64 word"
  lvalue :: ptr

record longHashtable =
  lbackboneSize :: nat
  lbackbone :: "longHashEntry list list"
  lmgr :: fixedBlockMgr
  lvalueReclaimer :: bool
  lkeepEntry :: "(ptr \<Rightarrow> bool) option"
  lentryExpired :: "(ptr \<Rightarrow> bool) option"
  lremoveEntry :: "(ptr \<Rightarrow> bool) option"

definition LONGHASHENTRY_SIZE :: nat where
  "LONGHASHENTRY_SIZE = 24"

definition LONGHASHTABLE_SIZE :: nat where
  "LONGHASHTABLE_SIZE = 64"

definition lhtCreate :: "nat \<Rightarrow> bool \<Rightarrow> ptr \<Rightarrow> longHashtable" where
  "lhtCreate bbSize valueRec self =
     \<lparr>lbackboneSize = bbSize, lbackbone = replicate bbSize [],
      lmgr = fbMgrCreate LONGHASHENTRY_SIZE 256 self, lvalueReclaimer = valueRec,
      lkeepEntry = None, lentryExpired = None, lremoveEntry = None\<rparr>"

definition lhtAlter :: "longHashtable \<Rightarrow> (ptr \<Rightarrow> bool) option \<Rightarrow> (ptr \<Rightarrow> bool) option \<Rightarrow>
    (ptr \<Rightarrow> bool) option \<Rightarrow> longHashtable" where
  "lhtAlter lht keep expired rem =
     lht\<lparr>lkeepEntry := keep, lentryExpired := expired, lremoveEntry := rem\<rparr>"

definition lhtDequeue :: "longHashtable \<Rightarrow> world \<Rightarrow> nat \<Rightarrow> longHashEntry list \<Rightarrow>
    longHashEntry \<Rightarrow> longHashEntry list \<Rightarrow> bool \<Rightarrow> longHashtable \<times> world" where
  "lhtDequeue lht w place pre entry post valueReclaim =
     (let lht1 = lht\<lparr>lbackbone := (lbackbone lht)[place := pre @ post]\<rparr>;
          w1 = log_if (valueReclaim \<and> lvalueReclaimer lht) (ReclaimValue (lvalue entry)) w;
          (m, h) = fbMgrFree (lmgr lht) (laddr entry) (wheap w1)
      in (lht1\<lparr>lmgr := m\<rparr>, w1\<lparr>wheap := h\<rparr>))"

definition lhtDestroy :: "ptr \<Rightarrow> ptr \<Rightarrow> ptr \<Rightarrow> longHashtable \<Rightarrow> world \<Rightarrow> world option" where
  "lhtDestroy self mgrAddr backboneAddr lht w =
     (case fbMgrDestroy mgrAddr FBMGR_SIZE (lmgr lht) (wheap w) of
        None \<Rightarrow> None
      | Some h \<Rightarrow> Some (w\<lparr>wheap := safeFree self LONGHASHTABLE_SIZE
                                  (safeFree backboneAddr (8 * lbackboneSize lht) h)\<rparr>))"

definition positive_key :: "64 word \<Rightarrow> 64 word" where
  "positive_key key = key AND 0x7FFFFFFFFFFFFFFF"

definition long_place :: "longHashtable \<Rightarrow> 64 word \<Rightarrow> nat" where
  "long_place lht key = unat key mod lbackboneSize lht"

definition lhtGet :: "longHashtable \<Rightarrow> world \<Rightarrow> 64 word \<Rightarrow> ptr \<times> longHashtable \<times> world" where
  "lhtGet lht w key0 =
     (let key = positive_key key0; place = long_place lht key in
      case chain_find (\<lambda>e. lkey e = key) (lbackbone lht ! place) of
        None \<Rightarrow> (NULL, lht, w)
      | Some (pre, hashentry, post) \<Rightarrow>
          let value = lvalue hashentry in
          if hook (lentryExpired lht) value
          then (NULL, lhtDequeue lht w place pre hashentry post True)
          else if hook (lremoveEntry lht) value
          then (value, lhtDequeue lht w place pre hashentry post False)
          else (value, lht, w))"

definition lhtPut :: "longHashtable \<Rightarrow> world \<Rightarrow> 64 word \<Rightarrow> ptr \<Rightarrow>
    (nat \<times> longHashtable \<times> world) option" where
  "lhtPut ht w key0 value =
     (let key = positive_key key0; place = long_place ht key in
      case chain_find (\<lambda>e. lkey e = key) (lbackbone ht ! place) of
        Some (pre, entry, post) \<Rightarrow>
          if hook (lkeepEntry ht) (lvalue entry) then Some (2, ht, w)
          else Some (1, ht\<lparr>lbackbone :=
                   (lbackbone ht)[place := pre @ entry\<lparr>lkey := key, lvalue := value\<rparr> # post]\<rparr>,
                 log_if (lvalueReclaimer ht) (ReclaimValue (lvalue entry)) w)
      | None \<Rightarrow>
          (case fbMgrAlloc (lmgr ht) (wheap w) of
             None \<Rightarrow> None
           | Some (p, m, h) \<Rightarrow>
               Some (0, ht\<lparr>lmgr := m, lbackbone :=
                        (lbackbone ht)[place := \<lparr>laddr = p, lkey = key, lvalue = value\<rparr>
                                                # lbackbone ht ! place]\<rparr>,
                     w\<lparr>wheap := h\<rparr>)))"

definition lhtRemove :: "longHashtable \<Rightarrow> world \<Rightarrow> 64 word \<Rightarrow> nat \<times> longHashtable \<times> world" where
  "lhtRemove ht w key0 =
     (let key = positive_key key0; place = long_place ht key in
      case chain_find (\<lambda>e. lkey e = key) (lbackbone ht ! place) of
        None \<Rightarrow> (0, ht, w)
      | Some (pre, entry, post) \<Rightarrow> (1, lhtDequeue ht w place pre entry post True))"

text \<open>The calls \<open>lhtMap\<close> makes to its visitor, in order.\<close>

definition lhtMap :: "longHashtable \<Rightarrow> 'u \<Rightarrow> ('u \<times> 64 word \<times> ptr) list" where
  "lhtMap ht userData = map (\<lambda>e. (userData, lkey e, lvalue e)) (concat (lbackbone ht))"

subsection \<open>The image of the table\<close>

definition as_entry :: "longHashEntry \<Rightarrow> hashentry" where
  "as_entry e = \<lparr>eaddr = laddr e, ekey = unat (lkey e), evalue = lvalue e\<rparr>"

definition long_hash :: "nat \<Rightarrow> (ptr \<Rightarrow> byte list) \<Rightarrow> ptr \<Rightarrow> cint" where
  "long_hash n mem k = word_of_nat (k mod n)"

definition as_table :: "longHashtable \<Rightarrow> hashtable" where
  "as_table t =
     \<lparr>backboneSize = lbackboneSize t, backbone = map (map as_entry) (lbackbone t), mgr = lmgr t,
      hashFunction = Some (long_hash (lbackboneSize t)), comparator = None,
      keyReclaimer = False, valueReclaimer = lvalueReclaimer t, keepEntry = lkeepEntry t,
      entryExpired = lentryExpired t, removeEntry = lremoveEntry t\<rparr>"

definition lht_shape :: "longHashtable \<Rightarrow> bool" where
  "lht_shape t \<longleftrightarrow> 0 < lbackboneSize t \<and> lbackboneSize t < 2 ^ 31 \<and>
     length (lbackbone t) = lbackboneSize t"

lemma as_entry_simps [simp]:
  "eaddr (as_entry e) = laddr e" "ekey (as_entry e) = unat (lkey e)"
  "evalue (as_entry e) = lvalue e"
  by (simp_all add: as_entry_def)

lemma as_table_simps [simp]:
  "mgr (as_table t) = lmgr t" "keepEntry (as_table t) = lkeepEntry t"
  "backboneSize (as_table t) = lbackboneSize t"
  "entryExpired (as_table t) = lentryExpired t" "removeEntry (as_table t) = lremoveEntry t"
  "keyReclaimer (as_table t) = False" "valueReclaimer (as_table t) = lvalueReclaimer t"
  "backbone (as_table t) = map (map as_entry) (lbackbone t)"
  "as_table (t\<lparr>lbackbone := B\<rparr>) = as_table t\<lparr>backbone := map (map as_entry) B\<rparr>"
  "as_table (t\<lparr>lmgr := m\<rparr>) = as_table t\<lparr>mgr := m\<rparr>"
  by (simp_all add: as_table_def)

lemma log_if_False [simp]: "log_if False c w = w"
  by (simp add: log_if_def)

lemma and_31: "n < 2 ^ 31 \<Longrightarrow> unat ((word_of_nat n :: cint) AND 0x7FFFFFFF) = n"
proof -
  assume n: "n < 2 ^ 31"
  have m: "(0x7FFFFFFF :: cint) = mask 31" by (simp add: mask_eq_exp_minus_1)
  have "unat ((word_of_nat n :: cint) AND 0x7FFFFFFF) = take_bit 31 (unat (word_of_nat n :: cint))"
    unfolding m by (simp only: take_bit_eq_mask [symmetric] unsigned_take_bit_eq)
  then show ?thesis using n by (simp add: unat_of_nat take_bit_nat_eq_self)
qed

lemma long_place_of:
  "lht_shape t \<Longrightarrow> place_of (as_table t) w (unat k) = long_place t k"
proof -
  assume t: "lht_shape t"
  then have "unat k mod lbackboneSize t < 2 ^ 31"
    by (meson lht_shape_def less_trans mod_less_divisor)
  then show ?thesis
    by (simp add: place_of_def hash_of_def as_table_def long_hash_def and_31 long_place_def)
qed

text \<open>Unlinking, lookup, insertion and removal commute with the image.\<close>

lemma as_table_dequeue:
  assumes "lhtDequeue t w place pre e post vr = (t', w')"
  shows "htDequeue (as_table t) w place (map as_entry pre) (as_entry e) (map as_entry post) vr =
    (as_table t', w')"
  using assms
  by (auto simp: lhtDequeue_def htDequeue_def as_table_def log_if_def Let_def map_update
      split: prod.splits)

lemma same_key_as_table [simp]:
  "key_same (as_table t) w k1 k2 = (k1 = k2)"
  by (simp add: key_same_def as_table_def)

lemma find_as_table:
  assumes "lht_shape t"
  shows "chain_find (\<lambda>e. ekey e = unat k) (map (map as_entry) (lbackbone t) ! long_place t k) =
    map_option (\<lambda>(pre, x, post). (map as_entry pre, as_entry x, map as_entry post))
      (chain_find (\<lambda>e. lkey e = k) (lbackbone t ! long_place t k))"
proof -
  have "long_place t k < length (lbackbone t)"
    using assms by (simp add: lht_shape_def long_place_def)
  then show ?thesis by (simp add: as_table_def chain_find_map word_unat_eq_iff [symmetric])
qed

lemma lhtGet_as_table:
  assumes t: "lht_shape t" and g: "lhtGet t w k = (v, t', w')"
  shows "htGet (as_table t) w (unat (positive_key k)) = (v, as_table t', w')"
proof -
  let ?k = "positive_key k"
  let ?f = "chain_find (\<lambda>e. lkey e = ?k) (lbackbone t ! long_place t ?k)"
  show ?thesis
  proof (cases ?f)
    case None
    with g t show ?thesis
      by (simp add: Let_def lhtGet_def htGet_def htGetAt_def long_place_of find_as_table)
  next
    case (Some r)
    then obtain pre x post where r: "?f = Some (pre, x, post)" by (cases r) auto
    with g r t show ?thesis
      by (auto simp: lhtGet_def htGet_def htGetAt_def long_place_of find_as_table
          as_table_dequeue Let_def split: if_splits)
  qed
qed

lemma lhtPut_as_table:
  assumes t: "lht_shape t" and p: "lhtPut t w k v = Some (rc, t', w')"
  shows "htPut (as_table t) w (unat (positive_key k)) v = Some (rc, as_table t', w')"
proof -
  let ?k = "positive_key k"
  let ?f = "chain_find (\<lambda>e. lkey e = ?k) (lbackbone t ! long_place t ?k)"
  have len: "long_place t ?k < length (lbackbone t)"
    using t by (simp add: lht_shape_def long_place_def)
  show ?thesis
  proof (cases ?f)
    case None
    with p obtain a m h where al: "fbMgrAlloc (lmgr t) (wheap w) = Some (a, m, h)"
      and eq: "rc = 0" "w' = w\<lparr>wheap := h\<rparr>"
        "t' = t\<lparr>lmgr := m, lbackbone := (lbackbone t)[long_place t ?k :=
           \<lparr>laddr = a, lkey = ?k, lvalue = v\<rparr> # lbackbone t ! long_place t ?k]\<rparr>"
      by (auto simp: lhtPut_def Let_def split: option.splits)
    have "as_table t' = as_table t\<lparr>mgr := m, backbone := (backbone (as_table t))[long_place t ?k :=
        \<lparr>eaddr = a, ekey = unat ?k, evalue = v\<rparr> # backbone (as_table t) ! long_place t ?k]\<rparr>"
      using len by (simp add: eq as_table_def map_update as_entry_def)
    then show ?thesis
      using None al t by (simp add: htPut_def htPut2_def htPutAt_def long_place_of find_as_table eq)
  next
    case (Some r)
    then obtain pre x post where r: "?f = Some (pre, x, post)" by (cases r) auto
    have e: "as_entry x\<lparr>ekey := unat ?k, evalue := v\<rparr> = as_entry (x\<lparr>lkey := ?k, lvalue := v\<rparr>)"
      by (simp add: as_entry_def)
    have f: "chain_find (\<lambda>e. ekey e = unat ?k) (backbone (as_table t) ! long_place t ?k) =
        Some (map as_entry pre, as_entry x, map as_entry post)"
      using find_as_table [OF t, of ?k] r by simp
    have g: "htPut (as_table t) w (unat ?k) v =
       (if hook (lkeepEntry t) (lvalue x) then Some (2, as_table t, w)
        else Some (1, as_table t\<lparr>backbone := (backbone (as_table t))[long_place t ?k :=
          map as_entry pre @ as_entry (x\<lparr>lkey := ?k, lvalue := v\<rparr>) # map as_entry post]\<rparr>,
          log_if (lvalueReclaimer t) (ReclaimValue (lvalue x)) w))"
      using f unfolding htPut_def htPut2_def htPutAt_def long_place_of [OF t] same_key_as_table
      by (simp add: e)
    show ?thesis
      using p r by (auto simp: g lhtPut_def Let_def map_update split: if_splits)
  qed
qed

lemma lhtRemove_as_table:
  assumes t: "lht_shape t" and r: "lhtRemove t w k = (rc, t', w')"
  shows "htRemove (as_table t) w (unat (positive_key k)) = (rc, as_table t', w')"
proof -
  let ?k = "positive_key k"
  let ?f = "chain_find (\<lambda>e. lkey e = ?k) (lbackbone t ! long_place t ?k)"
  show ?thesis
  proof (cases ?f)
    case None
    with r t show ?thesis
      by (simp add: Let_def lhtRemove_def htRemove_def long_place_of find_as_table)
  next
    case (Some x)
    then show ?thesis using r t
      by (cases x) (auto simp: lhtRemove_def htRemove_def long_place_of find_as_table
          as_table_dequeue Let_def)
  qed
qed

subsection \<open>The table as a map from 63-bit keys\<close>

definition lht_inv :: "longHashtable \<Rightarrow> world \<Rightarrow> bool" where
  "lht_inv t w \<longleftrightarrow> lht_shape t \<and> ht_inv (as_table t) w"

definition lht_lookup :: "longHashtable \<Rightarrow> world \<Rightarrow> 64 word \<Rightarrow> ptr option" where
  "lht_lookup t w k = ht_lookup (as_table t) w (unat (positive_key k))"

definition lht_plain :: "longHashtable \<Rightarrow> bool" where
  "lht_plain t \<longleftrightarrow> lkeepEntry t = None \<and> lentryExpired t = None \<and> lremoveEntry t = None"

lemma no_hooks_as_table [simp]: "no_hooks (as_table t) = lht_plain t"
  by (simp add: no_hooks_def lht_plain_def)

lemma keys_ok_as_table: "keys_ok (as_table t) w"
  by (simp add: keys_ok_def)

lemma lht_inv_create:
  assumes "0 < hbrk (wheap w)" "0 < n" "n < 2 ^ 31"
  shows "lht_inv (lhtCreate n vr self) w" "lht_plain (lhtCreate n vr self)"
proof -
  have img: "as_table (lhtCreate n vr self) = htCreate n (Some (long_hash n)) None False vr self"
    by (simp add: as_table_def lhtCreate_def htCreate_def LONGHASHENTRY_SIZE_def HASHENTRY_SIZE_def)
  have k: "keys_ok (htCreate n (Some (long_hash n)) None False vr self) w"
    using keys_ok_as_table [of "lhtCreate n vr self" w] by (simp add: img)
  have "lht_shape (lhtCreate n vr self)" using assms by (simp add: lht_shape_def lhtCreate_def)
  with ht_inv_create [OF assms(1,2) k] show "lht_inv (lhtCreate n vr self) w"
    by (simp add: lht_inv_def img)
  show "lht_plain (lhtCreate n vr self)" by (simp add: lht_plain_def lhtCreate_def)
qed

lemma lhtPut_shape: "lhtPut t w k v = Some (rc, t', w') \<Longrightarrow> lht_shape t \<Longrightarrow> lht_shape t'"
  by (auto simp: lhtPut_def lht_shape_def Let_def split: option.splits if_splits)

lemma lhtDequeue_shape:
  "lhtDequeue t w i pre e post b = (t', w') \<Longrightarrow> lht_shape t \<Longrightarrow> lht_shape t'"
  by (auto simp: lhtDequeue_def lht_shape_def Let_def split: prod.splits)

lemma lhtRemove_shape: "lhtRemove t w k = (rc, t', w') \<Longrightarrow> lht_shape t \<Longrightarrow> lht_shape t'"
  by (auto simp: lhtRemove_def Let_def dest: lhtDequeue_shape split: option.splits)

lemma lht_put_map:
  assumes "lht_inv t w" "lht_plain t" "lhtPut t w k v = Some (rc, t', w')"
  shows "lht_inv t' w' \<and> lht_plain t' \<and> rc = (if lht_lookup t w k = None then 0 else 1) \<and>
    lht_lookup t' w' k' = (if positive_key k = positive_key k' then Some v else lht_lookup t w k')"
proof -
  from assms(1) have t: "lht_shape t" and inv: "ht_inv (as_table t) w" by (auto simp: lht_inv_def)
  have "keepEntry (as_table t) = None" using assms(2) by (simp add: lht_plain_def)
  note m = ht_put_map [OF inv this lhtPut_as_table [OF t assms(3)], of "unat (positive_key k')"]
  from m have "no_hooks (as_table t') = no_hooks (as_table t)" by (auto dest: same_fixedD(5))
  with m lhtPut_shape [OF assms(3) t] assms(2) show ?thesis
    by (simp add: lht_inv_def lht_lookup_def word_unat_eq_iff [symmetric])
qed

lemma lht_remove_map:
  assumes "lht_inv t w" "lhtRemove t w k = (rc, t', w')"
  shows "lht_inv t' w' \<and> lht_plain t' = lht_plain t \<and> (rc = 1 \<longleftrightarrow> lht_lookup t w k \<noteq> None) \<and>
    lht_lookup t' w' k' = (if positive_key k = positive_key k' then None else lht_lookup t w k')"
proof -
  from assms(1) have t: "lht_shape t" and inv: "ht_inv (as_table t) w" by (auto simp: lht_inv_def)
  note m = ht_remove_map [OF inv lhtRemove_as_table [OF t assms(2)], of "unat (positive_key k')"]
  from m have "no_hooks (as_table t') = no_hooks (as_table t)" by (auto dest: same_fixedD(5))
  with m lhtRemove_shape [OF assms(2) t] show ?thesis
    by (simp add: lht_inv_def lht_lookup_def word_unat_eq_iff [symmetric])
qed

lemma lht_get_map:
  assumes "lht_inv t w" "lht_plain t"
  shows "fst (lhtGet t w k) = (case lht_lookup t w k of None \<Rightarrow> NULL | Some v \<Rightarrow> v)"
proof -
  obtain v t' w' where g: "lhtGet t w k = (v, t', w')" by (metis prod.exhaust)
  have "lht_shape t" using assms(1) by (simp add: lht_inv_def)
  note m = lhtGet_as_table [OF this g]
  have "no_hooks (as_table t)" using assms(2) by simp
  from m [unfolded ht_get_map [OF this]]
  have "v = (case lht_lookup t w k of None \<Rightarrow> NULL | Some v \<Rightarrow> v)"
    unfolding lht_lookup_def by blast
  then show ?thesis by (simp add: g)
qed

definition lhs_find :: "longHashtable \<times> world \<Rightarrow> 64 word \<Rightarrow> ptr option" where
  "lhs_find s k = lht_lookup (fst s) (snd s) k"

definition lhs_put :: "longHashtable \<times> world \<Rightarrow> 64 word \<Rightarrow> ptr \<Rightarrow> (longHashtable \<times> world) option" where
  "lhs_put s k v = map_option snd (lhtPut (fst s) (snd s) k v)"

definition lhs_remove :: "longHashtable \<times> world \<Rightarrow> 64 word \<Rightarrow> longHashtable \<times> world" where
  "lhs_remove s k = snd (lhtRemove (fst s) (snd s) k)"

definition lhs_same :: "longHashtable \<times> world \<Rightarrow> 64 word \<Rightarrow> 64 word \<Rightarrow> bool" where
  "lhs_same s k k' = (positive_key k = positive_key k')"

definition lhs_sound :: "longHashtable \<times> world \<Rightarrow> bool" where
  "lhs_sound s \<longleftrightarrow> lht_inv (fst s) (snd s) \<and> lht_plain (fst s)"

interpretation lhs: keyed_store lhs_find lhs_put lhs_remove lhs_same lhs_sound
proof unfold_locales
  fix s :: "longHashtable \<times> world" and k k' v s'
  obtain t w where s: "s = (t, w)" by (cases s)
  { assume so: "lhs_sound s" and p: "lhs_put s k v = Some s'"
    obtain t' w' where s': "s' = (t', w')" by (cases s')
    from p obtain rc where "lhtPut t w k v = Some (rc, t', w')" by (auto simp: s s' lhs_put_def)
    from lht_put_map [OF _ _ this] so
    show "lhs_sound s' \<and> lhs_same s' = lhs_same s"
      and "lhs_find s' k' = (if lhs_same s k k' then Some v else lhs_find s k')"
      by (auto simp: s s' lhs_sound_def lhs_same_def lhs_find_def fun_eq_iff) }
  { assume so: "lhs_sound s"
    obtain rc t' w' where r: "lhtRemove t w k = (rc, t', w')" by (metis prod.exhaust)
    from lht_remove_map [OF _ r] so r
    show "lhs_sound (lhs_remove s k) \<and> lhs_same (lhs_remove s k) = lhs_same s"
      and "lhs_find (lhs_remove s k) k' = (if lhs_same s k k' then None else lhs_find s k')"
      by (auto simp: s lhs_sound_def lhs_same_def lhs_find_def lhs_remove_def fun_eq_iff) }
  show "lhs_same s k k" by (simp add: lhs_same_def)
qed

text \<open>After \<open>lhtPut(lhtCreate(3), 5, 8)\<close>.\<close>

definition demo_lht :: "nat \<times> longHashtable \<times> world" where
  "demo_lht = the (lhtPut (lhtCreate 3 True 0) demo_world 5 8)"

lemma demo_lht_row: "(replicate 3 [])[2 := x] = [[], [], x]" "replicate 3 [] ! 2 = []"
  by (simp_all add: numeral_eq_Suc)

lemma demo_lht_facts:
  "lhtPut (lhtCreate 3 True 0) demo_world 5 8 = Some demo_lht"
  "lbackbone (fst (snd demo_lht)) = [[], [], [\<lparr>laddr = 72, lkey = 5, lvalue = 8\<rparr>]]"
  "lkeepEntry (fst (snd demo_lht)) = None" "lbackboneSize (fst (snd demo_lht)) = 3"
  by (simp_all add: demo_lht_def lhtPut_def lhtCreate_def demo_world_def fbMgrAlloc_def
      fbMgrExtend_def fbMgrCreate_def safeMalloc_def demo_heap_def FB_HEADER_LENGTH_def
      LONGHASHENTRY_SIZE_def positive_key_def long_place_def demo_lht_row)

lemma demo_lht_put1:
  "lhtPut (lhtCreate 3 True 0) demo_world 5 8 =
     Some (fst demo_lht, fst (snd demo_lht), snd (snd demo_lht))"
  by (simp add: demo_lht_facts)

lemma demo_lht_put2:
  "\<exists>t' w'. lhtPut (fst (snd demo_lht)) (snd (snd demo_lht)) 0x8000000000000005 9 = Some (1, t', w')"
  by (simp add: lhtPut_def demo_lht_facts hook_def positive_key_def long_place_def)

subsection \<open>Properties\<close>

text \<open>
  C8. Storing a list of pairs into a 64-bit table without hooks and then looking a key up
  gives the last value stored under a key that equals it up to the sign bit, or what was there
  before: the sign bit of the key never matters and no other key is disturbed.
\<close>

theorem lhtPut_all_then_lhtGet:
  assumes "lht_inv t w" "lht_plain t" "lhs.put_all (t, w) kvs = Some (t', w')"
  shows "fst (lhtGet t' w' k) =
    (case lhs.last_value (\<lambda>a b. positive_key a = positive_key b) (lht_lookup t w k) kvs k of
       None \<Rightarrow> NULL | Some v \<Rightarrow> v) \<and> lht_inv t' w'"
proof -
  have so: "lhs_sound (t, w)" using assms(1,2) by (simp add: lhs_sound_def)
  have "lhs_same (t, w) = (\<lambda>a b. positive_key a = positive_key b)"
    by (simp add: lhs_same_def fun_eq_iff)
  with lhs.find_put_all [OF so assms(3), of k] show ?thesis
    by (simp add: lhs_sound_def lhs_find_def lht_get_map)
qed

theorem lhtPut_all_then_lhtGet_witness:
  "\<exists>t' w'. lhs.put_all (lhtCreate 3 True 0, demo_world) [(5, 8), (0x8000000000000005, 9)] = Some (t', w') \<and>
    fst (lhtGet t' w' 5) = 9"
proof -
  have e: "\<exists>t' w'. lhs.put_all (lhtCreate 3 True 0, demo_world)
      [(5, 8), (0x8000000000000005, 9)] = Some (t', w')"
    using demo_lht_put1 demo_lht_put2 by (auto simp: lhs_put_def)
  then obtain t' w' where
    p: "lhs.put_all (lhtCreate 3 True 0, demo_world) [(5, 8), (0x8000000000000005, 9)] = Some (t', w')"
    by blast
  have "lht_inv (lhtCreate 3 True 0) demo_world" "lht_plain (lhtCreate 3 True 0)"
    using lht_inv_create [of demo_world 3] by (simp_all add: demo_world_def)
  from lhtPut_all_then_lhtGet [OF this p, of 5] p show ?thesis
    by (simp add: positive_key_def)
qed

text \<open>
  C9. The 64-bit table is the general table with keys as pointers: every put has the result,
  the calls to the reclaimer, the allocations and the chains of \<open>htPut\<close> on the image of the
  table, with any hooks.
\<close>

theorem lhtPut_refines_htPut:
  assumes "lht_shape t"
  shows "htPut (as_table t) w (unat (positive_key k)) v =
    map_option (\<lambda>(rc, t', w'). (rc, as_table t', w')) (lhtPut t w k v)"
proof (cases "lhtPut t w k v")
  case (Some r)
  then show ?thesis
    using lhtPut_as_table [OF assms] by (cases r) simp
next
  case None
  then have "chain_find (\<lambda>e. lkey e = positive_key k) (lbackbone t ! long_place t (positive_key k)) = None"
    and "fbMgrAlloc (lmgr t) (wheap w) = None"
    by (auto simp: lhtPut_def Let_def split: option.splits if_splits)
  then show ?thesis using None assms
    by (simp add: htPut_def htPut2_def htPutAt_def long_place_of find_as_table)
qed

theorem lhtPut_refines_htPut_witness:
  "htPut (as_table (lhtCreate 3 True 0)) demo_world (unat (positive_key 5)) 8 =
    map_option (\<lambda>(rc, t', w'). (rc, as_table t', w')) (lhtPut (lhtCreate 3 True 0) demo_world 5 8)"
  by (rule lhtPut_refines_htPut) (simp add: lht_shape_def lhtCreate_def)

end
