(* ===== verification/LRU.thy ===== *)
theory LRU
  imports HashTable
begin

section \<open>The LRU cache\<close>

text \<open>
  \<open>LRUCache\<close> of \<open>c/collections.c\<close>: a hash table from 16-byte digests to elements, and the
  elements on a doubly linked list from the newest to the oldest. \<open>elements\<close> gives the
  linked fields at an element's address; its digest, which is the key the table points to, is
  behind the pointer \<open>element + DIGEST_OFFSET\<close>. The trace output is left out. A null pointer
  that the code would follow is \<open>None\<close> where storage ran out; elsewhere the invariant
  excludes it.
\<close>

record lruElement =
  newer :: ptr
  older :: ptr
  data :: ptr

type_synonym elements = "ptr \<Rightarrow> lruElement"

record lruCache =
  csize :: int
  ccount :: int
  oldest :: ptr
  newest :: ptr
  cht :: hashtable

definition DIGEST_OFFSET :: nat where
  "DIGEST_OFFSET = 16"

definition LRUELEMENT_SIZE :: nat where
  "LRUELEMENT_SIZE = 40"

definition LRUCACHE_SIZE :: nat where
  "LRUCACHE_SIZE = 56"

definition digest_of :: "ptr \<Rightarrow> ptr" where
  "digest_of e = e + DIGEST_OFFSET"

definition set_newer :: "ptr \<Rightarrow> ptr \<Rightarrow> elements \<Rightarrow> elements" where
  "set_newer e p E = E(e := (E e)\<lparr>newer := p\<rparr>)"

definition set_older :: "ptr \<Rightarrow> ptr \<Rightarrow> elements \<Rightarrow> elements" where
  "set_older e p E = E(e := (E e)\<lparr>older := p\<rparr>)"

definition set_data :: "ptr \<Rightarrow> ptr \<Rightarrow> elements \<Rightarrow> elements" where
  "set_data e p E = E(e := (E e)\<lparr>data := p\<rparr>)"

text \<open>\<open>memcpy(element->digest, digest, LRU_DIGEST_LENGTH)\<close>\<close>

definition copy_digest :: "ptr \<Rightarrow> ptr \<Rightarrow> world \<Rightarrow> world" where
  "copy_digest e digest w =
     w\<lparr>wbytes := (wbytes w)(digest_of e := take LRU_DIGEST_LENGTH (wbytes w digest))\<rparr>"

definition makeLRUCache :: "int \<Rightarrow> ptr \<Rightarrow> lruCache" where
  "makeLRUCache n self =
     \<lparr>csize = n, ccount = 0, oldest = NULL, newest = NULL,
      cht = htCreate 257 (Some digestHash) (Some digestCompare) False False self\<rparr>"

definition lruCacheDestroyVisitor :: "world \<Rightarrow> ptr \<times> ptr \<Rightarrow> world" where
  "lruCacheDestroyVisitor w kv = w\<lparr>wheap := safeFree (snd kv) LRUELEMENT_SIZE (wheap w)\<rparr>"

definition destroyLRUCache :: "ptr \<Rightarrow> ptr \<Rightarrow> ptr \<Rightarrow> ptr \<Rightarrow> lruCache \<Rightarrow> world \<Rightarrow> world option" where
  "destroyLRUCache self htAddr mgrAddr backboneAddr cache w =
     (let w1 = foldl lruCacheDestroyVisitor w (htMap (cht cache)) in
      case htDestroy htAddr mgrAddr backboneAddr (cht cache) w1 of
        None \<Rightarrow> None
      | Some w2 \<Rightarrow> Some (w2\<lparr>wheap := safeFree self LRUCACHE_SIZE (wheap w2)\<rparr>))"

definition lruGet :: "lruCache \<Rightarrow> elements \<Rightarrow> world \<Rightarrow> ptr \<Rightarrow> ptr \<times> lruCache \<times> world" where
  "lruGet cache E w digest =
     (let (element, ht, w1) = htGet (cht cache) w digest in
      (if element \<noteq> NULL then data (E element) else NULL, cache\<lparr>cht := ht\<rparr>, w1))"

text \<open>The branches of \<open>lruStore\<close>: an element that is already cached, in the order of the
  assignments of the code,\<close>

definition lruRecache :: "lruCache \<Rightarrow> elements \<Rightarrow> ptr \<Rightarrow> lruCache \<times> elements" where
  "lruRecache cache E existing =
     (if existing = newest cache then (cache, E)
      else if existing = oldest cache then
        let newOldest = newer (E (oldest cache));
            E1 = set_newer existing NULL E;
            E2 = (if ccount cache = 2 then set_newer newOldest existing E1
                  else set_newer (newest cache) existing E1);
            E3 = set_older existing (newest cache) E2;
            E4 = set_older newOldest NULL E3
        in (cache\<lparr>oldest := newOldest, newest := existing\<rparr>, E4)
      else
        let prev = older (E existing);
            next = newer (E existing);
            E1 = set_newer existing NULL E;
            E2 = set_older existing (newest cache) E1;
            E3 = set_newer (newest cache) existing E2;
            E4 = set_newer prev next E3;
            E5 = set_older next prev E4
        in (cache\<lparr>newest := existing\<rparr>, E5))"

text \<open>a new element while there is room,\<close>

definition allocLRUElement :: "lruCache \<Rightarrow> elements \<Rightarrow> world \<Rightarrow>
    ptr \<times> lruCache \<times> elements \<times> world" where
  "allocLRUElement cache E w =
     (if ccount cache < csize cache
      then let (p, h) = safeMalloc LRUELEMENT_SIZE (wheap w)
           in (p, cache\<lparr>ccount := ccount cache + 1\<rparr>,
               E(p := \<lparr>newer = NULL, older = NULL, data = NULL\<rparr>), w\<lparr>wheap := h\<rparr>)
      else (NULL, cache, E, w))"

type_synonym lru_result = "(ptr \<times> lruCache \<times> elements \<times> world) option"

definition lruAdd :: "lruCache \<Rightarrow> elements \<Rightarrow> world \<Rightarrow> ptr \<Rightarrow> ptr \<Rightarrow> lru_result" where
  "lruAdd cache0 E0 w0 digest thing =
     (let (newElement, cache, E1, w1) = allocLRUElement cache0 E0 w0 in
      if newElement = NULL then None
      else
        let w2 = copy_digest newElement digest w1;
            E2 = set_newer newElement NULL (set_data newElement thing E1);
            (cache2, E3) =
              (if oldest cache \<noteq> NULL \<and> newest cache \<noteq> NULL then
                 let oldNewest = newest cache;
                     Ea = set_older newElement (newest cache) E2
                 in (cache\<lparr>newest := newElement\<rparr>, set_newer oldNewest newElement Ea)
               else (cache\<lparr>newest := newElement, oldest := newElement\<rparr>,
                     set_older newElement NULL E2))
        in case htPut (cht cache2) w2 (digest_of newElement) newElement of
             None \<Rightarrow> None
           | Some (_, ht, w3) \<Rightarrow> Some (NULL, cache2\<lparr>cht := ht\<rparr>, E3, w3))"

text \<open>the oldest element recycled in a full cache,\<close>

definition lruRecycle :: "lruCache \<Rightarrow> elements \<Rightarrow> world \<Rightarrow> ptr \<Rightarrow> ptr \<Rightarrow> lru_result" where
  "lruRecycle cache E w0 digest thing =
     (let oldOldest = oldest cache;
          oldNewest = newest cache;
          secondOldest = newer (E oldOldest);
          (recycled, ht0, w1) = htGet (cht cache) w0 (digest_of oldOldest);
          decached = data (E recycled);
          (_, ht1, w2) = htRemove ht0 w1 (digest_of oldOldest);
          w3 = copy_digest recycled digest w2;
          E1 = set_older recycled oldNewest (set_newer recycled NULL (set_data recycled thing E));
          E2 = set_newer oldNewest recycled E1;
          E3 = set_older secondOldest NULL E2
      in case htPut ht1 w3 (digest_of recycled) recycled of
           None \<Rightarrow> None
         | Some (_, ht2, w4) \<Rightarrow>
             Some (decached, cache\<lparr>newest := recycled, oldest := secondOldest, cht := ht2\<rparr>, E3, w4))"

text \<open>and the only element recycled in a cache of size one.\<close>

definition lruRecycleOnly :: "lruCache \<Rightarrow> elements \<Rightarrow> world \<Rightarrow> ptr \<Rightarrow> ptr \<Rightarrow> lru_result" where
  "lruRecycleOnly cache E w0 digest thing =
     (let recycled = oldest cache;
          decached = data (E recycled);
          (_, ht1, w1) = htRemove (cht cache) w0 (digest_of recycled);
          w2 = copy_digest recycled digest w1;
          E1 = set_data recycled thing E
      in case htPut ht1 w2 (digest_of recycled) recycled of
           None \<Rightarrow> None
         | Some (_, ht2, w3) \<Rightarrow> Some (decached, cache\<lparr>cht := ht2\<rparr>, E1, w3))"

definition lruStore :: "lruCache \<Rightarrow> elements \<Rightarrow> world \<Rightarrow> ptr \<Rightarrow> ptr \<Rightarrow> lru_result" where
  "lruStore cache0 E w0 digest thing =
     (let (existing, ht, w) = htGet (cht cache0) w0 digest; cache = cache0\<lparr>cht := ht\<rparr> in
      if existing \<noteq> NULL then
        let (cache', E') = lruRecache cache E existing in Some (NULL, cache', E', w)
      else if ccount cache < csize cache then lruAdd cache E w digest thing
      else if 2 \<le> csize cache then lruRecycle cache E w digest thing
      else if csize cache = 1 then lruRecycleOnly cache E w digest thing
      else Some (NULL, cache, E, w))"

subsection \<open>Doubly linked lists\<close>

text \<open>\<open>links f xs q\<close>: following \<open>f\<close> visits the members of \<open>xs\<close> in order and then \<open>q\<close>.\<close>

definition first :: "ptr list \<Rightarrow> ptr \<Rightarrow> ptr" where
  "first xs q = (case xs of [] \<Rightarrow> q | x # _ \<Rightarrow> x)"

fun links :: "(ptr \<Rightarrow> ptr) \<Rightarrow> ptr list \<Rightarrow> ptr \<Rightarrow> bool" where
  "links f [] q = True"
| "links f (x # xs) q = (f x = first xs q \<and> links f xs q)"

lemma first_simps [simp]:
  "first [] q = q" "first (x # xs) q = x" "first (xs @ ys) q = first xs (first ys q)"
  by (auto simp: first_def split: list.split)

lemma first_hd: "xs \<noteq> [] \<Longrightarrow> first xs q = hd xs"
  by (cases xs) auto

lemma links_append [simp]:
  "links f (xs @ ys) q \<longleftrightarrow> links f xs (first ys q) \<and> links f ys q"
  by (induction xs) auto

lemma links_upd [simp]:
  "a \<notin> set xs \<Longrightarrow> links (\<lambda>e. if e = a then v else f e) xs q = links f xs q"
  by (induction xs) auto

lemma links_snoc_retarget: "links f (xs @ [x]) q \<Longrightarrow> links f xs x"
  by simp

lemma links_cong: "(\<And>x. x \<in> set xs \<Longrightarrow> f x = g x) \<Longrightarrow> links f xs q = links g xs q"
  by (induction xs) auto

definition dll :: "lruCache \<Rightarrow> elements \<Rightarrow> ptr list \<Rightarrow> bool" where
  "dll cache E es \<longleftrightarrow>
     distinct es \<and> NULL \<notin> set es \<and>
     newest cache = first es NULL \<and> oldest cache = first (rev es) NULL \<and>
     links (\<lambda>e. older (E e)) es NULL \<and> links (\<lambda>e. newer (E e)) (rev es) NULL"

lemma field_upd_at [simp]:
  "newer (set_newer a p E e) = (if e = a then p else newer (E e))"
  "older (set_newer a p E e) = older (E e)" "data (set_newer a p E e) = data (E e)"
  "older (set_older a p E e) = (if e = a then p else older (E e))"
  "newer (set_older a p E e) = newer (E e)" "data (set_older a p E e) = data (E e)"
  "data (set_data a p E e) = (if e = a then p else data (E e))"
  "newer (set_data a p E e) = newer (E e)" "older (set_data a p E e) = older (E e)"
  by (auto simp: set_newer_def set_older_def set_data_def)

lemma list_ends: "xs \<noteq> [] \<Longrightarrow> (\<exists>a. xs = [a]) \<or> (\<exists>a ms b. xs = a # ms @ [b])"
  by (cases xs; simp) (metis append_butlast_last_id)

lemma recache_newest: "dll c E (e # ys) \<Longrightarrow> lruRecache c E e = (c, E)"
  by (simp add: dll_def lruRecache_def)

text \<open>What a step leaves alone.\<close>

definition same_data_on :: "elements \<Rightarrow> elements \<Rightarrow> ptr list \<Rightarrow> bool" where
  "same_data_on E E' es \<longleftrightarrow> (\<forall>x \<in> set es. data (E' x) = data (E x))"

definition same_data :: "elements \<Rightarrow> elements \<Rightarrow> bool" where
  "same_data E E' \<longleftrightarrow> (\<forall>x. data (E' x) = data (E x))"

lemma recache_oldest:
  assumes d: "dll c E (xs @ [e])" and ne: "xs \<noteq> []" and n: "ccount c = int (length (xs @ [e]))"
  shows "fst (lruRecache c E e) = c\<lparr>newest := e, oldest := last xs\<rparr> \<and>
    dll (c\<lparr>newest := e, oldest := last xs\<rparr>) (snd (lruRecache c E e)) (e # xs) \<and>
    same_data E (snd (lruRecache c E e))"
proof -
  from list_ends [OF ne] show ?thesis
  proof (elim disjE exE)
    fix a assume xs: "xs = [a]"
    then show ?thesis using d n
      by (simp add: dll_def lruRecache_def Let_def same_data_def)
  next
    fix a ms b assume xs: "xs = a # ms @ [b]"
    then have c: "ccount c \<noteq> 2" using n by simp
    have ends: "newest c = a" "oldest c = e" "newer (E e) = b" "e \<noteq> a"
      using d xs by (auto simp: dll_def)
    have r: "lruRecache c E e = (c\<lparr>oldest := b, newest := e\<rparr>,
        set_older b NULL (set_older e a (set_newer a e (set_newer e NULL E))))"
      by (simp add: lruRecache_def Let_def ends c)
    have "dll (c\<lparr>newest := e, oldest := b\<rparr>)
        (set_older b NULL (set_older e a (set_newer a e (set_newer e NULL E)))) (e # xs)"
      using d unfolding dll_def xs by (intro conjI; simp)
    then show ?thesis by (simp add: r xs same_data_def)
  qed
qed

lemma recache_middle:
  assumes d: "dll c E (xs @ e # ys)" and ne: "xs \<noteq> []" "ys \<noteq> []"
  shows "fst (lruRecache c E e) = c\<lparr>newest := e\<rparr> \<and>
    dll (c\<lparr>newest := e\<rparr>) (snd (lruRecache c E e)) (e # xs @ ys) \<and>
    same_data E (snd (lruRecache c E e))"
proof -
  let ?a = "hd xs" and ?b = "last xs"
  from ne(2) obtain p zs where ys: "ys = p # zs" by (cases ys) auto
  obtain ms b where snoc: "xs = ms @ [b]" using ne(1) by (cases xs rule: rev_cases) auto
  have ends: "newest c = ?a" "oldest c = last ys"
    using d ne by (simp_all add: dll_def first_hd hd_rev)
  have links: "older (E e) = p" "newer (E e) = ?b"
    using d by (simp_all add: dll_def ys snoc)
  have "?a \<in> set xs" "last ys \<in> set ys" using ne by simp_all
  then have not_end: "e \<noteq> newest c" "e \<noteq> oldest c"
    using d by (auto simp: dll_def ends)
  have r: "lruRecache c E e = (c\<lparr>newest := e\<rparr>,
      set_older ?b p (set_newer p ?b (set_newer ?a e (set_older e ?a (set_newer e NULL E)))))"
    (is "_ = (_, ?E)") using not_end by (simp add: lruRecache_def links ends Let_def)
  have "dll (c\<lparr>newest := e\<rparr>) ?E (e # xs @ ys)"
    using list_ends [OF ne(1)] d
    by (elim disjE exE; unfold dll_def ys; hypsubst; intro conjI; simp)
  then show ?thesis by (simp add: r same_data_def)
qed

text \<open>Adding in front, taking the oldest away, recycling the oldest as the newest.\<close>

lemma dll_push:
  assumes "dll c E es" "e \<notin> set es" "e \<noteq> NULL" "es \<noteq> []"
  shows "dll (c\<lparr>newest := e\<rparr>) (set_newer (newest c) e (set_older e (newest c) (set_newer e NULL E))) (e # es)"
proof -
  from list_ends [OF assms(4)] assms(1-3) show ?thesis
    by (elim disjE exE; unfold dll_def; hypsubst; intro conjI; simp)
qed

lemma dll_rotate:
  assumes "dll c E (xs @ [e])" "xs \<noteq> []"
  shows "dll (c\<lparr>newest := e, oldest := last xs\<rparr>)
    (set_older (last xs) NULL (set_newer (newest c) e (set_older e (newest c) (set_newer e NULL E))))
    (e # xs)"
proof -
  from list_ends [OF assms(2)] assms(1) show ?thesis
    by (elim disjE exE; unfold dll_def; hypsubst; intro conjI; simp)
qed

lemma dll_newest_oldest:
  assumes "dll c E (xs @ [e])" "xs \<noteq> []"
  shows "oldest c = e" "newer (E e) = last xs" "newest c \<noteq> e"
  using list_ends [OF assms(2)] assms(1) by (auto simp: dll_def)

lemma dll_cong_data: "dll c (set_data x p E) es = dll c E es"
  by (simp add: dll_def)

lemma dll_cong_cache:
  "newest c' = newest c \<Longrightarrow> oldest c' = oldest c \<Longrightarrow> dll c' E es = dll c E es"
  by (simp add: dll_def)

lemma dll_cacheI:
  "dll c E es \<Longrightarrow> newest c' = newest c \<Longrightarrow> oldest c' = oldest c \<Longrightarrow> dll c' E es"
  by (simp add: dll_def)

subsection \<open>Entries of the table and lookups\<close>

definition ht_entries :: "hashtable \<Rightarrow> (ptr \<times> ptr) set" where
  "ht_entries ht = (\<lambda>e. (ekey e, evalue e)) ` set (concat (backbone ht))"

lemma nth_subset_concat: "i < length xss \<Longrightarrow> set (xss ! i) \<subseteq> set (concat xss)"
  using nth_mem [of i xss] by (auto simp del: nth_mem)

lemma ht_entries_lookup:
  assumes "ht_inv ht w" "(k, v) \<in> ht_entries ht"
  shows "ht_lookup ht w k = Some v"
proof -
  from assms(2) obtain c e where e: "e \<in> set c" "c \<in> set (backbone ht)" "ekey e = k" "evalue e = v"
    by (auto simp: ht_entries_def)
  from e(2) obtain i where i: "i < length (backbone ht)" "backbone ht ! i = c"
    by (auto simp: in_set_conv_nth)
  from assms(1) have k: "keys_ok ht w" and c: "chain_ok ht w i c"
    using i by (auto simp: ht_inv_def ht_mem_def ht_keys_def)
  from e(1) obtain pre post where c': "c = pre @ e # post" by (auto simp: in_set_conv_decomp)
  have p: "place_of ht w k = i" using c e by (auto simp: chain_ok_def)
  have "\<not> key_same ht w (ekey y) k" if "y \<in> set pre" for y
    using chain_ok_middle [OF k c [unfolded c'], of y] that e(3) by simp
  then have "first_value (\<lambda>x. key_same ht w (ekey x) k) pre = None"
    by (simp add: first_value_None_iff)
  then show ?thesis
    using e(3,4) keys_okD(1) [OF k] p i by (simp add: ht_lookup_def c' first_value_append)
qed

lemma ht_lookup_entry:
  assumes "ht_inv ht w" "ht_lookup ht w k = Some v"
  shows "\<exists>k'. (k', v) \<in> ht_entries ht \<and> key_same ht w k' k"
proof -
  have "place_of ht w k < length (backbone ht)"
    using assms(1) by (simp add: ht_inv_def ht_mem_def place_of_less)
  then have s: "set (backbone ht ! place_of ht w k) \<subseteq> set (concat (backbone ht))"
    by (rule nth_subset_concat)
  from assms(2) obtain pre x post
    where "chain_find (\<lambda>e. key_same ht w (ekey e) k) (backbone ht ! place_of ht w k) = Some (pre, x, post)"
      and v: "evalue x = v"
    by (auto simp: ht_lookup_def first_value_find)
  then have "x \<in> set (backbone ht ! place_of ht w k)" "key_same ht w (ekey x) k"
    by (auto simp: chain_find_Some_iff)
  with s v show ?thesis by (auto simp: ht_entries_def intro!: exI [of _ "ekey x"])
qed

lemma concat_update_subset:
  "set (concat (xss[i := c])) \<subseteq> set (concat xss) \<union> set c"
  by (auto dest!: subsetD [OF set_update_subset_insert])

lemma ht_put_entries:
  assumes "htPut ht w k v = Some (rc, ht', w')" "place_of ht w k < length (backbone ht)"
  shows "ht_entries ht' \<subseteq> insert (k, v) (ht_entries ht)"
proof -
  have nth: "set (backbone ht ! place_of ht w k) \<subseteq> set (concat (backbone ht))"
    using assms(2) by (rule nth_subset_concat)
  show ?thesis
    using assms(1) nth concat_update_subset
    by (fastforce simp: htPut_def htPut2_def htPutAt_def ht_entries_def Let_def chain_find_Some_iff
        split: option.splits if_splits)
qed

lemma dequeue_entries:
  assumes "htDequeue ht w i pre x post b = (ht', w')" "i < length (backbone ht)"
    "backbone ht ! i = pre @ x # post"
  shows "ht_entries ht' \<subseteq> ht_entries ht"
proof -
  have "set (backbone ht ! i) \<subseteq> set (concat (backbone ht))"
    using assms(2) by (rule nth_subset_concat)
  then have "set (concat ((backbone ht)[i := pre @ post])) \<subseteq> set (concat (backbone ht))"
    using concat_update_subset [of "backbone ht" i "pre @ post"] assms(3) by auto
  then show ?thesis
    unfolding ht_entries_def dequeue_same_fixed(2) [OF assms(1)] by (rule image_mono)
qed

lemma ht_remove_entries:
  assumes "htRemove ht w k = (rc, ht', w')" "place_of ht w k < length (backbone ht)"
  shows "ht_entries ht' \<subseteq> ht_entries ht"
proof (cases "chain_find (\<lambda>e. key_same ht w (ekey e) k) (backbone ht ! place_of ht w k)")
  case None
  with assms(1) show ?thesis by (simp add: htRemove_def Let_def)
next
  case (Some r)
  then obtain pre x post where r: "r = (pre, x, post)" by (cases r)
  with Some assms(1) have "htDequeue ht w (place_of ht w k) pre x post True = (ht', w')"
    by (simp add: htRemove_def Let_def)
  from dequeue_entries [OF this assms(2)] Some r show ?thesis
    by (simp add: chain_find_Some_iff)
qed

lemma ht_put_brk: "htPut ht w k v = Some (rc, ht', w') \<Longrightarrow> hbrk (wheap w) \<le> hbrk (wheap w')"
  using safeMalloc_brk_mono
  by (auto simp: htPut_def htPut2_def htPutAt_def Let_def fbMgrAlloc_def fbMgrExtend_def
      split: option.splits if_splits prod.splits)

lemma ht_remove_brk: "htRemove ht w k = (rc, ht', w') \<Longrightarrow> hbrk (wheap w') = hbrk (wheap w)"
  by (auto simp: htRemove_def htDequeue_def fbMgrFree_def Let_def split: option.splits)

lemma ht_lookup_same:
  assumes "keys_ok ht w" "key_same ht w a b"
  shows "ht_lookup ht w a = ht_lookup ht w b"
proof -
  have "(\<lambda>e. key_same ht w (ekey e) a) = (\<lambda>e. key_same ht w (ekey e) b)"
    using keys_okD(2,3) [OF assms(1)] assms(2) by blast
  then show ?thesis unfolding ht_lookup_def keys_okD(4) [OF assms] by (rule arg_cong)
qed

subsection \<open>The table of a cache\<close>

definition digest_at :: "world \<Rightarrow> ptr \<Rightarrow> byte list" where
  "digest_at w p = take LRU_DIGEST_LENGTH (wbytes w p)"

definition digest_table :: "hashtable \<Rightarrow> bool" where
  "digest_table ht \<longleftrightarrow> no_hooks ht \<and> hashFunction ht = Some digestHash \<and>
     comparator ht = Some digestCompare"

definition table_ok :: "hashtable \<Rightarrow> world \<Rightarrow> ptr list \<Rightarrow> bool" where
  "table_ok ht w es \<longleftrightarrow>
     ht_inv ht w \<and> digest_table ht \<and>
     (\<forall>(k, v) \<in> ht_entries ht. k = digest_of v \<and> v \<in> set es) \<and>
     (\<forall>e \<in> set es. ht_lookup ht w (digest_of e) = Some e \<and>
        0 < e \<and> e + LRUELEMENT_SIZE \<le> hbrk (wheap w))"

lemma digest_of_inj [simp]: "digest_of a = digest_of b \<longleftrightarrow> a = b"
  by (simp add: digest_of_def)

lemma table_okD:
  assumes "table_ok ht w es"
  shows "ht_inv ht w" "digest_table ht" "keys_ok ht w"
    "(k, v) \<in> ht_entries ht \<Longrightarrow> k = digest_of v \<and> v \<in> set es"
    "e \<in> set es \<Longrightarrow> ht_lookup ht w (digest_of e) = Some e"
    "e \<in> set es \<Longrightarrow> 0 < e \<and> e + LRUELEMENT_SIZE \<le> hbrk (wheap w)"
  using assms by (auto simp: table_ok_def ht_inv_def ht_keys_def)

lemma digest_table_same:
  "digest_table ht \<Longrightarrow> key_same ht w a b \<longleftrightarrow> digest_at w a = digest_at w b"
  by (simp add: digest_table_def key_same_def digestCompare_def digest_at_def)

lemma table_lookup_iff:
  assumes "table_ok ht w es"
  shows "ht_lookup ht w k = Some e \<longleftrightarrow> e \<in> set es \<and> digest_at w (digest_of e) = digest_at w k"
proof
  assume "ht_lookup ht w k = Some e"
  from ht_lookup_entry [OF table_okD(1) [OF assms] this] table_okD(4) [OF assms]
  show "e \<in> set es \<and> digest_at w (digest_of e) = digest_at w k"
    using digest_table_same [OF table_okD(2) [OF assms]] by blast
next
  assume e: "e \<in> set es \<and> digest_at w (digest_of e) = digest_at w k"
  then have "key_same ht w (digest_of e) k"
    using digest_table_same [OF table_okD(2) [OF assms]] by simp
  from ht_lookup_same [OF table_okD(3) [OF assms] this] table_okD(5) [OF assms] e
  show "ht_lookup ht w k = Some e" by simp
qed

lemma table_digests_inj:
  assumes "table_ok ht w es" "a \<in> set es" "b \<in> set es"
  shows "digest_at w (digest_of a) = digest_at w (digest_of b) \<longleftrightarrow> a = b"
  using table_lookup_iff [OF assms(1), of "digest_of b"] assms(2,3) table_okD(5) [OF assms(1)]
  by (metis option.inject)

lemma table_get:
  assumes "table_ok ht w es"
  shows "htGet ht w k = (case ht_lookup ht w k of None \<Rightarrow> NULL | Some v \<Rightarrow> v, ht, w)"
  using table_okD(2) [OF assms] by (intro ht_get_map) (simp add: digest_table_def)

lemma table_place: "table_ok ht w es \<Longrightarrow> place_of ht w k < length (backbone ht)"
  using table_okD(1) by (simp add: ht_inv_def ht_mem_def place_of_less)

text \<open>Taking an element out of the table.\<close>

lemma table_remove:
  assumes t: "table_ok ht w (xs @ [e])" and d: "distinct (xs @ [e])"
    and r: "htRemove ht w (digest_of e) = (rc, ht', w')"
  shows "table_ok ht' w' xs \<and> wbytes w' = wbytes w \<and> hbrk (wheap w') = hbrk (wheap w)"
proof -
  note m = ht_remove_map [OF table_okD(1) [OF t] r]
  then have fx: "same_fixed ht w ht' w'" and inv: "ht_inv ht' w'" by auto
  note same = digest_table_same [OF table_okD(2) [OF t]]
  have dt: "digest_table ht'"
    using table_okD(2) [OF t] same_fixedD(1,2,5) [OF fx] by (simp add: digest_table_def)
  have gone: "ht_lookup ht' w' (digest_of e) = None"
    using m [of "digest_of e"] by (simp add: same)
  have entries: "k = digest_of v \<and> v \<in> set xs" if "(k, v) \<in> ht_entries ht'" for k v
  proof -
    have "(k, v) \<in> ht_entries ht"
      using ht_remove_entries [OF r table_place [OF t]] that by blast
    from table_okD(4) [OF t this] have "k = digest_of v" "v = e \<or> v \<in> set xs" by auto
    with ht_entries_lookup [OF inv that] gone show ?thesis by auto
  qed
  have look: "ht_lookup ht' w' (digest_of x) = Some x" if "x \<in> set xs" for x
  proof -
    have "x \<noteq> e" using d that by auto
    with table_digests_inj [OF t, of e x] that
    have "\<not> key_same ht w (digest_of e) (digest_of x)" by (simp add: same)
    with m [of "digest_of x"] table_okD(5) [OF t, of x] that show ?thesis by simp
  qed
  have "\<forall>x \<in> set xs. 0 < x \<and> x + LRUELEMENT_SIZE \<le> hbrk (wheap w')"
    using table_okD(6) [OF t] ht_remove_brk [OF r] by simp
  with inv dt entries look ht_remove_brk [OF r] same_fixedD(4) [OF fx] show ?thesis
    by (auto simp: table_ok_def)
qed

text \<open>Writing a digest that no entry points to.\<close>

lemma digest_write:
  assumes inv: "ht_inv ht w" and dt: "digest_table ht"
    and free: "\<And>k v. (k, v) \<in> ht_entries ht \<Longrightarrow> k \<noteq> p"
    and w': "w' = w\<lparr>wbytes := (wbytes w)(p := b)\<rparr>"
  shows "ht_inv ht w'" "k \<noteq> p \<Longrightarrow> ht_lookup ht w' k = ht_lookup ht w k"
proof -
  have place: "place_of ht w' k = place_of ht w k" if "k \<noteq> p" for k
    using dt that by (simp add: place_of_def hash_of_def digest_table_def digestHash_def w')
  have same: "key_same ht w' a b = key_same ht w a b" if "a \<noteq> p" "b \<noteq> p" for a b
    using that by (simp add: digest_table_same [OF dt] digest_at_def w')
  have key: "ekey e \<noteq> p" if "e \<in> set (backbone ht ! i)" "i < backboneSize ht" for e i
  proof -
    have "e \<in> set (concat (backbone ht))"
      using nth_subset_concat [of i "backbone ht"] that inv by (auto simp: ht_inv_def ht_mem_def)
    then have "(ekey e, evalue e) \<in> ht_entries ht" unfolding ht_entries_def by (rule imageI)
    then show ?thesis by (rule free)
  qed
  have "keys_ok ht w'" using dt by (simp add: keys_ok_digest digest_table_def)
  moreover have "chain_ok ht w' i (backbone ht ! i)" if "i < backboneSize ht" for i
  proof -
    have c: "chain_ok ht w i (backbone ht ! i)" using inv that by (simp add: ht_inv_def ht_keys_def)
    then have "sorted_wrt (\<lambda>a b. \<not> key_same ht w' (ekey a) (ekey b)) (backbone ht ! i)"
      unfolding chain_ok_def
      by (elim conjE sorted_wrt_mono_rel [rotated]) (simp add: same key that)
    with c show ?thesis using place key that by (auto simp: chain_ok_def)
  qed
  ultimately show "ht_inv ht w'"
    using inv by (simp add: ht_inv_def ht_keys_def ht_mem_def w')
  show "ht_lookup ht w' k = ht_lookup ht w k" if "k \<noteq> p"
  proof -
    have "place_of ht w k < backboneSize ht"
      using inv by (simp add: ht_inv_def ht_mem_def place_of_less)
    then show ?thesis
      using that unfolding ht_lookup_def place [OF that]
      by (intro first_value_cong) (simp add: same key)
  qed
qed

text \<open>Entering an element under a new digest.\<close>

lemma table_add:
  assumes t: "table_ok ht w es" and e: "e \<notin> set es" "0 < e" "e + LRUELEMENT_SIZE \<le> hbrk (wheap w)"
    and new: "ht_lookup ht w digest = None"
    and pt: "htPut ht (copy_digest e digest w) (digest_of e) e = Some (rc, ht', w')"
  shows "table_ok ht' w' (e # es) \<and> wbytes w' = wbytes (copy_digest e digest w)"
proof -
  let ?w = "copy_digest e digest w"
  have free: "k \<noteq> digest_of e" if "(k, v) \<in> ht_entries ht" for k v
    using table_okD(4) [OF t that] e(1) by auto
  have wr: "ht_inv ht ?w" "\<And>k. k \<noteq> digest_of e \<Longrightarrow> ht_lookup ht ?w k = ht_lookup ht w k"
    using digest_write [OF table_okD(1,2) [OF t], of "digest_of e"] free
    by (auto simp: copy_digest_def)
  have dt: "digest_table ht" using table_okD(2) [OF t] .
  then have "keepEntry ht = None" by (simp add: digest_table_def no_hooks_def)
  note m = ht_put_map [OF wr(1) this pt]
  then have fx: "same_fixed ht ?w ht' w'" and inv: "ht_inv ht' w'" by auto
  have dt': "digest_table ht'" using dt same_fixedD(1,2,5) [OF fx] by (simp add: digest_table_def)
  have entries: "k = digest_of v \<and> v \<in> set (e # es)" if "(k, v) \<in> ht_entries ht'" for k v
    using ht_put_entries [OF pt] that table_okD(4) [OF t, of k v]
      place_of_less [of ht ?w "digest_of e"] wr(1)
    by (auto simp: ht_inv_def ht_mem_def)
  have look: "ht_lookup ht' w' (digest_of x) = Some x" if "x \<in> set (e # es)" for x
  proof (cases "x = e")
    case True
    with m [of "digest_of e"] show ?thesis by (simp add: digest_table_same [OF dt])
  next
    case False
    then have x: "x \<in> set es" using that by simp
    have "digest_at w (digest_of x) \<noteq> digest_at w digest"
      using table_lookup_iff [OF t, of digest x] x new by simp
    then have "\<not> key_same ht ?w (digest_of e) (digest_of x)"
      using False by (simp add: digest_table_same [OF dt] digest_at_def copy_digest_def)
    with m [of "digest_of x"] wr(2) [of "digest_of x"] table_okD(5) [OF t x] False
    show ?thesis by simp
  qed
  have "hbrk (wheap w) \<le> hbrk (wheap w')"
    using ht_put_brk [OF pt] by (simp add: copy_digest_def)
  then have "\<forall>x \<in> set (e # es). 0 < x \<and> x + LRUELEMENT_SIZE \<le> hbrk (wheap w')"
    using table_okD(6) [OF t] e by fastforce
  with inv dt' entries look same_fixedD(4) [OF fx] show ?thesis
    by (auto simp: table_ok_def)
qed

lemma table_malloc:
  assumes t: "table_ok ht w es" and m: "safeMalloc n (wheap w) = (p, h)"
  shows "table_ok ht (w\<lparr>wheap := h\<rparr>) es"
    "p \<noteq> NULL \<Longrightarrow> n = LRUELEMENT_SIZE \<Longrightarrow> p \<notin> set es \<and> 0 < p \<and> p + LRUELEMENT_SIZE \<le> hbrk h"
proof -
  note cong = key_functions_cong [of ht ht "w\<lparr>wheap := h\<rparr>" w, simplified]
  have "ht_lookup ht (w\<lparr>wheap := h\<rparr>) = ht_lookup ht w"
    by (simp add: ht_lookup_def fun_eq_iff cong)
  moreover have "ht_inv ht (w\<lparr>wheap := h\<rparr>)"
    using table_okD(1) [OF t] fb_ok_other_malloc [OF _ m]
    by (auto simp: ht_inv_def ht_mem_def ht_keys_def cong)
  moreover have "hbrk (wheap w) \<le> hbrk h" by (rule safeMalloc_brk_mono [OF m])
  ultimately show "table_ok ht (w\<lparr>wheap := h\<rparr>) es"
    using t by (fastforce simp: table_ok_def)
  show "p \<notin> set es \<and> 0 < p \<and> p + LRUELEMENT_SIZE \<le> hbrk h"
    if "p \<noteq> NULL" "n = LRUELEMENT_SIZE"
    using that m table_okD(6) [OF t, of p]
    by (auto simp: safeMalloc_def LRUELEMENT_SIZE_def split: if_splits)
qed

subsection \<open>The abstract cache\<close>

text \<open>
  A cache is a list of digests with their data, from the most to the least recently stored.
  \<open>lru_store_spec\<close> moves a digest that is cached to the front, with the data it already has;
  otherwise it puts the new pair in front and drops the last one of a full cache, whose data
  it returns.
\<close>

type_synonym lru_view = "(byte list \<times> ptr) list"

definition lru_touch :: "byte list \<Rightarrow> lru_view \<Rightarrow> lru_view" where
  "lru_touch d l = filter (\<lambda>p. fst p = d) l @ filter (\<lambda>p. fst p \<noteq> d) l"

definition lru_store_spec :: "nat \<Rightarrow> byte list \<Rightarrow> ptr \<Rightarrow> lru_view \<Rightarrow> ptr \<times> lru_view" where
  "lru_store_spec n d x l =
     (if d \<in> fst ` set l then (NULL, lru_touch d l)
      else if length l < n then (NULL, (d, x) # l)
      else if n = 0 then (NULL, l)
      else (snd (last l), (d, x) # butlast l))"

definition lru_view :: "elements \<Rightarrow> world \<Rightarrow> ptr list \<Rightarrow> lru_view" where
  "lru_view E w es = map (\<lambda>e. (digest_at w (digest_of e), data (E e))) es"

definition lru_inv :: "lruCache \<Rightarrow> elements \<Rightarrow> world \<Rightarrow> ptr list \<Rightarrow> bool" where
  "lru_inv c E w es \<longleftrightarrow>
     dll c E es \<and> table_ok (cht c) w es \<and> ccount c = int (length es) \<and>
     length es \<le> nat (csize c)"

lemma lru_inv_make:
  assumes "0 < hbrk (wheap w)"
  shows "lru_inv (makeLRUCache n self) E w []"
proof -
  let ?ht = "htCreate 257 (Some digestHash) (Some digestCompare) False False self"
  have "keys_ok ?ht w" by (rule keys_ok_digest) (simp_all add: htCreate_def)
  from ht_inv_create [OF assms _ this] show ?thesis
    by (simp add: lru_inv_def makeLRUCache_def dll_def table_ok_def digest_table_def
        ht_entries_def) (simp add: htCreate_def)
qed

lemma digest_copied [simp]:
  "digest_at (copy_digest e digest w) (digest_of x) =
     (if x = e then digest_at w digest else digest_at w (digest_of x))"
  by (simp add: digest_at_def copy_digest_def)

lemma digest_at_cong: "wbytes w' = wbytes w \<Longrightarrow> digest_at w' = digest_at w"
  by (simp add: digest_at_def fun_eq_iff)

lemma lru_view_copied:
  "e \<notin> set es \<Longrightarrow> wbytes w' = wbytes (copy_digest e digest w) \<Longrightarrow> same_data_on E E' es \<Longrightarrow>
     data (E' e) = x \<Longrightarrow> lru_view E' w' (e # es) = (digest_at w digest, x) # lru_view E w es"
  by (auto simp: lru_view_def digest_at_cong [of w'] same_data_on_def)

lemma view_other:
  assumes t: "table_ok ht w es" and e: "e \<in> set es" and xs: "set xs \<subseteq> set es" "e \<notin> set xs"
  shows "filter (\<lambda>p. fst p = digest_at w (digest_of e)) (lru_view E w xs) = []"
    "filter (\<lambda>p. fst p \<noteq> digest_at w (digest_of e)) (lru_view E w xs) = lru_view E w xs"
proof -
  have "digest_at w (digest_of x) \<noteq> digest_at w (digest_of e)" if "x \<in> set xs" for x
    using table_digests_inj [OF t, of x e] that e xs by auto
  then show "filter (\<lambda>p. fst p = digest_at w (digest_of e)) (lru_view E w xs) = []"
    "filter (\<lambda>p. fst p \<noteq> digest_at w (digest_of e)) (lru_view E w xs) = lru_view E w xs"
    by (auto simp: lru_view_def filter_empty_conv filter_id_conv)
qed

lemma lru_view_simps:
  "lru_view E w [] = []"
  "lru_view E w (e # es) = (digest_at w (digest_of e), data (E e)) # lru_view E w es"
  "lru_view E w (xs @ ys) = lru_view E w xs @ lru_view E w ys"
  by (simp_all add: lru_view_def)

lemma dll_fresh: "e \<notin> set es \<Longrightarrow> dll c (E(e := x)) es = dll c E es"
  unfolding dll_def by (intro conj_cong refl links_cong) auto

lemma view_same: "same_data E E' \<Longrightarrow> lru_view E' w es = lru_view E w es"
  by (simp add: lru_view_def same_data_def)

lemma table_ok_perm: "table_ok ht w es \<Longrightarrow> set es' = set es \<Longrightarrow> table_ok ht w es'"
  by (simp add: table_ok_def)

lemma lru_recache:
  assumes inv: "lru_inv c E w es" and e: "e \<in> set es" and r: "lruRecache c E e = (c', E')"
  shows "\<exists>es'. lru_inv c' E' w es' \<and>
    lru_view E' w es' = lru_touch (digest_at w (digest_of e)) (lru_view E w es)"
proof -
  from inv have d: "dll c E es" and t: "table_ok (cht c) w es" and n: "ccount c = int (length es)"
    and len: "length es \<le> nat (csize c)" by (auto simp: lru_inv_def)
  obtain xs ys where es: "es = xs @ e # ys" using e by (auto simp: in_set_conv_decomp)
  have "distinct es" using d by (simp add: dll_def)
  then have nin: "e \<notin> set xs" "e \<notin> set ys" by (simp_all add: es)
  have "dll c' E' (e # xs @ ys) \<and> same_data E E' \<and> cht c' = cht c \<and> ccount c' = ccount c \<and>
      csize c' = csize c"
  proof (cases "xs = []")
    case True
    with d recache_newest [of c E e ys] r show ?thesis by (auto simp: es same_data_def)
  next
    case xs: False
    show ?thesis
    proof (cases "ys = []")
      case True
      with recache_oldest [of c E xs e] d n xs r show ?thesis by (simp add: es)
    next
      case False
      with recache_middle [of c E xs e ys] d xs r show ?thesis by (simp add: es)
    qed
  qed
  then have "lru_inv c' E' w (e # xs @ ys)" and v: "lru_view E' w = lru_view E w"
    using table_ok_perm [OF t, of "e # xs @ ys"] n len
    by (auto simp: lru_inv_def es view_same)
  moreover have "lru_view E w (e # xs @ ys) =
      lru_touch (digest_at w (digest_of e)) (lru_view E w es)"
    using view_other [OF t e _ nin(1)] view_other [OF t e _ nin(2)]
    by (simp add: lru_touch_def es lru_view_simps subset_iff)
  ultimately show ?thesis unfolding v [symmetric] by blast
qed

lemma lru_add:
  assumes inv: "lru_inv c E w es" and room: "ccount c < csize c"
    and new: "ht_lookup (cht c) w digest = None"
    and r: "lruAdd c E w digest thing = Some (v, c', E', w')"
  shows "v = NULL \<and> (\<exists>es'. lru_inv c' E' w' es' \<and>
    lru_view E' w' es' = (digest_at w digest, thing) # lru_view E w es)"
proof -
  from inv have d: "dll c E es" and t: "table_ok (cht c) w es" and n: "ccount c = int (length es)"
    by (auto simp: lru_inv_def)
  obtain e h where m: "safeMalloc LRUELEMENT_SIZE (wheap w) = (e, h)" by fastforce
  let ?w = "w\<lparr>wheap := h\<rparr>"
  let ?E = "E(e := \<lparr>newer = NULL, older = NULL, data = NULL\<rparr>)"
  let ?E2 = "set_newer e NULL (set_data e thing ?E)"
  let ?c = "c\<lparr>ccount := ccount c + 1, newest := e, oldest := if es = [] then e else oldest c\<rparr>"
  let ?E3 = "if es = [] then set_older e NULL ?E2
    else set_newer (newest c) e (set_older e (newest c) ?E2)"
  have al: "allocLRUElement c E w = (e, c\<lparr>ccount := ccount c + 1\<rparr>, ?E, ?w)"
    using room m by (simp add: allocLRUElement_def)
  have e0: "e \<noteq> NULL"
  proof
    assume "e = NULL"
    with r al show False by (simp add: lruAdd_def)
  qed
  note tm = table_malloc [OF t m]
  note fresh = tm(2) [OF e0 refl]
  have ends: "oldest c \<noteq> NULL \<and> newest c \<noteq> NULL \<longleftrightarrow> es \<noteq> []"
  proof (cases "es = []")
    case False
    then have "hd es \<noteq> NULL" "last es \<noteq> NULL"
      using d hd_in_set last_in_set unfolding dll_def by metis+
    with d False show ?thesis by (simp add: dll_def first_hd hd_rev)
  qed (use d in \<open>simp add: dll_def\<close>)
  have "\<exists>rc ht. htPut (cht c) (copy_digest e digest ?w) (digest_of e) e = Some (rc, ht, w') \<and>
      v = NULL \<and> c' = ?c\<lparr>cht := ht\<rparr> \<and> E' = ?E3"
    using r e0 ends al by (cases "es = []") (auto simp: lruAdd_def Let_def split: option.splits)
  then obtain rc ht where pt: "htPut (cht c) (copy_digest e digest ?w) (digest_of e) e = Some (rc, ht, w')"
    and eq: "v = NULL" "c' = ?c\<lparr>cht := ht\<rparr>" "E' = ?E3" by blast
  have "ht_lookup (cht c) ?w digest = None"
    using new key_functions_cong [of "cht c" "cht c" ?w w] by (simp add: ht_lookup_def)
  from table_add [OF tm(1) _ _ _ this pt] fresh
  have t': "table_ok ht w' (e # es)" and b: "wbytes w' = wbytes (copy_digest e digest ?w)" by auto
  have "dll c (set_data e thing ?E) es" using d fresh by (simp add: dll_cong_data dll_fresh)
  from dll_push [OF this, of e] fresh
  have "es \<noteq> [] \<Longrightarrow> dll (c\<lparr>newest := e\<rparr>) E' (e # es)" by (simp add: eq)
  then have "es \<noteq> [] \<Longrightarrow> dll c' E' (e # es)"
    by (rule dll_cacheI) (simp_all add: eq)
  moreover have "es = [] \<Longrightarrow> dll c' E' (e # es)" using fresh by (simp add: eq dll_def)
  ultimately have "dll c' E' (e # es)" by blast
  with t' n room have "lru_inv c' E' w' (e # es)" by (auto simp: lru_inv_def eq)
  moreover have "lru_view E' w' (e # es) = (digest_at ?w digest, thing) # lru_view E ?w es"
    by (rule lru_view_copied [OF _ b]) (use fresh in \<open>auto simp: eq same_data_on_def\<close>)
  moreover have "digest_at ?w = digest_at w" by (rule digest_at_cong) simp
  ultimately show ?thesis using eq(1) by (auto simp: lru_view_def)
qed

lemma lru_recycle:
  assumes inv: "lru_inv c E w es" and full: "\<not> ccount c < csize c" "2 \<le> csize c"
    and new: "ht_lookup (cht c) w digest = None"
    and r: "lruRecycle c E w digest thing = Some (v, c', E', w')"
  shows "\<exists>es'. lru_inv c' E' w' es' \<and>
    (v, lru_view E' w' es') = (snd (last (lru_view E w es)),
       (digest_at w digest, thing) # butlast (lru_view E w es))"
proof -
  from inv have d: "dll c E es" and t: "table_ok (cht c) w es" and n: "ccount c = int (length es)"
    and len: "length es \<le> nat (csize c)" by (auto simp: lru_inv_def)
  obtain xs e where es: "es = xs @ [e]" using n full by (cases es rule: rev_cases) auto
  have ne: "xs \<noteq> []" using n full by (auto simp: es)
  note d' = d [unfolded es] and t' = t [unfolded es]
  note ends = dll_newest_oldest [OF d' ne]
  have di: "distinct (xs @ [e])" "e \<noteq> NULL" using d' by (auto simp: dll_def)
  obtain rc ht1 w2 where rm: "htRemove (cht c) w (digest_of e) = (rc, ht1, w2)"
    by (metis prod.exhaust)
  note tr = table_remove [OF t' di(1) rm]
  let ?E1 = "set_data e thing E"
  let ?E3 = "set_older (last xs) NULL (set_newer (newest c) e
      (set_older e (newest c) (set_newer e NULL ?E1)))"
  have get: "htGet (cht c) w (digest_of e) = (e, cht c, w)"
    using table_okD(5) [OF t', of e] by (simp add: table_get [OF t])
  from r get rm obtain rc2 ht2
    where pt: "htPut ht1 (copy_digest e digest w2) (digest_of e) e = Some (rc2, ht2, w')"
      and eq: "v = data (E e)" "c' = c\<lparr>newest := e, oldest := last xs, cht := ht2\<rparr>" "E' = ?E3"
    by (auto simp: lruRecycle_def ends Let_def split: option.splits)
  have "ht_lookup ht1 w2 digest = None"
    using ht_remove_map [OF table_okD(1) [OF t] rm, of digest] new by simp
  from table_add [OF _ _ _ _ this pt] tr di table_okD(6) [OF t', of e]
  have t2: "table_ok ht2 w' (e # xs)" and b: "wbytes w' = wbytes (copy_digest e digest w2)" by auto
  have "dll c ?E1 (xs @ [e])" using d' by (simp only: dll_cong_data)
  from dll_rotate [OF this ne] have "dll c' E' (e # xs)"
    unfolding eq by (rule dll_cacheI) simp_all
  with t2 n len have "lru_inv c' E' w' (e # xs)" by (auto simp: lru_inv_def eq es)
  moreover have "lru_view E' w' (e # xs) = (digest_at w2 digest, thing) # lru_view E w2 xs"
    by (rule lru_view_copied [OF _ b]) (use di in \<open>auto simp: eq same_data_on_def\<close>)
  moreover have "digest_at w2 = digest_at w" by (rule digest_at_cong) (use tr in simp)
  ultimately show ?thesis using eq(1) by (auto simp: lru_view_def es)
qed

lemma lru_recycle_only:
  assumes inv: "lru_inv c E w es" and full: "\<not> ccount c < csize c" "csize c = 1"
    and new: "ht_lookup (cht c) w digest = None"
    and r: "lruRecycleOnly c E w digest thing = Some (v, c', E', w')"
  shows "\<exists>es'. lru_inv c' E' w' es' \<and>
    (v, lru_view E' w' es') = (snd (last (lru_view E w es)),
       (digest_at w digest, thing) # butlast (lru_view E w es))"
proof -
  from inv have d: "dll c E es" and t: "table_ok (cht c) w es" and n: "ccount c = int (length es)"
    and len: "length es \<le> nat (csize c)" by (auto simp: lru_inv_def)
  obtain e where es: "es = [] @ [e]" using n full len by (cases es; cases "tl es") auto
  have d': "oldest c = e" "e \<noteq> NULL" using d by (auto simp: dll_def es)
  obtain rc ht1 w2 where rm: "htRemove (cht c) w (digest_of e) = (rc, ht1, w2)"
    by (metis prod.exhaust)
  note t' = t [unfolded es]
  note tr = table_remove [OF t' _ rm]
  from r rm obtain rc2 ht2
    where pt: "htPut ht1 (copy_digest e digest w2) (digest_of e) e = Some (rc2, ht2, w')"
      and eq: "v = data (E e)" "c' = c\<lparr>cht := ht2\<rparr>" "E' = set_data e thing E"
    by (auto simp: lruRecycleOnly_def d' Let_def split: option.splits)
  have "ht_lookup ht1 w2 digest = None"
    using ht_remove_map [OF table_okD(1) [OF t] rm, of digest] new by simp
  from table_add [OF _ _ _ _ this pt] tr d' table_okD(6) [OF t', of e]
  have t2: "table_ok ht2 w' [e]" and b: "wbytes w' = wbytes (copy_digest e digest w2)" by auto
  have "dll c' E' [e]" using d by (simp add: eq es dll_def)
  with t2 n len have "lru_inv c' E' w' [e]" by (auto simp: lru_inv_def eq es)
  moreover have "lru_view E' w' [e] = (digest_at w2 digest, thing) # lru_view E w2 []"
    by (rule lru_view_copied [OF _ b]) (auto simp: eq same_data_on_def)
  moreover have "digest_at w2 = digest_at w" by (rule digest_at_cong) (use tr in simp)
  ultimately show ?thesis using eq(1) by (auto simp: lru_view_def es)
qed

lemma lru_existing:
  assumes "table_ok ht w es"
  shows "fst (htGet ht w digest) \<noteq> NULL \<longleftrightarrow> ht_lookup ht w digest \<noteq> None"
    "ht_lookup ht w digest \<noteq> None \<longleftrightarrow> digest_at w digest \<in> fst ` set (lru_view E w es)"
  using table_lookup_iff [OF assms, of digest] table_okD(6) [OF assms]
  by (auto simp: table_get [OF assms] lru_view_def image_image image_iff split: option.splits)
     (metis+)

lemma lru_store_refines:
  assumes inv: "lru_inv c E w es" and st: "lruStore c E w digest thing = Some (v, c', E', w')"
  shows "csize c' = csize c \<and> (\<exists>es'. lru_inv c' E' w' es' \<and>
    (v, lru_view E' w' es') =
      lru_store_spec (nat (csize c)) (digest_at w digest) thing (lru_view E w es))"
proof -
  from inv have t: "table_ok (cht c) w es" and n: "ccount c = int (length es)"
    and len: "length es \<le> nat (csize c)" by (auto simp: lru_inv_def)
  have size: "csize c' = csize c"
    using st by (auto simp: lruStore_def lruRecache_def lruAdd_def lruRecycle_def
        lruRecycleOnly_def allocLRUElement_def Let_def split: prod.splits if_splits option.splits)
  have cid: "c\<lparr>cht := cht c\<rparr> = c" by simp
  have vlen: "length (lru_view E w es) = length es" by (simp add: lru_view_def)
  show ?thesis
  proof (cases "ht_lookup (cht c) w digest")
    case (Some e)
    then have e: "e \<in> set es" "digest_at w (digest_of e) = digest_at w digest"
      using table_lookup_iff [OF t] by auto
    from table_okD(6) [OF t e(1)] Some st
    have "lruRecache c E e = (c', E')" "v = NULL" "w' = w"
      by (auto simp: lruStore_def table_get [OF t] split: prod.splits)
    with lru_recache [OF inv e(1)] e(2) Some lru_existing(2) [OF t, of digest E] size
    show ?thesis by (auto simp: lru_store_spec_def)
  next
    case None
    then have out: "digest_at w digest \<notin> fst ` set (lru_view E w es)"
      using lru_existing(2) [OF t, of digest E] by simp
    have get: "htGet (cht c) w digest = (NULL, cht c, w)" using None by (simp add: table_get [OF t])
    consider "ccount c < csize c" | "\<not> ccount c < csize c" "2 \<le> csize c"
      | "\<not> ccount c < csize c" "csize c = 1" | "\<not> ccount c < csize c" "csize c < 1"
      by linarith
    then show ?thesis
    proof cases
      case 1
      with st have "lruAdd c E w digest thing = Some (v, c', E', w')"
        by (simp add: lruStore_def get)
      from lru_add [OF inv 1 None this] 1 n out size vlen show ?thesis
        by (auto simp: lru_store_spec_def)
    next
      case 2
      with st have "lruRecycle c E w digest thing = Some (v, c', E', w')"
        by (simp add: lruStore_def get)
      note step = lru_recycle [OF inv 2 None this]
      have "lru_store_spec (nat (csize c)) (digest_at w digest) thing (lru_view E w es) =
          (snd (last (lru_view E w es)), (digest_at w digest, thing) # butlast (lru_view E w es))"
        unfolding lru_store_spec_def using 2 n out vlen by auto
      with step size show ?thesis by simp
    next
      case 3
      with st have "lruRecycleOnly c E w digest thing = Some (v, c', E', w')"
        by (simp add: lruStore_def get)
      note step = lru_recycle_only [OF inv 3 None this]
      have "lru_store_spec (nat (csize c)) (digest_at w digest) thing (lru_view E w es) =
          (snd (last (lru_view E w es)), (digest_at w digest, thing) # butlast (lru_view E w es))"
        unfolding lru_store_spec_def using 3 n out vlen by auto
      with step size show ?thesis by simp
    next
      case 4
      with st have eq: "v = NULL" "c' = c" "E' = E" "w' = w" by (simp_all add: lruStore_def get)
      have "lru_store_spec (nat (csize c)) (digest_at w digest) thing (lru_view E w es) =
          (NULL, lru_view E w es)"
        unfolding lru_store_spec_def using 4 out by simp
      with inv show ?thesis unfolding eq by metis
    qed
  qed
qed

lemma lru_get_spec:
  assumes "lru_inv c E w es"
  shows "lruGet c E w digest =
    (case map_of (lru_view E w es) (digest_at w digest) of None \<Rightarrow> NULL | Some x \<Rightarrow> x, c, w)"
proof -
  from assms have t: "table_ok (cht c) w es" by (simp add: lru_inv_def)
  show ?thesis
  proof (cases "ht_lookup (cht c) w digest")
    case None
    then have "map_of (lru_view E w es) (digest_at w digest) = None"
      using lru_existing(2) [OF t, of digest E] by (simp add: map_of_eq_None_iff)
    with None show ?thesis by (simp add: lruGet_def table_get [OF t])
  next
    case (Some e)
    then have e: "e \<in> set es" "digest_at w (digest_of e) = digest_at w digest" "e \<noteq> NULL"
      using table_lookup_iff [OF t] table_okD(6) [OF t] by fastforce+
    have "inj_on (\<lambda>e. digest_at w (digest_of e)) (set es)"
      using table_digests_inj [OF t] by (auto intro!: inj_onI)
    then have "distinct (map fst (lru_view E w es))"
      using assms by (simp add: lru_view_def lru_inv_def dll_def distinct_map comp_def)
    then have "map_of (lru_view E w es) (digest_at w (digest_of e)) = Some (data (E e))"
      by (rule map_of_is_SomeI) (use e(1) in \<open>auto simp: lru_view_def\<close>)
    with Some e show ?thesis by (simp add: lruGet_def table_get [OF t])
  qed
qed

text \<open>Storage suffices: one element and one extent of table entries.\<close>

definition lru_room :: "lruCache \<Rightarrow> world \<Rightarrow> bool" where
  "lru_room c w \<longleftrightarrow>
     hbrk (wheap w) + LRUELEMENT_SIZE + extent_size (mgr (cht c)) \<le> hlimit (wheap w)"

lemma ht_put_room:
  assumes "ht_mem ht w" "hbrk (wheap w) + extent_size (mgr ht) \<le> hlimit (wheap w)"
  shows "\<exists>r. htPut ht w k v = Some r"
proof -
  have "fb_ok (mgr ht) (wheap w) (set (entry_addrs ht))" using assms(1) by (simp add: ht_mem_def)
  from fbMgrAlloc_room [OF this assms(2)] show ?thesis
    by (auto simp: htPut_def htPut2_def htPutAt_def Let_def split: option.splits if_splits)
qed

lemma ht_remove_room:
  "htRemove ht w k = (rc, ht', w') \<Longrightarrow>
     extent_size (mgr ht') = extent_size (mgr ht) \<and> hlimit (wheap w') = hlimit (wheap w)"
  by (auto simp: htRemove_def htDequeue_def fbMgrFree_def extent_size_def Let_def
      split: option.splits)

lemma lru_put_room:
  assumes "ht_mem ht w" "extent_size (mgr ht) = n" "hbrk (wheap w) + n \<le> hlimit (wheap w)"
  shows "\<exists>r. htPut ht (copy_digest e digest w) k v = Some r"
  using assms by (intro ht_put_room) (auto simp: copy_digest_def ht_mem_def)

lemma lru_store_room:
  assumes inv: "lru_inv c E w es" and room: "lru_room c w"
  shows "\<exists>r. lruStore c E w digest thing = Some r"
proof -
  from inv have t: "table_ok (cht c) w es" by (simp add: lru_inv_def)
  have mem: "ht_mem (cht c) w" using table_okD(1) [OF t] by (simp add: ht_inv_def)
  then have pos: "0 < hbrk (wheap w)" by (auto simp: ht_mem_def fb_ok_def fb_inv_def)
  let ?n = "extent_size (mgr (cht c))"
  have recycled: "\<exists>r. (case htRemove (cht c) w k of (_, ht1, w1) \<Rightarrow> htPut ht1 (copy_digest e digest w1) k' v) = Some r"
    for k e k' v
  proof -
    obtain rc ht1 w1 where rm: "htRemove (cht c) w k = (rc, ht1, w1)" by (metis prod.exhaust)
    from lru_put_room [OF ht_mem_remove [OF mem rm], of ?n e digest k' v] ht_remove_room [OF rm]
      ht_remove_brk [OF rm] room rm
    show ?thesis by (simp add: lru_room_def)
  qed
  have add: "\<exists>r. lruAdd c E w digest thing = Some r" if "ccount c < csize c"
  proof -
    obtain e h where m: "safeMalloc LRUELEMENT_SIZE (wheap w) = (e, h)" by fastforce
    with room pos have e: "e \<noteq> NULL" "hbrk h + ?n \<le> hlimit h"
      by (auto simp: safeMalloc_def lru_room_def split: if_splits)
    have "ht_mem (cht c) (w\<lparr>wheap := h\<rparr>)"
      using fb_ok_other_malloc [OF _ m] mem by (auto simp: ht_mem_def)
    from lru_put_room [OF this refl, of e digest "digest_of e" e] e
    obtain r where "htPut (cht c) (copy_digest e digest (w\<lparr>wheap := h\<rparr>)) (digest_of e) e = Some r"
      by auto
    then show ?thesis using that m e(1)
      by (cases r) (simp add: lruAdd_def allocLRUElement_def Let_def)
  qed
  obtain x where get: "htGet (cht c) w (digest_of (oldest c)) = (x, cht c, w)"
    by (simp add: table_get [OF t])
  obtain y where get': "htGet (cht c) w digest = (y, cht c, w)" by (simp add: table_get [OF t])
  obtain rc ht1 w1 where rm: "htRemove (cht c) w (digest_of (oldest c)) = (rc, ht1, w1)"
    by (metis prod.exhaust)
  have put: "\<exists>rc ht w'. htPut ht1 (copy_digest e digest w1) k' v = Some (rc, ht, w')" for e k' v
    using recycled [where k = "digest_of (oldest c)" and e = e and k' = k' and v = v]
    by (auto simp: rm)
  have "\<exists>r. lruRecycle c E w digest thing = Some r"
    using put [of x "digest_of x" x] by (auto simp: lruRecycle_def Let_def get rm)
  moreover have "\<exists>r. lruRecycleOnly c E w digest thing = Some r"
    using put [of "oldest c" "digest_of (oldest c)" "oldest c"]
    by (auto simp: lruRecycleOnly_def Let_def rm)
  ultimately show ?thesis using add
    by (auto simp: lruStore_def get' split: prod.split)
qed

text \<open>
  A run of a cache: stores, lookups, and clients writing their own buffers, that is, bytes no
  entry of the table points to. The history holds the stores, the last one first.
\<close>

inductive lru_run :: "int \<Rightarrow> (byte list \<times> ptr) list \<Rightarrow> lruCache \<Rightarrow> elements \<Rightarrow> world \<Rightarrow> bool" where
  start: "0 < hbrk (wheap w) \<Longrightarrow> lru_run n [] (makeLRUCache n self) E w"
| store: "lru_run n hist c E w \<Longrightarrow> lruStore c E w digest thing = Some (v, c', E', w') \<Longrightarrow>
    lru_run n ((digest_at w digest, thing) # hist) c' E' w'"
| lookup: "lru_run n hist c E w \<Longrightarrow> lruGet c E w digest = (v, c', w') \<Longrightarrow>
    lru_run n hist c' E w'"
| client: "lru_run n hist c E w \<Longrightarrow> p \<notin> fst ` ht_entries (cht c) \<Longrightarrow>
    lru_run n hist c E (w\<lparr>wbytes := (wbytes w)(p := b)\<rparr>)"

text \<open>The digests of a history, each at its most recent store.\<close>

primrec recent :: "byte list list \<Rightarrow> byte list list" where
  "recent [] = []"
| "recent (d # ds) = d # filter (\<lambda>x. x \<noteq> d) (recent ds)"

lemma recent_distinct: "distinct (recent ds)"
  by (induction ds) auto

lemma take_filter_take:
  assumes "distinct D"
  shows "take n (d # filter (\<lambda>x. x \<noteq> d) (take n D)) = take n (d # filter (\<lambda>x. x \<noteq> d) D)"
proof (cases n)
  case (Suc m)
  have "take m (filter (\<lambda>x. x \<noteq> d) (take (Suc m) D)) = take m (filter (\<lambda>x. x \<noteq> d) D)"
    using assms
  proof (induction D arbitrary: m)
    case (Cons a D)
    show ?case
    proof (cases "a = d")
      case True
      then have "filter (\<lambda>x. x \<noteq> d) D = D" using Cons.prems by (auto simp: filter_id_conv)
      moreover have "filter (\<lambda>x. x \<noteq> d) (take m D) = take m D"
        using True Cons.prems by (auto simp: filter_id_conv dest: in_set_takeD)
      ultimately show ?thesis using True by simp
    next
      case False
      then show ?thesis using Cons by (cases m) auto
    qed
  qed simp
  with Suc show ?thesis by simp
qed simp

lemma store_spec_digests:
  assumes "lru_store_spec n d x l = (v, l')" "distinct (map fst l)" "length l \<le> n"
  shows "map fst l' = take n (d # filter (\<lambda>k. k \<noteq> d) (map fst l))"
proof (cases "d \<in> fst ` set l")
  case True
  then obtain x0 where "(d, x0) \<in> set l" by auto
  then obtain xs ys where l: "l = xs @ (d, x0) # ys" by (auto simp: in_set_conv_decomp)
  have out: "\<forall>p \<in> set xs \<union> set ys. fst p \<noteq> d" using assms(2) by (auto simp: l)
  then have "filter (\<lambda>p. fst p = d) xs = []" "filter (\<lambda>p. fst p = d) ys = []"
    "filter (\<lambda>p. fst p \<noteq> d) xs = xs" "filter (\<lambda>p. fst p \<noteq> d) ys = ys"
    "filter (\<lambda>k. k \<noteq> d) (map fst xs) = map fst xs" "filter (\<lambda>k. k \<noteq> d) (map fst ys) = map fst ys"
    by (auto simp: filter_empty_conv filter_id_conv)
  then show ?thesis using True assms(1,3) by (auto simp: lru_store_spec_def lru_touch_def l)
next
  case False
  then have "filter (\<lambda>k. k \<noteq> d) (map fst l) = map fst l" by (auto simp: filter_id_conv)
  with False assms(1,3) show ?thesis
    by (auto simp: lru_store_spec_def butlast_conv_take take_map split: if_splits)
       (cases "length l"; simp add: take_map)
qed

lemma lru_view_distinct: "lru_inv c E w es \<Longrightarrow> distinct (map fst (lru_view E w es))"
  using table_digests_inj [of "cht c" w es]
  by (auto simp: lru_inv_def dll_def lru_view_def comp_def distinct_map inj_on_def)

lemma lru_client_write:
  assumes inv: "lru_inv c E w es" and p: "p \<notin> fst ` ht_entries (cht c)"
  shows "lru_inv c E (w\<lparr>wbytes := (wbytes w)(p := b)\<rparr>) es \<and>
    lru_view E (w\<lparr>wbytes := (wbytes w)(p := b)\<rparr>) es = lru_view E w es"
proof -
  let ?w = "w\<lparr>wbytes := (wbytes w)(p := b)\<rparr>"
  from inv have t: "table_ok (cht c) w es" by (simp add: lru_inv_def)
  have wr: "ht_inv (cht c) ?w" "\<And>k. k \<noteq> p \<Longrightarrow> ht_lookup (cht c) ?w k = ht_lookup (cht c) w k"
  proof -
    have free: "k \<noteq> p" if "(k, v) \<in> ht_entries (cht c)" for k v
      using p that by force
    show "ht_inv (cht c) ?w" by (rule digest_write(1) [OF table_okD(1,2) [OF t] free refl])
    show "ht_lookup (cht c) ?w k = ht_lookup (cht c) w k" if "k \<noteq> p" for k
      by (rule digest_write(2) [OF table_okD(1,2) [OF t] free refl that])
  qed
  have other: "digest_of e \<noteq> p" if "e \<in> set es" for e
    using ht_lookup_entry [OF table_okD(1) [OF t] table_okD(5) [OF t that]] table_okD(4) [OF t] p
    by force
  then have "table_ok (cht c) ?w es" using t wr by (auto simp: table_ok_def)
  then show ?thesis using inv other by (auto simp: lru_inv_def lru_view_def digest_at_def)
qed

lemma lru_run_inv:
  "lru_run n hist c E w \<Longrightarrow> csize c = n \<and> (\<exists>es. lru_inv c E w es \<and>
     map fst (lru_view E w es) = take (nat n) (recent (map fst hist)))"
proof (induction rule: lru_run.induct)
  case (start w n self E)
  then show ?case using lru_inv_make [of w n self E]
    by (auto simp: makeLRUCache_def lru_view_def intro!: exI [of _ "[]"])
next
  case (store n hist c E w digest thing v c' E' w')
  then obtain es where inv: "lru_inv c E w es" and size: "csize c = n"
    and v: "map fst (lru_view E w es) = take (nat n) (recent (map fst hist))" by blast
  from lru_store_refines [OF inv store.hyps(2)] obtain es'
    where inv': "lru_inv c' E' w' es'" and size': "csize c' = n"
      and sp: "lru_store_spec (nat n) (digest_at w digest) thing (lru_view E w es) =
        (v, lru_view E' w' es')"
    by (metis size)
  have "length (lru_view E w es) \<le> nat n" using inv size by (simp add: lru_inv_def lru_view_def)
  from store_spec_digests [OF sp lru_view_distinct [OF inv] this] v
    take_filter_take [OF recent_distinct, of "nat n" "digest_at w digest" "map fst hist"]
  have "map fst (lru_view E' w' es') = take (nat n) (recent (map fst ((digest_at w digest, thing) # hist)))"
    by simp
  with inv' size' show ?case by blast
next
  case (lookup n hist c E w digest v c' w')
  then show ?case using lru_get_spec by fastforce
next
  case (client n hist c E w p b)
  then show ?case using lru_client_write by fastforce
qed

subsection \<open>A small cache for the examples\<close>

definition demo_lru_world :: world where
  "demo_lru_world =
     \<lparr>wheap = demo_heap, wbytes = (\<lambda>p. replicate 16 (word_of_nat p)), wlog = []\<rparr>"

definition demo_elements :: elements where
  "demo_elements = (\<lambda>_. \<lparr>newer = NULL, older = NULL, data = NULL\<rparr>)"

definition demo_digest :: "byte list" where
  "demo_digest = replicate 16 5"

lemma demo_digest_at: "digest_at demo_lru_world 5 = demo_digest"
  by (simp add: digest_at_def demo_lru_world_def demo_digest_def LRU_DIGEST_LENGTH_def)

lemma demo_lru_inv: "lru_inv (makeLRUCache 2 0) demo_elements demo_lru_world []"
  by (rule lru_inv_make) (simp add: demo_lru_world_def)

lemma demo_lru_room: "lru_room (makeLRUCache 2 0) demo_lru_world"
  by (simp add: lru_room_def demo_lru_world_def demo_heap_def makeLRUCache_def htCreate_def
      fbMgrCreate_def extent_size_def HASHENTRY_SIZE_def FB_HEADER_LENGTH_def LRUELEMENT_SIZE_def)

lemma demo_lru_stored:
  "\<exists>v c E w. lruStore (makeLRUCache 2 0) demo_elements demo_lru_world 5 9 = Some (v, c, E, w)"
  using lru_store_room [OF demo_lru_inv demo_lru_room, of 5 9] by auto

subsection \<open>Properties\<close>

text \<open>
  C10. \<open>lruStore\<close> implements the abstract cache: from a consistent cache it leads to a
  consistent one whose list of digests and data, from newest to oldest, is what
  \<open>lru_store_spec\<close> prescribes, and it returns the data the specification evicts. It can only
  fail for lack of storage. In particular a digest that is cached keeps its old data.
\<close>

theorem lruStore_refines_spec:
  assumes "lru_inv c E w es"
  shows "case lruStore c E w digest thing of
      None \<Rightarrow> \<not> lru_room c w
    | Some (v, c', E', w') \<Rightarrow>
        csize c' = csize c \<and> (\<exists>es'. lru_inv c' E' w' es' \<and> (v, lru_view E' w' es') =
          lru_store_spec (nat (csize c)) (digest_at w digest) thing (lru_view E w es))"
proof (cases "lruStore c E w digest thing")
  case None
  with lru_store_room [OF assms, of digest thing] show ?thesis by auto
next
  case (Some r)
  then show ?thesis using lru_store_refines [OF assms] by (cases r) auto
qed

theorem lruStore_refines_spec_witness:
  "\<exists>c E w es. lruStore (makeLRUCache 2 0) demo_elements demo_lru_world 5 9 = Some (NULL, c, E, w) \<and>
     lru_inv c E w es \<and> lru_view E w es = [(demo_digest, 9)]"
  using lruStore_refines_spec [OF demo_lru_inv, of 5 9] demo_lru_room
  by (auto simp: demo_digest_at lru_store_spec_def lru_view_simps makeLRUCache_def
      split: option.splits)

text \<open>
  C11. After any run of a cache of size \<open>n\<close>, the cached digests, from newest to oldest, are
  exactly the \<open>n\<close> most recently stored different ones: lookups do not count as use.
\<close>

theorem lru_keeps_most_recent:
  assumes "lru_run n hist c E w"
  shows "\<exists>es. lru_inv c E w es \<and>
    map fst (lru_view E w es) = take (nat n) (recent (map fst hist))"
  using lru_run_inv [OF assms] by blast

theorem lru_keeps_most_recent_witness:
  "\<exists>c E w es. lru_run 2 [(demo_digest, 9)] c E w \<and> lru_inv c E w es \<and>
     map fst (lru_view E w es) = [demo_digest]"
proof -
  obtain v c E w where
    st: "lruStore (makeLRUCache 2 0) demo_elements demo_lru_world 5 9 = Some (v, c, E, w)"
    using demo_lru_stored by blast
  have "lru_run 2 [] (makeLRUCache 2 0) demo_elements demo_lru_world"
    by (rule lru_run.start) (simp add: demo_lru_world_def)
  from lru_run.store [OF this st] have run: "lru_run 2 [(demo_digest, 9)] c E w"
    by (simp add: demo_digest_at)
  from lru_keeps_most_recent [OF run] obtain es
    where "lru_inv c E w es" "map fst (lru_view E w es) = [demo_digest]" by auto
  with run show ?thesis by (intro exI conjI)
qed

text \<open>
  \<open>lruGet\<close> returns the data of the digest, or the null pointer where it is not cached,
  and changes nothing: although its comment says it can change recency, it does not.
\<close>

theorem lruGet_reads_only:
  assumes "lru_inv c E w es"
  shows "lruGet c E w digest =
    (case map_of (lru_view E w es) (digest_at w digest) of None \<Rightarrow> NULL | Some x \<Rightarrow> x, c, w)"
  by (rule lru_get_spec [OF assms])

theorem lruGet_reads_only_witness:
  "\<exists>c E w. lruStore (makeLRUCache 2 0) demo_elements demo_lru_world 5 9 = Some (NULL, c, E, w) \<and>
     lruGet c E w 5 = (case map_of [(demo_digest, 9)] (digest_at w 5) of None \<Rightarrow> NULL | Some x \<Rightarrow> x, c, w)"
proof -
  from demo_lru_stored obtain v c E w where
    st: "lruStore (makeLRUCache 2 0) demo_elements demo_lru_world 5 9 = Some (v, c, E, w)" by blast
  from lru_store_refines [OF demo_lru_inv st] obtain es where inv: "lru_inv c E w es"
    and v: "(v, lru_view E w es) = lru_store_spec 2 demo_digest 9 []"
    by (auto simp: demo_digest_at makeLRUCache_def lru_view_simps)
  from lruGet_reads_only [OF inv, of 5] v st show ?thesis by (auto simp: lru_store_spec_def)
qed

end
