(* ===== verification/Queues.thy ===== *)
theory Queues
  imports CPrelude
begin

section \<open>The queues\<close>

text \<open>
  \<open>Queue\<close> of \<open>c/collections.c\<close> in its three forms: under a mutex (Linux, AIX, Windows), in a
  constrained transaction (z/OS machines that have them, negative counter), and with the
  instruction \<open>PLO\<close> that compares a counter and stores three words (z/OS otherwise). The
  first two run each operation in one piece and are functions; the third is a step relation on
  threads whose reads and writes of the shared queue interleave. \<open>qnext\<close> and \<open>qdata\<close> are the
  fields at the address of an element.
\<close>

subsection \<open>The interface\<close>

locale fifo_queue =
  fixes ins :: "'s \<Rightarrow> 'v \<Rightarrow> 's option"
    and del :: "'s \<Rightarrow> 'v option \<times> 's"
    and contents :: "'s \<Rightarrow> 'v list"
    and ok :: "'s \<Rightarrow> bool"
  assumes ins_ok: "ok s \<Longrightarrow> ins s v = Some s' \<Longrightarrow> ok s' \<and> contents s' = contents s @ [v]"
    and del_ok: "ok s \<Longrightarrow> del s = (r, s') \<Longrightarrow>
        ok s' \<and> r = (case contents s of [] \<Rightarrow> None | v # _ \<Rightarrow> Some v) \<and>
        contents s' = tl (contents s)"
begin

primrec ins_all :: "'s \<Rightarrow> 'v list \<Rightarrow> 's option" where
  "ins_all s [] = Some s"
| "ins_all s (v # vs) = (case ins s v of None \<Rightarrow> None | Some s' \<Rightarrow> ins_all s' vs)"

primrec del_n :: "nat \<Rightarrow> 's \<Rightarrow> 'v option list \<times> 's" where
  "del_n 0 s = ([], s)"
| "del_n (Suc n) s = (let (r, s1) = del s; (rs, s2) = del_n n s1 in (r # rs, s2))"

lemma ins_all_ok:
  "ok s \<Longrightarrow> ins_all s vs = Some s' \<Longrightarrow> ok s' \<and> contents s' = contents s @ vs"
proof (induction vs arbitrary: s)
  case Nil
  then show ?case by simp
next
  case (Cons v vs)
  then obtain s1 where "ins s v = Some s1" "ins_all s1 vs = Some s'"
    by (auto split: option.splits)
  with Cons.IH [of s1] ins_ok [OF Cons.prems(1)] show ?case by simp
qed

lemma del_n_ok:
  "ok s \<Longrightarrow> del_n n s = (rs, s') \<Longrightarrow>
     ok s' \<and> rs = map Some (take n (contents s)) @ replicate (n - length (contents s)) None \<and>
     contents s' = drop n (contents s)"
proof (induction n arbitrary: s rs s')
  case 0
  then show ?case by simp
next
  case (Suc n)
  obtain r s1 where d: "del s = (r, s1)" by fastforce
  obtain rs1 s2 where n: "del_n n s1 = (rs1, s2)" by fastforce
  from del_ok [OF Suc.prems(1) d] Suc.IH [OF _ n] Suc.prems(2) d n show ?case
    by (cases "contents s") auto
qed

text \<open>What goes in comes out, in order, each once.\<close>

lemma ins_all_del_n:
  "ok s \<Longrightarrow> contents s = [] \<Longrightarrow> ins_all s vs = Some s1 \<Longrightarrow> del_n (length vs) s1 = (rs, s2) \<Longrightarrow>
     rs = map Some vs \<and> contents s2 = []"
  using ins_all_ok [of s vs s1] del_n_ok [of s1 "length vs" rs s2] by simp

end

subsection \<open>State\<close>

record queue =
  counter :: "64 word"
  head :: ptr
  tail :: ptr
  qflags :: int

record qmem =
  qnext :: "ptr \<Rightarrow> ptr"
  qdata :: "ptr \<Rightarrow> ptr"

definition QUEUEELEMENT_SIZE :: nat where
  "QUEUEELEMENT_SIZE = 16"

definition QUEUE_SIZE :: nat where
  "QUEUE_SIZE = 88"

text \<open>\<open>transactional\<close> is \<open>PSATXC\<close>, the machine's facility bit.\<close>

definition makeQueue :: "int \<Rightarrow> bool \<Rightarrow> queue" where
  "makeQueue flags transactional =
     \<lparr>counter = (if transactional then -1 else 1), head = NULL, tail = NULL, qflags = flags\<rparr>"

definition destroyQueue :: "ptr \<Rightarrow> heap \<Rightarrow> heap" where
  "destroyQueue q h = safeFree q QUEUE_SIZE h"

definition set_next :: "ptr \<Rightarrow> ptr \<Rightarrow> qmem \<Rightarrow> qmem" where
  "set_next e p m = m\<lparr>qnext := (qnext m)(e := p)\<rparr>"

definition set_qdata :: "ptr \<Rightarrow> ptr \<Rightarrow> qmem \<Rightarrow> qmem" where
  "set_qdata e p m = m\<lparr>qdata := (qdata m)(e := p)\<rparr>"

subsection \<open>Under the mutex\<close>

type_synonym qworld = "queue \<times> qmem \<times> heap"

text \<open>\<open>None\<close>: no storage; the code would store through a null pointer.\<close>

definition qInsert :: "qworld \<Rightarrow> ptr \<Rightarrow> qworld option" where
  "qInsert s newData =
     (case s of (q, m, h) \<Rightarrow>
        let (newElement, h1) = safeMalloc QUEUEELEMENT_SIZE h in
        if newElement = NULL then None
        else
          let m1 = set_next newElement NULL (set_qdata newElement newData m) in
          if head q = NULL
          then Some (q\<lparr>head := newElement, tail := newElement\<rparr>, m1, h1)
          else Some (q\<lparr>tail := newElement\<rparr>, set_next (tail q) newElement m1, h1))"

definition qRemove :: "qworld \<Rightarrow> ptr option \<times> qworld" where
  "qRemove s =
     (case s of (q, m, h) \<Rightarrow>
        if head q = NULL then (None, s)
        else if head q = tail q then
          (Some (qdata m (head q)),
           (q\<lparr>head := NULL, tail := NULL\<rparr>, m, safeFree (head q) QUEUEELEMENT_SIZE h))
        else
          (Some (qdata m (head q)),
           (q\<lparr>head := qnext m (head q)\<rparr>, m, safeFree (head q) QUEUEELEMENT_SIZE h)))"

subsection \<open>In a constrained transaction\<close>

text \<open>The generated instructions between \<open>TBEGINC\<close> and \<open>TEND\<close>, which run as one.\<close>

definition txEnqueue :: "queue \<Rightarrow> qmem \<Rightarrow> ptr \<Rightarrow> queue \<times> qmem" where
  "txEnqueue q m0 newElement =
     (let m = set_next newElement NULL m0;
          lastElement = tail q;
          q1 = q\<lparr>tail := newElement\<rparr>
      in if lastElement \<noteq> NULL then (q1, set_next lastElement newElement m)
         else (q1\<lparr>head := newElement\<rparr>, m))"

definition txDequeue :: "queue \<Rightarrow> qmem \<Rightarrow> ptr \<times> queue \<times> qmem" where
  "txDequeue q m =
     (let currentHead = head q in
      if currentHead = NULL then (NULL, q, m)
      else
        let nxt = qnext m currentHead;
            q1 = q\<lparr>head := nxt\<rparr>;
            q2 = (if nxt = NULL then q1\<lparr>tail := nxt\<rparr> else q1)
        in (currentHead, q2, set_next currentHead NULL m))"

definition txInsert :: "qworld \<Rightarrow> ptr \<Rightarrow> qworld option" where
  "txInsert s newData =
     (case s of (q, m, h) \<Rightarrow>
        let (newElement, h1) = safeMalloc QUEUEELEMENT_SIZE h in
        if newElement = NULL then None
        else let (q1, m1) = txEnqueue q (set_qdata newElement newData m) newElement
             in Some (q1, m1, h1))"

definition txRemove :: "qworld \<Rightarrow> ptr option \<times> qworld" where
  "txRemove s =
     (case s of (q, m, h) \<Rightarrow>
        let (element, q1, m1) = txDequeue q m in
        if element \<noteq> NULL
        then (Some (qdata m1 element), (q1, m1, safeFree element QUEUEELEMENT_SIZE h))
        else (None, (q1, m1, h)))"

subsection \<open>With PLO\<close>

text \<open>
  \<open>compareAndLoad\<close> and \<open>compareAndSwapTriple\<close> are one instruction each: either the counter has
  the expected value and the load, or all the stores, happen, or the counter's value comes
  back. The stores of the triple go to the head, the tail and, in this order, to a third word,
  which is a next field or the tail again.
\<close>

datatype word_addr = NextOf ptr | TailField

definition next_counter :: "64 word \<Rightarrow> 64 word" where
  "next_counter lockCounter = (let c = lockCounter + 1 in if c <s 0 then 1 else c)"

definition compareAndLoad :: "64 word \<Rightarrow> queue \<Rightarrow> qmem \<Rightarrow> ptr \<Rightarrow> ptr + 64 word" where
  "compareAndLoad old q m e = (if counter q = old then Inl (qnext m e) else Inr (counter q))"

definition compareAndSwapTriple :: "64 word \<Rightarrow> 64 word \<Rightarrow> ptr \<Rightarrow> ptr \<Rightarrow> word_addr \<times> ptr \<Rightarrow>
    queue \<Rightarrow> qmem \<Rightarrow> (queue \<times> qmem) + 64 word" where
  "compareAndSwapTriple old new newHead newTail third q m =
     (if counter q = old then
        let q1 = q\<lparr>counter := new, head := newHead, tail := newTail\<rparr> in
        Inl (case third of
               (NextOf e, v) \<Rightarrow> (q1, set_next e v m)
             | (TailField, v) \<Rightarrow> (q1\<lparr>tail := v\<rparr>, m))
      else Inr (counter q))"

text \<open>
  Where a thread is: in \<open>qEnqueue\<close> (\<open>E\<close>) or \<open>qDequeue\<close> (\<open>D\<close>), before the step named, with the
  values of its local variables so far. \<open>q->head\<close> and \<open>q->tail\<close> are read as often as the
  source names them.
\<close>

datatype pc =
    Idle
  | ECounter ptr
  | EHeadTest ptr "64 word"
  | EHeadLoad ptr "64 word"
  | ETailLoad ptr "64 word" ptr
  | ETailTest ptr "64 word" ptr ptr
  | ESwap ptr "64 word" ptr word_addr
  | DCounter
  | DHead "64 word"
  | DLoad "64 word" ptr
  | DTail "64 word" ptr ptr
  | DSwap "64 word" ptr ptr ptr

record plo =
  pq :: queue
  pm :: qmem
  pcs :: "nat \<Rightarrow> pc"
  put_log :: "ptr list"
  got_log :: "ptr list"

abbreviation goto :: "nat \<Rightarrow> pc \<Rightarrow> plo \<Rightarrow> plo" where
  "goto t p s \<equiv> s\<lparr>pcs := (pcs s)(t := p)\<rparr>"

fun pending :: "pc \<Rightarrow> ptr option" where
  "pending (ECounter e) = Some e"
| "pending (EHeadTest e _) = Some e"
| "pending (EHeadLoad e _) = Some e"
| "pending (ETailLoad e _ _) = Some e"
| "pending (ETailTest e _ _ _) = Some e"
| "pending (ESwap e _ _ _) = Some e"
| "pending _ = None"

text \<open>The elements linked and not yet taken out.\<close>

definition in_queue :: "plo \<Rightarrow> ptr list" where
  "in_queue s = drop (length (got_log s)) (put_log s)"

text \<open>
  \<open>put_log\<close> and \<open>got_log\<close> record, in order, what a successful triple linked and unlinked. A
  thread starts \<open>qEnqueue\<close> with an element that is neither in the queue nor in the hands of
  another enqueuer. Every step is labelled with whether it changed the queue.
\<close>

inductive plo_step :: "bool \<Rightarrow> plo \<Rightarrow> plo \<Rightarrow> bool" where
  enq_start: "pcs s t = Idle \<Longrightarrow> e \<noteq> NULL \<Longrightarrow> e \<notin> set (in_queue s) \<Longrightarrow>
    (\<forall>u. pending (pcs s u) \<noteq> Some e) \<Longrightarrow>
    plo_step False s (goto t (ECounter e) (s\<lparr>pm := set_next e NULL (pm s)\<rparr>))"
| enq_counter: "pcs s t = ECounter e \<Longrightarrow> 0 \<le>s counter (pq s) \<Longrightarrow>
    plo_step False s (goto t (EHeadTest e (counter (pq s))) s)"
| enq_head_empty: "pcs s t = EHeadTest e lc \<Longrightarrow> head (pq s) = NULL \<Longrightarrow>
    plo_step False s (goto t (ETailLoad e lc e) s)"
| enq_head_some: "pcs s t = EHeadTest e lc \<Longrightarrow> head (pq s) \<noteq> NULL \<Longrightarrow>
    plo_step False s (goto t (EHeadLoad e lc) s)"
| enq_head_load: "pcs s t = EHeadLoad e lc \<Longrightarrow>
    plo_step False s (goto t (ETailLoad e lc (head (pq s))) s)"
| enq_tail_load: "pcs s t = ETailLoad e lc dh \<Longrightarrow>
    plo_step False s (goto t (ETailTest e lc dh (tail (pq s))) s)"
| enq_tail_test: "pcs s t = ETailTest e lc dh last_elem \<Longrightarrow>
    plo_step False s (goto t (ESwap e lc dh
      (if tail (pq s) \<noteq> NULL then NextOf last_elem else TailField)) s)"
| enq_swap: "pcs s t = ESwap e lc dh a \<Longrightarrow>
    compareAndSwapTriple lc (next_counter lc) dh e (a, e) (pq s) (pm s) = Inl (q', m') \<Longrightarrow>
    plo_step True s (goto t Idle (s\<lparr>pq := q', pm := m', put_log := put_log s @ [e]\<rparr>))"
| enq_retry: "pcs s t = ESwap e lc dh a \<Longrightarrow>
    compareAndSwapTriple lc (next_counter lc) dh e (a, e) (pq s) (pm s) = Inr lc' \<Longrightarrow>
    plo_step False s (goto t (EHeadTest e lc') s)"
| deq_start: "pcs s t = Idle \<Longrightarrow> plo_step False s (goto t DCounter s)"
| deq_counter: "pcs s t = DCounter \<Longrightarrow> 0 \<le>s counter (pq s) \<Longrightarrow>
    plo_step False s (goto t (DHead (counter (pq s))) s)"
| deq_empty: "pcs s t = DHead lc \<Longrightarrow> head (pq s) = NULL \<Longrightarrow> plo_step False s (goto t Idle s)"
| deq_head: "pcs s t = DHead lc \<Longrightarrow> head (pq s) \<noteq> NULL \<Longrightarrow>
    plo_step False s (goto t (DLoad lc (head (pq s))) s)"
| deq_load: "pcs s t = DLoad lc h \<Longrightarrow> compareAndLoad lc (pq s) (pm s) h = Inl dh \<Longrightarrow>
    plo_step False s (goto t (DTail lc h dh) s)"
| deq_load_retry: "pcs s t = DLoad lc h \<Longrightarrow> compareAndLoad lc (pq s) (pm s) h = Inr lc' \<Longrightarrow>
    plo_step False s (goto t (DHead lc') s)"
| deq_tail: "pcs s t = DTail lc h dh \<Longrightarrow>
    plo_step False s (goto t (DSwap lc h dh (if dh \<noteq> NULL then tail (pq s) else NULL)) s)"
| deq_swap: "pcs s t = DSwap lc h dh dt \<Longrightarrow>
    compareAndSwapTriple lc (next_counter lc) dh dt (NextOf h, NULL) (pq s) (pm s) = Inl (q', m') \<Longrightarrow>
    plo_step True s (goto t Idle (s\<lparr>pq := q', pm := m', got_log := got_log s @ [h]\<rparr>))"
| deq_retry: "pcs s t = DSwap lc h dh dt \<Longrightarrow>
    compareAndSwapTriple lc (next_counter lc) dh dt (NextOf h, NULL) (pq s) (pm s) = Inr lc' \<Longrightarrow>
    plo_step False s (goto t (DHead lc') s)"

definition plo_start :: "int \<Rightarrow> qmem \<Rightarrow> plo" where
  "plo_start flags m = \<lparr>pq = makeQueue flags False, pm = m, pcs = (\<lambda>_. Idle), put_log = [], got_log = []\<rparr>"

text \<open>\<open>plo_run n s\<close>: a run of any number of steps reaches \<open>s\<close>; \<open>n\<close> of them changed the queue.\<close>

inductive plo_run :: "nat \<Rightarrow> plo \<Rightarrow> bool" where
  start: "plo_run 0 (plo_start flags m)"
| read: "plo_run n s \<Longrightarrow> plo_step False s s' \<Longrightarrow> plo_run n s'"
| change: "plo_run n s \<Longrightarrow> plo_step True s s' \<Longrightarrow> plo_run (Suc n) s'"

subsection \<open>Lists in memory\<close>

text \<open>\<open>linked f p es z\<close>: from \<open>p\<close>, \<open>f\<close> visits \<open>es\<close> and ends in \<open>NULL\<close>; \<open>z\<close> is the last.\<close>

definition linked :: "(ptr \<Rightarrow> ptr) \<Rightarrow> ptr \<Rightarrow> ptr list \<Rightarrow> ptr \<Rightarrow> bool" where
  "linked f p es z \<longleftrightarrow> hchain f p es \<and> distinct es \<and> (if es = [] then z = NULL else z = last es)"

lemma hchain_snoc:
  "hchain f p es \<Longrightarrow> distinct es \<Longrightarrow> e \<notin> set es \<Longrightarrow> e \<noteq> NULL \<Longrightarrow> f e = NULL \<Longrightarrow> es \<noteq> [] \<Longrightarrow>
     hchain (f(last es := e)) p (es @ [e])"
proof (induction es arbitrary: p)
  case (Cons a es)
  then show ?case by (cases "es = []") auto
qed simp

lemma linked_snoc:
  assumes "linked f p es z" "e \<notin> set es" "e \<noteq> NULL" "f e = NULL"
  shows "es \<noteq> [] \<Longrightarrow> linked (f(z := e)) p (es @ [e]) e" "es = [] \<Longrightarrow> linked f e [e] e"
  using assms hchain_snoc [of f p es e] by (auto simp: linked_def)

lemma hchain_no_null: "hchain f p es \<Longrightarrow> NULL \<notin> set es"
  by (induction es arbitrary: p) auto

lemma linked_null:
  assumes "linked f p es z"
  shows "p = NULL \<longleftrightarrow> es = []" "z = NULL \<longleftrightarrow> es = []"
proof -
  from assms show "p = NULL \<longleftrightarrow> es = []" by (cases es) (auto simp: linked_def)
  show "z = NULL \<longleftrightarrow> es = []"
    using assms hchain_no_null [of f p es] last_in_set [of es]
    unfolding linked_def by metis
qed

lemma linked_tl:
  assumes "linked f p (e # es) z"
  shows "p = e" "linked (f(e := v)) (f e) es (if es = [] then NULL else z)" "e \<noteq> NULL"
    "es = [] \<longleftrightarrow> f e = NULL"
proof -
  from assms have h: "hchain f (f e) es" and d: "e \<notin> set es" by (auto simp: linked_def)
  then have "hchain (f(e := v)) (f e) es" by (simp add: chain_simps)
  with assms h show "p = e" "linked (f(e := v)) (f e) es (if es = [] then NULL else z)" "e \<noteq> NULL"
    "es = [] \<longleftrightarrow> f e = NULL"
    by (auto simp: linked_def)
qed

lemma linked_upd: "a \<notin> set es \<Longrightarrow> linked (f(a := v)) p es z = linked f p es z"
  by (simp add: linked_def chain_simps)

subsection \<open>The mutex and the transaction queues are FIFO queues\<close>

definition elems :: "queue \<Rightarrow> qmem \<Rightarrow> ptr list \<Rightarrow> bool" where
  "elems q m es \<longleftrightarrow> linked (qnext m) (head q) es (tail q)"

definition queue_ok :: "qworld \<Rightarrow> bool" where
  "queue_ok s \<longleftrightarrow> (case s of (q, m, h) \<Rightarrow>
     0 < hbrk h \<and> (\<exists>es. elems q m es \<and> (\<forall>e \<in> set es. e < hbrk h)))"

text \<open>The values in the queue, by following the next fields.\<close>

definition queue_elems :: "qworld \<Rightarrow> ptr list" where
  "queue_elems s = (case s of (q, m, h) \<Rightarrow> (THE es. hchain (qnext m) (head q) es))"

definition queue_contents :: "qworld \<Rightarrow> ptr list" where
  "queue_contents s = (case s of (q, m, h) \<Rightarrow> map (qdata m) (queue_elems s))"

lemma queue_elems_eq: "elems q m es \<Longrightarrow> queue_elems (q, m, h) = es"
  unfolding queue_elems_def elems_def linked_def
  by (auto intro!: the_equality dest: hchain_unique)

lemma queue_contents_eq: "elems q m es \<Longrightarrow> queue_contents (q, m, h) = map (qdata m) es"
  by (simp add: queue_contents_def queue_elems_eq)

text \<open>Linking a fresh element at the end, unlinking the first one.\<close>

lemma elems_push:
  assumes "elems q m es" "e \<notin> set es" "e \<noteq> NULL" "qnext m e = NULL"
  shows "es = [] \<Longrightarrow> elems (q\<lparr>head := e, tail := e\<rparr>) m [e]"
    "es \<noteq> [] \<Longrightarrow> elems (q\<lparr>tail := e\<rparr>) (set_next (tail q) e m) (es @ [e])"
  using linked_snoc [OF assms(1) [unfolded elems_def] assms(2-4)]
  by (auto simp: elems_def set_next_def)

lemma elems_set_other [simp]:
  "e \<notin> set es \<Longrightarrow> elems q (set_next e p m) es = elems q m es"
  "elems q (set_qdata e p m) es = elems q m es"
  by (simp_all add: elems_def set_next_def set_qdata_def linked_upd)

lemma qInsert_ok:
  assumes "queue_ok s" "qInsert s v = Some s'"
  shows "queue_ok s' \<and> queue_contents s' = queue_contents s @ [v]"
proof -
  obtain q m h where s: "s = (q, m, h)" by (cases s)
  from assms(1) obtain es where es: "elems q m es" "\<forall>e \<in> set es. e < hbrk h" "0 < hbrk h"
    by (auto simp: queue_ok_def s)
  obtain e h1 where al: "safeMalloc QUEUEELEMENT_SIZE h = (e, h1)" by fastforce
  let ?m = "set_next e NULL (set_qdata e v m)"
  have e0: "e \<noteq> NULL"
  proof
    assume "e = NULL"
    with assms(2) al show False by (simp add: qInsert_def s)
  qed
  with al es(3) have e: "e = hbrk h" "hbrk h < hbrk h1"
    by (auto simp: safeMalloc_def QUEUEELEMENT_SIZE_def split: if_splits)
  with es(2) have nin: "e \<notin> set es" by auto
  have old: "elems q ?m es" using es(1) nin by simp
  have emp: "head q = NULL \<longleftrightarrow> es = []" using linked_null(1) es(1) by (simp add: elems_def)
  note p = elems_push [OF old nin e0]
  let ?q = "if es = [] then q\<lparr>head := e, tail := e\<rparr> else q\<lparr>tail := e\<rparr>"
  let ?m2 = "if es = [] then ?m else set_next (tail q) e ?m"
  have s': "s' = (?q, ?m2, h1)"
    using assms(2) al e0 emp by (auto simp: qInsert_def s Let_def)
  have new: "elems ?q ?m2 (es @ [e])" using p by (auto simp: set_next_def)
  have d: "qdata ?m2 = (qdata m)(e := v)" by (simp add: set_next_def set_qdata_def)
  from new e es(2,3) have "queue_ok s'" by (fastforce simp: queue_ok_def s')
  moreover have "queue_contents s' = map (qdata ?m2) (es @ [e])"
    unfolding s' by (rule queue_contents_eq [OF new])
  moreover have "\<dots> = map (qdata m) es @ [v]" unfolding d using nin by simp
  ultimately show ?thesis using queue_contents_eq [OF es(1)] by (simp add: s)
qed

lemma elems_pop:
  assumes "elems q m (e # es)"
  shows "elems (q\<lparr>head := qnext m e, tail := if es = [] then NULL else tail q\<rparr>) (set_next e v m) es"
    "elems (q\<lparr>head := qnext m e, tail := if es = [] then NULL else tail q\<rparr>) m es"
    "head q = e" "e \<noteq> NULL" "es = [] \<longleftrightarrow> qnext m e = NULL" "es = [] \<longleftrightarrow> head q = tail q"
proof -
  note l = assms [unfolded elems_def]
  from linked_tl(2) [OF l, of v] linked_tl(2) [OF l, of "qnext m e"] linked_tl(1,3,4) [OF l]
  show "elems (q\<lparr>head := qnext m e, tail := if es = [] then NULL else tail q\<rparr>) (set_next e v m) es"
    "elems (q\<lparr>head := qnext m e, tail := if es = [] then NULL else tail q\<rparr>) m es"
    "head q = e" "e \<noteq> NULL" "es = [] \<longleftrightarrow> qnext m e = NULL"
    by (auto simp: elems_def set_next_def)
  show "es = [] \<longleftrightarrow> head q = tail q"
    using l last_in_set [of es] by (auto simp: linked_def)
qed

lemma elems_Nil: "elems q m [] \<longleftrightarrow> head q = NULL \<and> tail q = NULL"
  by (auto simp: elems_def linked_def)

lemma qRemove_ok:
  assumes "queue_ok s" "qRemove s = (r, s')"
  shows "queue_ok s' \<and> r = (case queue_contents s of [] \<Rightarrow> None | v # _ \<Rightarrow> Some v) \<and>
    queue_contents s' = tl (queue_contents s)"
proof -
  obtain q m h where s: "s = (q, m, h)" by (cases s)
  from assms(1) obtain es where es: "elems q m es" "\<forall>e \<in> set es. e < hbrk h" "0 < hbrk h"
    by (auto simp: queue_ok_def s)
  note c = queue_contents_eq [OF es(1)]
  show ?thesis
  proof (cases es)
    case Nil
    with assms es c show ?thesis by (auto simp: elems_Nil qRemove_def s)
  next
    case (Cons e es')
    note pop = elems_pop [OF es(1) [unfolded Cons]]
    let ?q = "q\<lparr>head := qnext m e, tail := if es' = [] then NULL else tail q\<rparr>"
    have s': "s' = (?q, m, safeFree e QUEUEELEMENT_SIZE h)" and r: "r = Some (qdata m e)"
      using assms(2) pop(3-6) by (auto simp: qRemove_def s split: if_splits)
    have "queue_ok s'" using pop(2) es(2,3) Cons by (auto simp: queue_ok_def s')
    moreover have "queue_contents s' = map (qdata m) es'"
      unfolding s' by (rule queue_contents_eq [OF pop(2)])
    ultimately show ?thesis using r c Cons by (simp add: s)
  qed
qed

interpretation mq: fifo_queue qInsert qRemove queue_contents queue_ok
  by unfold_locales (use qInsert_ok qRemove_ok in blast)+

text \<open>In a transaction the two operations have the same effect on the list.\<close>

lemma txEnqueue_elems:
  assumes "elems q m es" "e \<notin> set es" "e \<noteq> NULL" "txEnqueue q m e = (q', m')"
  shows "elems q' m' (es @ [e]) \<and> qdata m' = qdata m \<and> counter q' = counter q"
proof -
  have old: "elems q (set_next e NULL m) es" using assms(1,2) by simp
  have "tail q = NULL \<longleftrightarrow> es = []" using linked_null(2) assms(1) by (simp add: elems_def)
  with elems_push [OF old assms(2,3)] assms(4) show ?thesis
    by (cases "es = []") (auto simp: txEnqueue_def Let_def set_next_def elems_def)
qed

lemma txDequeue_elems:
  assumes "elems q m es" "txDequeue q m = (e, q', m')"
  shows "elems q' m' (tl es) \<and> e = (case es of [] \<Rightarrow> NULL | x # _ \<Rightarrow> x) \<and>
    (es \<noteq> [] \<longrightarrow> e \<noteq> NULL) \<and> qdata m' = qdata m \<and> counter q' = counter q"
proof (cases es)
  case Nil
  with assms show ?thesis by (auto simp: elems_Nil txDequeue_def)
next
  case (Cons x xs)
  note pop = elems_pop [OF assms(1) [unfolded Cons]]
  have "head q = x" "x \<noteq> NULL" using pop(3,4) by auto
  with assms(2) have eq: "e = x" "m' = set_next x NULL m"
      "q' = q\<lparr>head := qnext m x, tail := if xs = [] then NULL else tail q\<rparr>"
    using pop(5) by (auto simp: txDequeue_def Let_def)
  with pop(1) [where v = NULL] pop(4) Cons show ?thesis by (simp add: set_next_def)
qed

lemma txInsert_ok:
  assumes "queue_ok s" "txInsert s v = Some s'"
  shows "queue_ok s' \<and> queue_contents s' = queue_contents s @ [v]"
proof -
  obtain q m h where s: "s = (q, m, h)" by (cases s)
  from assms(1) obtain es where es: "elems q m es" "\<forall>e \<in> set es. e < hbrk h" "0 < hbrk h"
    by (auto simp: queue_ok_def s)
  obtain e h1 where al: "safeMalloc QUEUEELEMENT_SIZE h = (e, h1)" by fastforce
  have e0: "e \<noteq> NULL"
  proof
    assume "e = NULL"
    with assms(2) al show False by (simp add: txInsert_def s)
  qed
  with al es(3) have e: "e = hbrk h" "hbrk h < hbrk h1"
    by (auto simp: safeMalloc_def QUEUEELEMENT_SIZE_def split: if_splits)
  with es(2) have nin: "e \<notin> set es" by auto
  obtain q1 m1 where tx: "txEnqueue q (set_qdata e v m) e = (q1, m1)" by fastforce
  with assms(2) al e0 have s': "s' = (q1, m1, h1)" by (simp add: txInsert_def s)
  note t = txEnqueue_elems [OF _ nin e0 tx]
  have new: "elems q1 m1 (es @ [e])" "qdata m1 = (qdata m)(e := v)"
    using t es(1) by (auto simp: set_qdata_def [of e v m] elems_def)
  from new e es(2,3) have "queue_ok s'" by (fastforce simp: queue_ok_def s')
  moreover have "queue_contents s' = map (qdata m1) (es @ [e])"
    unfolding s' by (rule queue_contents_eq [OF new(1)])
  moreover have "\<dots> = map (qdata m) es @ [v]" unfolding new(2) using nin by simp
  ultimately show ?thesis using queue_contents_eq [OF es(1)] by (simp add: s)
qed

lemma txRemove_ok:
  assumes "queue_ok s" "txRemove s = (r, s')"
  shows "queue_ok s' \<and> r = (case queue_contents s of [] \<Rightarrow> None | v # _ \<Rightarrow> Some v) \<and>
    queue_contents s' = tl (queue_contents s)"
proof -
  obtain q m h where s: "s = (q, m, h)" by (cases s)
  from assms(1) obtain es where es: "elems q m es" "\<forall>e \<in> set es. e < hbrk h" "0 < hbrk h"
    by (auto simp: queue_ok_def s)
  obtain e q1 m1 where tx: "txDequeue q m = (e, q1, m1)" by (metis prod.exhaust)
  note t = txDequeue_elems [OF es(1) tx]
  define h1 where "h1 = (if e \<noteq> NULL then safeFree e QUEUEELEMENT_SIZE h else h)"
  have s': "s' = (q1, m1, h1)" and r: "r = (if e \<noteq> NULL then Some (qdata m1 e) else None)"
    using assms(2) tx by (auto simp: txRemove_def s h1_def split: if_splits)
  have "hbrk h1 = hbrk h" by (simp add: h1_def)
  then have "queue_ok s'" using t es(2,3) by (cases es) (auto simp: queue_ok_def s')
  moreover have "queue_contents s' = map (qdata m) (tl es)"
    using queue_contents_eq [of q1 m1 "tl es" h1] t by (simp add: s')
  ultimately show ?thesis
    using queue_contents_eq [OF es(1), of h] t r by (cases es) (auto simp: s)
qed

interpretation tq: fifo_queue txInsert txRemove queue_contents queue_ok
  by unfold_locales (use txInsert_ok txRemove_ok in blast)+

subsection \<open>The invariant of the interleaved queue\<close>

text \<open>
  A thread that still has the current value of the counter has also read the other fields as
  they are now; a thread with an older value will have its triple refused.
\<close>

fun stamp :: "pc \<Rightarrow> 64 word option" where
  "stamp (EHeadTest _ lc) = Some lc"
| "stamp (EHeadLoad _ lc) = Some lc"
| "stamp (ETailLoad _ lc _) = Some lc"
| "stamp (ETailTest _ lc _ _) = Some lc"
| "stamp (ESwap _ lc _ _) = Some lc"
| "stamp (DHead lc) = Some lc"
| "stamp (DLoad lc _) = Some lc"
| "stamp (DTail lc _ _) = Some lc"
| "stamp (DSwap lc _ _ _) = Some lc"
| "stamp _ = None"

fun local_ok :: "queue \<Rightarrow> qmem \<Rightarrow> pc \<Rightarrow> bool" where
  "local_ok q m (EHeadLoad _ _) = (head q \<noteq> NULL)"
| "local_ok q m (ETailLoad e _ dh) = (dh = (if head q = NULL then e else head q))"
| "local_ok q m (ETailTest e _ dh l) = (dh = (if head q = NULL then e else head q) \<and> l = tail q)"
| "local_ok q m (ESwap e _ dh a) =
     (dh = (if head q = NULL then e else head q) \<and>
      a = (if tail q \<noteq> NULL then NextOf (tail q) else TailField))"
| "local_ok q m (DLoad _ h) = (h = head q \<and> h \<noteq> NULL)"
| "local_ok q m (DTail _ h dh) = (h = head q \<and> h \<noteq> NULL \<and> dh = qnext m h)"
| "local_ok q m (DSwap _ h dh dt) =
     (h = head q \<and> h \<noteq> NULL \<and> dh = qnext m h \<and> dt = (if dh \<noteq> NULL then tail q else NULL))"
| "local_ok q m _ = True"

definition stamp_ok :: "nat \<Rightarrow> pc \<Rightarrow> bool" where
  "stamp_ok n p \<longleftrightarrow> (\<forall>lc. stamp p = Some lc \<longrightarrow> 0 < unat lc \<and> unat lc \<le> Suc n)"

definition pc_ok :: "nat \<Rightarrow> plo \<Rightarrow> pc \<Rightarrow> bool" where
  "pc_ok n s p \<longleftrightarrow> stamp_ok n p \<and>
     (stamp p = Some (counter (pq s)) \<longrightarrow> local_ok (pq s) (pm s) p)"

definition hands_ok :: "plo \<Rightarrow> ptr list \<Rightarrow> bool" where
  "hands_ok s es \<longleftrightarrow>
     (\<forall>t e. pending (pcs s t) = Some e \<longrightarrow>
        e \<noteq> NULL \<and> e \<notin> set es \<and> qnext (pm s) e = NULL \<and>
        (\<forall>u. pending (pcs s u) = Some e \<longrightarrow> u = t))"

definition plo_inv :: "nat \<Rightarrow> ptr list \<Rightarrow> plo \<Rightarrow> bool" where
  "plo_inv n es s \<longleftrightarrow>
     put_log s = got_log s @ es \<and> elems (pq s) (pm s) es \<and>
     unat (counter (pq s)) = Suc n \<and> (\<forall>t. pc_ok n s (pcs s t)) \<and> hands_ok s es"

lemma plo_invD:
  assumes "plo_inv n es s"
  shows "put_log s = got_log s @ es" "elems (pq s) (pm s) es" "unat (counter (pq s)) = Suc n"
    "pc_ok n s (pcs s t)" "hands_ok s es" "in_queue s = es"
  using assms by (auto simp: plo_inv_def in_queue_def)

text \<open>A step of one thread that only reads.\<close>

lemma hands_okD:
  assumes "hands_ok s es" "pending (pcs s t) = Some e"
  shows "e \<noteq> NULL" "e \<notin> set es" "qnext (pm s) e = NULL"
    "pending (pcs s u) = Some e \<Longrightarrow> u = t"
  using assms unfolding hands_ok_def by blast+

lemma hands_okI:
  assumes "\<And>t e. pending (pcs s t) = Some e \<Longrightarrow> e \<noteq> NULL \<and> e \<notin> set es \<and> qnext (pm s) e = NULL"
    "\<And>t u e. pending (pcs s t) = Some e \<Longrightarrow> pending (pcs s u) = Some e \<Longrightarrow> u = t"
  shows "hands_ok s es"
  unfolding hands_ok_def using assms by blast

lemma hands_ok_goto:
  assumes h: "hands_ok s es" and p: "pending p = pending (pcs s t) \<or> pending p = None"
  shows "hands_ok (goto t p s) es"
proof (rule hands_okI)
  have old: "pending (pcs s u) = Some e" if "pending (pcs (goto t p s) u) = Some e" for u e
    using that p by (auto split: if_splits)
  show "e \<noteq> NULL \<and> e \<notin> set es \<and> qnext (pm (goto t p s)) e = NULL"
    if "pending (pcs (goto t p s) u) = Some e" for u e
    using hands_okD(1-3) [OF h old [OF that]] by simp
  show "v = u" if "pending (pcs (goto t p s) u) = Some e" "pending (pcs (goto t p s) v) = Some e"
    for u v e
    by (rule hands_okD(4) [OF h old [OF that(1)] old [OF that(2)]])
qed

lemma plo_inv_goto:
  assumes "plo_inv n es s" "pc_ok n s p" "pending p = pending (pcs s t) \<or> pending p = None"
  shows "plo_inv n es (goto t p s)"
  using assms hands_ok_goto [of s es p t] by (auto simp: plo_inv_def pc_ok_def)

lemma plo_inv_start:
  assumes inv: "plo_inv n es s" and e: "e \<noteq> NULL" "e \<notin> set (in_queue s)"
    "\<forall>u. pending (pcs s u) \<noteq> Some e" and t: "pcs s t = Idle"
  shows "plo_inv n es (goto t (ECounter e) (s\<lparr>pm := set_next e NULL (pm s)\<rparr>))"
proof -
  let ?s = "goto t (ECounter e) (s\<lparr>pm := set_next e NULL (pm s)\<rparr>)"
  note i = plo_invD [OF inv]
  have nin: "e \<notin> set es" using e(2) i(6) by simp
  have h: "head (pq s) \<noteq> e \<or> head (pq s) = NULL"
    using i(2) nin by (cases es) (auto simp: elems_def linked_def)
  have "local_ok (pq s) (set_next e NULL (pm s)) p" if "local_ok (pq s) (pm s) p" for p
    using that h by (cases p) (auto simp: set_next_def)
  then have "pc_ok n ?s (pcs ?s u)" for u
    using i(4) [of u] by (auto simp: pc_ok_def stamp_ok_def)
  moreover have "hands_ok ?s es"
    using i(5) e(1,3) nin t by (auto simp: hands_ok_def set_next_def)
  ultimately show ?thesis using i(1-3) nin by (simp add: plo_inv_def)
qed

lemma signed_nonneg:
  assumes "unat (w :: 64 word) < 2 ^ 63"
  shows "\<not> w <s 0" "0 \<le>s w"
proof -
  have "int (unat w) < 2 ^ 63" using assms by (metis of_nat_less_iff of_nat_numeral of_nat_power)
  then have "uint w < 2 ^ 63" by (simp only: uint_nat)
  moreover have "- (2 ^ 63) \<le> uint w" by (rule order_trans [OF _ uint_ge_0]) simp
  ultimately have "signed_take_bit 63 (uint w) = uint w"
    by (intro signed_take_bit_int_eq_self)
  then have "sint w = uint w" by (simp add: sint_uint)
  then have "0 \<le> sint w" by simp
  then show "\<not> w <s 0" "0 \<le>s w" by (simp_all add: word_sless_alt word_sle_eq)
qed

lemma next_counter_Suc:
  assumes "unat lc = Suc n" "Suc (Suc n) < 2 ^ 63"
  shows "unat (next_counter lc) = Suc (Suc n)"
proof -
  have "unat (lc + 1) = Suc (Suc n)" using assms by (simp add: unat_plus_simple word_le_nat_alt unat_word_ariths)
  with signed_nonneg(1) [of "lc + 1"] assms(2) show ?thesis by (simp add: next_counter_def)
qed

text \<open>A step that changes the queue makes every other thread's stamp old.\<close>

lemma others_old:
  assumes "stamp_ok n p" "unat c = Suc (Suc n)"
  shows "stamp_ok (Suc n) p" "stamp p \<noteq> Some c"
  using assms by (auto simp: stamp_ok_def)

lemma elems_ends:
  assumes "elems q m es"
  shows "head q = NULL \<longleftrightarrow> es = []" "tail q = NULL \<longleftrightarrow> es = []"
    "es \<noteq> [] \<Longrightarrow> tail q \<in> set es"
  using assms linked_null [of "qnext m" "head q" es "tail q"] last_in_set [of es]
  by (auto simp: elems_def linked_def)

lemma elems_counter: "elems (q\<lparr>counter := c\<rparr>) m es = elems q m es"
  by (simp add: elems_def)

lemma plo_read:
  assumes "plo_step False s s'" "plo_inv n es s"
  shows "plo_inv n es s'"
proof -
  note pcs_ok = plo_invD(4) [OF assms(2)] and cnt = plo_invD(3) [OF assms(2)]
  show ?thesis
    using assms(1)
  proof cases
    case (enq_start t e)
    then show ?thesis using plo_inv_start [OF assms(2)] by simp
  next
    case (enq_counter t e)
    then show ?thesis using pcs_ok [of t] cnt
      by (auto intro!: plo_inv_goto [OF assms(2)] simp: pc_ok_def stamp_ok_def)
  next
    case (enq_head_empty t e lc)
    then show ?thesis using pcs_ok [of t]
      by (auto intro!: plo_inv_goto [OF assms(2)] simp: pc_ok_def stamp_ok_def)
  next
    case (enq_head_some t e lc)
    then show ?thesis using pcs_ok [of t]
      by (auto intro!: plo_inv_goto [OF assms(2)] simp: pc_ok_def stamp_ok_def)
  next
    case (enq_head_load t e lc)
    then show ?thesis using pcs_ok [of t]
      by (auto intro!: plo_inv_goto [OF assms(2)] simp: pc_ok_def stamp_ok_def)
  next
    case (enq_tail_load t e lc dh)
    then show ?thesis using pcs_ok [of t]
      by (auto intro!: plo_inv_goto [OF assms(2)] simp: pc_ok_def stamp_ok_def)
  next
    case (enq_tail_test t e lc dh l)
    then show ?thesis using pcs_ok [of t]
      by (auto intro!: plo_inv_goto [OF assms(2)] simp: pc_ok_def stamp_ok_def)
  next
    case (enq_retry t e lc dh a lc')
    then show ?thesis using pcs_ok [of t] cnt
      by (auto intro!: plo_inv_goto [OF assms(2)]
          simp: pc_ok_def stamp_ok_def compareAndSwapTriple_def Let_def split: if_splits)
  next
    case (deq_start t)
    then show ?thesis
      by (auto intro!: plo_inv_goto [OF assms(2)] simp: pc_ok_def stamp_ok_def)
  next
    case (deq_counter t)
    then show ?thesis using cnt
      by (auto intro!: plo_inv_goto [OF assms(2)] simp: pc_ok_def stamp_ok_def)
  next
    case (deq_empty t lc)
    then show ?thesis
      by (auto intro!: plo_inv_goto [OF assms(2)] simp: pc_ok_def stamp_ok_def)
  next
    case (deq_head t lc)
    then show ?thesis using pcs_ok [of t]
      by (auto intro!: plo_inv_goto [OF assms(2)] simp: pc_ok_def stamp_ok_def)
  next
    case (deq_load t lc h dh)
    then show ?thesis using pcs_ok [of t]
      by (auto intro!: plo_inv_goto [OF assms(2)]
          simp: pc_ok_def stamp_ok_def compareAndLoad_def split: if_splits)
  next
    case (deq_load_retry t lc h lc')
    then show ?thesis using pcs_ok [of t] cnt
      by (auto intro!: plo_inv_goto [OF assms(2)]
          simp: pc_ok_def stamp_ok_def compareAndLoad_def split: if_splits)
  next
    case (deq_tail t lc h dh)
    then show ?thesis using pcs_ok [of t]
      by (auto intro!: plo_inv_goto [OF assms(2)] simp: pc_ok_def stamp_ok_def)
  next
    case (deq_retry t lc h dh dt lc')
    then show ?thesis using pcs_ok [of t] cnt
      by (auto intro!: plo_inv_goto [OF assms(2)]
          simp: pc_ok_def stamp_ok_def compareAndSwapTriple_def Let_def split: if_splits)
  qed simp_all
qed

text \<open>The threads after a change: the one that made it is idle, the stamps of the others are old.\<close>

lemma pcs_after_change:
  assumes "plo_inv n es s" "unat (counter q') = Suc (Suc n)"
    "pq s' = q'" "pcs s' = (pcs s)(t := Idle)"
  shows "pc_ok (Suc n) s' (pcs s' u)"
  using plo_invD(4) [OF assms(1), of u] others_old [of n "pcs s u" "counter q'"] assms(2-4)
  by (auto simp: pc_ok_def stamp_ok_def)

lemma hands_after_change:
  assumes h: "hands_ok s es" and p: "pcs s' = (pcs s)(t := Idle)"
    and new: "\<And>u e. u \<noteq> t \<Longrightarrow> pending (pcs s u) = Some e \<Longrightarrow>
      e \<notin> set es' \<and> qnext (pm s') e = qnext (pm s) e"
  shows "hands_ok s' es'"
proof (rule hands_okI)
  have old: "pending (pcs s u) = Some e \<and> u \<noteq> t" if "pending (pcs s' u) = Some e" for u e
    using that p by (auto split: if_splits)
  show "e \<noteq> NULL \<and> e \<notin> set es' \<and> qnext (pm s') e = NULL" if "pending (pcs s' u) = Some e" for u e
    using hands_okD(1-3) [OF h conjunct1 [OF old [OF that]]] new old [OF that] by metis
  show "v = u" if "pending (pcs s' u) = Some e" "pending (pcs s' v) = Some e" for u v e
    using hands_okD(4) [OF h] old [OF that(1)] old [OF that(2)] by blast
qed

lemma plo_change:
  assumes st: "plo_step True s s'" and inv: "plo_inv n es s" and n: "Suc (Suc n) < 2 ^ 63"
  shows "\<exists>es'. plo_inv (Suc n) es' s'"
  using st
proof cases
  case (enq_swap t e lc dh a q' m')
  note i = plo_invD [OF inv]
  from enq_swap have lc: "lc = counter (pq s)"
    by (auto simp: compareAndSwapTriple_def split: if_splits)
  with i(4) [of t] enq_swap(2)
  have l: "dh = (if head (pq s) = NULL then e else head (pq s))"
    "a = (if tail (pq s) \<noteq> NULL then NextOf (tail (pq s)) else TailField)"
    by (auto simp: pc_ok_def)
  have pend: "pending (pcs s t) = Some e" using enq_swap(2) by simp
  note own = hands_okD [OF i(5) pend]
  note ends = elems_ends [OF i(2)]
  note push = elems_push [OF i(2) own(2,1,3)]
  let ?c = "next_counter (counter (pq s))"
  have c: "unat ?c = Suc (Suc n)" by (rule next_counter_Suc [OF i(3) n])
  have q: "counter q' = ?c" "elems q' m' (es @ [e])"
    "\<And>x. x \<notin> set es \<Longrightarrow> qnext m' x = qnext (pm s) x"
    using enq_swap(3) push ends
    by (cases "es = []"; auto simp: compareAndSwapTriple_def lc l Let_def elems_def set_next_def)+
  have "hands_ok s' (es @ [e])"
  proof (rule hands_after_change [OF i(5)])
    show "pcs s' = (pcs s)(t := Idle)" using enq_swap(1) by simp
    fix u x assume u: "u \<noteq> t" "pending (pcs s u) = Some x"
    note o = hands_okD [OF i(5) u(2)]
    have "x \<noteq> e" using own(4) u by blast
    then show "x \<notin> set (es @ [e]) \<and> qnext (pm s') x = qnext (pm s) x"
      using o(2) q(3) enq_swap(1) by simp
  qed
  moreover have "pc_ok (Suc n) s' (pcs s' u)" for u
    by (rule pcs_after_change [OF inv, of q']) (use enq_swap(1) c q in auto)
  ultimately have "plo_inv (Suc n) (es @ [e]) s'"
    using enq_swap(1) i(1) q c by (auto simp: plo_inv_def)
  then show ?thesis by blast
next
  case (deq_swap t lc h dh dt q' m')
  note i = plo_invD [OF inv]
  from deq_swap have lc: "lc = counter (pq s)"
    by (auto simp: compareAndSwapTriple_def split: if_splits)
  with i(4) [of t] deq_swap(2)
  have l: "h = head (pq s)" "h \<noteq> NULL" "dh = qnext (pm s) h"
    "dt = (if dh \<noteq> NULL then tail (pq s) else NULL)"
    by (auto simp: pc_ok_def)
  with elems_ends(1) [OF i(2)] obtain es' where es: "es = h # es'"
    using i(2) by (cases es) (auto simp: elems_def linked_def)
  note pop = elems_pop [OF i(2) [unfolded es]]
  let ?c = "next_counter (counter (pq s))"
  have c: "unat ?c = Suc (Suc n)" by (rule next_counter_Suc [OF i(3) n])
  have q: "counter q' = ?c" "elems q' m' es'" "\<And>x. x \<noteq> h \<Longrightarrow> qnext m' x = qnext (pm s) x"
    using deq_swap(3) pop(1) [of NULL] pop(5)
    by (auto simp: compareAndSwapTriple_def lc l Let_def elems_def set_next_def)
  have "hands_ok s' es'"
  proof (rule hands_after_change [OF i(5)])
    show "pcs s' = (pcs s)(t := Idle)" using deq_swap(1) by simp
    fix u x assume u: "u \<noteq> t" "pending (pcs s u) = Some x"
    note o = hands_okD [OF i(5) u(2)]
    then show "x \<notin> set es' \<and> qnext (pm s') x = qnext (pm s) x"
      using q(3) deq_swap(1) by (simp add: es)
  qed
  moreover have "pc_ok (Suc n) s' (pcs s' u)" for u
    by (rule pcs_after_change [OF inv, of q']) (use deq_swap(1) c q in auto)
  ultimately have "plo_inv (Suc n) es' s'"
    using deq_swap(1) i(1) q c by (auto simp: plo_inv_def es)
  then show ?thesis by blast
qed simp_all

lemma plo_run_inv:
  "plo_run n s \<Longrightarrow> Suc n < 2 ^ 63 \<Longrightarrow> \<exists>es. plo_inv n es s"
proof (induction rule: plo_run.induct)
  case (start flags m)
  then show ?case
    by (auto simp: plo_start_def makeQueue_def plo_inv_def elems_Nil pc_ok_def stamp_ok_def
        hands_ok_def intro!: exI [of _ "[]"])
next
  case (read n s s')
  then show ?case using plo_read by blast
next
  case (change n s s')
  then obtain es where "plo_inv n es s" by auto
  with change show ?case by (intro plo_change)
qed

lemma triple_succeeds:
  "\<exists>q' m'. compareAndSwapTriple (counter q) new h z (a, v) q m = Inl (q', m')"
  by (cases a) (simp_all add: compareAndSwapTriple_def Let_def)

text \<open>A thread that keeps the processor also finishes \<open>qEnqueue\<close> on its first attempt.\<close>

lemma plo_enqueue_alone:
  assumes run: "plo_run n s" and n: "Suc (Suc n) < 2 ^ 63" and t: "pcs s t = Idle"
    and e: "e \<noteq> NULL" "e \<notin> set (in_queue s)" "\<forall>u. pending (pcs s u) \<noteq> Some e"
  shows "\<exists>s'. plo_run (Suc n) s' \<and> pcs s' = (pcs s)(t := Idle) \<and>
    put_log s' = put_log s @ [e] \<and> got_log s' = got_log s"
proof -
  obtain es where inv: "plo_inv n es s" using plo_run_inv [OF run] n by auto
  note i = plo_invD [OF inv]
  let ?q = "pq s" and ?m = "set_next e NULL (pm s)"
  let ?c = "counter ?q"
  let ?h = "if head ?q = NULL then e else head ?q"
  let ?a = "if tail ?q \<noteq> NULL then NextOf (tail ?q) else TailField"
  have nn: "0 \<le>s ?c" by (rule signed_nonneg) (use i(3) n in simp)
  obtain q' m' where sw:
    "compareAndSwapTriple ?c (next_counter ?c) ?h e (?a, e) ?q ?m = Inl (q', m')"
    using triple_succeeds by blast
  define s0 where "s0 = goto t (ECounter e) (s\<lparr>pm := ?m\<rparr>)"
  define s1 where "s1 = goto t (EHeadTest e ?c) s0"
  define s2 where "s2 = goto t (ETailLoad e ?c ?h) s1"
  define s3 where "s3 = goto t (ETailTest e ?c ?h (tail ?q)) s2"
  define s4 where "s4 = goto t (ESwap e ?c ?h ?a) s3"
  define s5 where "s5 = goto t Idle (s4\<lparr>pq := q', pm := m', put_log := put_log s4 @ [e]\<rparr>)"
  have q: "pq s0 = ?q" "pq s1 = ?q" "pq s2 = ?q" "pq s3 = ?q" "pq s4 = ?q" "pm s4 = ?m"
    by (simp_all add: s0_def s1_def s2_def s3_def s4_def)
  have pc: "pcs s0 t = ECounter e" "pcs s1 t = EHeadTest e ?c" "pcs s2 t = ETailLoad e ?c ?h"
    "pcs s3 t = ETailTest e ?c ?h (tail ?q)" "pcs s4 t = ESwap e ?c ?h ?a"
    by (simp_all add: s0_def s1_def s2_def s3_def s4_def)
  have "plo_run n s0"
    unfolding s0_def by (rule plo_run.read [OF run plo_step.enq_start [OF t e]])
  then have "plo_run n s1"
    using plo_step.enq_counter [OF pc(1)] nn unfolding q s1_def by (blast intro: plo_run.read)
  then have "plo_run n s2"
  proof (cases "head ?q = NULL")
    case True
    with plo_step.enq_head_empty [OF pc(2)] \<open>plo_run n s1\<close> show ?thesis
      unfolding q s2_def by (auto intro: plo_run.read)
  next
    case False
    define sl where "sl = goto t (EHeadLoad e ?c) s1"
    have "plo_step False s1 sl"
      using plo_step.enq_head_some [OF pc(2)] False unfolding q sl_def by blast
    moreover have "plo_step False sl s2"
      using plo_step.enq_head_load [of sl t e ?c] False q(2) by (simp add: sl_def s2_def)
    ultimately show ?thesis using \<open>plo_run n s1\<close> by (blast intro: plo_run.read)
  qed
  then have "plo_run n s3"
    using plo_step.enq_tail_load [OF pc(3)] unfolding q s3_def by (blast intro: plo_run.read)
  then have "plo_run n s4"
    using plo_step.enq_tail_test [OF pc(4)] unfolding q s4_def by (blast intro: plo_run.read)
  then have "plo_run (Suc n) s5"
    using plo_step.enq_swap [OF pc(5), unfolded q(5,6), OF sw] unfolding s5_def
    by (blast intro: plo_run.change)
  moreover have "pcs s5 = (pcs s)(t := Idle)" "put_log s5 = put_log s @ [e]" "got_log s5 = got_log s"
    by (simp_all add: s5_def s4_def s3_def s2_def s1_def s0_def)
  ultimately show ?thesis by blast
qed

subsection \<open>Small queues for the examples\<close>

definition demo_qworld :: qworld where
  "demo_qworld = (makeQueue 0 False, \<lparr>qnext = (\<lambda>_. NULL), qdata = (\<lambda>_. NULL)\<rparr>,
     \<lparr>hword = (\<lambda>_. 0), hbrk = 64, hlimit = 1000, hfreed = []\<rparr>)"

lemma demo_qworld_ok: "queue_ok demo_qworld" "queue_contents demo_qworld = []"
proof -
  have e: "elems (makeQueue 0 False) \<lparr>qnext = (\<lambda>_. NULL), qdata = (\<lambda>_. NULL)\<rparr> []"
    by (simp add: elems_Nil makeQueue_def)
  then show "queue_ok demo_qworld" by (auto simp: queue_ok_def demo_qworld_def)
  show "queue_contents demo_qworld = []"
    unfolding demo_qworld_def by (simp add: queue_contents_eq [OF e])
qed

text \<open>Thread 0 has put 8 into a new queue and begins to take it out.\<close>

lemma demo_plo:
  "\<exists>s. plo_run 1 s \<and> pcs s 0 = DCounter \<and> put_log s = [8] \<and> got_log s = []"
proof -
  let ?s0 = "plo_start 0 \<lparr>qnext = (\<lambda>_. NULL), qdata = (\<lambda>_. NULL)\<rparr>"
  have "\<exists>s. plo_run (Suc 0) s \<and> pcs s = (pcs ?s0)(0 := Idle) \<and> put_log s = put_log ?s0 @ [8] \<and>
      got_log s = got_log ?s0"
    by (rule plo_enqueue_alone [OF plo_run.start]) (simp_all add: plo_start_def in_queue_def)
  then obtain s where s: "plo_run 1 s" "pcs s 0 = Idle" "put_log s = [8]" "got_log s = []"
    by (auto simp: plo_start_def)
  from plo_run.read [OF s(1) plo_step.deq_start [OF s(2)]] s show ?thesis
    by (intro exI [of _ "goto 0 DCounter s"]) simp
qed

subsection \<open>Properties\<close>

text \<open>
  C13. Under the mutex, and in transactions, what a sequence of inserts into an empty queue put
  in comes out by as many removals in the same order, each value once, and leaves the queue
  empty again.
\<close>

theorem queue_fifo:
  assumes "queue_ok s" "queue_contents s = []"
  shows "(\<forall>s1. mq.ins_all s vs = Some s1 \<longrightarrow>
      (\<exists>s2. mq.del_n (length vs) s1 = (map Some vs, s2) \<and> queue_contents s2 = [])) \<and>
    (\<forall>s1. tq.ins_all s vs = Some s1 \<longrightarrow>
      (\<exists>s2. tq.del_n (length vs) s1 = (map Some vs, s2) \<and> queue_contents s2 = []))"
proof (intro conjI allI impI)
  fix s1 assume "mq.ins_all s vs = Some s1"
  from mq.ins_all_del_n [OF assms this]
  show "\<exists>s2. mq.del_n (length vs) s1 = (map Some vs, s2) \<and> queue_contents s2 = []"
    by (metis prod.exhaust)
next
  fix s1 assume "tq.ins_all s vs = Some s1"
  from tq.ins_all_del_n [OF assms this]
  show "\<exists>s2. tq.del_n (length vs) s1 = (map Some vs, s2) \<and> queue_contents s2 = []"
    by (metis prod.exhaust)
qed

lemma demo_ins_all: "\<exists>s1. mq.ins_all demo_qworld [5, 9, 5] = Some s1"
  by (simp add: demo_qworld_def qInsert_def safeMalloc_def makeQueue_def Let_def QUEUEELEMENT_SIZE_def)

theorem queue_fifo_witness:
  "\<exists>s1 s2. mq.ins_all demo_qworld [5, 9, 5] = Some s1 \<and>
     mq.del_n 3 s1 = ([Some 5, Some 9, Some 5], s2) \<and> queue_contents s2 = []"
proof -
  obtain s1 where s1: "mq.ins_all demo_qworld [5, 9, 5] = Some s1" using demo_ins_all by blast
  with queue_fifo [OF demo_qworld_ok, of "[5, 9, 5]"] show ?thesis
    by (fastforce simp: numeral_3_eq_3)
qed

text \<open>
  C14. Threads that interleave their reads and triples of the z/OS queue in any way never lose,
  duplicate or reorder an element: at every moment the elements linked so far, in order, are
  the elements unlinked so far followed by those on the list in memory; the list is
  well-formed, and no element that a thread is still enqueueing is on it. This holds as long as
  fewer than \<open>2 ^ 63 - 1\<close> operations have changed the queue, that is, until the counter wraps.
\<close>

theorem plo_queue_linearizable:
  assumes "plo_run n s" "Suc n < 2 ^ 63"
  shows "put_log s = got_log s @ in_queue s \<and> elems (pq s) (pm s) (in_queue s) \<and>
    unat (counter (pq s)) = Suc n \<and>
    (\<forall>t e. pending (pcs s t) = Some e \<longrightarrow> e \<notin> set (in_queue s))"
proof -
  from plo_run_inv [OF assms] obtain es where inv: "plo_inv n es s" by blast
  note i = plo_invD [OF inv]
  from i(1-3) hands_okD(2) [OF i(5)] show ?thesis unfolding i(6) by blast
qed

theorem plo_queue_linearizable_witness:
  "\<exists>s. plo_run 1 s \<and> put_log s = [8] \<and> elems (pq s) (pm s) [8]"
proof -
  obtain s where s: "plo_run 1 s" "put_log s = [8]" "got_log s = []" using demo_plo by blast
  from plo_queue_linearizable [OF s(1)] s show ?thesis by auto
qed



end
