(* ===== verification/JsonData.thy ===== *)
theory JsonData
  imports CPrelude
begin

section \<open>JSON values\<close>

text \<open>
  \<open>Json\<close> of \<open>h/json.h\<close> and the functions of \<open>c/json.c\<close> that read a value. The tagged union is
  a datatype, an object the list of its properties in order (duplicates stay), an array the
  list of the elements below its count. A C \<open>int\<close> is a 32-bit word read as signed, an
  \<open>int64\<close> a 64-bit word. A \<open>double\<close> is the 64-bit word of its bits: floating point is not
  modelled, what the C library does with it is the parameter \<open>fp\<close>. A null \<open>Json*\<close> or
  \<open>char*\<close> is \<open>None\<close>.
\<close>

type_synonym double = "64 word"

record fp_ops =
  strtod :: "string \<Rightarrow> double"
  fmt_f :: "double \<Rightarrow> string"
  fp_to_int64 :: "double \<Rightarrow> 64 word"
  int_to_fp :: "int \<Rightarrow> double"

datatype json =
    JNumber "32 word"
  | JString string
  | JBoolean "32 word"
  | JNull
  | JObject "(string \<times> json) list"
  | JArray "json list"
  | JInt64 "64 word"
  | JDouble double
  | JError string

type_synonym property = "string \<times> json"

definition JSON_TYPE_NUMBER :: nat where "JSON_TYPE_NUMBER = 0"
definition JSON_TYPE_STRING :: nat where "JSON_TYPE_STRING = 1"
definition JSON_TYPE_BOOLEAN :: nat where "JSON_TYPE_BOOLEAN = 2"
definition JSON_TYPE_NULL :: nat where "JSON_TYPE_NULL = 3"
definition JSON_TYPE_OBJECT :: nat where "JSON_TYPE_OBJECT = 4"
definition JSON_TYPE_ARRAY :: nat where "JSON_TYPE_ARRAY = 5"
definition JSON_TYPE_INT64 :: nat where "JSON_TYPE_INT64 = 6"
definition JSON_TYPE_DOUBLE :: nat where "JSON_TYPE_DOUBLE = 7"
definition JSON_TYPE_ERROR :: nat where "JSON_TYPE_ERROR = 666"

lemmas json_type_codes = JSON_TYPE_NUMBER_def JSON_TYPE_STRING_def JSON_TYPE_BOOLEAN_def
  JSON_TYPE_NULL_def JSON_TYPE_OBJECT_def JSON_TYPE_ARRAY_def JSON_TYPE_INT64_def
  JSON_TYPE_DOUBLE_def JSON_TYPE_ERROR_def

fun json_type :: "json \<Rightarrow> nat" where
  "json_type (JNumber _) = JSON_TYPE_NUMBER"
| "json_type (JString _) = JSON_TYPE_STRING"
| "json_type (JBoolean _) = JSON_TYPE_BOOLEAN"
| "json_type JNull = JSON_TYPE_NULL"
| "json_type (JObject _) = JSON_TYPE_OBJECT"
| "json_type (JArray _) = JSON_TYPE_ARRAY"
| "json_type (JInt64 _) = JSON_TYPE_INT64"
| "json_type (JDouble _) = JSON_TYPE_DOUBLE"
| "json_type (JError _) = JSON_TYPE_ERROR"

subsection \<open>Tests and conversions\<close>

definition jsonIsObject :: "json \<Rightarrow> bool" where
  "jsonIsObject j \<longleftrightarrow> json_type j = JSON_TYPE_OBJECT"

definition jsonIsArray :: "json \<Rightarrow> bool" where
  "jsonIsArray j \<longleftrightarrow> json_type j = JSON_TYPE_ARRAY"

definition jsonIsString :: "json \<Rightarrow> bool" where
  "jsonIsString j \<longleftrightarrow> json_type j = JSON_TYPE_STRING"

definition jsonIsBoolean :: "json \<Rightarrow> bool" where
  "jsonIsBoolean j \<longleftrightarrow> json_type j = JSON_TYPE_BOOLEAN"

definition jsonIsNumber :: "json \<Rightarrow> bool" where
  "jsonIsNumber j \<longleftrightarrow> json_type j = JSON_TYPE_NUMBER \<or> json_type j = JSON_TYPE_DOUBLE \<or>
     json_type j = JSON_TYPE_INT64"

definition jsonIsInt64 :: "json \<Rightarrow> bool" where
  "jsonIsInt64 j \<longleftrightarrow> json_type j = JSON_TYPE_INT64"

definition jsonIsDouble :: "json \<Rightarrow> bool" where
  "jsonIsDouble j \<longleftrightarrow> json_type j = JSON_TYPE_DOUBLE"

definition jsonIsNull :: "json \<Rightarrow> bool" where
  "jsonIsNull j \<longleftrightarrow> json_type j = JSON_TYPE_NULL"

definition jsonIsError :: "json \<Rightarrow> bool" where
  "jsonIsError j \<longleftrightarrow> json_type j = JSON_TYPE_ERROR"

fun jsonAsObject :: "json \<Rightarrow> property list option" where
  "jsonAsObject (JObject ps) = Some ps"
| "jsonAsObject _ = None"

fun jsonAsArray :: "json \<Rightarrow> json list option" where
  "jsonAsArray (JArray js) = Some js"
| "jsonAsArray _ = None"

fun jsonAsString :: "json \<Rightarrow> string option" where
  "jsonAsString (JString s) = Some s"
| "jsonAsString _ = None"

fun jsonAsBoolean :: "json \<Rightarrow> 32 word" where
  "jsonAsBoolean (JBoolean b) = b"
| "jsonAsBoolean _ = 0"

text \<open>\<open>jsonAsNumber\<close> narrows an \<open>int64\<close> and gives 0 for a double.\<close>

fun jsonAsNumber :: "json \<Rightarrow> 32 word" where
  "jsonAsNumber (JNumber n) = n"
| "jsonAsNumber (JInt64 n) = ucast n"
| "jsonAsNumber _ = 0"

fun jsonAsInt64 :: "fp_ops \<Rightarrow> json \<Rightarrow> 64 word" where
  "jsonAsInt64 fp (JNumber n) = scast n"
| "jsonAsInt64 fp (JInt64 n) = n"
| "jsonAsInt64 fp (JDouble d) = fp_to_int64 fp d"
| "jsonAsInt64 fp _ = 0"

fun jsonAsDouble :: "fp_ops \<Rightarrow> json \<Rightarrow> double" where
  "jsonAsDouble fp (JNumber n) = int_to_fp fp (sint n)"
| "jsonAsDouble fp (JInt64 n) = int_to_fp fp (sint n)"
| "jsonAsDouble fp (JDouble d) = d"
| "jsonAsDouble fp _ = int_to_fp fp 0"

subsection \<open>Hashing\<close>

text \<open>A \<open>char\<close> of a string as the signed byte it is.\<close>

definition char_byte :: "char \<Rightarrow> byte" where
  "char_byte c = of_char c"

fun hashStringLoop :: "64 word \<Rightarrow> string \<Rightarrow> 64 word" where
  "hashStringLoop hash [] = hash"
| "hashStringLoop hash (c # cs) =
     hashStringLoop ((push_bit 5 hash + hash) + scast (char_byte c)) cs"

definition hashString :: "string \<Rightarrow> 64 word" where
  "hashString s = hashStringLoop 5381 s AND 0x7FFFFFFFFFFFFFFF"

definition hash_mask :: "64 word" where
  "hash_mask = push_bit 56 1 - 1"

text \<open>\<open>addr\<close> is the address of the value, which objects and arrays hash to.\<close>

definition jsonLongHash :: "fp_ops \<Rightarrow> 64 word \<Rightarrow> json \<Rightarrow> 64 word" where
  "jsonLongHash fp addr j =
     (let hash = push_bit 56 (word_of_nat (json_type j)) in
      case j of
        JNumber _ \<Rightarrow> hash OR (hash_mask AND scast (jsonAsNumber j))
      | JInt64 _ \<Rightarrow> hash OR (hash_mask AND jsonAsInt64 fp j)
      | JDouble _ \<Rightarrow> hash OR (hash_mask AND fp_to_int64 fp (jsonAsDouble fp j))
      | JString s \<Rightarrow> hash OR (hash_mask AND hashString s)
      | JBoolean _ \<Rightarrow> hash OR (if jsonAsBoolean j \<noteq> 0 then 1 else 0)
      | JNull \<Rightarrow> hash OR 0
      | JObject _ \<Rightarrow> hash OR addr
      | JArray _ \<Rightarrow> hash OR addr
      | JError _ \<Rightarrow> hash)"

subsection \<open>Properties of an object\<close>

text \<open>The first property with the key wins.\<close>

fun jsonObjectGetPropertyValue :: "property list \<Rightarrow> string \<Rightarrow> json option" where
  "jsonObjectGetPropertyValue [] key = None"
| "jsonObjectGetPropertyValue (p # ps) key =
     (if fst p = key then Some (snd p) else jsonObjectGetPropertyValue ps key)"

fun jsonObjectHasKey :: "property list \<Rightarrow> string \<Rightarrow> bool" where
  "jsonObjectHasKey [] key = False"
| "jsonObjectHasKey (p # ps) key = (if fst p = key then True else jsonObjectHasKey ps key)"

definition jsonObjectGetArray :: "property list \<Rightarrow> string \<Rightarrow> json list option" where
  "jsonObjectGetArray ps key =
     (case jsonObjectGetPropertyValue ps key of
        Some j \<Rightarrow> if jsonIsArray j then jsonAsArray j else None | None \<Rightarrow> None)"

definition jsonObjectGetBoolean :: "property list \<Rightarrow> string \<Rightarrow> 32 word" where
  "jsonObjectGetBoolean ps key =
     (case jsonObjectGetPropertyValue ps key of
        Some j \<Rightarrow> if jsonIsBoolean j then jsonAsBoolean j else 0 | None \<Rightarrow> 0)"

definition jsonObjectGetNumber :: "property list \<Rightarrow> string \<Rightarrow> 32 word" where
  "jsonObjectGetNumber ps key =
     (case jsonObjectGetPropertyValue ps key of
        Some j \<Rightarrow> if jsonIsNumber j then jsonAsNumber j else 0 | None \<Rightarrow> 0)"

definition jsonObjectGetObject :: "property list \<Rightarrow> string \<Rightarrow> property list option" where
  "jsonObjectGetObject ps key =
     (case jsonObjectGetPropertyValue ps key of
        Some j \<Rightarrow> if jsonIsObject j then jsonAsObject j else None | None \<Rightarrow> None)"

definition jsonObjectGetString :: "property list \<Rightarrow> string \<Rightarrow> string option" where
  "jsonObjectGetString ps key =
     (case jsonObjectGetPropertyValue ps key of
        Some j \<Rightarrow> if jsonIsString j then jsonAsString j else None | None \<Rightarrow> None)"

datatype prop_status = PropertyOk | PropertyNotFound | PropertyUnexpectedType

definition jsonArrayProperty :: "property list \<Rightarrow> string \<Rightarrow> json list option \<times> prop_status" where
  "jsonArrayProperty ps name =
     (case jsonObjectGetPropertyValue ps name of
        None \<Rightarrow> (None, PropertyNotFound)
      | Some j \<Rightarrow> if jsonIsArray j then (jsonAsArray j, PropertyOk)
                  else (None, PropertyUnexpectedType))"


definition jsonStringProperty :: "property list \<Rightarrow> string \<Rightarrow> string option \<times> prop_status" where
  "jsonStringProperty ps name =
     (case jsonObjectGetPropertyValue ps name of
        None \<Rightarrow> (None, PropertyNotFound)
      | Some j \<Rightarrow> if jsonIsString j then (jsonAsString j, PropertyOk)
                  else (None, PropertyUnexpectedType))"

definition jsonObjectProperty :: "property list \<Rightarrow> string \<Rightarrow> property list option \<times> prop_status" where
  "jsonObjectProperty ps name =
     (case jsonObjectGetPropertyValue ps name of
        None \<Rightarrow> (None, PropertyNotFound)
      | Some j \<Rightarrow> if jsonIsObject j then (jsonAsObject j, PropertyOk)
                  else (None, PropertyUnexpectedType))"

subsection \<open>Elements of an array\<close>

text \<open>
  \<open>JsonArray\<close> in storage: a vector of \<open>capacity\<close> slots of which \<open>count\<close> are used; a slot
  that was never written is \<open>None\<close>. Indexes are natural numbers: the code does not guard
  against a negative one.
\<close>

record 'a json_array =
  elements :: "'a option list"
  acount :: nat
  acapacity :: nat

definition newJsonArray :: "nat \<Rightarrow> 'a json_array" where
  "newJsonArray n = \<lparr>elements = replicate n None, acount = 0, acapacity = n\<rparr>"

definition jsonArrayAddElement :: "'a json_array \<Rightarrow> 'a \<Rightarrow> 'a json_array" where
  "jsonArrayAddElement arr element =
     (let arr1 = (if acount arr = acapacity arr then
                    let newCapacity = acapacity arr * 2;
                        newElements = take (acapacity arr) (elements arr) @
                          replicate (newCapacity - acapacity arr) None
                    in arr\<lparr>elements := newElements, acapacity := newCapacity\<rparr>
                  else arr)
      in arr1\<lparr>elements := (elements arr1)[acount arr1 := Some element],
              acount := acount arr1 + 1\<rparr>)"

definition jsonArrayGetCount :: "'a json_array \<Rightarrow> nat" where
  "jsonArrayGetCount arr = acount arr"

definition jsonArrayGetItem :: "'a json_array \<Rightarrow> nat \<Rightarrow> 'a option" where
  "jsonArrayGetItem arr n = (if n < acount arr then elements arr ! n else None)"

text \<open>On the list an array stands for.\<close>

definition item :: "json list \<Rightarrow> nat \<Rightarrow> json option" where
  "item js n = (if n < length js then Some (js ! n) else None)"

definition jsonArrayGetArray :: "json list \<Rightarrow> nat \<Rightarrow> json list option" where
  "jsonArrayGetArray js i =
     (case item js i of Some j \<Rightarrow> if jsonIsArray j then jsonAsArray j else None | None \<Rightarrow> None)"

definition jsonArrayGetBoolean :: "json list \<Rightarrow> nat \<Rightarrow> 32 word" where
  "jsonArrayGetBoolean js i =
     (case item js i of Some j \<Rightarrow> if jsonIsBoolean j then jsonAsBoolean j else 0 | None \<Rightarrow> 0)"

definition jsonArrayGetNumber :: "json list \<Rightarrow> nat \<Rightarrow> 32 word" where
  "jsonArrayGetNumber js i =
     (case item js i of Some j \<Rightarrow> if jsonIsNumber j then jsonAsNumber j else 0 | None \<Rightarrow> 0)"

definition jsonArrayGetObject :: "json list \<Rightarrow> nat \<Rightarrow> property list option" where
  "jsonArrayGetObject js i =
     (case item js i of Some j \<Rightarrow> if jsonIsObject j then jsonAsObject j else None | None \<Rightarrow> None)"

definition jsonArrayGetString :: "json list \<Rightarrow> nat \<Rightarrow> string option" where
  "jsonArrayGetString js i =
     (case item js i of Some j \<Rightarrow> if jsonIsString j then jsonAsString j else None | None \<Rightarrow> None)"

fun jsonVerifyHomogeneity :: "json list \<Rightarrow> nat \<Rightarrow> bool" where
  "jsonVerifyHomogeneity [] ty = True"
| "jsonVerifyHomogeneity (j # js) ty =
     (if json_type j \<noteq> ty then False else jsonVerifyHomogeneity js ty)"

fun jsonArrayContainsString :: "json list \<Rightarrow> string \<Rightarrow> bool" where
  "jsonArrayContainsString [] s = False"
| "jsonArrayContainsString (j # js) s =
     (if json_type j = JSON_TYPE_STRING \<and> jsonAsString j = Some s then True
      else jsonArrayContainsString js s)"

subsection \<open>Growing an array\<close>

definition array_ok :: "'a json_array \<Rightarrow> 'a list \<Rightarrow> bool" where
  "array_ok arr xs \<longleftrightarrow> acount arr = length xs \<and> acount arr \<le> acapacity arr \<and> 0 < acapacity arr \<and>
     length (elements arr) = acapacity arr \<and> take (acount arr) (elements arr) = map Some xs"

lemma array_ok_new: "0 < n \<Longrightarrow> array_ok (newJsonArray n) []"
  by (simp add: array_ok_def newJsonArray_def)

lemma array_ok_add:
  assumes "array_ok arr xs"
  shows "array_ok (jsonArrayAddElement arr x) (xs @ [x])"
proof -
  from assms have c: "acount arr = length xs" and cap: "acount arr \<le> acapacity arr" "0 < acapacity arr"
    and len: "length (elements arr) = acapacity arr"
    and el': "take (acount arr) (elements arr) = map Some xs"
    unfolding array_ok_def by blast+
  from el' have el: "take (length xs) (elements arr) = map Some xs" unfolding c .
  have step: "take (Suc n) (es[n := Some x]) = take n es @ [Some x]"
    if "n < length es" for n and es :: "'a option list"
    using that by (simp add: take_Suc_conv_app_nth take_update_cancel)
  show ?thesis
  proof (cases "acount arr = acapacity arr")
    case True
    have full: "elements arr = map Some xs" using el len c True by simp
    have add: "jsonArrayAddElement arr x =
        \<lparr>elements = (map Some xs @ replicate (length xs) None)[length xs := Some x],
         acount = Suc (length xs), acapacity = length xs * 2\<rparr>"
      using True c by (simp add: jsonArrayAddElement_def full Let_def)
    have "0 < length xs" using cap(2) c True by simp
    then show ?thesis
      by (simp add: array_ok_def add step Suc_le_eq)
  next
    case False
    have add: "jsonArrayAddElement arr x = arr\<lparr>elements := (elements arr)[length xs := Some x],
        acount := Suc (length xs)\<rparr>"
      using False c by (simp add: jsonArrayAddElement_def)
    have "length xs < length (elements arr)" using False c cap len by simp
    with cap len c show ?thesis by (simp add: array_ok_def add step el)
  qed
qed

lemma array_ok_adds: "array_ok arr xs \<Longrightarrow> array_ok (foldl jsonArrayAddElement arr ys) (xs @ ys)"
proof (induction ys arbitrary: arr xs)
  case Nil
  then show ?case by simp
next
  case (Cons y ys)
  from Cons.IH [OF array_ok_add [OF Cons.prems, of y]] show ?case by simp
qed

text \<open>The elements an array holds.\<close>

definition array_items :: "'a json_array \<Rightarrow> 'a list" where
  "array_items arr = map the (take (acount arr) (elements arr))"

lemma array_ok_items: "array_ok arr xs \<Longrightarrow> array_items arr = xs"
proof -
  assume "array_ok arr xs"
  then have "take (acount arr) (elements arr) = map Some xs" unfolding array_ok_def by blast
  then show ?thesis by (simp add: array_items_def comp_def)
qed

lemma array_ok_item: "array_ok arr xs \<Longrightarrow>
    jsonArrayGetItem arr n = (if n < length xs then Some (xs ! n) else None)"
  by (auto simp: array_ok_def jsonArrayGetItem_def) (metis nth_map nth_take)

subsection \<open>The parts of a hash\<close>

lemma hash_mask_mask: "hash_mask = mask 56"
  by (simp add: hash_mask_def mask_eq_exp_minus_1)

definition json_scalar :: "json \<Rightarrow> bool" where
  "json_scalar j \<longleftrightarrow> \<not> jsonIsObject j \<and> \<not> jsonIsArray j \<and> \<not> jsonIsError j"

lemma hash_top:
  assumes "t < 256"
  shows "drop_bit 56 (push_bit 56 (word_of_nat t) OR (hash_mask AND x) :: 64 word) = word_of_nat t"
proof -
  have "drop_bit 56 (push_bit 56 (word_of_nat t) :: 64 word) = take_bit 8 (word_of_nat t)"
    by (rule bit_word_eqI) (auto simp: bit_drop_bit_eq bit_push_bit_iff bit_take_bit_iff)
  also have "\<dots> = word_of_nat t"
    using assms by (simp add: take_bit_of_nat take_bit_nat_eq_self)
  finally have "drop_bit 56 (push_bit 56 (word_of_nat t) :: 64 word) = word_of_nat t" .
  moreover have "drop_bit 56 (hash_mask AND x) = 0"
    by (simp add: hash_mask_mask and.commute [of "mask 56"] take_bit_eq_mask [symmetric] drop_bit_take_bit)
  ultimately show ?thesis by (simp add: drop_bit_or)
qed

lemma hash_type_scalar:
  assumes "json_scalar j"
  shows "drop_bit 56 (jsonLongHash fp addr j) = word_of_nat (json_type j)"
proof -
  have one: "hash_mask AND 1 = (1 :: 64 word)" "hash_mask AND 0 = (0 :: 64 word)"
    by (simp_all add: hash_mask_mask mask_eq_exp_minus_1)
  show ?thesis
  proof (cases j)
    case (JBoolean b)
    with hash_top [of 2 1] hash_top [of 2 0] one show ?thesis
      by (simp add: jsonLongHash_def json_type_codes)
  next
    case JNull
    with hash_top [of 3 0] one show ?thesis by (simp add: jsonLongHash_def json_type_codes)
  qed (use assms in \<open>simp_all add: jsonLongHash_def json_scalar_def jsonIsObject_def jsonIsArray_def
      jsonIsError_def json_type_codes hash_top [of 0, simplified] hash_top [of 1, simplified]
      hash_top [of 6, simplified] hash_top [of 7, simplified]\<close>)
qed

lemma json_type_small: "\<not> jsonIsError j \<Longrightarrow> json_type j < 8"
  by (cases j) (auto simp: json_type_codes jsonIsError_def)

subsection \<open>Properties\<close>

text \<open>
  Elements added to a new array one after the other are found at their positions, however
  often the vector behind it was doubled, and every position from the count on reads as null.
\<close>

theorem jsonArray_append_get:
  "jsonArrayGetItem (foldl jsonArrayAddElement (newJsonArray 8) xs) n =
     (if n < length xs then Some (xs ! n) else None) \<and>
   jsonArrayGetCount (foldl jsonArrayAddElement (newJsonArray 8) xs) = length xs"
  using array_ok_adds [OF array_ok_new [of 8], of xs] array_ok_item
  by (fastforce simp: array_ok_def jsonArrayGetCount_def)

text \<open>
  Scalars of different types never have the same \<open>jsonLongHash\<close>: the top byte of the
  hash is the type, whatever the value and the addresses.
\<close>

theorem jsonLongHash_separates_types:
  assumes "json_scalar j1" "json_scalar j2" "json_type j1 \<noteq> json_type j2"
  shows "jsonLongHash fp a1 j1 \<noteq> jsonLongHash fp a2 j2"
proof
  assume "jsonLongHash fp a1 j1 = jsonLongHash fp a2 j2"
  then have "(word_of_nat (json_type j1) :: 64 word) = word_of_nat (json_type j2)"
    using hash_type_scalar [OF assms(1)] hash_type_scalar [OF assms(2)] by metis
  moreover have "json_type j1 < 8" "json_type j2 < 8"
    using assms json_type_small by (auto simp: json_scalar_def)
  ultimately have "json_type j1 = json_type j2"
    by (simp add: word_of_nat_eq_iff take_bit_nat_eq_self)
  with assms(3) show False ..
qed

theorem jsonLongHash_separates_types_witness:
  "\<forall>fp. jsonLongHash fp 0 (JNumber 5) \<noteq> jsonLongHash fp 8 (JInt64 5)"
  by (intro allI jsonLongHash_separates_types)
     (simp_all add: json_scalar_def jsonIsObject_def jsonIsArray_def jsonIsError_def json_type_codes)


end
