(* ===== verification/CStrings.thy ===== *)
theory CStrings
  imports CPrelude
begin

section \<open>Characters and decimal numbers of the C library\<close>

text \<open>
  The \<open>ctype.h\<close> predicates on the \<open>int\<close> of a signed \<open>char\<close> or \<open>EOF\<close>, as the C locale of an
  ASCII host has them, and decimal output and input of integers (\<open>%d\<close>, \<open>%lld\<close>, \<open>%u\<close>,
  \<open>strtoll\<close>, \<open>atoi\<close>).
\<close>

definition EOF :: int where
  "EOF = -1"

definition isspace :: "int \<Rightarrow> bool" where
  "isspace c \<longleftrightarrow> c = 32 \<or> (9 \<le> c \<and> c \<le> 13)"

definition isdigit :: "int \<Rightarrow> bool" where
  "isdigit c \<longleftrightarrow> 48 \<le> c \<and> c \<le> 57"

definition isalpha :: "int \<Rightarrow> bool" where
  "isalpha c \<longleftrightarrow> (65 \<le> c \<and> c \<le> 90) \<or> (97 \<le> c \<and> c \<le> 122)"

definition isprint :: "int \<Rightarrow> bool" where
  "isprint c \<longleftrightarrow> 32 \<le> c \<and> c \<le> 126"

text \<open>A \<open>char\<close> read as an \<open>int\<close>, and an \<open>int\<close> stored as a \<open>char\<close>.\<close>

definition char_code :: "char \<Rightarrow> int" where
  "char_code c = sint (of_char c :: byte)"

definition code_char :: "int \<Rightarrow> char" where
  "code_char i = char_of (unat (word_of_int i :: byte))"

lemma unat_of_char: "unat (of_char c :: byte) = of_char c"
proof -
  have "unat (of_char c :: byte) = unat (word_of_nat (of_char c) :: byte)"
    by (simp add: of_nat_of_char)
  then show ?thesis by (simp add: unat_of_nat take_bit_nat_eq_self)
qed

lemma code_char_code [simp]: "code_char (char_code c) = c"
  by (simp add: code_char_def char_code_def unat_of_char)

lemma char_code_inj [simp]: "char_code a = char_code b \<longleftrightarrow> a = b"
  by (metis code_char_code)

lemma signed_byte:
  assumes "0 \<le> n" "n < 256"
  shows "signed_take_bit 7 n = (if n < 128 then n else n - 256 :: int)"
proof (cases "n < 128")
  case True
  then show ?thesis using assms by (subst signed_take_bit_int_eq_self) simp_all
next
  case False
  have "signed_take_bit 7 n = signed_take_bit 7 (n - 256)"
    by (rule signed_take_bit_eq_iff_take_bit_eq [THEN iffD2]) (simp add: take_bit_eq_mod mod_simps)
  also have "\<dots> = n - 256" using False assms by (subst signed_take_bit_int_eq_self) simp_all
  finally show ?thesis using False by simp
qed

lemma char_code_nat:
  "char_code c = (if (of_char c :: nat) < 128 then int (of_char c) else int (of_char c) - 256)"
proof -
  let ?n = "int (of_char c)"
  have "(of_char c :: byte) = word_of_int ?n" by (metis of_nat_of_char of_int_of_nat_eq)
  then have s: "char_code c = signed_take_bit 7 ?n" unfolding char_code_def
    by (simp only: sint_sbintrunc') (simp only: len_num1 len_bit0 mult_1_right, simp)
  have l: "?n < 256" using nat_of_char_less_256 [of c] by linarith
  show ?thesis unfolding s by (simp only: signed_byte [OF of_nat_0_le_iff l] of_nat_less_numeral_iff)
qed

lemma ascii_code:
  assumes "0 \<le> char_code c"
  shows "(of_char c :: nat) < 128" "int (of_char c) = char_code c"
proof -
  obtain n :: nat where n: "n = of_char c" by blast
  have "n < 256" unfolding n by simp
  moreover have "char_code c = (if n < 128 then int n else int n - 256)"
    unfolding n by (rule char_code_nat)
  ultimately have "n < 128 \<and> int n = char_code c" using assms by (simp split: if_splits)
  then show "(of_char c :: nat) < 128" "int (of_char c) = char_code c" unfolding n by simp_all
qed

lemma char_code_code: "- 128 \<le> i \<Longrightarrow> i < 128 \<Longrightarrow> char_code (code_char i) = i"
proof -
  assume i: "- 128 \<le> i" "i < 128"
  have "(of_char (char_of (unat (word_of_int i :: byte))) :: byte) =
      word_of_nat (of_char (char_of (unat (word_of_int i :: byte))))"
    by (rule of_nat_of_char [symmetric])
  also have "\<dots> = word_of_int i"
  proof -
    have "unat (word_of_int i :: byte) < 256"
      using unsigned_less [where 'a = nat, of "word_of_int i :: byte"] by simp
    then show ?thesis by simp
  qed
  finally show ?thesis
    using i by (simp add: char_code_def code_char_def sint_sbintrunc' signed_take_bit_int_eq_self)
qed

definition ctext :: "string \<Rightarrow> int list" where
  "ctext s = map char_code s"

lemma ctext_simps [simp]:
  "ctext [] = []" "ctext (c # s) = char_code c # ctext s" "ctext (s @ t) = ctext s @ ctext t"
  by (simp_all add: ctext_def)

subsection \<open>Decimal output\<close>

definition digit_char :: "nat \<Rightarrow> char" where
  "digit_char d = code_char (48 + int d)"

fun show_nat :: "nat \<Rightarrow> string" where
  "show_nat n = (if n < 10 then [digit_char n] else show_nat (n div 10) @ [digit_char (n mod 10)])"

declare show_nat.simps [simp del]

definition show_int :: "int \<Rightarrow> string" where
  "show_int i = (if i < 0 then CHR ''-'' # show_nat (nat (- i)) else show_nat (nat i))"

subsection \<open>Decimal input\<close>

definition digit_value :: "char \<Rightarrow> int" where
  "digit_value c = char_code c - 48"

definition digits_value :: "string \<Rightarrow> int" where
  "digits_value s = foldl (\<lambda>v c. v * 10 + digit_value c) 0 s"

text \<open>
  \<open>strtoll\<close> on a text that is an optional minus sign and what follows: the longest run of
  digits, clipped to 64 bits. \<open>atoi\<close> is \<open>(int)strtol\<close>, as the GNU library has it.
\<close>

definition clip64 :: "int \<Rightarrow> int" where
  "clip64 i = max (- (2 ^ 63)) (min (2 ^ 63 - 1) i)"

definition strtoll :: "string \<Rightarrow> int" where
  "strtoll s =
     (case s of
        [] \<Rightarrow> 0
      | c # cs \<Rightarrow>
          if c = CHR ''-''
          then clip64 (- digits_value (takeWhile (\<lambda>c. isdigit (char_code c)) cs))
          else clip64 (digits_value (takeWhile (\<lambda>c. isdigit (char_code c)) s)))"

definition atoi :: "string \<Rightarrow> 32 word" where
  "atoi s = word_of_int (strtoll s)"

lemma digit_char_code: "d < 10 \<Longrightarrow> char_code (digit_char d) = 48 + int d"
  by (simp add: digit_char_def char_code_code)

lemma isdigit_digit_char: "d < 10 \<Longrightarrow> isdigit (char_code (digit_char d))"
  by (simp add: digit_char_code isdigit_def)

lemma show_nat_digits: "c \<in> set (show_nat n) \<Longrightarrow> isdigit (char_code c)"
proof (induction n rule: show_nat.induct)
  case (1 n)
  then show ?case
    by (subst (asm) (2) show_nat.simps) (auto simp: isdigit_digit_char split: if_splits)
qed

lemma show_nat_ne [simp]: "show_nat n \<noteq> []"
  by (subst show_nat.simps) simp

lemma digits_value_snoc: "digits_value (s @ [c]) = digits_value s * 10 + digit_value c"
  by (simp add: digits_value_def)

lemma digits_value_show_nat: "digits_value (show_nat n) = int n"
proof (induction n rule: show_nat.induct)
  case (1 n)
  show ?case
  proof (cases "n < 10")
    case True
    then show ?thesis
      by (subst show_nat.simps) (simp add: digits_value_def digit_value_def digit_char_code)
  next
    case False
    with 1 show ?thesis
      by (subst show_nat.simps)
         (simp add: digits_value_snoc digit_value_def digit_char_code zdiv_int zmod_int)
  qed
qed

lemma takeWhile_show_nat: "takeWhile (\<lambda>c. isdigit (char_code c)) (show_nat n) = show_nat n"
  using show_nat_digits by simp

lemma show_nat_no_minus: "show_nat n = c # cs \<Longrightarrow> c \<noteq> CHR ''-''"
proof
  assume "show_nat n = c # cs" "c = CHR ''-''"
  then have "isdigit (char_code CHR ''-'')" using show_nat_digits [of c n] by simp
  then show False by (simp add: isdigit_def char_code_def)
qed

lemma strtoll_show_int:
  assumes "- (2 ^ 63) \<le> i" "i < 2 ^ 63"
  shows "strtoll (show_int i) = i"
proof (cases "i < 0")
  case True
  then show ?thesis
    using assms
    by (simp add: strtoll_def show_int_def takeWhile_show_nat digits_value_show_nat clip64_def)
next
  case False
  obtain c cs where s: "show_nat (nat i) = c # cs" by (cases "show_nat (nat i)") auto
  then have "strtoll (show_int i) = clip64 (digits_value (show_nat (nat i)))"
    using False show_nat_no_minus [OF s] takeWhile_show_nat [of "nat i"]
    by (simp add: strtoll_def show_int_def)
  then show ?thesis using False assms by (simp add: digits_value_show_nat clip64_def)
qed

lemma show_nat_length: "n < 10 ^ k \<Longrightarrow> 0 < k \<Longrightarrow> length (show_nat n) \<le> k"
proof (induction n arbitrary: k rule: show_nat.induct)
  case (1 n)
  show ?case
  proof (cases "n < 10")
    case True
    with "1.prems" show ?thesis by (subst show_nat.simps) simp
  next
    case False
    with "1.prems" have "1 < k" by (cases "k = 1") auto
    then obtain m where k: "k = Suc m" "0 < m" by (cases k) auto
    with "1.prems"(1) have "n div 10 < 10 ^ m" by (simp add: div_less_iff_less_mult mult.commute)
    from "1.IH" [OF False this k(2)] False k(1) show ?thesis by (subst show_nat.simps) simp
  qed
qed

lemma show_nat_split:
  obtains d ds where "show_nat n = d # ds" "isdigit (char_code d)"
    "list_all (\<lambda>c. 0 < char_code c \<and> isdigit (char_code c)) ds"
proof -
  obtain d ds where s: "show_nat n = d # ds" by (cases "show_nat n") auto
  have dig: "isdigit (char_code c)" if "c \<in> set (d # ds)" for c using show_nat_digits that s by metis
  from dig have "list_all (\<lambda>c. 0 < char_code c \<and> isdigit (char_code c)) ds"
    by (force simp: list_all_iff isdigit_def)
  with s dig [of d] show ?thesis by (intro that) simp_all
qed

text \<open>The C string in a buffer ends at the first zero byte.\<close>

definition cstr :: "string \<Rightarrow> string" where
  "cstr s = takeWhile (\<lambda>c. c \<noteq> CHR 0x00) s"

end
