(* ===== verification/JsonPrinter.thy ===== *)
theory JsonPrinter
  imports JsonData CStrings
begin

section \<open>The JSON printer\<close>

text \<open>
  \<open>jsonPrinter\<close> of \<open>c/json.c\<close>, as the Linux build has it (the source character set is UTF-8,
  control characters end at \<open>0x1F\<close>). A printer writes as it goes, to a buffer that doubles or
  to a file descriptor; what the operating system answers to each \<open>write\<close> is a list of return
  values, and where the list ends the descriptor fails. The conversion of
  \<open>c/charsets.c\<close>, which calls \<open>iconv\<close>, is the parameter \<open>convertCharset\<close> of the environment.
\<close>

datatype conv_result = ConvSuccess string | ConvShortBuffer string | ConvFailure int

record json_env =
  fp :: fp_ops
  convertCharset :: "string \<Rightarrow> int \<Rightarrow> nat \<Rightarrow> conv_result"

datatype json_mode = NativeCharset | ConvertToUtf8

text \<open>\<open>balloc\<close> is the largest block the storage still gives; \<open>len\<close> is the length of \<open>bdata\<close>.\<close>

record jsonBuffer =
  bdata :: string
  bsize :: int
  balloc :: int

datatype sink = ToBuffer jsonBuffer | ToFd string "int list"

record jsonPrinter =
  mode :: json_mode
  depth :: int
  isStart :: bool
  isEnd :: bool
  isFirstLine :: bool
  prettyPrint :: bool
  inputCCSID :: int
  conversionBufferSize :: nat
  ioErrorFlag :: bool
  isInMultipartString :: bool
  sink :: sink

definition CCSID_UTF_8 :: int where
  "CCSID_UTF_8 = 1208"

definition SOURCE_CODE_CHARSET :: int where
  "SOURCE_CODE_CHARSET = CCSID_UTF_8"

definition indentString :: string where
  "indentString = ''  ''"

definition jsonPrinterReset :: "jsonPrinter \<Rightarrow> jsonPrinter" where
  "jsonPrinterReset p =
     p\<lparr>depth := 0, isStart := True, isFirstLine := True, conversionBufferSize := 0,
       mode := NativeCharset\<rparr>"

text \<open>\<open>safeMalloc\<close> clears the structure.\<close>

definition blankPrinter :: "sink \<Rightarrow> jsonPrinter" where
  "blankPrinter k =
     \<lparr>mode = NativeCharset, depth = 0, isStart = False, isEnd = False, isFirstLine = False,
      prettyPrint = False, inputCCSID = 0, conversionBufferSize = 0, ioErrorFlag = False,
      isInMultipartString = False, sink = k\<rparr>"

definition makeJsonPrinter :: "int list \<Rightarrow> jsonPrinter" where
  "makeJsonPrinter answers = jsonPrinterReset (blankPrinter (ToFd [] answers))"

definition makeUtf8JsonPrinter :: "int list \<Rightarrow> int \<Rightarrow> jsonPrinter" where
  "makeUtf8JsonPrinter answers ccsid =
     (makeJsonPrinter answers)\<lparr>mode := ConvertToUtf8, inputCCSID := ccsid\<rparr>"

text \<open>The custom write methods modelled are those of the library, which write to a buffer.\<close>

definition makeCustomJsonPrinter :: "jsonBuffer \<Rightarrow> jsonPrinter" where
  "makeCustomJsonPrinter buf = jsonPrinterReset (blankPrinter (ToBuffer buf))"

definition makeCustomUtf8JsonPrinter :: "jsonBuffer \<Rightarrow> int \<Rightarrow> jsonPrinter" where
  "makeCustomUtf8JsonPrinter buf ccsid =
     (makeCustomJsonPrinter buf)\<lparr>mode := ConvertToUtf8, inputCCSID := ccsid\<rparr>"

definition makeCustomNativeJsonPrinter :: "jsonBuffer \<Rightarrow> int \<Rightarrow> jsonPrinter" where
  "makeCustomNativeJsonPrinter buf ccsid =
     (makeCustomJsonPrinter buf)\<lparr>mode := NativeCharset, inputCCSID := ccsid\<rparr>"

definition makeBufferJsonPrinter :: "int \<Rightarrow> jsonBuffer \<Rightarrow> jsonPrinter" where
  "makeBufferJsonPrinter ccsid buf = makeCustomUtf8JsonPrinter buf ccsid"

definition makeBufferNativeJsonPrinter :: "int \<Rightarrow> jsonBuffer \<Rightarrow> jsonPrinter" where
  "makeBufferNativeJsonPrinter ccsid buf = makeCustomNativeJsonPrinter buf ccsid"

definition jsonEnablePrettyPrint :: "jsonPrinter \<Rightarrow> jsonPrinter" where
  "jsonEnablePrettyPrint p = p\<lparr>prettyPrint := True\<rparr>"

subsection \<open>Sinks\<close>

definition INT32_MAX :: int where
  "INT32_MAX = 2147483647"

definition JSON_BUF_DEFAULT_SIZE :: int where
  "JSON_BUF_DEFAULT_SIZE = 1024"

definition makeJsonBuffer :: "int \<Rightarrow> jsonBuffer" where
  "makeJsonBuffer alloc = \<lparr>bdata = [], bsize = JSON_BUF_DEFAULT_SIZE, balloc = alloc\<rparr>"

definition jsonBufferRewind :: "jsonBuffer \<Rightarrow> jsonBuffer" where
  "jsonBufferRewind buf = buf\<lparr>bdata := []\<rparr>"

text \<open>\<open>None\<close>: the terminating zero is stored behind the end of the buffer.\<close>

definition jsonBufferTerminateString :: "jsonBuffer \<Rightarrow> jsonBuffer option" where
  "jsonBufferTerminateString buf =
     (if int (length (bdata buf)) < bsize buf
      then Some (buf\<lparr>bdata := bdata buf @ [char_of (0 :: nat)]\<rparr>) else None)"

definition jsonBufferCopy :: "jsonBuffer \<Rightarrow> string" where
  "jsonBufferCopy buf = bdata buf"

text \<open>
  The loop of \<open>writeToBuffer\<close>. A size that is not positive, which no buffer of the library has
  and with which the loop would not end, counts as failure.
\<close>

function growBuffer :: "int \<Rightarrow> int \<Rightarrow> int \<Rightarrow> int \<Rightarrow> int option" where
  "growBuffer alloc sz used len =
     (if len \<le> sz - used then Some sz
      else if INT32_MAX div 2 < sz then None
      else if sz \<le> 0 then None
      else if alloc < 2 * sz then None
      else growBuffer alloc (2 * sz) used len)"
  by pat_completeness auto
termination
  by (relation "measure (\<lambda>(alloc, sz, used, len). nat (INT32_MAX - sz))")
     (auto simp: INT32_MAX_def)

declare growBuffer.simps [simp del]

definition writeToBuffer :: "jsonPrinter \<Rightarrow> jsonBuffer \<Rightarrow> string \<Rightarrow> jsonPrinter" where
  "writeToBuffer p buf text =
     (case growBuffer (balloc buf) (bsize buf) (int (length (bdata buf))) (int (length text)) of
        None \<Rightarrow> p\<lparr>ioErrorFlag := True\<rparr>
      | Some sz \<Rightarrow> p\<lparr>sink := ToBuffer (buf\<lparr>bsize := sz, bdata := bdata buf @ text\<rparr>)\<rparr>)"

text \<open>
  The loop of \<open>jsonWriteBufferInternal\<close> on a descriptor: \<open>n\<close> more attempts may succeed. The
  text accepted by an attempt that turns out to be one too many has been written all the same.
\<close>

fun writeToFd :: "nat \<Rightarrow> string \<Rightarrow> string \<Rightarrow> int list \<Rightarrow> string \<times> int list \<times> bool" where
  "writeToFd n rest out answers =
     (if rest = [] then (out, answers, False)
      else case answers of
        [] \<Rightarrow> (out, [], True)
      | newWriteReturn # answers' \<Rightarrow>
          if newWriteReturn < 0 then (out, answers', True)
          else
            let out' = out @ take (nat newWriteReturn) rest;
                rest' = drop (nat newWriteReturn) rest
            in (case n of
                  0 \<Rightarrow> (out', answers', True)
                | Suc m \<Rightarrow> writeToFd m rest' out' answers'))"

declare writeToFd.simps [simp del]

definition jsonWriteBufferInternal :: "jsonPrinter \<Rightarrow> string \<Rightarrow> jsonPrinter" where
  "jsonWriteBufferInternal p text =
     (if ioErrorFlag p then p
      else case sink p of
        ToBuffer buf \<Rightarrow> writeToBuffer p buf text
      | ToFd out answers \<Rightarrow>
          (case writeToFd 10 text out answers of
             (out', answers', bad) \<Rightarrow>
               p\<lparr>sink := ToFd out' answers', ioErrorFlag := bad\<rparr>))"

subsection \<open>Conversion and escaping\<close>

definition CONVERSION_BUFFER_DEFAULT_SIZE :: nat where
  "CONVERSION_BUFFER_DEFAULT_SIZE = 8192"

text \<open>
  The loop of \<open>convertToUtf8\<close>, \<open>n\<close> more rounds: it grows the buffer whenever the converter
  found it short. After the last round the test for a count of 0 comes too late (the count is
  -1), so that the first \<open>len\<close> bytes of whatever is in the buffer pass as the result.
\<close>

fun convertToUtf8Loop :: "json_env \<Rightarrow> string \<Rightarrow> int \<Rightarrow> nat \<Rightarrow> nat \<Rightarrow> bool \<Rightarrow> nat \<times> string option" where
  "convertToUtf8Loop env text ccsid n sz short =
     (let newSize = (if sz = 0 \<or> short
                     then max (3 * length text + 1) (sz + CONVERSION_BUFFER_DEFAULT_SIZE)
                     else sz)
      in case convertCharset env text ccsid newSize of
           ConvSuccess out \<Rightarrow> (newSize, Some out)
         | ConvFailure _ \<Rightarrow> (newSize, None)
         | ConvShortBuffer stale \<Rightarrow>
             (case n of
                0 \<Rightarrow> (newSize, Some (take (length text) stale))
              | Suc m \<Rightarrow> convertToUtf8Loop env text ccsid m newSize True))"

declare convertToUtf8Loop.simps [simp del]

definition convertToUtf8 :: "json_env \<Rightarrow> jsonPrinter \<Rightarrow> string \<Rightarrow> int \<Rightarrow> jsonPrinter \<times> string option" where
  "convertToUtf8 env p text ccsid =
     (case convertToUtf8Loop env text ccsid 10 (conversionBufferSize p) False of
        (sz, r) \<Rightarrow> (p\<lparr>conversionBufferSize := sz\<rparr>, r))"

text \<open>\<open>UTF8_GET_NEXT_CHAR\<close>: a stand-in for the character at the start, and how far it reaches.\<close>

definition utf8_next :: "char \<Rightarrow> int \<times> nat" where
  "utf8_next c =
     (let b = of_char c :: byte in
      if b AND 0x80 = 0 then (uint b, 1)
      else if b AND 0xE0 = 0xC0 then (0x80, 2)
      else if b AND 0xF0 = 0xE0 then (0x800, 3)
      else if b AND 0xF8 = 0xF0 then (0x10000, 4)
      else (uint (scast b :: 32 word), 1))"

definition UTF8_QUOTE :: int where
  "UTF8_QUOTE = 0x22"

definition UTF8_BACKSLASH :: int where
  "UTF8_BACKSLASH = 0x5C"

definition hex_char :: "nat \<Rightarrow> char" where
  "hex_char d = (if d < 10 then digit_char d else code_char (87 + int d))"

text \<open>The escape of one character; \<open>%04x\<close> of a value up to \<open>0x1F\<close>.\<close>

definition utf8_escape :: "int \<Rightarrow> string" where
  "utf8_escape ch =
     (if ch = UTF8_BACKSLASH then [CHR 0x5C, CHR 0x5C]
      else if ch = UTF8_QUOTE then [CHR 0x5C, CHR 0x22]
      else [CHR 0x5C, CHR ''u'', CHR ''0'', CHR ''0'',
            hex_char (nat (ch div 16)), hex_char (nat (ch mod 16))])"

definition must_escape :: "int \<Rightarrow> bool" where
  "must_escape ch \<longleftrightarrow> ch \<le> 0x1F \<or> ch = UTF8_BACKSLASH \<or> ch = UTF8_QUOTE"

definition writeChunk :: "jsonPrinter \<Rightarrow> string \<Rightarrow> jsonPrinter" where
  "writeChunk p chunk = (if 0 < length chunk then jsonWriteBufferInternal p chunk else p)"

function writeBufferWithEscapingLoop :: "jsonPrinter \<Rightarrow> string \<Rightarrow> string \<Rightarrow> jsonPrinter" where
  "writeBufferWithEscapingLoop p chunk [] = writeChunk p chunk"
| "writeBufferWithEscapingLoop p chunk (c # cs) =
     (let (ch, n) = utf8_next c in
      if must_escape ch
      then writeBufferWithEscapingLoop
             (jsonWriteBufferInternal (writeChunk p chunk) (utf8_escape ch)) [] cs
      else writeBufferWithEscapingLoop p (chunk @ take n (c # cs)) (drop n (c # cs)))"
  by pat_completeness auto
termination
  by (relation "measure (\<lambda>(p, chunk, s). length s)")
     (auto simp: utf8_next_def Let_def split: if_splits)

definition writeBufferWithEscaping :: "jsonPrinter \<Rightarrow> string \<Rightarrow> jsonPrinter" where
  "writeBufferWithEscaping p text = writeBufferWithEscapingLoop p [] text"

fun jsonEscapeNative :: "string \<Rightarrow> string" where
  "jsonEscapeNative [] = []"
| "jsonEscapeNative (c # cs) =
     (if c = CHR 0x0A then [CHR 0x5C, CHR ''n'']
      else if c = CHR 0x0D then [CHR 0x5C, CHR ''r'']
      else if c = CHR 0x22 \<or> c = CHR 0x5C then [CHR 0x5C, c]
      else [c]) @ jsonEscapeNative cs"

definition special_char :: "char \<Rightarrow> bool" where
  "special_char c \<longleftrightarrow> c = CHR 0x22 \<or> c = CHR 0x5C \<or> c = CHR 0x0A \<or> c = CHR 0x0D"

definition jsonWriteEscapedString :: "jsonPrinter \<Rightarrow> string \<Rightarrow> jsonPrinter" where
  "jsonWriteEscapedString p s =
     (if 0 < length (filter special_char s)
      then jsonWriteBufferInternal p (jsonEscapeNative s)
      else jsonWriteBufferInternal p s)"

definition jsonConvertAndWriteBuffer ::
  "json_env \<Rightarrow> jsonPrinter \<Rightarrow> string \<Rightarrow> bool \<Rightarrow> int \<Rightarrow> jsonPrinter" where
  "jsonConvertAndWriteBuffer env p text escape ccsid =
     (if ioErrorFlag p then p
      else case mode p of
        ConvertToUtf8 \<Rightarrow>
          (case (if ccsid \<noteq> CCSID_UTF_8 then convertToUtf8 env p text ccsid else (p, Some text)) of
             (p1, None) \<Rightarrow> p1
           | (p1, Some text1) \<Rightarrow>
               if escape then writeBufferWithEscaping p1 text1
               else jsonWriteBufferInternal p1 text1)
      | NativeCharset \<Rightarrow>
          if escape then jsonWriteEscapedString p text else jsonWriteBufferInternal p text)"

definition jsonWrite :: "json_env \<Rightarrow> jsonPrinter \<Rightarrow> string \<Rightarrow> bool \<Rightarrow> int \<Rightarrow> jsonPrinter" where
  "jsonWrite env p text escape ccsid = jsonConvertAndWriteBuffer env p text escape ccsid"

definition jsonWriteParseably :: "json_env \<Rightarrow> jsonPrinter \<Rightarrow> string \<Rightarrow> bool \<Rightarrow> bool \<Rightarrow> int \<Rightarrow> jsonPrinter" where
  "jsonWriteParseably env p text quote escape ccsid =
     (let p1 = (if quote then jsonWrite env p [CHR 0x22] False ccsid else p);
          p2 = jsonConvertAndWriteBuffer env p1 text escape ccsid
      in if quote then jsonWrite env p2 [CHR 0x22] False ccsid else p2)"

subsection \<open>Layout\<close>

definition writeText :: "json_env \<Rightarrow> string \<Rightarrow> jsonPrinter \<Rightarrow> jsonPrinter" where
  "writeText env text p = jsonWrite env p text False SOURCE_CODE_CHARSET"

primrec indentLoop :: "json_env \<Rightarrow> nat \<Rightarrow> jsonPrinter \<Rightarrow> jsonPrinter" where
  "indentLoop env 0 p = p"
| "indentLoop env (Suc n) p = indentLoop env n (writeText env indentString p)"

definition jsonIndent :: "json_env \<Rightarrow> jsonPrinter \<Rightarrow> jsonPrinter" where
  "jsonIndent env p = indentLoop env (nat (depth p)) p"

definition jsonNewLine :: "json_env \<Rightarrow> jsonPrinter \<Rightarrow> jsonPrinter" where
  "jsonNewLine env p =
     (let p1 = (if isEnd p then p\<lparr>isEnd := False\<rparr>
                else if isStart p then p\<lparr>isStart := False\<rparr>
                else writeText env '','' p)
      in if prettyPrint p1 then jsonIndent env (writeText env [CHR 0x0A] p1) else p1)"

subsection \<open>Scalars\<close>

definition jsonWriteInt :: "json_env \<Rightarrow> 32 word \<Rightarrow> jsonPrinter \<Rightarrow> jsonPrinter" where
  "jsonWriteInt env v p = writeText env (show_int (sint v)) p"

definition jsonWriteUInt :: "json_env \<Rightarrow> 32 word \<Rightarrow> jsonPrinter \<Rightarrow> jsonPrinter" where
  "jsonWriteUInt env v p = writeText env (show_nat (unat v)) p"

definition jsonWriteInt64 :: "json_env \<Rightarrow> 64 word \<Rightarrow> jsonPrinter \<Rightarrow> jsonPrinter" where
  "jsonWriteInt64 env v p = writeText env (show_int (sint v)) p"

text \<open>\<open>snprintf\<close> cuts the text of a large double off at 63 characters.\<close>

definition jsonWriteDouble :: "json_env \<Rightarrow> double \<Rightarrow> jsonPrinter \<Rightarrow> jsonPrinter" where
  "jsonWriteDouble env v p = writeText env (take 63 (fmt_f (fp env) v)) p"

definition jsonWriteBoolean :: "json_env \<Rightarrow> 32 word \<Rightarrow> jsonPrinter \<Rightarrow> jsonPrinter" where
  "jsonWriteBoolean env v p = writeText env (if v \<noteq> 0 then ''true'' else ''false'') p"

definition jsonWriteNull :: "json_env \<Rightarrow> jsonPrinter \<Rightarrow> jsonPrinter" where
  "jsonWriteNull env p = writeText env ''null'' p"

definition jsonWriteQuotedString :: "json_env \<Rightarrow> string \<Rightarrow> jsonPrinter \<Rightarrow> jsonPrinter" where
  "jsonWriteQuotedString env s p0 =
     (let p1 = writeText env [CHR 0x22] p0;
          p2 = jsonWrite env p1 s True (inputCCSID p1)
      in writeText env [CHR 0x22] p2)"

definition jsonWriteQuotedUnterminatedString :: "json_env \<Rightarrow> string \<Rightarrow> jsonPrinter \<Rightarrow> jsonPrinter" where
  "jsonWriteQuotedUnterminatedString env s p0 =
     (let p1 = writeText env [CHR 0x22] p0;
          p2 = jsonConvertAndWriteBuffer env p1 s True (inputCCSID p1)
      in writeText env [CHR 0x22] p2)"

definition jsonWriteKeyAndSemicolon :: "json_env \<Rightarrow> string option \<Rightarrow> jsonPrinter \<Rightarrow> jsonPrinter" where
  "jsonWriteKeyAndSemicolon env key p =
     (case key of
        None \<Rightarrow> p
      | Some k \<Rightarrow>
          let p1 = jsonWriteQuotedString env k p
          in if prettyPrint p1 then writeText env '': '' p1 else writeText env '':'' p1)"

subsection \<open>The calls of the interface\<close>

text \<open>What the calls that add a member begin with, after the test of the error flag.\<close>

definition beginMember :: "json_env \<Rightarrow> string option \<Rightarrow> jsonPrinter \<Rightarrow> jsonPrinter" where
  "beginMember env keyOrNull p =
     jsonWriteKeyAndSemicolon env keyOrNull
       (if isFirstLine p then p\<lparr>isFirstLine := False\<rparr> else jsonNewLine env p)"

definition jsonStartObject :: "json_env \<Rightarrow> string option \<Rightarrow> jsonPrinter \<Rightarrow> jsonPrinter" where
  "jsonStartObject env keyOrNull p =
     (if ioErrorFlag p then p
      else let p1 = writeText env ''{'' (beginMember env keyOrNull p)
           in p1\<lparr>depth := depth p1 + 1, isStart := True, isEnd := False\<rparr>)"

definition jsonEndObject :: "json_env \<Rightarrow> jsonPrinter \<Rightarrow> jsonPrinter" where
  "jsonEndObject env p =
     (if ioErrorFlag p then p
      else writeText env ''}''
             (jsonNewLine env (p\<lparr>depth := depth p - 1, isStart := False, isEnd := True\<rparr>)))"

definition jsonStartArray :: "json_env \<Rightarrow> string option \<Rightarrow> jsonPrinter \<Rightarrow> jsonPrinter" where
  "jsonStartArray env keyOrNull p =
     (if ioErrorFlag p then p
      else let p1 = writeText env ''['' (beginMember env keyOrNull p)
           in p1\<lparr>depth := depth p1 + 1, isStart := True, isEnd := False\<rparr>)"

definition jsonEndArray :: "json_env \<Rightarrow> jsonPrinter \<Rightarrow> jsonPrinter" where
  "jsonEndArray env p =
     (if ioErrorFlag p then p
      else writeText env '']''
             (jsonNewLine env (p\<lparr>depth := depth p - 1, isStart := False, isEnd := True\<rparr>)))"

definition jsonStart :: "json_env \<Rightarrow> jsonPrinter \<Rightarrow> jsonPrinter" where
  "jsonStart env p = jsonStartObject env None p"

definition jsonEnd :: "json_env \<Rightarrow> jsonPrinter \<Rightarrow> jsonPrinter" where
  "jsonEnd env p = jsonEndObject env p"

definition jsonAddString :: "json_env \<Rightarrow> string option \<Rightarrow> string \<Rightarrow> jsonPrinter \<Rightarrow> jsonPrinter" where
  "jsonAddString env keyOrNull v p =
     (if ioErrorFlag p then p else jsonWriteQuotedString env v (beginMember env keyOrNull p))"

definition jsonAddJSONString :: "json_env \<Rightarrow> string option \<Rightarrow> string \<Rightarrow> jsonPrinter \<Rightarrow> jsonPrinter" where
  "jsonAddJSONString env keyOrNull validJsonValue p =
     (if ioErrorFlag p then p
      else let p1 = beginMember env keyOrNull p
           in jsonWrite env p1 validJsonValue False (inputCCSID p1))"

definition jsonStartMultipartString :: "json_env \<Rightarrow> string option \<Rightarrow> jsonPrinter \<Rightarrow> jsonPrinter" where
  "jsonStartMultipartString env keyOrNull p =
     (if ioErrorFlag p then p
      else (writeText env [CHR 0x22] (beginMember env keyOrNull p))\<lparr>isInMultipartString := True\<rparr>)"

definition jsonAppendStringPart :: "json_env \<Rightarrow> string \<Rightarrow> jsonPrinter \<Rightarrow> jsonPrinter" where
  "jsonAppendStringPart env s p =
     (if ioErrorFlag p then p
      else if \<not> isInMultipartString p then p
      else jsonWrite env p s True (inputCCSID p))"

definition jsonAppendUnterminatedStringPart :: "json_env \<Rightarrow> string \<Rightarrow> jsonPrinter \<Rightarrow> jsonPrinter" where
  "jsonAppendUnterminatedStringPart env s p =
     (if ioErrorFlag p then p
      else if \<not> isInMultipartString p then p
      else jsonConvertAndWriteBuffer env p s True (inputCCSID p))"

definition jsonEndMultipartString :: "json_env \<Rightarrow> jsonPrinter \<Rightarrow> jsonPrinter" where
  "jsonEndMultipartString env p =
     (if ioErrorFlag p then p
      else if \<not> isInMultipartString p then p
      else (writeText env [CHR 0x22] p)\<lparr>isInMultipartString := False\<rparr>)"

definition jsonAddUnterminatedJSONString ::
  "json_env \<Rightarrow> string option \<Rightarrow> string \<Rightarrow> jsonPrinter \<Rightarrow> jsonPrinter" where
  "jsonAddUnterminatedJSONString env keyOrNull validJsonValue p =
     (if ioErrorFlag p then p
      else let p1 = beginMember env keyOrNull p
           in jsonConvertAndWriteBuffer env p1 validJsonValue False (inputCCSID p1))"

definition jsonAddUnterminatedString ::
  "json_env \<Rightarrow> string option \<Rightarrow> string \<Rightarrow> jsonPrinter \<Rightarrow> jsonPrinter" where
  "jsonAddUnterminatedString env keyOrNull v p =
     (if ioErrorFlag p then p
      else jsonWriteQuotedUnterminatedString env v (beginMember env keyOrNull p))"

text \<open>
  \<open>jsonAddLimitedString\<close> cuts characters below the blank from the tail; \<open>char\<close> is signed, so
  every byte from \<open>0x80\<close> up counts as below.
\<close>

definition limitedValue :: "string \<Rightarrow> string" where
  "limitedValue v = rev (dropWhile (\<lambda>c. char_code c < 32) (rev v))"

definition jsonAddLimitedString ::
  "json_env \<Rightarrow> string option \<Rightarrow> string \<Rightarrow> jsonPrinter \<Rightarrow> jsonPrinter" where
  "jsonAddLimitedString env keyOrNull v p =
     (if ioErrorFlag p then p
      else jsonWriteQuotedUnterminatedString env (limitedValue v) (beginMember env keyOrNull p))"

definition jsonAddBoolean :: "json_env \<Rightarrow> string option \<Rightarrow> 32 word \<Rightarrow> jsonPrinter \<Rightarrow> jsonPrinter" where
  "jsonAddBoolean env keyOrNull v p =
     (if ioErrorFlag p then p else jsonWriteBoolean env v (beginMember env keyOrNull p))"

definition jsonAddNull :: "json_env \<Rightarrow> string option \<Rightarrow> jsonPrinter \<Rightarrow> jsonPrinter" where
  "jsonAddNull env keyOrNull p =
     (if ioErrorFlag p then p else jsonWriteNull env (beginMember env keyOrNull p))"

definition jsonAddUInt :: "json_env \<Rightarrow> string option \<Rightarrow> 32 word \<Rightarrow> jsonPrinter \<Rightarrow> jsonPrinter" where
  "jsonAddUInt env keyOrNull v p =
     (if ioErrorFlag p then p else jsonWriteUInt env v (beginMember env keyOrNull p))"

definition jsonAddInt :: "json_env \<Rightarrow> string option \<Rightarrow> 32 word \<Rightarrow> jsonPrinter \<Rightarrow> jsonPrinter" where
  "jsonAddInt env keyOrNull v p =
     (if ioErrorFlag p then p else jsonWriteInt env v (beginMember env keyOrNull p))"

definition jsonAddInt64 :: "json_env \<Rightarrow> string option \<Rightarrow> 64 word \<Rightarrow> jsonPrinter \<Rightarrow> jsonPrinter" where
  "jsonAddInt64 env keyOrNull v p =
     (if ioErrorFlag p then p else jsonWriteInt64 env v (beginMember env keyOrNull p))"

definition jsonAddDouble :: "json_env \<Rightarrow> string option \<Rightarrow> double \<Rightarrow> jsonPrinter \<Rightarrow> jsonPrinter" where
  "jsonAddDouble env keyOrNull v p =
     (if ioErrorFlag p then p else jsonWriteDouble env v (beginMember env keyOrNull p))"

subsection \<open>Whole values\<close>

fun jsonPrintInternal :: "json_env \<Rightarrow> jsonPrinter \<Rightarrow> string option \<Rightarrow> json \<Rightarrow> jsonPrinter"
  and jsonPrintObject :: "json_env \<Rightarrow> jsonPrinter \<Rightarrow> property list \<Rightarrow> jsonPrinter"
  and jsonPrintArray :: "json_env \<Rightarrow> jsonPrinter \<Rightarrow> json list \<Rightarrow> jsonPrinter" where
  "jsonPrintInternal env p key (JNumber n) = jsonAddInt env key (jsonAsNumber (JNumber n)) p"
| "jsonPrintInternal env p key (JInt64 n) = jsonAddInt64 env key (jsonAsInt64 (fp env) (JInt64 n)) p"
| "jsonPrintInternal env p key (JDouble d) =
     jsonAddDouble env key (jsonAsDouble (fp env) (JDouble d)) p"
| "jsonPrintInternal env p key (JString s) = jsonAddString env key s p"
| "jsonPrintInternal env p key (JBoolean b) = jsonAddBoolean env key (jsonAsBoolean (JBoolean b)) p"
| "jsonPrintInternal env p key JNull = jsonAddNull env key p"
| "jsonPrintInternal env p key (JObject ps) =
     jsonEndObject env (jsonPrintObject env (jsonStartObject env key p) ps)"
| "jsonPrintInternal env p key (JArray js) =
     jsonEndArray env (jsonPrintArray env (jsonStartArray env key p) js)"
| "jsonPrintInternal env p key (JError _) = p"
| "jsonPrintObject env p [] = p"
| "jsonPrintObject env p ((k, v) # ps) =
     jsonPrintObject env (jsonPrintInternal env p (Some k) v) ps"
| "jsonPrintArray env p [] = p"
| "jsonPrintArray env p (j # js) = jsonPrintArray env (jsonPrintInternal env p None j) js"

definition jsonPrint :: "json_env \<Rightarrow> jsonPrinter \<Rightarrow> json \<Rightarrow> jsonPrinter" where
  "jsonPrint env p j = jsonPrintInternal env p None j"

subsection \<open>The text a printer writes\<close>

text \<open>
  \<open>value_text\<close> is the text of a value at a depth: the specification of the printer, without
  its state. \<open>esc\<close> is how a string is escaped, \<open>pp\<close> whether lines are broken.
\<close>

function escapeUtf8 :: "string \<Rightarrow> string" where
  "escapeUtf8 [] = []"
| "escapeUtf8 (c # cs) =
     (let (ch, n) = utf8_next c in
      if must_escape ch then utf8_escape ch @ escapeUtf8 cs
      else take n (c # cs) @ escapeUtf8 (drop n (c # cs)))"
  by pat_completeness auto
termination
  by (relation "measure length") (auto simp: utf8_next_def Let_def split: if_splits)

definition nl :: "bool \<Rightarrow> int \<Rightarrow> string" where
  "nl pp d = (if pp then CHR 0x0A # concat (replicate (nat d) indentString) else [])"

definition quoted :: "(string \<Rightarrow> string) \<Rightarrow> string \<Rightarrow> string" where
  "quoted esc s = [CHR 0x22] @ esc s @ [CHR 0x22]"

definition key_text :: "(string \<Rightarrow> string) \<Rightarrow> bool \<Rightarrow> string option \<Rightarrow> string" where
  "key_text esc pp key =
     (case key of None \<Rightarrow> [] | Some k \<Rightarrow> quoted esc k @ (if pp then '': '' else '':''))"

fun value_text :: "json_env \<Rightarrow> (string \<Rightarrow> string) \<Rightarrow> bool \<Rightarrow> int \<Rightarrow> json \<Rightarrow> string"
  and members_text :: "json_env \<Rightarrow> (string \<Rightarrow> string) \<Rightarrow> bool \<Rightarrow> int \<Rightarrow> bool \<Rightarrow> property list \<Rightarrow> string"
  and elements_text :: "json_env \<Rightarrow> (string \<Rightarrow> string) \<Rightarrow> bool \<Rightarrow> int \<Rightarrow> bool \<Rightarrow> json list \<Rightarrow> string" where
  "value_text env esc pp d (JNumber n) = show_int (sint n)"
| "value_text env esc pp d (JInt64 n) = show_int (sint n)"
| "value_text env esc pp d (JDouble x) = take 63 (fmt_f (fp env) x)"
| "value_text env esc pp d (JString s) = quoted esc s"
| "value_text env esc pp d (JBoolean b) = (if b \<noteq> 0 then ''true'' else ''false'')"
| "value_text env esc pp d JNull = ''null''"
| "value_text env esc pp d (JObject ps) =
     ''{'' @ members_text env esc pp (d + 1) True ps @ nl pp d @ ''}''"
| "value_text env esc pp d (JArray js) =
     ''['' @ elements_text env esc pp (d + 1) True js @ nl pp d @ '']''"
| "value_text env esc pp d (JError _) = []"
| "members_text env esc pp d first [] = []"
| "members_text env esc pp d first ((k, v) # ps) =
     (if first then [] else '','') @ nl pp d @ key_text esc pp (Some k) @
     value_text env esc pp d v @ members_text env esc pp d False ps"
| "elements_text env esc pp d first [] = []"
| "elements_text env esc pp d first (j # js) =
     (if first then [] else '','') @ nl pp d @
     value_text env esc pp d j @ elements_text env esc pp d False js"

fun no_error :: "json \<Rightarrow> bool" where
  "no_error (JObject ps) = (\<forall>p \<in> set ps. no_error (snd p))"
| "no_error (JArray js) = (\<forall>j \<in> set js. no_error j)"
| "no_error (JError _) = False"
| "no_error _ = True"

subsection \<open>Writing without error\<close>

definition pout :: "jsonPrinter \<Rightarrow> string" where
  "pout p = (case sink p of ToBuffer b \<Rightarrow> bdata b | ToFd out _ \<Rightarrow> out)"

text \<open>\<open>wrote p q t\<close>: neither has failed, and \<open>q\<close> is \<open>p\<close> after writing \<open>t\<close>.\<close>

definition wrote :: "jsonPrinter \<Rightarrow> jsonPrinter \<Rightarrow> string \<Rightarrow> bool" where
  "wrote p q t \<longleftrightarrow> \<not> ioErrorFlag p \<and> \<not> ioErrorFlag q \<and> pout q = pout p @ t \<and>
     q = p\<lparr>sink := sink q\<rparr>"

lemma wrote_refl: "\<not> ioErrorFlag p \<Longrightarrow> wrote p p []"
  by (simp add: wrote_def)

lemma wrote_trans: "wrote p q t \<Longrightarrow> wrote q r u \<Longrightarrow> wrote p r (t @ u)"
  by (cases p; cases q; cases r) (auto simp: wrote_def)

lemma wrote_fields:
  assumes "wrote p q t"
  shows "mode q = mode p" "depth q = depth p" "isStart q = isStart p" "isEnd q = isEnd p"
    "isFirstLine q = isFirstLine p" "prettyPrint q = prettyPrint p" "inputCCSID q = inputCCSID p"
    "\<not> ioErrorFlag p"
  using assms by (cases p; cases q; simp add: wrote_def)+

lemma pout_upd [simp]:
  "pout (p\<lparr>depth := d\<rparr>) = pout p" "pout (p\<lparr>isStart := b\<rparr>) = pout p" "pout (p\<lparr>isEnd := b\<rparr>) = pout p"
  "pout (p\<lparr>isFirstLine := b\<rparr>) = pout p" "pout (p\<lparr>isInMultipartString := b\<rparr>) = pout p"
  by (simp_all add: pout_def)

lemma wrote_upd:
  assumes "wrote p q t"
  shows "wrote (p\<lparr>depth := d\<rparr>) (q\<lparr>depth := d\<rparr>) t" "wrote (p\<lparr>isStart := b\<rparr>) (q\<lparr>isStart := b\<rparr>) t"
    "wrote (p\<lparr>isEnd := b\<rparr>) (q\<lparr>isEnd := b\<rparr>) t"
  using assms by (cases p; cases q; simp add: wrote_def pout_def)+

lemma writeToFd_complete:
  "writeToFd n rest out answers = (out', answers', False) \<Longrightarrow> out' = out @ rest"
proof (induction n rest out answers rule: writeToFd.induct)
  case (1 n rest out answers)
  show ?case
  proof (cases "rest = [] \<or> answers = []")
    case True
    then show ?thesis using "1.prems" by (subst (asm) writeToFd.simps) (auto split: if_splits)
  next
    case False
    then obtain a as where a: "answers = a # as" by (cases answers) auto
    from "1.prems" False a obtain m where n: "n = Suc m" and pos: "\<not> a < 0"
      and r: "writeToFd m (drop (nat a) rest) (out @ take (nat a) rest) as = (out', answers', False)"
      by (subst (asm) writeToFd.simps) (auto simp: Let_def split: if_splits nat.splits)
    from "1.IH" [of a as "out @ take (nat a) rest" "drop (nat a) rest" m] False a n pos r
    show ?thesis by simp
  qed
qed

lemma write_internal:
  assumes "\<not> ioErrorFlag (jsonWriteBufferInternal p t)"
  shows "wrote p (jsonWriteBufferInternal p t) t"
proof -
  from assms have e: "\<not> ioErrorFlag p" by (auto simp: jsonWriteBufferInternal_def)
  show ?thesis
  proof (cases "sink p")
    case (ToBuffer b)
    with assms e show ?thesis
      by (auto simp: wrote_def jsonWriteBufferInternal_def writeToBuffer_def pout_def
          split: option.splits)
  next
    case (ToFd out answers)
    obtain out' as bad where w: "writeToFd 10 t out answers = (out', as, bad)"
      by (metis prod.exhaust)
    with assms e ToFd have nb: "\<not> bad" by (simp add: jsonWriteBufferInternal_def)
    with w e ToFd have q: "jsonWriteBufferInternal p t = p\<lparr>sink := ToFd out' as\<rparr>"
      by (cases p) (simp add: jsonWriteBufferInternal_def)
    from writeToFd_complete [of 10 t out answers out' as] w nb e ToFd show ?thesis
      by (simp add: wrote_def q pout_def)
  qed
qed

text \<open>Strings whose bytes go out as they are, up to escapes.\<close>

definition plain :: "jsonPrinter \<Rightarrow> bool" where
  "plain p \<longleftrightarrow> mode p = NativeCharset \<or> inputCCSID p = CCSID_UTF_8"

definition esc_of :: "jsonPrinter \<Rightarrow> string \<Rightarrow> string" where
  "esc_of p = (case mode p of NativeCharset \<Rightarrow> jsonEscapeNative | ConvertToUtf8 \<Rightarrow> escapeUtf8)"

lemma writeChunk_wrote:
  "\<not> ioErrorFlag (writeChunk p chunk) \<Longrightarrow> wrote p (writeChunk p chunk) chunk"
  using write_internal wrote_refl by (auto simp: writeChunk_def split: if_splits)

lemma writeBufferWithEscapingLoop_wrote:
  "\<not> ioErrorFlag (writeBufferWithEscapingLoop p chunk s) \<Longrightarrow>
     wrote p (writeBufferWithEscapingLoop p chunk s) (chunk @ escapeUtf8 s)"
proof (induction p chunk s rule: writeBufferWithEscapingLoop.induct)
  case (1 p chunk)
  then show ?case using writeChunk_wrote by simp
next
  case (2 p chunk c cs)
  obtain ch n where u: "utf8_next c = (ch, n)" by fastforce
  show ?case
  proof (cases "must_escape ch")
    case True
    let ?p1 = "writeChunk p chunk" and ?p2 = "jsonWriteBufferInternal (writeChunk p chunk) (utf8_escape ch)"
    from "2.IH"(1) [OF u [symmetric] refl True] "2.prems" u True
    have 3: "wrote ?p2 (writeBufferWithEscapingLoop ?p2 [] cs) (escapeUtf8 cs)" by simp
    then have 2: "wrote ?p1 ?p2 (utf8_escape ch)" by (intro write_internal) (simp add: wrote_fields)
    then have 1: "wrote p ?p1 chunk" by (intro writeChunk_wrote) (simp add: wrote_fields)
    from wrote_trans [OF 1 wrote_trans [OF 2 3]] u True show ?thesis by simp
  next
    case False
    from "2.IH"(2) [OF u [symmetric] refl False] "2.prems" u False show ?thesis by simp
  qed
qed

lemma jsonEscapeNative_plain: "filter special_char s = [] \<Longrightarrow> jsonEscapeNative s = s"
  by (induction s) (auto simp: special_char_def split: if_splits)

lemma write_plain:
  assumes "\<not> ioErrorFlag (jsonConvertAndWriteBuffer env p t False CCSID_UTF_8)"
  shows "wrote p (jsonConvertAndWriteBuffer env p t False CCSID_UTF_8) t"
  using assms write_internal
  by (cases "mode p") (auto simp: jsonConvertAndWriteBuffer_def split: if_splits)

lemma writeText_wrote:
  "\<not> ioErrorFlag (writeText env t p) \<Longrightarrow> wrote p (writeText env t p) t"
  using write_plain by (simp add: writeText_def jsonWrite_def SOURCE_CODE_CHARSET_def)

lemma write_escaped:
  assumes "\<not> ioErrorFlag (jsonConvertAndWriteBuffer env p t True (inputCCSID p))" "plain p"
  shows "wrote p (jsonConvertAndWriteBuffer env p t True (inputCCSID p)) (esc_of p t)"
proof (cases "mode p")
  case NativeCharset
  then have eq: "jsonConvertAndWriteBuffer env p t True (inputCCSID p) =
      jsonWriteBufferInternal p (jsonEscapeNative t)"
    using assms(1) jsonEscapeNative_plain [of t]
    by (auto simp: jsonConvertAndWriteBuffer_def jsonWriteEscapedString_def split: if_splits)
  from write_internal assms(1) show ?thesis unfolding eq esc_of_def NativeCharset by simp
next
  case ConvertToUtf8
  with assms have eq: "jsonConvertAndWriteBuffer env p t True (inputCCSID p) = writeBufferWithEscaping p t"
    by (auto simp: jsonConvertAndWriteBuffer_def plain_def)
  from assms(1) writeBufferWithEscapingLoop_wrote [of p "[]" t] show ?thesis
    unfolding eq by (simp add: writeBufferWithEscaping_def esc_of_def ConvertToUtf8)
qed

lemma indentLoop_wrote:
  "\<not> ioErrorFlag (indentLoop env n p) \<Longrightarrow>
     wrote p (indentLoop env n p) (concat (replicate n indentString))"
proof (induction n arbitrary: p)
  case 0
  then show ?case by (simp add: wrote_refl)
next
  case (Suc n)
  let ?q = "writeText env indentString p"
  from Suc have r: "wrote ?q (indentLoop env (Suc n) p) (concat (replicate n indentString))" by simp
  then have "wrote p ?q indentString" by (intro writeText_wrote) (simp add: wrote_fields)
  from wrote_trans [OF this r] show ?case by simp
qed

text \<open>What separates a member from what is before it, and the flags after the separator.\<close>

definition sep :: "jsonPrinter \<Rightarrow> string" where
  "sep p = (if isFirstLine p then []
            else (if isEnd p \<or> isStart p then [] else '','') @ nl (prettyPrint p) (depth p))"

definition settled :: "jsonPrinter \<Rightarrow> jsonPrinter" where
  "settled p =
     (if isFirstLine p then p\<lparr>isFirstLine := False\<rparr>
      else if isEnd p then p\<lparr>isEnd := False\<rparr> else p\<lparr>isStart := False\<rparr>)"

lemma jsonNewLine_wrote:
  assumes "\<not> ioErrorFlag (jsonNewLine env p)" "\<not> isFirstLine p"
  shows "wrote (settled p) (jsonNewLine env p) (sep p)"
proof -
  let ?p1 = "if isEnd p then p\<lparr>isEnd := False\<rparr>
             else if isStart p then p\<lparr>isStart := False\<rparr> else writeText env '','' p"
  let ?c = "if isEnd p \<or> isStart p then [] else '',''"
  have eq: "jsonNewLine env p =
      (if prettyPrint ?p1 then jsonIndent env (writeText env [CHR 0x0A] ?p1) else ?p1)"
    by (simp add: jsonNewLine_def Let_def)
  have rest: "wrote ?p1 (jsonNewLine env p) (nl (prettyPrint ?p1) (depth ?p1))"
  proof (cases "prettyPrint ?p1")
    case False
    then have e: "jsonNewLine env p = ?p1" unfolding eq by (simp only: if_False)
    from assms(1) have "wrote ?p1 ?p1 []" unfolding e by (rule wrote_refl)
    with False show ?thesis unfolding e by (simp only: nl_def if_False)
  next
    case True
    let ?q = "writeText env [CHR 0x0A] ?p1"
    from True have e: "jsonNewLine env p = jsonIndent env ?q" unfolding eq by (simp only: if_True)
    from assms(1) have i: "wrote ?q (jsonIndent env ?q) (concat (replicate (nat (depth ?q)) indentString))"
      unfolding e jsonIndent_def by (rule indentLoop_wrote)
    from wrote_fields(8) [OF i] have q: "wrote ?p1 ?q [CHR 0x0A]" by (rule writeText_wrote)
    have "nl (prettyPrint ?p1) (depth ?p1) = [CHR 0x0A] @ concat (replicate (nat (depth ?q)) indentString)"
      unfolding wrote_fields(2) [OF q] using True by (simp only: nl_def if_True append_Cons append_Nil)
    with wrote_trans [OF q i] show ?thesis unfolding e by simp
  qed
  have first: "wrote (settled p) ?p1 ?c"
  proof (cases "isEnd p \<or> isStart p")
    case True
    then have "?p1 = settled p" using assms(2) by (auto simp: settled_def)
    with True wrote_fields(8) [OF rest] show ?thesis by (simp add: wrote_refl)
  next
    case False
    then have "settled p = p" "?p1 = writeText env '','' p" using assms(2)
      by (cases p, simp add: settled_def)+
    with False wrote_fields(8) [OF rest] writeText_wrote [of env "'',''" p] show ?thesis by simp
  qed
  have "depth (settled p) = depth p" "prettyPrint (settled p) = prettyPrint p"
    by (simp_all add: settled_def)
  with wrote_trans [OF first rest] wrote_fields(2,6) [OF first] assms(2) show ?thesis
    by (simp add: sep_def)
qed

lemma settled_fields [simp]:
  "mode (settled p) = mode p" "depth (settled p) = depth p" "inputCCSID (settled p) = inputCCSID p"
  "prettyPrint (settled p) = prettyPrint p" "ioErrorFlag (settled p) = ioErrorFlag p"
  "pout (settled p) = pout p" "isFirstLine (settled p) = False"
  by (simp_all add: settled_def)

lemma wrote_plain: "wrote p q t \<Longrightarrow> plain q = plain p" "wrote p q t \<Longrightarrow> esc_of q = esc_of p"
  by (simp_all add: plain_def esc_of_def wrote_fields fun_eq_iff)

lemma plain_settled [simp]: "plain (settled p) = plain p" "esc_of (settled p) = esc_of p"
  by (simp_all add: plain_def esc_of_def fun_eq_iff)

lemma quoted_wrote:
  assumes "\<not> ioErrorFlag (jsonWriteQuotedString env s p)" "plain p"
  shows "wrote p (jsonWriteQuotedString env s p) (quoted (esc_of p) s)"
proof -
  let ?p1 = "writeText env [CHR 0x22] p"
  let ?p2 = "jsonConvertAndWriteBuffer env ?p1 s True (inputCCSID ?p1)"
  have eq: "jsonWriteQuotedString env s p = writeText env [CHR 0x22] ?p2"
    by (simp add: jsonWriteQuotedString_def jsonWrite_def Let_def)
  from assms(1) have 3: "wrote ?p2 (writeText env [CHR 0x22] ?p2) [CHR 0x22]"
    unfolding eq by (rule writeText_wrote)
  have e2: "\<not> ioErrorFlag ?p2" using wrote_fields(8) [OF 3] .
  have e1: "\<not> ioErrorFlag ?p1" using e2 by (auto simp: jsonConvertAndWriteBuffer_def split: if_splits)
  have 1: "wrote p ?p1 [CHR 0x22]" using e1 by (rule writeText_wrote)
  have 2: "wrote ?p1 ?p2 (esc_of ?p1 s)"
    using e2 wrote_plain(1) [OF 1] assms(2) by (intro write_escaped) simp_all
  from wrote_trans [OF 1 wrote_trans [OF 2 3]] show ?thesis
    unfolding eq quoted_def wrote_plain(2) [OF 1] by simp
qed

lemma key_wrote:
  assumes "\<not> ioErrorFlag (jsonWriteKeyAndSemicolon env key p)" "plain p"
  shows "wrote p (jsonWriteKeyAndSemicolon env key p) (key_text (esc_of p) (prettyPrint p) key)"
proof (cases key)
  case None
  then show ?thesis using assms(1) by (simp add: jsonWriteKeyAndSemicolon_def key_text_def wrote_refl)
next
  case (Some k)
  let ?q = "jsonWriteQuotedString env k p" and ?t = "if prettyPrint p then '': '' else '':''"
  let ?u = "if prettyPrint ?q then '': '' else '':''"
  have eq: "jsonWriteKeyAndSemicolon env key p = writeText env ?u ?q"
    by (simp add: Some jsonWriteKeyAndSemicolon_def Let_def)
  from assms(1) have 2: "wrote ?q (writeText env ?u ?q) ?u" unfolding eq by (rule writeText_wrote)
  from quoted_wrote [OF wrote_fields(8) [OF 2] assms(2)]
  have 1: "wrote p ?q (quoted (esc_of p) k)" .
  from wrote_trans [OF 1 2] wrote_fields(6) [OF 1] show ?thesis
    unfolding eq by (simp add: Some key_text_def)
qed

lemma write_error: "ioErrorFlag p \<Longrightarrow> writeText env t p = p"
  "ioErrorFlag p \<Longrightarrow> jsonConvertAndWriteBuffer env p t esc c = p"
  by (simp_all add: writeText_def jsonWrite_def jsonConvertAndWriteBuffer_def)

lemma key_error: "ioErrorFlag p \<Longrightarrow> jsonWriteKeyAndSemicolon env key p = p"
  by (simp add: jsonWriteKeyAndSemicolon_def jsonWriteQuotedString_def jsonWrite_def write_error
      Let_def split: option.split)

lemma beginMember_wrote:
  assumes "\<not> ioErrorFlag (beginMember env key p)" "plain p"
  shows "wrote (settled p) (beginMember env key p)
           (sep p @ key_text (esc_of p) (prettyPrint p) key)"
proof -
  let ?q = "if isFirstLine p then p\<lparr>isFirstLine := False\<rparr> else jsonNewLine env p"
  have eq: "beginMember env key p = jsonWriteKeyAndSemicolon env key ?q"
    by (simp add: beginMember_def)
  have eq': "\<not> ioErrorFlag ?q"
    using assms(1) key_error [of ?q env key] unfolding eq by metis
  have 1: "wrote (settled p) ?q (sep p)"
  proof (cases "isFirstLine p")
    case True
    with eq' show ?thesis by (simp add: settled_def sep_def wrote_refl)
  next
    case False
    with eq' jsonNewLine_wrote [of env p] show ?thesis by simp
  qed
  have "wrote ?q (beginMember env key p) (key_text (esc_of ?q) (prettyPrint ?q) key)"
    unfolding eq using assms wrote_plain(1) [OF 1] eq by (intro key_wrote) simp_all
  from wrote_trans [OF 1 this] wrote_plain(2) [OF 1] wrote_fields(6) [OF 1] show ?thesis by simp
qed

subsection \<open>The printer writes the text of a value\<close>

definition key_of :: "jsonPrinter \<Rightarrow> string option \<Rightarrow> string" where
  "key_of p key = sep p @ key_text (esc_of p) (prettyPrint p) key"

lemma add_scalar_wrote:
  assumes "\<not> ioErrorFlag (writeText env t (beginMember env key p))" "plain p"
  shows "wrote (settled p) (writeText env t (beginMember env key p)) (key_of p key @ t)"
proof -
  have 2: "wrote (beginMember env key p) (writeText env t (beginMember env key p)) t"
    using assms(1) by (rule writeText_wrote)
  from wrote_trans [OF beginMember_wrote [OF wrote_fields(8) [OF 2] assms(2)] 2]
  show ?thesis by (simp add: key_of_def)
qed

lemma add_string_wrote:
  assumes "\<not> ioErrorFlag (jsonWriteQuotedString env s (beginMember env key p))" "plain p"
  shows "wrote (settled p) (jsonWriteQuotedString env s (beginMember env key p))
           (key_of p key @ quoted (esc_of p) s)"
proof -
  let ?b = "beginMember env key p"
  have e: "\<not> ioErrorFlag ?b"
    using assms(1) by (auto simp: jsonWriteQuotedString_def jsonWrite_def write_error Let_def)
  have 1: "wrote (settled p) ?b (key_of p key)"
    using beginMember_wrote [OF e assms(2)] by (simp add: key_of_def)
  have "wrote ?b (jsonWriteQuotedString env s ?b) (quoted (esc_of ?b) s)"
    using quoted_wrote [OF assms(1)] assms(2) wrote_plain(1) [OF 1] by simp
  from wrote_trans [OF 1 this] wrote_plain(2) [OF 1] show ?thesis by simp
qed

definition opened :: "jsonPrinter \<Rightarrow> jsonPrinter" where
  "opened p = p\<lparr>isFirstLine := False, isStart := True, isEnd := False, depth := depth p + 1\<rparr>"

definition closed :: "jsonPrinter \<Rightarrow> jsonPrinter" where
  "closed p = p\<lparr>isFirstLine := False, isStart := False, isEnd := False\<rparr>"

lemma opened_fields [simp]:
  "plain (opened p) = plain p" "esc_of (opened p) = esc_of p" "prettyPrint (opened p) = prettyPrint p"
  "depth (opened p) = depth p + 1" "isFirstLine (opened p) = False" "isStart (opened p) = True"
  "isEnd (opened p) = False" "plain (closed p) = plain p" "esc_of (closed p) = esc_of p"
  "prettyPrint (closed p) = prettyPrint p" "depth (closed p) = depth p"
  "isFirstLine (closed p) = False" "isStart (closed p) = False" "isEnd (closed p) = False"
  by (simp_all add: opened_def closed_def plain_def esc_of_def fun_eq_iff)

lemma opened_wrote:
  "wrote (settled p) q t \<Longrightarrow>
     wrote (opened p) (q\<lparr>depth := depth q + 1, isStart := True, isEnd := False\<rparr>) t"
  by (cases p; cases q; simp add: wrote_def opened_def settled_def pout_def split: if_splits)

lemma start_wrote:
  assumes "plain p"
  shows "\<not> ioErrorFlag (jsonStartObject env key p) \<Longrightarrow>
      wrote (opened p) (jsonStartObject env key p) (key_of p key @ ''{'')"
    and "\<not> ioErrorFlag (jsonStartArray env key p) \<Longrightarrow>
      wrote (opened p) (jsonStartArray env key p) (key_of p key @ ''['')"
  using opened_wrote [OF add_scalar_wrote [OF _ assms]]
  by (simp_all add: jsonStartObject_def jsonStartArray_def Let_def split: if_splits)

text \<open>What the calls that end an object or an array have in common.\<close>

lemma end_wrote:
  assumes "wrote (closed (opened p)\<lparr>isStart := b\<rparr>) q t" "r = q\<lparr>depth := depth q - 1, isStart := False, isEnd := True\<rparr>"
    and "\<not> ioErrorFlag (writeText env c (jsonNewLine env r))"
  shows "wrote (closed p) (writeText env c (jsonNewLine env r)) (t @ nl (prettyPrint p) (depth p) @ c)"
proof -
  have 3: "wrote (jsonNewLine env r) (writeText env c (jsonNewLine env r)) c"
    using assms(3) by (rule writeText_wrote)
  have f: "isFirstLine r = False" using wrote_fields(5) [OF assms(1)] assms(2) by (simp add: closed_def)
  from jsonNewLine_wrote [OF wrote_fields(8) [OF 3]] f
  have 2: "wrote (settled r) (jsonNewLine env r) (sep r)" by simp
  have s: "sep r = nl (prettyPrint p) (depth p)"
    using f wrote_fields(2,6) [OF assms(1)] assms(2) by (simp add: sep_def closed_def opened_def)
  have 1: "wrote (closed p) (settled r) t"
    using assms(1) unfolding assms(2)
    by (cases p; cases q; simp add: wrote_def opened_def closed_def settled_def pout_def)
  from wrote_trans [OF 1 wrote_trans [OF 2 3]] show ?thesis by (simp add: s)
qed

definition after :: "json \<Rightarrow> jsonPrinter \<Rightarrow> jsonPrinter" where
  "after j p = (if jsonIsObject j \<or> jsonIsArray j then closed p else settled p)"

definition in_container :: "jsonPrinter \<Rightarrow> bool" where
  "in_container p \<longleftrightarrow> plain p \<and> \<not> isFirstLine p \<and> \<not> isEnd p"

lemma after_in_container: "in_container p \<Longrightarrow> after j p = p\<lparr>isStart := False\<rparr>"
  by (cases p) (simp add: after_def closed_def settled_def in_container_def)

lemma start_error:
  "\<not> ioErrorFlag (jsonStartObject env key p) \<Longrightarrow> \<not> ioErrorFlag p"
  "\<not> ioErrorFlag (jsonStartArray env key p) \<Longrightarrow> \<not> ioErrorFlag p"
  by (auto simp: jsonStartObject_def jsonStartArray_def)

lemma end_error:
  "\<not> ioErrorFlag (jsonEndObject env p) \<Longrightarrow> \<not> ioErrorFlag p"
  "\<not> ioErrorFlag (jsonEndArray env p) \<Longrightarrow> \<not> ioErrorFlag p"
  by (auto simp: jsonEndObject_def jsonEndArray_def)

lemma print_error:
  "ioErrorFlag p \<Longrightarrow> jsonPrintInternal env p key j = p"
  "ioErrorFlag p \<Longrightarrow> jsonPrintObject env p ps = p"
  "ioErrorFlag p \<Longrightarrow> jsonPrintArray env p js = p"
  by (induction env p key j and env p ps and env p js
      rule: jsonPrintInternal_jsonPrintObject_jsonPrintArray.induct)
     (simp_all add: jsonAddInt_def jsonAddInt64_def jsonAddDouble_def jsonAddString_def
       jsonAddBoolean_def jsonAddNull_def jsonStartObject_def jsonEndObject_def
       jsonStartArray_def jsonEndArray_def)

lemma print_open:
  assumes "\<not> ioErrorFlag (jsonEndObject env q)" "wrote (opened p\<lparr>isStart := b\<rparr>) q t"
  shows "wrote (closed p) (jsonEndObject env q) (t @ nl (prettyPrint p) (depth p) @ ''}'')"
proof -
  have e: "jsonEndObject env q = writeText env ''}''
      (jsonNewLine env (q\<lparr>depth := depth q - 1, isStart := False, isEnd := True\<rparr>))"
    using end_error(1) [OF assms(1)] by (simp add: jsonEndObject_def)
  have o: "wrote (closed (opened p)\<lparr>isStart := b\<rparr>) q t" using assms(2)
    by (cases p) (simp add: closed_def opened_def)
  show ?thesis unfolding e by (rule end_wrote [OF o refl]) (use assms(1) e in simp)
qed

lemma print_open_array:
  assumes "\<not> ioErrorFlag (jsonEndArray env q)" "wrote (opened p\<lparr>isStart := b\<rparr>) q t"
  shows "wrote (closed p) (jsonEndArray env q) (t @ nl (prettyPrint p) (depth p) @ '']'')"
proof -
  have e: "jsonEndArray env q = writeText env '']''
      (jsonNewLine env (q\<lparr>depth := depth q - 1, isStart := False, isEnd := True\<rparr>))"
    using end_error(2) [OF assms(1)] by (simp add: jsonEndArray_def)
  have o: "wrote (closed (opened p)\<lparr>isStart := b\<rparr>) q t" using assms(2)
    by (cases p) (simp add: closed_def opened_def)
  show ?thesis unfolding e by (rule end_wrote [OF o refl]) (use assms(1) e in simp)
qed

lemma in_container_wrote:
  "wrote (p\<lparr>isStart := b\<rparr>) q t \<Longrightarrow> in_container p \<Longrightarrow>
     in_container q \<and> isStart q = b \<and> esc_of q = esc_of p \<and> prettyPrint q = prettyPrint p \<and>
     depth q = depth p \<and> q\<lparr>isStart := b\<rparr> = q"
  by (cases p; cases q) (auto simp: wrote_def in_container_def plain_def esc_of_def fun_eq_iff)

lemma in_container_opened:
  assumes "wrote (opened p) q t" "plain p"
  shows "in_container q" "isStart q = True" "esc_of q = esc_of p" "prettyPrint q = prettyPrint p"
    "depth q = depth p + 1"
  using assms by (cases p; cases q; simp add: wrote_def opened_def in_container_def plain_def esc_of_def fun_eq_iff)+

lemma container_sep: "in_container p \<Longrightarrow>
    sep p = (if isStart p then [] else '','') @ nl (prettyPrint p) (depth p)"
  by (simp add: sep_def in_container_def)

lemma wrote_after_start:
  "wrote p q t \<Longrightarrow> wrote (q\<lparr>isStart := b\<rparr>) r u \<Longrightarrow> wrote (p\<lparr>isStart := b\<rparr>) r (t @ u)"
  by (cases p; cases q; cases r) (auto simp: wrote_def pout_def)

theorem jsonPrint_wrote:
  "plain p \<Longrightarrow> no_error j \<Longrightarrow> \<not> ioErrorFlag (jsonPrintInternal env p key j) \<Longrightarrow>
     wrote (after j p) (jsonPrintInternal env p key j)
       (key_of p key @ value_text env (esc_of p) (prettyPrint p) (depth p) j)"
  "in_container p \<Longrightarrow> list_all (no_error \<circ> snd) ps \<Longrightarrow> \<not> ioErrorFlag (jsonPrintObject env p ps) \<Longrightarrow>
     wrote (p\<lparr>isStart := isStart p \<and> ps = []\<rparr>) (jsonPrintObject env p ps)
       (members_text env (esc_of p) (prettyPrint p) (depth p) (isStart p) ps)"
  "in_container p \<Longrightarrow> list_all no_error js \<Longrightarrow> \<not> ioErrorFlag (jsonPrintArray env p js) \<Longrightarrow>
     wrote (p\<lparr>isStart := isStart p \<and> js = []\<rparr>) (jsonPrintArray env p js)
       (elements_text env (esc_of p) (prettyPrint p) (depth p) (isStart p) js)"
proof (induction env p key j and env p ps and env p js
    rule: jsonPrintInternal_jsonPrintObject_jsonPrintArray.induct)
  case (7 env p key ps)
  let ?s = "jsonStartObject env key p"
  let ?q = "jsonPrintObject env ?s ps"
  have e: "\<not> ioErrorFlag (jsonEndObject env ?q)" using 7 by simp
  have es: "\<not> ioErrorFlag ?s" using end_error(1) [OF e] print_error(2) [of ?s env ps] by metis
  have 1: "wrote (opened p) ?s (key_of p key @ ''{'')" using start_wrote(1) [OF 7(2) es] .
  note o = in_container_opened [OF 1 7(2)]
  have "list_all (no_error \<circ> snd) ps" using 7(3) by (simp add: list_all_iff)
  from 7(1) [OF o(1) this end_error(1) [OF e]] o
  have 2: "wrote (?s\<lparr>isStart := (ps = [])\<rparr>) ?q
      (members_text env (esc_of p) (prettyPrint p) (depth p + 1) True ps)" by simp
  from print_open [OF e wrote_after_start [OF 1 2]]
  show ?case by (simp add: after_def jsonIsObject_def)
next
  case (8 env p key js)
  let ?s = "jsonStartArray env key p"
  let ?q = "jsonPrintArray env ?s js"
  have e: "\<not> ioErrorFlag (jsonEndArray env ?q)" using 8 by simp
  have es: "\<not> ioErrorFlag ?s" using end_error(2) [OF e] print_error(3) [of ?s env js] by metis
  have 1: "wrote (opened p) ?s (key_of p key @ ''['')" using start_wrote(2) [OF 8(2) es] .
  note o = in_container_opened [OF 1 8(2)]
  have "list_all no_error js" using 8(3) by (simp add: list_all_iff)
  from 8(1) [OF o(1) this end_error(2) [OF e]] o
  have 2: "wrote (?s\<lparr>isStart := (js = [])\<rparr>) ?q
      (elements_text env (esc_of p) (prettyPrint p) (depth p + 1) True js)" by simp
  from print_open_array [OF e wrote_after_start [OF 1 2]]
  show ?case by (simp add: after_def jsonIsArray_def)
next
  case (10 env p)
  then have "p\<lparr>isStart := isStart p\<rparr> = p" by (cases p) simp
  with 10 show ?case by (simp add: wrote_refl)
next
  case (11 env p k v ps)
  let ?q = "jsonPrintInternal env p (Some k) v"
  have e: "\<not> ioErrorFlag ?q" using 11(5) print_error(2) [of ?q env ps] by auto
  from 11(1) [OF _ _ e] 11(3,4)
  have 1: "wrote (p\<lparr>isStart := False\<rparr>) ?q
      (key_of p (Some k) @ value_text env (esc_of p) (prettyPrint p) (depth p) v)"
    by (simp add: after_in_container in_container_def [of p])
  note c = in_container_wrote [OF 1 11(3)]
  from 11(2) 11(4,5) c
  have 2: "wrote ?q (jsonPrintObject env ?q ps)
      (members_text env (esc_of p) (prettyPrint p) (depth p) False ps)" by simp
  from wrote_trans [OF 1 2] show ?case by (simp add: key_of_def container_sep [OF 11(3)])
next
  case (12 env p)
  then have "p\<lparr>isStart := isStart p\<rparr> = p" by (cases p) simp
  with 12 show ?case by (simp add: wrote_refl)
next
  case (13 env p j js)
  let ?q = "jsonPrintInternal env p None j"
  have e: "\<not> ioErrorFlag ?q" using 13(5) print_error(3) [of ?q env js] by auto
  from 13(1) [OF _ _ e] 13(3,4)
  have 1: "wrote (p\<lparr>isStart := False\<rparr>) ?q
      (key_of p None @ value_text env (esc_of p) (prettyPrint p) (depth p) j)"
    by (simp add: after_in_container in_container_def [of p])
  note c = in_container_wrote [OF 1 13(3)]
  from 13(2) 13(4,5) c
  have 2: "wrote ?q (jsonPrintArray env ?q js)
      (elements_text env (esc_of p) (prettyPrint p) (depth p) False js)" by simp
  from wrote_trans [OF 1 2] show ?case by (simp add: key_of_def key_text_def container_sep [OF 13(3)])
qed (auto simp: after_def jsonIsObject_def jsonIsArray_def jsonAddInt_def jsonAddInt64_def
      jsonAddDouble_def jsonAddString_def jsonAddBoolean_def jsonAddNull_def jsonWriteInt_def
      jsonWriteInt64_def jsonWriteDouble_def jsonWriteBoolean_def jsonWriteNull_def
      json_type_codes simp del: if_split_asm
      intro!: add_scalar_wrote add_string_wrote split: if_splits)

subsection \<open>The properties\<close>

definition demo_env :: json_env where
  "demo_env = \<lparr>fp = \<lparr>strtod = (\<lambda>s. 0), fmt_f = (\<lambda>d. ''0.000000''), fp_to_int64 = (\<lambda>d. 0),
      int_to_fp = (\<lambda>n. 0)\<rparr>, convertCharset = (\<lambda>s ccsid n. ConvShortBuffer ''stale'')\<rparr>"

definition demo_printer :: jsonPrinter where
  "demo_printer = jsonEnablePrettyPrint (makeBufferNativeJsonPrinter CCSID_UTF_8 (makeJsonBuffer 65536))"

definition demo_value :: json where
  "demo_value = JObject [(''a'', JNumber (-5)), (''b'', JArray [JString [CHR 0x22], JNull, JObject []])]"

text \<open>
  C19. The text of \<open>jsonPrint\<close>. A printer at its first line, whose strings need no conversion,
  appends to its output exactly the text of the value: the separators, line breaks and
  indentation that the flags \<open>isStart\<close>, \<open>isEnd\<close> and \<open>isFirstLine\<close> of the printer produce are
  those of the recursive specification \<open>value_text\<close>, at every depth, and the escapes are those
  of the mode of the printer; the depth is back at its value and the error flag is off. The
  hypothesis excludes failing writes only.
\<close>

theorem jsonPrint_text:
  assumes "plain p" "isFirstLine p" "no_error j" "\<not> ioErrorFlag (jsonPrint env p j)"
  shows "pout (jsonPrint env p j) =
      pout p @ value_text env (esc_of p) (prettyPrint p) (depth p) j \<and>
    depth (jsonPrint env p j) = depth p"
proof -
  from jsonPrint_wrote(1) [of p j env None] assms
  have w: "wrote (after j p) (jsonPrint env p j)
      (key_of p None @ value_text env (esc_of p) (prettyPrint p) (depth p) j)"
    by (simp add: jsonPrint_def)
  have k: "key_of p None = []" using assms(2) by (simp add: key_of_def sep_def key_text_def)
  have a: "pout (after j p) = pout p" "depth (after j p) = depth p"
    by (simp_all add: after_def closed_def)
  from w a k wrote_fields(2) [OF w] show ?thesis by (simp add: wrote_def)
qed

lemma demo_print_ok: "\<not> ioErrorFlag (jsonPrint demo_env demo_printer demo_value)"
  by code_simp

theorem jsonPrint_text_witness:
  "pout (jsonPrint demo_env demo_printer demo_value) =
     value_text demo_env jsonEscapeNative True 0 demo_value"
proof -
  have p: "plain demo_printer" "isFirstLine demo_printer" "no_error demo_value"
    "pout demo_printer = []" "prettyPrint demo_printer" "depth demo_printer = 0"
    "mode demo_printer = NativeCharset"
    by code_simp+
  from jsonPrint_text [OF p(1-3) demo_print_ok] show ?thesis
    using p(4-7) by (simp add: esc_of_def)
qed





text \<open>
  C21. A text that fills a buffer to its last byte is written without growing the buffer, and
  \<open>jsonBufferTerminateString\<close> then stores its zero byte behind the end of the buffer
  (\<open>None\<close>): it does not grow the buffer first.
\<close>

theorem full_buffer_terminated_outside:
  assumes "sink p = ToBuffer buf" "int (length (bdata buf)) + int (length text) = bsize buf"
  shows "\<exists>buf'. sink (writeToBuffer p buf text) = ToBuffer buf' \<and> bsize buf' = bsize buf \<and>
     bdata buf' = bdata buf @ text \<and> jsonBufferTerminateString buf' = None"
proof -
  have "growBuffer (balloc buf) (bsize buf) (int (length (bdata buf))) (int (length text)) = Some (bsize buf)"
    using assms(2) by (subst growBuffer.simps) simp
  with assms show ?thesis by (simp add: writeToBuffer_def jsonBufferTerminateString_def)
qed

theorem full_buffer_terminated_outside_witness:
  "\<exists>buf'. sink (writeToBuffer demo_printer (makeJsonBuffer 65536) (replicate 1024 CHR ''x'')) = ToBuffer buf' \<and>
     jsonBufferTerminateString buf' = None"
proof -
  have s: "sink demo_printer = ToBuffer (makeJsonBuffer 65536)" by code_simp
  from full_buffer_terminated_outside [OF s, of "replicate 1024 CHR ''x''"] show ?thesis
    by (auto simp: makeJsonBuffer_def JSON_BUF_DEFAULT_SIZE_def)
qed




text \<open>
  C23. \<open>jsonAddLimitedString\<close> is meant to drop the padding of a value of fixed length. It drops
  every trailing character whose \<open>char\<close> is below the blank, and \<open>char\<close> is signed: a tail of
  UTF-8 bytes of non-ASCII characters goes with the padding.
\<close>

theorem limitedValue_drops_non_ascii_tail:
  assumes "list_all (\<lambda>c. 128 \<le> (of_char c :: nat) \<or> (of_char c :: nat) < 32) t"
  shows "limitedValue (v @ t) = limitedValue v \<and>
    jsonAddLimitedString env key (v @ t) p = jsonAddLimitedString env key v p"
proof -
  have "char_code c < 32" if "128 \<le> (of_char c :: nat) \<or> (of_char c :: nat) < 32" for c
    using that nat_of_char_less_256 [of c] unfolding char_code_nat
    by (cases "(of_char c :: nat) < 128"; simp only: if_True if_False; linarith)
  with assms have "list_all (\<lambda>c. char_code c < 32) t" by (simp add: list_all_iff)
  then have "dropWhile (\<lambda>c. char_code c < 32) (rev t) = []" by (simp add: list_all_iff)
  then have "limitedValue (v @ t) = limitedValue v"
    by (simp add: limitedValue_def dropWhile_append)
  then show ?thesis by (simp add: jsonAddLimitedString_def)
qed

theorem limitedValue_drops_non_ascii_tail_witness:
  "limitedValue (''caf'' @ [CHR 0xC3, CHR 0xA9]) = ''caf''"
proof -
  have "limitedValue ''caf'' = ''caf''" by code_simp
  with limitedValue_drops_non_ascii_tail [of "[CHR 0xC3, CHR 0xA9]" "''caf''"] show ?thesis
    by simp
qed

end
