(* ===== verification/JsonTokenizer.thy ===== *)
theory JsonTokenizer
  imports JsonPrinter
begin

section \<open>The JSON tokenizer\<close>

text \<open>
  \<open>CharStream\<close> of \<open>c/utils.c\<close> and \<open>JsonTokenizer\<close> of \<open>c/json.c\<close>. A stream is what its read
  method has still to deliver: for a buffer the signed \<open>char\<close>s from \<open>byteCount\<close> to \<open>size\<close>, for a
  file the values of \<open>fileGetChar\<close>. The tokenizer holds one character back in
  \<open>unreadChar\<close>, where 0 means none: a zero byte of the input is dropped by the lookahead that
  meets it. Tokens are allocated on the \<open>ShortLivedHeap\<close> of the parse, which is taken to have
  room; the token buffer grows while the storage gives blocks (\<open>tokenAlloc\<close> is the largest).
\<close>

record charStream =
  isFile :: bool
  ahead :: "int list"
  byteCount :: int

definition readBufferCharacter :: "charStream \<Rightarrow> int \<times> charStream" where
  "readBufferCharacter s =
     (case ahead s of
        [] \<Rightarrow> (EOF, s)
      | c # cs \<Rightarrow> (c, s\<lparr>ahead := cs, byteCount := byteCount s + 1\<rparr>))"

definition getBufferPosition :: "charStream \<Rightarrow> int" where
  "getBufferPosition s = byteCount s"

definition eofBuffer :: "charStream \<Rightarrow> bool" where
  "eofBuffer s \<longleftrightarrow> ahead s = []"

definition makeBufferCharStream :: "string \<Rightarrow> charStream" where
  "makeBufferCharStream buffer = \<lparr>isFile = False, ahead = map char_code buffer, byteCount = 0\<rparr>"

definition charStreamPosition :: "charStream \<Rightarrow> int" where
  "charStreamPosition s = (if isFile s then -1 else getBufferPosition s)"

definition readFileCharacterMethod :: "charStream \<Rightarrow> int \<times> charStream" where
  "readFileCharacterMethod s =
     (case ahead s of [] \<Rightarrow> (EOF, s) | c # cs \<Rightarrow> (c, s\<lparr>ahead := cs\<rparr>))"

definition makeFileCharStream :: "int list \<Rightarrow> charStream" where
  "makeFileCharStream file = \<lparr>isFile = True, ahead = file, byteCount = 0\<rparr>"

definition charStreamGet :: "charStream \<Rightarrow> int \<times> charStream" where
  "charStreamGet s = (if isFile s then readFileCharacterMethod s else readBufferCharacter s)"

subsection \<open>The tokenizer's characters\<close>

definition JSON_TOKEN_BUFFER_SIZE :: nat where
  "JSON_TOKEN_BUFFER_SIZE = 16384"

definition JSON_TOKEN_BUFFER_SIZE_LIMIT :: nat where
  "JSON_TOKEN_BUFFER_SIZE_LIMIT = 104857600"

record jsonTokenizer =
  in_stream :: charStream
  unreadChar :: int
  lineNumber :: int
  columnNumber :: int
  lastTokenLineNumber :: int
  lastTokenColumnNumber :: int
  bufferSize :: nat
  tokenAlloc :: nat

definition makeJsonTokenizer :: "charStream \<Rightarrow> nat \<Rightarrow> jsonTokenizer" where
  "makeJsonTokenizer s alloc =
     \<lparr>in_stream = s, unreadChar = 0, lineNumber = 1, columnNumber = 0, lastTokenLineNumber = 0,
      lastTokenColumnNumber = 0, bufferSize = JSON_TOKEN_BUFFER_SIZE, tokenAlloc = alloc\<rparr>"

definition jsonTokenizerGrowBuffer :: "jsonTokenizer \<Rightarrow> jsonTokenizer option" where
  "jsonTokenizerGrowBuffer t =
     (if INT32_MAX div 2 \<le> int (bufferSize t) then None
      else let newSize = 2 * bufferSize t in
        if JSON_TOKEN_BUFFER_SIZE_LIMIT \<le> newSize then None
        else if tokenAlloc t < newSize then None
        else Some (t\<lparr>bufferSize := newSize\<rparr>))"

definition jsonTokenizerRead :: "jsonTokenizer \<Rightarrow> int \<times> jsonTokenizer" where
  "jsonTokenizerRead t =
     (if unreadChar t \<noteq> 0 then (unreadChar t, t\<lparr>unreadChar := 0\<rparr>)
      else case charStreamGet (in_stream t) of
        (c, s) \<Rightarrow>
          (c, if c = 10 then t\<lparr>in_stream := s, lineNumber := lineNumber t + 1, columnNumber := 0\<rparr>
              else t\<lparr>in_stream := s, columnNumber := columnNumber t + 1\<rparr>))"

definition jsonTokenizerLookahead :: "jsonTokenizer \<Rightarrow> int \<times> jsonTokenizer" where
  "jsonTokenizerLookahead t =
     (if unreadChar t \<noteq> 0 then (unreadChar t, t)
      else case jsonTokenizerRead t of (c, t1) \<Rightarrow> (c, t1\<lparr>unreadChar := c\<rparr>))"

text \<open>What is left to read; \<open>EOF\<close> in \<open>unreadChar\<close> does not count.\<close>

definition left :: "jsonTokenizer \<Rightarrow> nat" where
  "left t = length (ahead (in_stream t)) + (if unreadChar t \<noteq> 0 \<and> unreadChar t \<noteq> EOF then 1 else 0)"

lemma charStreamGet_cases:
  "charStreamGet s = (c, s') \<Longrightarrow>
     (ahead s = [] \<and> c = EOF \<and> s' = s) \<or> ahead s = c # ahead s'"
  by (auto simp: charStreamGet_def readBufferCharacter_def readFileCharacterMethod_def
      split: if_splits list.splits)

lemma read_left:
  assumes "jsonTokenizerRead t = (c, t')"
  shows "left t' \<le> left t" "c \<noteq> EOF \<Longrightarrow> left t' < left t" "unreadChar t' = 0"
    "bufferSize t' = bufferSize t" "tokenAlloc t' = tokenAlloc t"
proof -
  obtain d s where g: "charStreamGet (in_stream t) = (d, s)" by fastforce
  from charStreamGet_cases [OF g] assms g
  show "left t' \<le> left t" "c \<noteq> EOF \<Longrightarrow> left t' < left t" "unreadChar t' = 0"
    "bufferSize t' = bufferSize t" "tokenAlloc t' = tokenAlloc t"
    by (auto simp: jsonTokenizerRead_def left_def split: if_splits)
qed

lemma lookahead_left:
  assumes "jsonTokenizerLookahead t = (c, t')"
  shows "left t' \<le> left t" "c = 0 \<Longrightarrow> left t' < left t" "unreadChar t' = c"
    "bufferSize t' = bufferSize t" "tokenAlloc t' = tokenAlloc t"
proof -
  obtain d t1 where r: "jsonTokenizerRead t = (d, t1)" by fastforce
  from read_left [OF r] assms r
  show "left t' \<le> left t" "c = 0 \<Longrightarrow> left t' < left t" "unreadChar t' = c"
    "bufferSize t' = bufferSize t" "tokenAlloc t' = tokenAlloc t"
    by (auto simp: jsonTokenizerLookahead_def left_def EOF_def split: if_splits)
qed

lemma lookahead_read_left:
  assumes "jsonTokenizerLookahead t = (c, t1)" "c \<noteq> EOF" "jsonTokenizerRead t1 = (d, t2)"
  shows "left t2 < left t"
proof (cases "c = 0")
  case True
  then show ?thesis using lookahead_left(1,2) [OF assms(1)] read_left(1) [OF assms(3)] by simp
next
  case False
  then have "d = c" using lookahead_left(3) [OF assms(1)] assms(3)
    by (auto simp: jsonTokenizerRead_def)
  then show ?thesis using lookahead_left(1) [OF assms(1)] read_left(2) [OF assms(3)] assms(2) by simp
qed

text \<open>The conversion of an \<open>int\<close> to \<open>char\<close> and back.\<close>

definition as_char :: "int \<Rightarrow> int" where
  "as_char c = char_code (code_char c)"

lemma as_char_EOF: "as_char EOF = EOF"
  by (simp add: as_char_def EOF_def char_code_code)

function jsonTokenizerSkipWhitespace :: "jsonTokenizer \<Rightarrow> jsonTokenizer" where
  "jsonTokenizerSkipWhitespace t =
     (case jsonTokenizerLookahead t of
        (c, t1) \<Rightarrow>
          if isspace (as_char c) then jsonTokenizerSkipWhitespace (snd (jsonTokenizerRead t1))
          else t1)"
  by pat_completeness auto
termination
proof (relation "measure left")
  fix t c t1 assume "(c, t1) = jsonTokenizerLookahead t" "isspace (as_char c)"
  moreover from this have "c \<noteq> EOF" using as_char_EOF by (auto simp: isspace_def EOF_def)
  ultimately show "(snd (jsonTokenizerRead t1), t) \<in> measure left"
    using lookahead_read_left [of t c t1] by (cases "jsonTokenizerRead t1") simp
qed simp

declare jsonTokenizerSkipWhitespace.simps [simp del]

lemma skip_left: "left (jsonTokenizerSkipWhitespace t) \<le> left t"
proof (induction t rule: jsonTokenizerSkipWhitespace.induct)
  case (1 t)
  obtain c t1 where l: "jsonTokenizerLookahead t = (c, t1)" by fastforce
  have "left (snd (jsonTokenizerRead t1)) \<le> left t1"
    by (cases "jsonTokenizerRead t1") (simp add: read_left)
  with 1 [OF l [symmetric]] lookahead_left(1) [OF l] l show ?case
    by (subst jsonTokenizerSkipWhitespace.simps) (auto intro: order_trans)
qed

subsection \<open>Tokens\<close>

datatype tokenType =
    TOKEN_NUMBER | TOKEN_STRING | TOKEN_BOOLEAN | TOKEN_COLON | TOKEN_COMMA | TOKEN_NULL
  | TOKEN_OBJECT_START | TOKEN_OBJECT_END | TOKEN_ARRAY_START | TOKEN_ARRAY_END | TOKEN_EOF
  | TOKEN_BAD_RESERVED_WORD | TOKEN_UNTERMINATED_STRING | TOKEN_BAD_NUMBER
  | TOKEN_LINE_COMMENT | TOKEN_BLOCK_COMMENT | TOKEN_UNTERMINATED_BLOCK_COMMENT
  | TOKEN_BAD_COMMENT | TOKEN_UNEXPECTED_CHAR | TOKEN_STRING_TOO_LONG | TOKEN_INT64
  | TOKEN_FLOAT | TOKEN_UNMATCHED

record jsonToken =
  ttype :: tokenType
  ttext :: string

definition getTokenTypeString :: "tokenType \<Rightarrow> string" where
  "getTokenTypeString ty =
     (case ty of
        TOKEN_NUMBER \<Rightarrow> ''number'' | TOKEN_STRING \<Rightarrow> ''string'' | TOKEN_BOOLEAN \<Rightarrow> ''boolean''
      | TOKEN_COLON \<Rightarrow> '':'' | TOKEN_COMMA \<Rightarrow> '','' | TOKEN_NULL \<Rightarrow> ''null''
      | TOKEN_OBJECT_START \<Rightarrow> ''{'' | TOKEN_OBJECT_END \<Rightarrow> ''}'' | TOKEN_ARRAY_START \<Rightarrow> ''[''
      | TOKEN_ARRAY_END \<Rightarrow> '']'' | TOKEN_EOF \<Rightarrow> ''end of file''
      | TOKEN_BAD_RESERVED_WORD \<Rightarrow> ''bad reserved word''
      | TOKEN_UNTERMINATED_STRING \<Rightarrow> ''unterminated string'' | TOKEN_BAD_NUMBER \<Rightarrow> ''bad number''
      | TOKEN_UNEXPECTED_CHAR \<Rightarrow> ''unexpected character'' | TOKEN_UNMATCHED \<Rightarrow> ''unmatched token''
      | TOKEN_STRING_TOO_LONG \<Rightarrow> ''string too long'' | TOKEN_FLOAT \<Rightarrow> ''float''
      | _ \<Rightarrow> ''unknown token'')"

text \<open>The text of a token is a C string: it ends at the first zero byte.\<close>

definition makeJsonToken :: "tokenType \<Rightarrow> string \<Rightarrow> jsonToken" where
  "makeJsonToken ty text = \<lparr>ttype = ty, ttext = cstr text\<rparr>"

definition addTokenChar :: "jsonTokenizer \<Rightarrow> string \<Rightarrow> int \<Rightarrow> string" where
  "addTokenChar t buf c = (if length buf < bufferSize t then buf @ [code_char c] else buf)"

subsection \<open>Strings\<close>

definition unescape :: "int \<Rightarrow> char" where
  "unescape c =
     (if c = 98 then CHR 0x08
      else if c = 110 then CHR 0x0A
      else if c = 102 then CHR 0x0C
      else if c = 114 then CHR 0x0D
      else if c = 116 then CHR 0x09
      else code_char c)"

definition stringRoom :: "jsonTokenizer \<Rightarrow> nat \<Rightarrow> jsonTokenizer option" where
  "stringRoom t pos = (if bufferSize t \<le> pos then jsonTokenizerGrowBuffer t else Some t)"

lemma stringRoom_left: "stringRoom t pos = Some t' \<Longrightarrow> left t' = left t"
  by (auto simp: stringRoom_def jsonTokenizerGrowBuffer_def left_def Let_def split: if_splits)

function getStringLoop :: "jsonTokenizer \<Rightarrow> string \<Rightarrow> tokenType \<times> string \<times> jsonTokenizer" where
  "getStringLoop t buf =
     (case jsonTokenizerLookahead t of
        (lookahead, t1) \<Rightarrow>
          if lookahead = EOF \<or> lookahead = 10 then (TOKEN_UNTERMINATED_STRING, buf, t1)
          else case jsonTokenizerRead t1 of
            (c, t2) \<Rightarrow>
              if lookahead = 34 then (TOKEN_STRING, buf, t2)
              else if lookahead = 92 then
                (case jsonTokenizerRead t2 of
                   (c2, t3) \<Rightarrow>
                     (case stringRoom t3 (length buf) of
                        None \<Rightarrow> (TOKEN_STRING_TOO_LONG, buf, t3)
                      | Some t4 \<Rightarrow> getStringLoop t4 (buf @ [unescape c2])))
              else if isprint c then
                (case stringRoom t2 (length buf) of
                   None \<Rightarrow> (TOKEN_STRING_TOO_LONG, buf, t2)
                 | Some t3 \<Rightarrow> getStringLoop t3 (buf @ [code_char c]))
              else getStringLoop t2 buf)"
  by pat_completeness auto
termination
proof (relation "measure (\<lambda>(t, buf). left t)", goal_cases)
  case 1
  then show ?case by simp
next
  case (2 t buf la t1 c t2 c2 t3 t4)
  then have "left t2 < left t" "left t3 \<le> left t2" "left t4 = left t3"
    using lookahead_read_left [of t la t1 c t2] read_left(1) [of t2 c2 t3] stringRoom_left by auto
  then show ?case by simp
next
  case (3 t buf la t1 c t2 t3)
  then have "left t2 < left t" "left t3 = left t2"
    using lookahead_read_left [of t la t1 c t2] stringRoom_left by auto
  then show ?case by simp
next
  case (4 t buf la t1 c t2)
  then show ?case using lookahead_read_left [of t la t1 c t2] by simp
qed

declare getStringLoop.simps [simp del]

definition getStringToken :: "jsonTokenizer \<Rightarrow> jsonToken \<times> jsonTokenizer" where
  "getStringToken t =
     (case jsonTokenizerRead t of
        (quote, t1) \<Rightarrow>
          case getStringLoop t1 [] of (ty, text, t2) \<Rightarrow> (makeJsonToken ty text, t2))"

subsection \<open>Numbers, words and comments\<close>

text \<open>The loops that copy characters of a class into the buffer as far as it reaches.\<close>

function copyWhile :: "(int \<Rightarrow> bool) \<Rightarrow> jsonTokenizer \<Rightarrow> string \<Rightarrow> string \<times> jsonTokenizer" where
  "copyWhile ok t buf =
     (case jsonTokenizerLookahead t of
        (lookahead, t1) \<Rightarrow>
          if lookahead \<noteq> EOF \<and> ok lookahead then
            (case jsonTokenizerRead t1 of
               (c, t2) \<Rightarrow> copyWhile ok t2 (addTokenChar t2 buf c))
          else (buf, t1))"
  by pat_completeness auto
termination
proof (relation "measure (\<lambda>(ok, t, buf). left t)", goal_cases)
  case 1
  then show ?case by simp
next
  case (2 ok t buf la t1 c t2)
  then show ?case using lookahead_read_left [of t la t1 c t2] by simp
qed

declare copyWhile.simps [simp del]

definition copyDigits :: "jsonTokenizer \<Rightarrow> string \<Rightarrow> string \<times> jsonTokenizer" where
  "copyDigits t buf = copyWhile isdigit t buf"

definition numberSign :: "jsonTokenizer \<Rightarrow> string \<times> jsonTokenizer" where
  "numberSign t =
     (case jsonTokenizerLookahead t of
        (lookahead, t1) \<Rightarrow>
          if lookahead = 45
          then (case jsonTokenizerRead t1 of (c, t2) \<Rightarrow> ([code_char c], t2)) else ([], t1))"

definition getNumberTokenV1 :: "jsonTokenizer \<Rightarrow> jsonToken \<times> jsonTokenizer" where
  "getNumberTokenV1 t =
     (case numberSign t of
        (buf, t1) \<Rightarrow>
          case jsonTokenizerLookahead t1 of
            (lookahead, t2) \<Rightarrow>
              case jsonTokenizerRead t2 of
                (c, t3) \<Rightarrow>
                  if isdigit lookahead then
                    (case copyDigits t3 (buf @ [code_char c]) of
                       (text, t4) \<Rightarrow> (makeJsonToken TOKEN_NUMBER text, t4))
                  else (makeJsonToken TOKEN_BAD_NUMBER (addTokenChar t3 buf c), t3))"

definition numberFraction :: "jsonTokenizer \<Rightarrow> string \<Rightarrow> jsonToken \<times> jsonTokenizer" where
  "numberFraction t buf =
     (case jsonTokenizerRead t of
        (dot, t1) \<Rightarrow>
          let buf1 = addTokenChar t1 buf dot in
          case jsonTokenizerLookahead t1 of
            (lookahead, t2) \<Rightarrow>
              if isdigit lookahead then
                (case jsonTokenizerRead t2 of
                   (c, t3) \<Rightarrow>
                     case copyDigits t3 (addTokenChar t3 buf1 c) of
                       (text, t4) \<Rightarrow> (makeJsonToken TOKEN_FLOAT text, t4))
              else (makeJsonToken TOKEN_BAD_NUMBER buf1, t2))"

definition getNumberTokenV2 :: "jsonTokenizer \<Rightarrow> jsonToken \<times> jsonTokenizer" where
  "getNumberTokenV2 t =
     (case numberSign t of
        (buf, t1) \<Rightarrow>
          case jsonTokenizerLookahead t1 of
            (lookahead, t2) \<Rightarrow>
              case jsonTokenizerRead t2 of
                (c, t3) \<Rightarrow>
                  if isdigit lookahead then
                    (case copyDigits t3 (buf @ [code_char c]) of
                       (text, t4) \<Rightarrow>
                         case jsonTokenizerLookahead t4 of
                           (lookahead1, t5) \<Rightarrow>
                             if lookahead1 = 46 then numberFraction t5 text
                             else (makeJsonToken TOKEN_INT64 text, t5))
                  else (makeJsonToken TOKEN_BAD_NUMBER (addTokenChar t3 buf c), t3))"

definition getReservedWordToken :: "jsonTokenizer \<Rightarrow> jsonToken \<times> jsonTokenizer" where
  "getReservedWordToken t =
     (case copyWhile isalpha t [] of
        (buf, t1) \<Rightarrow>
          let text = cstr buf in
          (makeJsonToken
             (if text = ''false'' \<or> text = ''true'' then TOKEN_BOOLEAN
              else if text = ''null'' then TOKEN_NULL
              else TOKEN_BAD_RESERVED_WORD) text, t1))"

definition getLineCommentToken :: "jsonTokenizer \<Rightarrow> jsonToken \<times> jsonTokenizer" where
  "getLineCommentToken t =
     (case jsonTokenizerRead t of
        (slash, t1) \<Rightarrow>
          case copyWhile (\<lambda>c. c \<noteq> 10) t1 [] of
            (text, t2) \<Rightarrow> (makeJsonToken TOKEN_LINE_COMMENT text, t2))"

function getBlockCommentLoop :: "int \<Rightarrow> jsonTokenizer \<Rightarrow> string \<Rightarrow> tokenType \<times> string \<times> jsonTokenizer" where
  "getBlockCommentLoop c t buf =
     (if c = EOF then (TOKEN_UNTERMINATED_BLOCK_COMMENT, buf, t)
      else
        let (lookahead, t1) = (if c = 42 then jsonTokenizerLookahead t else (0, t)) in
        if lookahead = 47 then (TOKEN_BLOCK_COMMENT, buf, snd (jsonTokenizerRead t1))
        else case jsonTokenizerRead t1 of
          (c', t2) \<Rightarrow> getBlockCommentLoop c' t2 (addTokenChar t2 buf c))"
  by pat_completeness auto
termination
proof (relation "measure (\<lambda>(c, t, buf). left t + (if c = EOF then 0 else 1))", goal_cases)
  case 1
  then show ?case by simp
next
  case (2 c t buf x la t1 c' t2)
  then have "left t1 \<le> left t"
    using lookahead_left(1) [of t la t1] by (auto split: if_splits)
  moreover have "left t2 \<le> left t1" "c' \<noteq> EOF \<Longrightarrow> left t2 < left t1"
    using 2 read_left(1,2) [of t1 c' t2] by auto
  ultimately show ?case using 2 by auto
qed

declare getBlockCommentLoop.simps [simp del]

definition getBlockCommentToken :: "jsonTokenizer \<Rightarrow> jsonToken \<times> jsonTokenizer" where
  "getBlockCommentToken t =
     (case jsonTokenizerRead t of
        (star, t1) \<Rightarrow>
          case jsonTokenizerRead t1 of
            (c, t2) \<Rightarrow>
              case getBlockCommentLoop c t2 [] of (ty, text, t3) \<Rightarrow> (makeJsonToken ty text, t3))"

definition getCommentToken :: "jsonTokenizer \<Rightarrow> jsonToken \<times> jsonTokenizer" where
  "getCommentToken t =
     (case jsonTokenizerRead t of
        (slash, t1) \<Rightarrow>
          case jsonTokenizerLookahead t1 of
            (lookahead, t2) \<Rightarrow>
              if lookahead = 47 then getLineCommentToken t2
              else if lookahead = 42 then getBlockCommentToken t2
              else case jsonTokenizerRead t2 of
                (c, t3) \<Rightarrow>
                  (makeJsonToken TOKEN_BAD_COMMENT
                     ([code_char slash] @ (if isprint c \<and> 1 < bufferSize t3 then [code_char c] else [])),
                   t3))"

subsection \<open>Every token reads on\<close>

lemma copyWhile_left: "left (snd (copyWhile ok t buf)) \<le> left t"
proof (induction ok t buf rule: copyWhile.induct)
  case (1 ok t buf)
  obtain la t1 where l: "jsonTokenizerLookahead t = (la, t1)" by fastforce
  obtain c t2 where r: "jsonTokenizerRead t1 = (c, t2)" by fastforce
  show ?case
  proof (cases "la \<noteq> EOF \<and> ok la")
    case True
    from 1 [OF l [symmetric] True r [symmetric]] read_left(1) [OF r] lookahead_left(1) [OF l] l r True
    show ?thesis by (subst copyWhile.simps) simp
  next
    case False
    with lookahead_left(1) [OF l] l show ?thesis by (subst copyWhile.simps) auto
  qed
qed

lemma copyWhile_leftD: "copyWhile ok t buf = (text, t') \<Longrightarrow> left t' \<le> left t"
  using copyWhile_left [of ok t buf] by simp

lemma getStringLoop_left: "getStringLoop t buf = (ty, text, t') \<Longrightarrow> left t' \<le> left t"
proof (induction t buf rule: getStringLoop.induct)
  case (1 t buf)
  obtain la t1 where l: "jsonTokenizerLookahead t = (la, t1)" by fastforce
  obtain c t2 where r: "jsonTokenizerRead t1 = (c, t2)" by fastforce
  obtain c2 t3 where r3: "jsonTokenizerRead t2 = (c2, t3)" by fastforce
  have m: "left t1 \<le> left t" "left t2 \<le> left t1" "left t3 \<le> left t2"
    using lookahead_left(1) [OF l] read_left(1) [OF r] read_left(1) [OF r3] by auto
  show ?case
  proof (cases "la = EOF \<or> la = 10 \<or> la = 34")
    case True
    with "1.prems" l r m show ?thesis by (subst (asm) getStringLoop.simps) (auto split: if_splits)
  next
    case False
    then have f: "\<not> (la = EOF \<or> la = 10)" "la \<noteq> 34" by auto
    show ?thesis
    proof (cases "la = 92")
      case True
      show ?thesis
      proof (cases "stringRoom t3 (length buf)")
        case None
        with "1.prems" l r r3 m f True show ?thesis by (subst (asm) getStringLoop.simps) simp
      next
        case (Some t4)
        with "1.prems" l r r3 f True have "getStringLoop t4 (buf @ [unescape c2]) = (ty, text, t')"
          by (subst (asm) getStringLoop.simps) simp
        from "1.IH"(1) [OF l [symmetric] f(1) r [symmetric] f(2) True r3 [symmetric] Some this]
          stringRoom_left [OF Some] m show ?thesis by simp
      qed
    next
      case n92: False
      show ?thesis
      proof (cases "isprint c")
        case True
        show ?thesis
        proof (cases "stringRoom t2 (length buf)")
          case None
          with "1.prems" l r m f n92 True show ?thesis by (subst (asm) getStringLoop.simps) simp
        next
          case (Some t4)
          with "1.prems" l r f n92 True have "getStringLoop t4 (buf @ [code_char c]) = (ty, text, t')"
            by (subst (asm) getStringLoop.simps) simp
          from "1.IH"(2) [OF l [symmetric] f(1) r [symmetric] f(2) n92 True Some this]
            stringRoom_left [OF Some] m show ?thesis by simp
        qed
      next
        case False
        with "1.prems" l r f n92 have "getStringLoop t2 buf = (ty, text, t')"
          by (subst (asm) getStringLoop.simps) simp
        from "1.IH"(3) [OF l [symmetric] f(1) r [symmetric] f(2) n92 False this] m
        show ?thesis by simp
      qed
    qed
  qed
qed

lemma getBlockCommentLoop_left: "getBlockCommentLoop c t buf = (ty, text, t') \<Longrightarrow> left t' \<le> left t"
proof (induction c t buf rule: getBlockCommentLoop.induct)
  case (1 c t buf)
  obtain la t1 where l: "(if c = 42 then jsonTokenizerLookahead t else (0, t)) = (la, t1)" by fastforce
  obtain c' t2 where r: "jsonTokenizerRead t1 = (c', t2)" by fastforce
  have m: "left t1 \<le> left t" "left t2 \<le> left t1"
    using l lookahead_left(1) [of t la t1] read_left(1) [OF r] by (auto split: if_splits)
  show ?case
  proof (cases "c = EOF \<or> la = 47")
    case True
    with "1.prems" l r m show ?thesis
      by (subst (asm) getBlockCommentLoop.simps) (auto simp: Let_def split: if_splits)
  next
    case False
    with "1.prems" l r have "getBlockCommentLoop c' t2 (addTokenChar t2 buf c) = (ty, text, t')"
      by (subst (asm) getBlockCommentLoop.simps) (simp add: Let_def)
    with "1.IH" [OF _ l [symmetric] refl _ r [symmetric]] False m show ?thesis by simp
  qed
qed

text \<open>A tokenizer whose lookahead has met a character.\<close>

definition ready :: "jsonTokenizer \<Rightarrow> bool" where
  "ready t \<longleftrightarrow> unreadChar t \<noteq> 0 \<and> unreadChar t \<noteq> EOF"

lemma ready_lookahead: "ready t \<Longrightarrow> jsonTokenizerLookahead t = (unreadChar t, t)"
  by (simp add: ready_def jsonTokenizerLookahead_def)

lemma ready_read: "ready t \<Longrightarrow> jsonTokenizerRead t = (c, t') \<Longrightarrow> left t' < left t"
  using read_left(2) [of t c t'] by (auto simp: ready_def jsonTokenizerRead_def)

lemma ready_read_le: "ready t \<Longrightarrow> jsonTokenizerRead t = (c, t') \<Longrightarrow> left t'' \<le> left t' \<Longrightarrow> left t'' < left t"
  using ready_read by fastforce

lemma getStringToken_left: "ready t \<Longrightarrow> getStringToken t = (k, t') \<Longrightarrow> left t' < left t"
  by (cases "jsonTokenizerRead t"; cases "getStringLoop (snd (jsonTokenizerRead t)) []")
     (auto simp: getStringToken_def intro: ready_read_le getStringLoop_left)

lemma numberSign_left: "ready t \<Longrightarrow> numberSign t = (buf, t1) \<Longrightarrow>
    left t1 < left t \<or> (t1 = t \<and> buf = [])"
  by (cases "jsonTokenizerRead t")
     (auto simp: numberSign_def ready_lookahead split: if_splits intro: ready_read)

text \<open>The first digit, or what stands in its place, is read even when there is no sign.\<close>

lemma number_left:
  assumes "ready t" "numberSign t = (buf, t1)" "jsonTokenizerLookahead t1 = (la, t2)"
    "jsonTokenizerRead t2 = (c, t3)"
  shows "left t3 < left t"
  using numberSign_left [OF assms(1,2)]
proof
  assume "left t1 < left t"
  then show ?thesis using lookahead_left(1) [OF assms(3)] read_left(1) [OF assms(4)] by simp
next
  assume "t1 = t \<and> buf = []"
  then show ?thesis using assms(1,3,4) ready_lookahead [of t] ready_read [of t] by simp
qed

lemma getNumberTokenV1_left:
  assumes "ready t" "getNumberTokenV1 t = (k, t')" shows "left t' < left t"
proof -
  obtain buf t1 where a: "numberSign t = (buf, t1)" by fastforce
  obtain la t2 where b: "jsonTokenizerLookahead t1 = (la, t2)" by fastforce
  obtain c t3 where c: "jsonTokenizerRead t2 = (c, t3)" by fastforce
  from number_left [OF assms(1) a b c] have "left t3 < left t" .
  then show ?thesis using assms(2) a b c
    by (auto simp: getNumberTokenV1_def copyDigits_def split: if_splits prod.splits
        dest!: copyWhile_leftD)
qed

lemma numberFraction_left: "numberFraction t buf = (k, t') \<Longrightarrow> left t' \<le> left t"
proof -
  assume n: "numberFraction t buf = (k, t')"
  obtain d t1 where a: "jsonTokenizerRead t = (d, t1)" by fastforce
  obtain la t2 where b: "jsonTokenizerLookahead t1 = (la, t2)" by fastforce
  obtain c t3 where c: "jsonTokenizerRead t2 = (c, t3)" by fastforce
  from read_left(1) [OF a] lookahead_left(1) [OF b] read_left(1) [OF c] n a b c show ?thesis
    by (auto simp: numberFraction_def copyDigits_def Let_def split: if_splits prod.splits
        dest!: copyWhile_leftD)
qed

lemma getNumberTokenV2_left:
  assumes "ready t" "getNumberTokenV2 t = (k, t')" shows "left t' < left t"
proof -
  obtain buf t1 where a: "numberSign t = (buf, t1)" by fastforce
  obtain la t2 where b: "jsonTokenizerLookahead t1 = (la, t2)" by fastforce
  obtain c t3 where c: "jsonTokenizerRead t2 = (c, t3)" by fastforce
  from number_left [OF assms(1) a b c] have "left t3 < left t" .
  then show ?thesis using assms(2) a b c
    by (auto simp: getNumberTokenV2_def copyDigits_def split: if_splits prod.splits
        dest!: copyWhile_leftD lookahead_left(1) numberFraction_left)
qed

lemma getReservedWordToken_left:
  assumes "ready t" "isalpha (unreadChar t)" "getReservedWordToken t = (k, t')"
  shows "left t' < left t"
proof -
  obtain c t2 where r: "jsonTokenizerRead t = (c, t2)" by fastforce
  have e: "copyWhile isalpha t [] = copyWhile isalpha t2 (addTokenChar t2 [] c)"
    using assms(1,2) r ready_lookahead [of t] by (subst copyWhile.simps) (simp add: ready_def)
  obtain buf t1 where w: "copyWhile isalpha t2 (addTokenChar t2 [] c) = (buf, t1)" by fastforce
  from copyWhile_leftD [OF w] ready_read [OF assms(1) r] assms(3) show ?thesis
    by (simp add: getReservedWordToken_def e w Let_def)
qed

lemma getCommentToken_left:
  assumes "ready t" "getCommentToken t = (k, t')" shows "left t' < left t"
proof -
  obtain c t1 where r: "jsonTokenizerRead t = (c, t1)" by fastforce
  obtain la t2 where l: "jsonTokenizerLookahead t1 = (la, t2)" by fastforce
  obtain d t3 where r2: "jsonTokenizerRead t2 = (d, t3)" by fastforce
  obtain d' t4 where r3: "jsonTokenizerRead t3 = (d', t4)" by fastforce
  have m: "left t2 < left t" "left t3 < left t" "left t4 < left t"
    using ready_read [OF assms(1) r] lookahead_left(1) [OF l] read_left(1) [OF r2] read_left(1) [OF r3]
    by auto
  show ?thesis using assms(2) r l r2 r3 m
    by (auto simp: getCommentToken_def getLineCommentToken_def getBlockCommentToken_def
        split: if_splits prod.splits dest!: copyWhile_leftD getBlockCommentLoop_left)
qed

end
