(* ===== verification/JsonParser.thy ===== *)
theory JsonParser
  imports JsonTokenizer
begin

section \<open>The JSON parser\<close>

text \<open>
  \<open>JsonParser\<close> of \<open>c/json.c\<close>: one token of lookahead, recursive descent, and the first error
  message. Where the code returns \<open>parser->jsonError\<close> the model returns that error value. The
  recursion carries fuel; \<open>None\<close> means it ran out, and \<open>jsonParse_enough_fuel\<close> shows that three
  for every character left to read and three more are enough.
\<close>

record jsonParser =
  tokenizer :: jsonTokenizer
  unreadToken :: "jsonToken option"
  jsonError :: "string option"
  version :: nat

definition JSON_PARSE_VERSION_1 :: nat where
  "JSON_PARSE_VERSION_1 = 1"

definition JSON_PARSE_VERSION_2 :: nat where
  "JSON_PARSE_VERSION_2 = 2"

definition makeJsonParser :: "string \<Rightarrow> nat \<Rightarrow> jsonParser" where
  "makeJsonParser jsonString alloc =
     \<lparr>tokenizer = makeJsonTokenizer (makeBufferCharStream jsonString) alloc, unreadToken = None,
      jsonError = None, version = 0\<rparr>"

definition makeJsonFileParser :: "int list \<Rightarrow> nat \<Rightarrow> jsonParser" where
  "makeJsonFileParser file alloc =
     \<lparr>tokenizer = makeJsonTokenizer (makeFileCharStream file) alloc, unreadToken = None,
      jsonError = None, version = 0\<rparr>"

text \<open>Only the first failure leaves a message, cut to 1023 characters.\<close>

definition jsonParseFail :: "string \<Rightarrow> jsonParser \<Rightarrow> jsonParser" where
  "jsonParseFail text p =
     (case jsonError p of
        Some _ \<Rightarrow> p
      | None \<Rightarrow>
          p\<lparr>jsonError := Some (cstr (take 1023
              (show_int (lastTokenLineNumber (tokenizer p)) @ '':'' @
               show_int (lastTokenColumnNumber (tokenizer p)) @ '': '' @ text)))\<rparr>)"

definition errorJson :: "jsonParser \<Rightarrow> json" where
  "errorJson p = JError (case jsonError p of Some m \<Rightarrow> m | None \<Rightarrow> [])"

definition jsonValidateToken :: "jsonToken \<Rightarrow> jsonParser \<Rightarrow> jsonParser" where
  "jsonValidateToken token p =
     (case ttype token of
        TOKEN_UNTERMINATED_STRING \<Rightarrow> jsonParseFail (''unterminated string '' @ [CHR 0x22] @ ttext token) p
      | TOKEN_BAD_COMMENT \<Rightarrow>
          jsonParseFail (''invalid comment start '' @ ttext token @ '', must be // or /*'') p
      | TOKEN_UNTERMINATED_BLOCK_COMMENT \<Rightarrow> jsonParseFail (''unterminated comment /*'' @ ttext token) p
      | TOKEN_STRING_TOO_LONG \<Rightarrow> jsonParseFail ''string length exceeded the limit'' p
      | _ \<Rightarrow> p)"

fun show_hex :: "nat \<Rightarrow> string" where
  "show_hex n = (if n < 16 then [hex_char n] else show_hex (n div 16) @ [hex_char (n mod 16)])"

declare show_hex.simps [simp del]

subsection \<open>The next token\<close>

definition singleToken :: "tokenType \<Rightarrow> string \<Rightarrow> jsonTokenizer \<Rightarrow> jsonToken \<times> jsonTokenizer" where
  "singleToken ty text t = (makeJsonToken ty text, snd (jsonTokenizerRead t))"

text \<open>
  The dispatch of \<open>jsonNextToken\<close> on the lookahead. The bytes \<open>0xBA\<close> and \<open>0xBB\<close>, brackets of an
  EBCDIC code page, are -70 and -69 as a \<open>char\<close>.
\<close>

definition scanToken :: "int \<Rightarrow> nat \<Rightarrow> jsonTokenizer \<Rightarrow> (jsonToken \<times> jsonTokenizer) option" where
  "scanToken lookahead vers t =
     (if lookahead = 34 then Some (getStringToken t)
      else if isdigit lookahead \<or> lookahead = 45 then
        Some (if 2 \<le> vers then getNumberTokenV2 t else getNumberTokenV1 t)
      else if isalpha lookahead then Some (getReservedWordToken t)
      else if lookahead = 123 then Some (singleToken TOKEN_OBJECT_START ''{'' t)
      else if lookahead = 125 then Some (singleToken TOKEN_OBJECT_END ''}'' t)
      else if lookahead = 91 \<or> lookahead = -70 then Some (singleToken TOKEN_ARRAY_START ''['' t)
      else if lookahead = 93 \<or> lookahead = -69 then Some (singleToken TOKEN_ARRAY_END '']'' t)
      else if lookahead = 58 then Some (singleToken TOKEN_COLON '':'' t)
      else if lookahead = 44 then Some (singleToken TOKEN_COMMA '','' t)
      else if lookahead = 47 then Some (getCommentToken t)
      else if lookahead = EOF then Some (singleToken TOKEN_EOF ''EOF'' t)
      else None)"

definition isComment :: "jsonToken \<Rightarrow> bool" where
  "isComment k \<longleftrightarrow> ttype k = TOKEN_LINE_COMMENT \<or> ttype k = TOKEN_BLOCK_COMMENT"

definition unexpectedText :: "int \<Rightarrow> string" where
  "unexpectedText c =
     ''unexpected character '' @ [code_char c] @ ''(0x'' @ show_hex (unat (word_of_int c :: 32 word)) @
     '')'' @ [CHR 0x0A]"

text \<open>The start of a token: white space is skipped and the place remembered.\<close>

definition startToken :: "jsonTokenizer \<Rightarrow> int \<times> jsonTokenizer" where
  "startToken t =
     (case jsonTokenizerLookahead (jsonTokenizerSkipWhitespace t) of
        (c, t1) \<Rightarrow> (c, t1\<lparr>lastTokenLineNumber := lineNumber t1, lastTokenColumnNumber := columnNumber t1\<rparr>))"

lemma left_lastToken [simp]: "left (t\<lparr>lastTokenLineNumber := l, lastTokenColumnNumber := c\<rparr>) = left t"
  by (simp add: left_def)

lemma startToken_left: "startToken t = (c, t') \<Longrightarrow> left t' \<le> left t"
proof -
  assume "startToken t = (c, t')"
  then obtain t1 where l: "jsonTokenizerLookahead (jsonTokenizerSkipWhitespace t) = (c, t1)"
      and t': "t' = t1\<lparr>lastTokenLineNumber := lineNumber t1, lastTokenColumnNumber := columnNumber t1\<rparr>"
    by (auto simp: startToken_def split: prod.splits)
  from lookahead_left(1) [OF l] skip_left [of t] show ?thesis by (simp add: t')
qed

lemma startToken_ready: "startToken t = (c, t') \<Longrightarrow> unreadChar t' = c"
  by (auto simp: startToken_def split: prod.splits dest: lookahead_left(3))

lemma singleToken_left: "ready t \<Longrightarrow> singleToken ty text t = (k, t') \<Longrightarrow> left t' < left t"
  by (cases "jsonTokenizerRead t") (auto simp: singleToken_def intro: ready_read)

lemma singleToken_type: "singleToken ty text t = (k, t') \<Longrightarrow> ttype k = ty"
  by (auto simp: singleToken_def makeJsonToken_def)

text \<open>A token other than the end of the input, or the lack of one, stands for some character.\<close>

definition holds_back :: "jsonToken \<Rightarrow> nat" where
  "holds_back k = (if ttype k = TOKEN_EOF \<or> ttype k = TOKEN_UNEXPECTED_CHAR then 0 else 1)"

lemma scanToken_left:
  assumes "scanToken c vers t = Some (k, t')" "unreadChar t = c"
  shows "left t' + holds_back k \<le> left t"
proof (cases "c = EOF")
  case True
  then have "singleToken TOKEN_EOF ''EOF'' t = (k, t')" using assms(1)
    by (simp add: scanToken_def isdigit_def isalpha_def EOF_def)
  then show ?thesis using singleToken_type [of TOKEN_EOF "''EOF''" t k t'] read_left(1) [of t]
    by (cases "jsonTokenizerRead t") (auto simp: singleToken_def holds_back_def)
next
  case False
  moreover have "c \<noteq> 0" using assms(1)
    by (auto simp: scanToken_def isdigit_def isalpha_def EOF_def split: if_splits)
  ultimately have r: "ready t" by (simp add: ready_def assms(2))
  have "left t' < left t" using assms r
    by (auto simp: scanToken_def split: if_splits
        intro: getStringToken_left getNumberTokenV2_left getNumberTokenV1_left
          getReservedWordToken_left singleToken_left getCommentToken_left)
  then show ?thesis by (simp add: holds_back_def)
qed

function jsonNextToken :: "jsonParser \<Rightarrow> jsonToken \<times> jsonParser" where
  "jsonNextToken p =
     (case unreadToken p of
        Some token \<Rightarrow> (token, p\<lparr>unreadToken := None\<rparr>)
      | None \<Rightarrow>
          (case startToken (tokenizer p) of
             (lookahead, t) \<Rightarrow>
               (case scanToken lookahead (version p) t of
                  None \<Rightarrow>
                    (makeJsonToken TOKEN_UNEXPECTED_CHAR [],
                     jsonParseFail (unexpectedText lookahead) (p\<lparr>tokenizer := t\<rparr>))
                | Some (token, t1) \<Rightarrow>
                    if isComment token then
                      (case jsonNextToken (p\<lparr>tokenizer := t1\<rparr>) of
                         (token2, p2) \<Rightarrow> (token2, jsonValidateToken token2 p2))
                    else (token, jsonValidateToken token (p\<lparr>tokenizer := t1\<rparr>)))))"
  by pat_completeness auto
termination
proof (relation "measure (left \<circ> tokenizer)", goal_cases)
  case 1
  then show ?case by simp
next
  case (2 p c t kt k t1)
  then have s: "startToken (tokenizer p) = (c, t)" "scanToken c (version p) t = Some (k, t1)" by auto
  moreover have "holds_back k = 1" using 2 by (auto simp: isComment_def holds_back_def)
  ultimately show ?case
    using scanToken_left [OF s(2) startToken_ready [OF s(1)]] startToken_left [OF s(1)] by simp
qed

declare jsonNextToken.simps [simp del]

definition jsonLookaheadToken :: "jsonParser \<Rightarrow> jsonToken \<times> jsonParser" where
  "jsonLookaheadToken p =
     (case unreadToken p of
        Some token \<Rightarrow> (token, p)
      | None \<Rightarrow> (case jsonNextToken p of (token, p1) \<Rightarrow> (token, p1\<lparr>unreadToken := Some token\<rparr>)))"

text \<open>The message of a token of another type; the token's type becomes \<open>TOKEN_UNMATCHED\<close>.\<close>

definition mismatchText :: "tokenType \<Rightarrow> jsonToken \<Rightarrow> string" where
  "mismatchText ty token =
     (let expected = ''expected '' @ getTokenTypeString ty @ '', got '';
          got = getTokenTypeString (ttype token)
      in case ttype token of
           TOKEN_STRING \<Rightarrow> expected @ got @ '' '' @ [CHR 0x22] @ ttext token @ [CHR 0x22, CHR 0x0A]
         | TOKEN_NUMBER \<Rightarrow> expected @ got @ '' '' @ ttext token @ [CHR 0x0A]
         | TOKEN_BOOLEAN \<Rightarrow> expected @ got @ '' '' @ ttext token @ [CHR 0x0A]
         | TOKEN_NULL \<Rightarrow> expected @ got @ [CHR 0x0A]
         | TOKEN_EOF \<Rightarrow> expected @ got @ [CHR 0x0A]
         | _ \<Rightarrow> expected @ ttext token)"

definition jsonMatchToken :: "tokenType \<Rightarrow> jsonParser \<Rightarrow> jsonToken \<times> jsonParser" where
  "jsonMatchToken ty p =
     (case jsonNextToken p of
        (token, p1) \<Rightarrow>
          if ttype token \<noteq> ty
          then (token\<lparr>ttype := TOKEN_UNMATCHED\<rparr>, jsonParseFail (mismatchText ty token) p1)
          else (token, p1))"

definition jsonIsTokenUnmatched :: "jsonToken \<Rightarrow> bool" where
  "jsonIsTokenUnmatched token \<longleftrightarrow> ttype token = TOKEN_UNMATCHED"

subsection \<open>Scalars\<close>

definition jsonGetScalar :: "tokenType \<Rightarrow> (string \<Rightarrow> json) \<Rightarrow> jsonParser \<Rightarrow> json \<times> jsonParser" where
  "jsonGetScalar ty build p =
     (case jsonMatchToken ty p of
        (token, p1) \<Rightarrow>
          (if \<not> jsonIsTokenUnmatched token then build (ttext token) else errorJson p1, p1))"

definition jsonGetNumber :: "jsonParser \<Rightarrow> json \<times> jsonParser" where
  "jsonGetNumber = jsonGetScalar TOKEN_NUMBER (\<lambda>text. JNumber (atoi text))"

definition jsonGetInt64 :: "jsonParser \<Rightarrow> json \<times> jsonParser" where
  "jsonGetInt64 = jsonGetScalar TOKEN_INT64 (\<lambda>text. JInt64 (word_of_int (strtoll text)))"

definition jsonGetFloat :: "fp_ops \<Rightarrow> jsonParser \<Rightarrow> json \<times> jsonParser" where
  "jsonGetFloat f = jsonGetScalar TOKEN_FLOAT (\<lambda>text. JDouble (strtod f text))"

definition jsonGetString :: "jsonParser \<Rightarrow> json \<times> jsonParser" where
  "jsonGetString = jsonGetScalar TOKEN_STRING JString"

definition jsonGetBoolean :: "jsonParser \<Rightarrow> json \<times> jsonParser" where
  "jsonGetBoolean = jsonGetScalar TOKEN_BOOLEAN (\<lambda>text. JBoolean (if text = ''true'' then 1 else 0))"

definition jsonGetNull :: "jsonParser \<Rightarrow> json \<times> jsonParser" where
  "jsonGetNull = jsonGetScalar TOKEN_NULL (\<lambda>_. JNull)"

subsection \<open>Values\<close>

definition jsonObjectAddProperty :: "property list \<Rightarrow> string \<Rightarrow> json \<Rightarrow> property list" where
  "jsonObjectAddProperty obj key v = obj @ [(key, v)]"

fun jsonParse :: "nat \<Rightarrow> fp_ops \<Rightarrow> jsonParser \<Rightarrow> (json \<times> jsonParser) option"
  and jsonGetObject :: "nat \<Rightarrow> fp_ops \<Rightarrow> jsonParser \<Rightarrow> (json \<times> jsonParser) option"
  and jsonGetObjectLoop :: "nat \<Rightarrow> fp_ops \<Rightarrow> property list \<Rightarrow> jsonParser \<Rightarrow> (json \<times> jsonParser) option"
  and jsonGetArray :: "nat \<Rightarrow> fp_ops \<Rightarrow> jsonParser \<Rightarrow> (json \<times> jsonParser) option"
  and jsonGetArrayLoop :: "nat \<Rightarrow> fp_ops \<Rightarrow> json json_array \<Rightarrow> jsonParser \<Rightarrow> (json \<times> jsonParser) option" where
  "jsonParse 0 f p = None"
| "jsonParse (Suc n) f p =
     (case jsonLookaheadToken p of
        (lookahead, p1) \<Rightarrow>
          (case ttype lookahead of
             TOKEN_NUMBER \<Rightarrow> Some (jsonGetNumber p1)
           | TOKEN_INT64 \<Rightarrow> Some (jsonGetInt64 p1)
           | TOKEN_FLOAT \<Rightarrow> Some (jsonGetFloat f p1)
           | TOKEN_STRING \<Rightarrow> Some (jsonGetString p1)
           | TOKEN_BOOLEAN \<Rightarrow> Some (jsonGetBoolean p1)
           | TOKEN_NULL \<Rightarrow> Some (jsonGetNull p1)
           | TOKEN_OBJECT_START \<Rightarrow> jsonGetObject n f p1
           | TOKEN_ARRAY_START \<Rightarrow> jsonGetArray n f p1
           | _ \<Rightarrow>
               let p2 = jsonParseFail (''unexpected '' @ ttext lookahead) p1
               in Some (errorJson p2, p2)))"
| "jsonGetObject 0 f p = None"
| "jsonGetObject (Suc n) f p =
     (case jsonMatchToken TOKEN_OBJECT_START p of
        (token, p1) \<Rightarrow>
          if jsonIsTokenUnmatched token then Some (errorJson p1, p1)
          else jsonGetObjectLoop n f [] p1)"
| "jsonGetObjectLoop 0 f obj p = None"
| "jsonGetObjectLoop (Suc n) f obj p =
     (case jsonLookaheadToken p of
        (lookahead, p1) \<Rightarrow>
          if ttype lookahead = TOKEN_STRING then
            (case jsonMatchToken TOKEN_STRING p1 of
               (keyToken, p2) \<Rightarrow>
                 (case jsonMatchToken TOKEN_COLON p2 of
                    (colonToken, p3) \<Rightarrow>
                      if jsonIsTokenUnmatched colonToken then Some (errorJson p3, p3)
                      else
                        (case jsonParse n f p3 of
                           None \<Rightarrow> None
                         | Some (valueJSON, p4) \<Rightarrow>
                             if jsonIsError valueJSON then Some (errorJson p4, p4)
                             else
                               let obj1 = jsonObjectAddProperty obj (ttext keyToken) valueJSON in
                               (case jsonLookaheadToken p4 of
                                  (lookahead1, p5) \<Rightarrow>
                                    if ttype lookahead1 = TOKEN_COMMA
                                    then jsonGetObjectLoop n f obj1 (snd (jsonMatchToken TOKEN_COMMA p5))
                                    else
                                      (case jsonMatchToken TOKEN_OBJECT_END p5 of
                                         (token, p6) \<Rightarrow>
                                           if jsonIsTokenUnmatched token then Some (errorJson p6, p6)
                                           else Some (JObject obj1, p6))))))
          else
            (case jsonMatchToken TOKEN_OBJECT_END p1 of
               (token, p2) \<Rightarrow>
                 if jsonIsTokenUnmatched token then Some (errorJson p2, p2)
                 else Some (JObject obj, p2)))"
| "jsonGetArray 0 f p = None"
| "jsonGetArray (Suc n) f p =
     (case jsonMatchToken TOKEN_ARRAY_START p of
        (token, p1) \<Rightarrow>
          if jsonIsTokenUnmatched token then Some (errorJson p1, p1)
          else jsonGetArrayLoop n f (newJsonArray 8) p1)"
| "jsonGetArrayLoop 0 f arr p = None"
| "jsonGetArrayLoop (Suc n) f arr p =
     (case jsonLookaheadToken p of
        (lookahead, p1) \<Rightarrow>
          if ttype lookahead \<noteq> TOKEN_ARRAY_END then
            (case jsonParse n f p1 of
               None \<Rightarrow> None
             | Some (element, p2) \<Rightarrow>
                 if jsonIsError element then Some (errorJson p2, p2)
                 else
                   let arr1 = jsonArrayAddElement arr element in
                   (case jsonLookaheadToken p2 of
                      (lookahead1, p3) \<Rightarrow>
                        if ttype lookahead1 = TOKEN_COMMA
                        then jsonGetArrayLoop n f arr1 (snd (jsonMatchToken TOKEN_COMMA p3))
                        else
                          (case jsonMatchToken TOKEN_ARRAY_END p3 of
                             (token, p4) \<Rightarrow>
                               if jsonIsTokenUnmatched token then Some (errorJson p4, p4)
                               else Some (JArray (array_items arr1), p4))))
          else
            (case jsonMatchToken TOKEN_ARRAY_END p1 of
               (token, p2) \<Rightarrow>
                 if jsonIsTokenUnmatched token then Some (errorJson p2, p2)
                 else Some (JArray (array_items arr), p2)))"

subsection \<open>Whole texts\<close>

definition parse_fuel :: "jsonParser \<Rightarrow> nat" where
  "parse_fuel p = 3 * left (tokenizer p) + 3"

text \<open>
  What \<open>jsonParseUnterminatedString\<close> and \<open>jsonParseFileInternal\<close> do with a parser: the value, or
  \<open>NULL\<close> and the message, cut to the error buffer. The outer \<open>None\<close> would be fuel that ran out.
\<close>

definition parseAll :: "fp_ops \<Rightarrow> jsonParser \<Rightarrow> nat \<Rightarrow> (json option \<times> string option) option" where
  "parseAll f p errorBufferSize =
     (case jsonParse (parse_fuel p) f p of
        None \<Rightarrow> None
      | Some (json, p1) \<Rightarrow>
          (case jsonMatchToken TOKEN_EOF p1 of
             (token, p2) \<Rightarrow>
               if jsonIsError json \<or> jsonIsTokenUnmatched token
               then Some (None, map_option (take (errorBufferSize - 1)) (jsonError p2))
               else Some (Some json, None)))"

definition jsonParseUnterminatedString ::
  "fp_ops \<Rightarrow> nat \<Rightarrow> string \<Rightarrow> nat \<Rightarrow> (json option \<times> string option) option" where
  "jsonParseUnterminatedString f alloc jsonString errorBufferSize =
     parseAll f (makeJsonParser jsonString alloc) errorBufferSize"

definition jsonParseString ::
  "fp_ops \<Rightarrow> nat \<Rightarrow> string \<Rightarrow> nat \<Rightarrow> (json option \<times> string option) option" where
  "jsonParseString f alloc jsonString errorBufferSize =
     jsonParseUnterminatedString f alloc (cstr jsonString) errorBufferSize"

text \<open>\<open>file\<close> is what \<open>fileGetChar\<close> delivers, or nothing when the file cannot be opened.\<close>

definition jsonParseFileInternal ::
  "fp_ops \<Rightarrow> nat \<Rightarrow> string \<Rightarrow> int list option \<Rightarrow> nat \<Rightarrow> nat \<Rightarrow> (json option \<times> string option) option" where
  "jsonParseFileInternal f alloc filename file errorBufferSize vers =
     (case file of
        None \<Rightarrow> Some (None, Some (take (errorBufferSize - 1) (''Couldn'' @ [CHR 0x27] @ ''t open '' @ [CHR 0x27] @ filename @ [CHR 0x27])))
      | Some chars \<Rightarrow>
          parseAll f ((makeJsonFileParser chars alloc)\<lparr>version := vers\<rparr>) errorBufferSize)"

definition jsonParseFile where
  "jsonParseFile f alloc filename file errorBufferSize =
     jsonParseFileInternal f alloc filename file errorBufferSize JSON_PARSE_VERSION_1"

definition jsonParseFile2 where
  "jsonParseFile2 f alloc filename file errorBufferSize =
     jsonParseFileInternal f alloc filename file errorBufferSize JSON_PARSE_VERSION_2"

subsection \<open>Parsing ends\<close>

text \<open>What a parser has left: characters, and a token held back that stands for some.\<close>

definition failed :: "jsonParser \<Rightarrow> bool" where
  "failed p \<longleftrightarrow> jsonError p \<noteq> None"

definition pleft :: "jsonParser \<Rightarrow> nat" where
  "pleft p = left (tokenizer p) + (case unreadToken p of Some k \<Rightarrow> holds_back k | None \<Rightarrow> 0)"

lemma fail_fields [simp]:
  "tokenizer (jsonParseFail text p) = tokenizer p" "unreadToken (jsonParseFail text p) = unreadToken p"
  "failed (jsonParseFail text p)" "version (jsonParseFail text p) = version p"
  by (auto simp: jsonParseFail_def failed_def split: option.splits)

lemma fail_keeps: "failed p \<Longrightarrow> jsonParseFail text p = p"
  by (auto simp: jsonParseFail_def failed_def)

lemma failed_upd [simp]: "failed (p\<lparr>tokenizer := t\<rparr>) = failed p"
  "failed (p\<lparr>unreadToken := u\<rparr>) = failed p"
  by (simp_all add: failed_def)

lemma validate_fields [simp]:
  "tokenizer (jsonValidateToken k p) = tokenizer p" "unreadToken (jsonValidateToken k p) = unreadToken p"
  "version (jsonValidateToken k p) = version p"
  by (auto simp: jsonValidateToken_def split: tokenType.split)

lemma validate_keeps: "failed p \<Longrightarrow> jsonValidateToken k p = p"
  by (auto simp: jsonValidateToken_def fail_keeps split: tokenType.split)

lemma pleft_fail [simp]: "pleft (jsonParseFail text p) = pleft p"
  by (simp add: pleft_def)

lemma jsonNextToken_effect:
  "jsonNextToken p = (k, p') \<Longrightarrow>
     unreadToken p' = None \<and> version p' = version p \<and> pleft p' + holds_back k \<le> pleft p \<and>
     (failed p \<longrightarrow> failed p' \<and> jsonError p' = jsonError p)"
proof (induction p arbitrary: k p' rule: jsonNextToken.induct)
  case (1 p)
  show ?case
  proof (cases "unreadToken p")
    case (Some token)
    with "1.prems" show ?thesis by (subst (asm) jsonNextToken.simps) (auto simp: pleft_def)
  next
    case None
    obtain c t where s: "startToken (tokenizer p) = (c, t)" by fastforce
    note sl = startToken_left [OF s]
    show ?thesis
    proof (cases "scanToken c (version p) t")
      case n: None
      with "1.prems" None s have "k = makeJsonToken TOKEN_UNEXPECTED_CHAR []"
          "p' = jsonParseFail (unexpectedText c) (p\<lparr>tokenizer := t\<rparr>)"
        by (subst (asm) jsonNextToken.simps; simp)+
      then show ?thesis using sl None
        by (simp add: holds_back_def makeJsonToken_def pleft_def fail_keeps)
    next
      case (Some r)
      obtain k1 t1 where r: "r = (k1, t1)" by fastforce
      have tl: "left t1 + holds_back k1 \<le> left t"
        using scanToken_left [of c "version p" t k1 t1] Some r startToken_ready [OF s] by simp
      show ?thesis
      proof (cases "isComment k1")
        case True
        obtain k2 p2 where n: "jsonNextToken (p\<lparr>tokenizer := t1\<rparr>) = (k2, p2)" by fastforce
        with "1.prems" None s Some r True have e: "k = k2" "p' = jsonValidateToken k2 p2"
          by (subst (asm) jsonNextToken.simps; simp)+
        from "1.IH" [OF None s [symmetric] Some r [symmetric] True n] tl sl e None show ?thesis
          by (auto simp: pleft_def validate_keeps)
      next
        case False
        with "1.prems" None s Some r have e: "k = k1" "p' = jsonValidateToken k1 (p\<lparr>tokenizer := t1\<rparr>)"
          by (subst (asm) jsonNextToken.simps; simp)+
        with tl sl None show ?thesis by (auto simp: pleft_def validate_keeps)
      qed
    qed
  qed
qed

lemma jsonLookaheadToken_effect:
  assumes "jsonLookaheadToken p = (k, p')"
  shows "unreadToken p' = Some k" "version p' = version p" "pleft p' \<le> pleft p"
    "failed p \<Longrightarrow> failed p' \<and> jsonError p' = jsonError p"
proof -
  obtain k1 p1 where n: "jsonNextToken p = (k1, p1)" by fastforce
  from jsonNextToken_effect [OF n] assms n
  show "unreadToken p' = Some k" "version p' = version p" "pleft p' \<le> pleft p"
    "failed p \<Longrightarrow> failed p' \<and> jsonError p' = jsonError p"
    by (auto simp: jsonLookaheadToken_def pleft_def split: option.splits)
qed

lemma jsonMatchToken_effect:
  assumes "jsonMatchToken ty p = (k, p')" "ty \<noteq> TOKEN_UNMATCHED"
  shows "version p' = version p" "pleft p' \<le> pleft p"
    "failed p \<Longrightarrow> failed p' \<and> jsonError p' = jsonError p"
    "jsonIsTokenUnmatched k \<Longrightarrow> failed p'"
    "\<not> jsonIsTokenUnmatched k \<Longrightarrow> ttype k = ty \<and> pleft p' + holds_back k \<le> pleft p"
proof -
  obtain k1 p1 where n: "jsonNextToken p = (k1, p1)" by fastforce
  from jsonNextToken_effect [OF n] assms n
  show "version p' = version p" "pleft p' \<le> pleft p"
    "failed p \<Longrightarrow> failed p' \<and> jsonError p' = jsonError p"
    "jsonIsTokenUnmatched k \<Longrightarrow> failed p'"
    "\<not> jsonIsTokenUnmatched k \<Longrightarrow> ttype k = ty \<and> pleft p' + holds_back k \<le> pleft p"
    by (auto simp: jsonMatchToken_def jsonIsTokenUnmatched_def fail_keeps split: if_splits)
qed

text \<open>
  A result that is good for a caller with weight \<open>L\<close>: there is one; it is an error with its
  message, or something has been read.
\<close>

definition good :: "(json \<times> jsonParser) option \<Rightarrow> nat \<Rightarrow> bool" where
  "good r L \<longleftrightarrow> (\<exists>j p. r = Some (j, p) \<and>
     (if jsonIsError j then failed p else pleft p < L))"

lemma good_mono: "good r L \<Longrightarrow> L \<le> L' \<Longrightarrow> good r L'"
  unfolding good_def by (auto split: if_split_asm intro!: exI)

lemma errorJson_error [simp]: "jsonIsError (errorJson p)"
  by (simp add: errorJson_def jsonIsError_def)

lemma good_error: "failed p \<Longrightarrow> good (Some (errorJson p, p)) L"
  by (simp add: good_def)

text \<open>The last token of a value decides.\<close>

lemma good_match:
  assumes "jsonMatchToken ty p = (k, p')" "ty \<noteq> TOKEN_UNMATCHED" "ty \<noteq> TOKEN_EOF"
    "ty \<noteq> TOKEN_UNEXPECTED_CHAR" "\<not> jsonIsError v" "pleft p \<le> L"
  shows "good (if jsonIsTokenUnmatched k then Some (errorJson p', p') else Some (v, p')) L"
proof (cases "jsonIsTokenUnmatched k")
  case True
  with jsonMatchToken_effect(4) [OF assms(1,2)] show ?thesis by (simp add: good_error)
next
  case False
  with jsonMatchToken_effect(5) [OF assms(1,2) False] assms(3-) show ?thesis
    by (auto simp: good_def holds_back_def)
qed

lemma good_scalar:
  assumes "ty \<noteq> TOKEN_UNMATCHED" "ty \<noteq> TOKEN_EOF" "ty \<noteq> TOKEN_UNEXPECTED_CHAR"
    "\<And>s. \<not> jsonIsError (build s)" "pleft p \<le> L"
  shows "good (Some (jsonGetScalar ty build p)) L"
proof -
  obtain k p' where m: "jsonMatchToken ty p = (k, p')" by fastforce
  from good_match [OF m assms(1-3) assms(4) [of "ttext k"] assms(5)] m show ?thesis
    by (simp add: jsonGetScalar_def split: if_splits)
qed

text \<open>What is good for every smaller fuel, as far as the recursive calls need it.\<close>

definition enough :: "nat \<Rightarrow> bool" where
  "enough n \<longleftrightarrow>
     (\<forall>f p. 3 * pleft p + 3 \<le> n \<longrightarrow> good (jsonParse n f p) (pleft p)) \<and>
     (\<forall>f p. 3 * pleft p + 2 \<le> n \<longrightarrow> good (jsonGetObject n f p) (pleft p)) \<and>
     (\<forall>f obj p. 3 * pleft p + 4 \<le> n \<longrightarrow> good (jsonGetObjectLoop n f obj p) (pleft p)) \<and>
     (\<forall>f p. 3 * pleft p + 2 \<le> n \<longrightarrow> good (jsonGetArray n f p) (pleft p)) \<and>
     (\<forall>f arr p. 3 * pleft p + 4 \<le> n \<longrightarrow> good (jsonGetArrayLoop n f arr p) (pleft p))"

lemma enoughD:
  assumes "enough n"
  shows "3 * pleft p + 3 \<le> n \<Longrightarrow> good (jsonParse n f p) (pleft p)"
    "3 * pleft p + 2 \<le> n \<Longrightarrow> good (jsonGetObject n f p) (pleft p)"
    "3 * pleft p + 4 \<le> n \<Longrightarrow> good (jsonGetObjectLoop n f obj p) (pleft p)"
    "3 * pleft p + 2 \<le> n \<Longrightarrow> good (jsonGetArray n f p) (pleft p)"
    "3 * pleft p + 4 \<le> n \<Longrightarrow> good (jsonGetArrayLoop n f arr p) (pleft p)"
  using assms unfolding enough_def by blast+

lemma not_error_simps [simp]:
  "\<not> jsonIsError (JObject ps)" "\<not> jsonIsError (JArray js)" "\<not> jsonIsError (JNumber n)"
  "\<not> jsonIsError (JInt64 m)" "\<not> jsonIsError (JDouble d)" "\<not> jsonIsError (JString s)"
  "\<not> jsonIsError (JBoolean b)" "\<not> jsonIsError JNull"
  by (simp_all add: jsonIsError_def json_type_codes)

lemma jsonParse_enough:
  assumes "enough n" "3 * pleft p + 3 \<le> Suc n"
  shows "good (jsonParse (Suc n) f p) (pleft p)"
proof -
  obtain k p1 where l: "jsonLookaheadToken p = (k, p1)" by fastforce
  have le: "pleft p1 \<le> pleft p" using jsonLookaheadToken_effect(3) [OF l] .
  have "good (jsonGetObject n f p1) (pleft p)" "good (jsonGetArray n f p1) (pleft p)"
    using enoughD(2,4) [OF assms(1), of p1 f] assms(2) le by (auto intro: good_mono)
  then show ?thesis using l le
    by (auto simp: jsonGetNumber_def jsonGetInt64_def jsonGetFloat_def jsonGetString_def
        jsonGetBoolean_def jsonGetNull_def Let_def intro!: good_scalar good_error split: tokenType.split)
qed

lemma jsonGetObject_enough:
  assumes "enough n" "3 * pleft p + 2 \<le> Suc n"
  shows "good (jsonGetObject (Suc n) f p) (pleft p)"
proof -
  obtain k p1 where m: "jsonMatchToken TOKEN_OBJECT_START p = (k, p1)" by fastforce
  show ?thesis
  proof (cases "jsonIsTokenUnmatched k")
    case True
    with jsonMatchToken_effect(4) [OF m] m show ?thesis by (simp add: good_error)
  next
    case False
    with jsonMatchToken_effect(5) [OF m] have "pleft p1 < pleft p" by (auto simp: holds_back_def)
    with enoughD(3) [OF assms(1), of p1 f "[]"] assms(2) m False show ?thesis
      by (auto intro: good_mono)
  qed
qed

lemma jsonGetArray_enough:
  assumes "enough n" "3 * pleft p + 2 \<le> Suc n"
  shows "good (jsonGetArray (Suc n) f p) (pleft p)"
proof -
  obtain k p1 where m: "jsonMatchToken TOKEN_ARRAY_START p = (k, p1)" by fastforce
  show ?thesis
  proof (cases "jsonIsTokenUnmatched k")
    case True
    with jsonMatchToken_effect(4) [OF m] m show ?thesis by (simp add: good_error)
  next
    case False
    with jsonMatchToken_effect(5) [OF m] have "pleft p1 < pleft p" by (auto simp: holds_back_def)
    with enoughD(5) [OF assms(1), of p1 f "newJsonArray 8"] assms(2) m False show ?thesis
      by (auto intro: good_mono)
  qed
qed

text \<open>After an element: a comma and the rest, or the closing token.\<close>

lemma comma_enough:
  assumes "jsonLookaheadToken p = (k, p1)" "pleft p < L" "ty \<noteq> TOKEN_UNMATCHED" "ty \<noteq> TOKEN_EOF"
    "ty \<noteq> TOKEN_UNEXPECTED_CHAR" "\<not> jsonIsError v"
    and rest: "\<And>p2. pleft p2 < L \<Longrightarrow> good (loop p2) (pleft p2)"
  shows "good (if ttype k = TOKEN_COMMA then loop (snd (jsonMatchToken TOKEN_COMMA p1))
     else case jsonMatchToken ty p1 of (token, p3) \<Rightarrow>
       if jsonIsTokenUnmatched token then Some (errorJson p3, p3) else Some (v, p3)) L"
proof -
  have le: "pleft p1 < L" using jsonLookaheadToken_effect(3) [OF assms(1)] assms(2) by simp
  obtain c p2 where c: "jsonMatchToken TOKEN_COMMA p1 = (c, p2)" by fastforce
  obtain token p3 where m: "jsonMatchToken ty p1 = (token, p3)" by fastforce
  have "pleft p2 < L" using jsonMatchToken_effect(2) [OF c] le by simp
  then have "good (loop p2) L" using rest [of p2] by (auto intro: good_mono)
  moreover have "good (if jsonIsTokenUnmatched token then Some (errorJson p3, p3) else Some (v, p3)) L"
    using le by (intro good_match [OF m assms(3-6)]) simp
  ultimately show ?thesis using c m by (simp split: if_split)
qed

lemma jsonGetArrayLoop_enough:
  assumes "enough n" "3 * pleft p + 4 \<le> Suc n"
  shows "good (jsonGetArrayLoop (Suc n) f arr p) (pleft p)"
proof -
  obtain k p1 where l: "jsonLookaheadToken p = (k, p1)" by fastforce
  have le: "pleft p1 \<le> pleft p" using jsonLookaheadToken_effect(3) [OF l] .
  show ?thesis
  proof (cases "ttype k = TOKEN_ARRAY_END")
    case True
    obtain token p2 where m: "jsonMatchToken TOKEN_ARRAY_END p1 = (token, p2)" by fastforce
    from good_match [OF m, of "JArray (array_items arr)" "pleft p"] le l m True show ?thesis
      by simp
  next
    case False
    from enoughD(1) [OF assms(1), of p1 f] le assms(2)
    have "good (jsonParse n f p1) (pleft p1)" by simp
    then obtain j p2 where j: "jsonParse n f p1 = Some (j, p2)"
        "if jsonIsError j then failed p2 else pleft p2 < pleft p1"
      by (auto simp: good_def)
    obtain k1 p3 where l1: "jsonLookaheadToken p2 = (k1, p3)" by fastforce
    show ?thesis
    proof (cases "jsonIsError j")
      case True
      with j l \<open>ttype k \<noteq> TOKEN_ARRAY_END\<close> show ?thesis by (simp add: good_error)
    next
      case ok: False
      with j le have lt: "pleft p2 < pleft p" by simp
      have "good (jsonGetArrayLoop n f (jsonArrayAddElement arr j) q) (pleft q)"
        if "pleft q < pleft p" for q
        using enoughD(5) [OF assms(1), of q f] that assms(2) by simp
      from comma_enough [OF l1 lt _ _ _ _ this,
          where ty = TOKEN_ARRAY_END and v = "JArray (array_items (jsonArrayAddElement arr j))"]
      show ?thesis using l l1 j(1) ok False by (simp add: Let_def)
    qed
  qed
qed

lemma jsonGetObjectLoop_enough:
  assumes "enough n" "3 * pleft p + 4 \<le> Suc n"
  shows "good (jsonGetObjectLoop (Suc n) f obj p) (pleft p)"
proof -
  obtain k p1 where l: "jsonLookaheadToken p = (k, p1)" by fastforce
  have le: "pleft p1 \<le> pleft p" using jsonLookaheadToken_effect(3) [OF l] .
  show ?thesis
  proof (cases "ttype k = TOKEN_STRING")
    case False
    obtain token p2 where m: "jsonMatchToken TOKEN_OBJECT_END p1 = (token, p2)" by fastforce
    from good_match [OF m, of "JObject obj" "pleft p"] le l m False show ?thesis by simp
  next
    case True
    obtain kt p2 where m2: "jsonMatchToken TOKEN_STRING p1 = (kt, p2)" by fastforce
    obtain ct p3 where m3: "jsonMatchToken TOKEN_COLON p2 = (ct, p3)" by fastforce
    have le3: "pleft p3 \<le> pleft p"
      using jsonMatchToken_effect(2) [OF m2] jsonMatchToken_effect(2) [OF m3] le by simp
    show ?thesis
    proof (cases "jsonIsTokenUnmatched ct")
      case u: True
      with jsonMatchToken_effect(4) [OF m3] l m2 m3 True show ?thesis by (simp add: good_error)
    next
      case c: False
      from enoughD(1) [OF assms(1), of p3 f] le3 assms(2)
      have "good (jsonParse n f p3) (pleft p3)" by simp
      then obtain j p4 where j: "jsonParse n f p3 = Some (j, p4)"
          "if jsonIsError j then failed p4 else pleft p4 < pleft p3"
        by (auto simp: good_def)
      obtain k1 p5 where l1: "jsonLookaheadToken p4 = (k1, p5)" by fastforce
      show ?thesis
      proof (cases "jsonIsError j")
        case e: True
        with j l m2 m3 c True show ?thesis by (simp add: good_error)
      next
        case ok: False
        with j le3 have lt: "pleft p4 < pleft p" by simp
        have "good (jsonGetObjectLoop n f (jsonObjectAddProperty obj (ttext kt) j) q) (pleft q)"
          if "pleft q < pleft p" for q
          using enoughD(3) [OF assms(1), of q f] that assms(2) by simp
        from comma_enough [OF l1 lt _ _ _ _ this,
            where ty = TOKEN_OBJECT_END and v = "JObject (jsonObjectAddProperty obj (ttext kt) j)"]
        show ?thesis using l m2 m3 l1 j(1) ok c True by (simp add: Let_def)
      qed
    qed
  qed
qed

lemma enough_fuel: "enough n"
proof (induction n)
  case 0
  then show ?case by (simp add: enough_def)
next
  case (Suc n)
  from jsonParse_enough [OF Suc] jsonGetObject_enough [OF Suc] jsonGetObjectLoop_enough [OF Suc]
    jsonGetArray_enough [OF Suc] jsonGetArrayLoop_enough [OF Suc]
  show ?case unfolding enough_def by blast
qed

lemma parseAll_result:
  assumes "unreadToken p = None"
  shows "(\<exists>j. parseAll f p e = Some (Some j, None) \<and> \<not> jsonIsError j) \<or>
    (\<exists>m. parseAll f p e = Some (None, Some m))"
proof -
  have "pleft p = left (tokenizer p)" using assms by (simp add: pleft_def)
  with enoughD(1) [OF enough_fuel, of p "parse_fuel p" f]
  have "good (jsonParse (parse_fuel p) f p) (pleft p)" by (simp add: parse_fuel_def)
  then obtain j p1 where j: "jsonParse (parse_fuel p) f p = Some (j, p1)"
      "jsonIsError j \<Longrightarrow> failed p1"
    by (auto simp: good_def split: if_splits)
  obtain k p2 where m: "jsonMatchToken TOKEN_EOF p1 = (k, p2)" by fastforce
  note e = jsonMatchToken_effect [OF m]
  show ?thesis
  proof (cases "jsonIsError j \<or> jsonIsTokenUnmatched k")
    case True
    then have "failed p2" using j(2) e(3,4) by auto
    with j m True show ?thesis by (auto simp: parseAll_def failed_def)
  next
    case False
    with j m show ?thesis by (simp add: parseAll_def)
  qed
qed

end
