(* ===== verification/JsonRoundTrip.thy ===== *)
theory JsonRoundTrip
  imports JsonParser
begin

section \<open>What the printer writes, the parser reads\<close>

text \<open>
  The tokenizer on a text of positive characters, token by token, then the parser on the text of
  a value (\<open>value_text\<close>), and the properties of the parser.
\<close>

subsection \<open>A tokenizer in front of a text\<close>

definition room :: "jsonTokenizer \<Rightarrow> bool" where
  "room t \<longleftrightarrow> (\<exists>k \<le> 12. bufferSize t = 16384 * 2 ^ k) \<and> 2 ^ 26 \<le> tokenAlloc t"

definition at :: "jsonTokenizer \<Rightarrow> int list \<Rightarrow> bool" where
  "at t u \<longleftrightarrow> room t \<and>
     (if unreadChar t = 0 then ahead (in_stream t) = u
      else if unreadChar t = EOF then ahead (in_stream t) = [] \<and> u = []
      else u = unreadChar t # ahead (in_stream t))"

lemma get_ahead: "ahead s = c # cs \<Longrightarrow> \<exists>s'. charStreamGet s = (c, s') \<and> ahead s' = cs"
  "ahead s = [] \<Longrightarrow> charStreamGet s = (EOF, s)"
  by (auto simp: charStreamGet_def readFileCharacterMethod_def readBufferCharacter_def)

text \<open>A character that is neither 0 nor the code of \<open>EOF\<close> is delivered as it is.\<close>

lemma at_read_any:
  "at t (c # u) \<Longrightarrow> c \<noteq> 0 \<Longrightarrow> c \<noteq> EOF \<Longrightarrow> \<exists>t'. jsonTokenizerRead t = (c, t') \<and> at t' u"
  using get_ahead(1) [of "in_stream t" c u]
  by (auto simp: at_def jsonTokenizerRead_def room_def split: if_splits)

lemma at_read: "at t (c # u) \<Longrightarrow> 0 < c \<Longrightarrow> \<exists>t'. jsonTokenizerRead t = (c, t') \<and> at t' u"
  by (rule at_read_any) (auto simp: EOF_def)

lemma at_unread0: "unreadChar t = 0 \<Longrightarrow> at t u \<Longrightarrow> c \<noteq> 0 \<Longrightarrow> c \<noteq> EOF \<Longrightarrow> at (t\<lparr>unreadChar := c\<rparr>) (c # u)"
  "unreadChar t = 0 \<Longrightarrow> at t [] \<Longrightarrow> at (t\<lparr>unreadChar := EOF\<rparr>) []"
  by (auto simp: at_def room_def EOF_def)

lemma at_lookahead_any:
  assumes "at t (c # u)" "c \<noteq> 0" "c \<noteq> EOF"
  shows "\<exists>t'. jsonTokenizerLookahead t = (c, t') \<and> at t' (c # u) \<and> unreadChar t' = c"
proof (cases "unreadChar t = 0")
  case True
  from at_read_any [OF assms] obtain t1 where r: "jsonTokenizerRead t = (c, t1)" "at t1 u" by blast
  from at_unread0(1) [OF read_left(3) [OF r(1)] r(2)] assms(2,3) r True show ?thesis
    by (simp add: jsonTokenizerLookahead_def)
next
  case False
  with assms show ?thesis by (auto simp: jsonTokenizerLookahead_def at_def split: if_splits)
qed

lemma at_lookahead: "at t (c # u) \<Longrightarrow> 0 < c \<Longrightarrow>
    \<exists>t'. jsonTokenizerLookahead t = (c, t') \<and> at t' (c # u) \<and> unreadChar t' = c"
  by (rule at_lookahead_any) (auto simp: EOF_def)

lemma at_end_read:
  "at t [] \<Longrightarrow> \<exists>t'. jsonTokenizerRead t = (EOF, t') \<and> at t' []"
  using get_ahead(2) [of "in_stream t"]
  by (auto simp: at_def jsonTokenizerRead_def room_def EOF_def split: if_splits)

lemma at_end:
  assumes "at t []"
  shows "\<exists>t'. jsonTokenizerLookahead t = (EOF, t') \<and> at t' [] \<and> unreadChar t' = EOF"
proof (cases "unreadChar t = 0")
  case True
  from at_end_read [OF assms] obtain t1 where r: "jsonTokenizerRead t = (EOF, t1)" "at t1 []" by blast
  from at_unread0(2) [OF read_left(3) [OF r(1)] r(2)] r True show ?thesis
    by (simp add: jsonTokenizerLookahead_def)
next
  case False
  with assms show ?thesis by (auto simp: jsonTokenizerLookahead_def at_def split: if_splits)
qed

text \<open>A look ahead and a read.\<close>

lemma at_step:
  assumes "at t (c # u)" "0 < c"
  obtains t1 t2 where "jsonTokenizerLookahead t = (c, t1)" "at t1 (c # u)" "unreadChar t1 = c"
    "jsonTokenizerRead t1 = (c, t2)" "at t2 u"
  using at_lookahead [OF assms] at_read assms(2) by blast


lemma at_stringRoom:
  assumes "at t u" "pos < 2 ^ 26"
  shows "\<exists>t'. stringRoom t pos = Some t' \<and> at t' u"
proof (cases "bufferSize t \<le> pos")
  case False
  then show ?thesis using assms(1) by (simp add: stringRoom_def)
next
  case True
  from assms(1) obtain k where k: "k \<le> 12" "bufferSize t = 16384 * 2 ^ k" "2 ^ 26 \<le> tokenAlloc t"
    by (auto simp: at_def room_def)
  have "k \<noteq> 12" using True assms(2) k(2) by auto
  with k(1) have l: "Suc k \<le> 12" by simp
  then have "2 ^ Suc k \<le> (2 ^ 12 :: nat)" by (rule power_increasing) simp
  then have b: "2 * bufferSize t \<le> 2 ^ 26" using k(2) by simp
  have "jsonTokenizerGrowBuffer t = Some (t\<lparr>bufferSize := 2 * bufferSize t\<rparr>)"
    using b k(3) by (simp add: jsonTokenizerGrowBuffer_def INT32_MAX_def JSON_TOKEN_BUFFER_SIZE_LIMIT_def Let_def)
  moreover have "at (t\<lparr>bufferSize := 2 * bufferSize t\<rparr>) u"
    using assms(1) l k(2,3) by (auto simp: at_def room_def intro!: exI [of _ "Suc k"])
  ultimately show ?thesis using True by (simp add: stringRoom_def)
qed

text \<open>White space in front of a token.\<close>

definition blanks :: "int list \<Rightarrow> bool" where
  "blanks ws \<longleftrightarrow> list_all (\<lambda>c. c = 32 \<or> c = 10) ws"

lemma as_char_same: "0 < c \<Longrightarrow> c < 128 \<Longrightarrow> as_char c = c"
  by (simp add: as_char_def char_code_code)

lemma at_skip:
  assumes "at t (ws @ u)" "blanks ws" "u = [] \<or> (0 < hd u \<and> hd u < 128 \<and> \<not> isspace (hd u))"
  shows "at (jsonTokenizerSkipWhitespace t) u"
  using assms(1,2)
proof (induction ws arbitrary: t)
  case Nil
  show ?case
  proof (cases u)
    case u: Nil
    with Nil at_end [of t] as_char_EOF obtain t1 where
      l: "jsonTokenizerLookahead t = (EOF, t1)" "at t1 []" by auto
    have "\<not> isspace (as_char EOF)" unfolding as_char_EOF by (simp add: isspace_def EOF_def)
    with l u show ?thesis by (subst jsonTokenizerSkipWhitespace.simps) simp
  next
    case (Cons c v)
    with assms(3) have c: "0 < c" "c < 128" "\<not> isspace c" by auto
    from Nil Cons have "at t (c # v)" by simp
    from at_lookahead [OF this c(1)] obtain t1 where
      "jsonTokenizerLookahead t = (c, t1)" "at t1 (c # v)" by blast
    with c Cons show ?thesis
      by (subst jsonTokenizerSkipWhitespace.simps) (simp add: as_char_same)
  qed
next
  case (Cons w ws)
  then have w: "0 < w" "w < 128" "isspace w" and b: "blanks ws"
    by (auto simp: blanks_def isspace_def)
  from Cons.prems(1) have "at t (w # (ws @ u))" by simp
  from at_step [OF this w(1)] obtain t1 t2 where s: "jsonTokenizerLookahead t = (w, t1)"
      "jsonTokenizerRead t1 = (w, t2)" "at t2 (ws @ u)" by metis
  from Cons.IH [OF s(3) b] s w show ?case
    by (subst jsonTokenizerSkipWhitespace.simps) (simp add: as_char_same)
qed

subsection \<open>Tokens\<close>


lemma string_step_escape:
  assumes "at t (92 # d # w)" "0 < d" "length buf < 2 ^ 26"
  shows "\<exists>t'. getStringLoop t buf = getStringLoop t' (buf @ [unescape d]) \<and> at t' w"
proof -
  from at_step [OF assms(1)] obtain t1 t2 where k: "jsonTokenizerLookahead t = (92, t1)"
      "jsonTokenizerRead t1 = (92, t2)" "at t2 (d # w)" by (metis zero_less_numeral)
  from at_read [OF k(3) assms(2)] obtain t3 where r: "jsonTokenizerRead t2 = (d, t3)" "at t3 w" by blast
  from at_stringRoom [OF r(2) assms(3)] obtain t4 where "stringRoom t3 (length buf) = Some t4" "at t4 w"
    by blast
  with k r show ?thesis by (subst getStringLoop.simps) (auto simp: EOF_def)
qed

lemma string_step_plain:
  assumes "at t (d # w)" "isprint d" "d \<noteq> 34" "d \<noteq> 92" "length buf < 2 ^ 26"
  shows "\<exists>t'. getStringLoop t buf = getStringLoop t' (buf @ [code_char d]) \<and> at t' w"
proof -
  have d: "0 < d" "d \<noteq> 10" "d \<noteq> EOF" using assms(2) by (auto simp: isprint_def EOF_def)
  from at_step [OF assms(1) d(1)] obtain t1 t2 where k: "jsonTokenizerLookahead t = (d, t1)"
      "jsonTokenizerRead t1 = (d, t2)" "at t2 w" by metis
  from at_stringRoom [OF k(3) assms(5)] obtain t4 where "stringRoom t2 (length buf) = Some t4" "at t4 w"
    by blast
  with k d assms(2-4) show ?thesis by (subst getStringLoop.simps) auto
qed

text \<open>Characters that the escapes of the printer and the filter of the tokenizer preserve.\<close>

definition readable :: "char \<Rightarrow> bool" where
  "readable c \<longleftrightarrow> isprint (char_code c) \<or> c = CHR 0x0A \<or> c = CHR 0x0D"

lemma escape_codes:
  "char_code CHR 0x5C = 92" "char_code CHR 0x22 = 34" "char_code CHR ''n'' = 110"
  "char_code CHR ''r'' = 114" "unescape 110 = CHR 0x0A" "unescape 114 = CHR 0x0D"
  "unescape 34 = CHR 0x22" "unescape 92 = CHR 0x5C"
  by code_simp+



lemma cstr_readable: "list_all readable s \<Longrightarrow> cstr s = s"
proof -
  assume "list_all readable s"
  moreover have "\<not> readable CHR 0x00" by code_simp
  ultimately show ?thesis by (auto simp: cstr_def takeWhile_eq_all_conv list_all_iff)
qed


text \<open>In UTF-8 mode the printable characters are escaped in the same way.\<close>

lemma low_byte: assumes "(b :: byte) < 128" shows "b AND 0x80 = 0"
proof -
  have "uint b < 128" using assms by (simp add: word_less_def)
  then have "\<not> bit (uint b) 7" by (simp add: bit_iff_odd)
  then have n: "\<not> bit b 7" by (simp add: bit_uint_iff)
  have p: "(0x80 :: byte) = push_bit 7 1" by (simp add: push_bit_eq_mult)
  show ?thesis unfolding p
  proof (rule bit_word_eqI)
    fix k assume "k < LENGTH(8)"
    have "bit (push_bit 7 (1 :: byte)) k \<Longrightarrow> k = 7" by (simp only: bit_push_bit_iff bit_1_iff) simp
    then show "bit (b AND push_bit 7 1) k = bit (0 :: byte) k" using n by (auto simp only: bit_and_iff bit_0_eq bot_fun_def bot_bool_def)
  qed
qed


subsection \<open>Numbers and words\<close>








subsection \<open>One token from a text\<close>

text \<open>
  \<open>tokenizes v w k u\<close>: with version \<open>v\<close>, a tokenizer in front of \<open>w\<close> delivers \<open>k\<close> and stands in
  front of \<open>u\<close>.
\<close>

definition tokenizes :: "nat \<Rightarrow> int list \<Rightarrow> jsonToken \<Rightarrow> int list \<Rightarrow> bool" where
  "tokenizes v w k u \<longleftrightarrow>
     (w = [] \<or> (0 < hd w \<and> hd w < 128 \<and> \<not> isspace (hd w))) \<and> \<not> isComment k \<and>
     (\<forall>t. at t w \<longrightarrow> unreadChar t = (if w = [] then EOF else hd w) \<longrightarrow>
        (\<exists>t'. scanToken (unreadChar t) v t = Some (k, t') \<and> at t' u))"

definition facing :: "jsonParser \<Rightarrow> nat \<Rightarrow> int list \<Rightarrow> bool" where
  "facing p v u \<longleftrightarrow> unreadToken p = None \<and> version p = v \<and> at (tokenizer p) u"

lemma at_lastToken [simp]: "at (t\<lparr>lastTokenLineNumber := l, lastTokenColumnNumber := c\<rparr>) u = at t u"
  by (simp add: at_def room_def)

lemma at_startToken:
  assumes "at t (ws @ w)" "blanks ws" "w = [] \<or> (0 < hd w \<and> hd w < 128 \<and> \<not> isspace (hd w))"
  shows "\<exists>t'. startToken t = (if w = [] then EOF else hd w, t') \<and> at t' w \<and>
     unreadChar t' = (if w = [] then EOF else hd w)"
proof (cases w)
  case Nil
  with at_skip [OF assms] at_end [of "jsonTokenizerSkipWhitespace t"] show ?thesis
    by (auto simp: startToken_def)
next
  case (Cons c v)
  with assms(3) have c: "0 < c" by simp
  from at_lookahead [OF _ c] at_skip [OF assms] Cons obtain t1 where
    "jsonTokenizerLookahead (jsonTokenizerSkipWhitespace t) = (c, t1)" "at t1 (c # v)" "unreadChar t1 = c"
    by metis
  with Cons show ?thesis by (simp add: startToken_def)
qed

lemma next_token:
  assumes "facing p v (ws @ w)" "blanks ws" "tokenizes v w k u"
  shows "\<exists>p'. jsonNextToken p = (k, p') \<and> facing p' v u"
proof -
  from assms(1) have p: "unreadToken p = None" "version p = v" "at (tokenizer p) (ws @ w)"
    by (simp_all add: facing_def)
  from assms(3) have h: "w = [] \<or> (0 < hd w \<and> hd w < 128 \<and> \<not> isspace (hd w))" "\<not> isComment k"
    by (simp_all add: tokenizes_def)
  from at_startToken [OF p(3) assms(2) h(1)] obtain t where
    s: "startToken (tokenizer p) = (unreadChar t, t)" "at t w" "unreadChar t = (if w = [] then EOF else hd w)"
    by metis
  with assms(3) obtain t' where "scanToken (unreadChar t) v t = Some (k, t')" "at t' u"
    unfolding tokenizes_def by blast
  with p s(1) h(2) show ?thesis by (subst jsonNextToken.simps) (simp add: facing_def)
qed






lemma cstr_punct: "cstr ''{'' = ''{''" "cstr ''}'' = ''}''" "cstr ''['' = ''[''" "cstr '']'' = '']''"
  "cstr '':'' = '':''" "cstr '','' = '',''" "cstr ''EOF'' = ''EOF''"
  by code_simp+



lemma tokenizes_end: "tokenizes v [] \<lparr>ttype = TOKEN_EOF, ttext = ''EOF''\<rparr> []"
proof -
  have "\<exists>t'. singleToken TOKEN_EOF ''EOF'' t = (\<lparr>ttype = TOKEN_EOF, ttext = ''EOF''\<rparr>, t') \<and> at t' []"
    if "at t []" for t
    using at_end_read [OF that] by (auto simp: singleToken_def makeJsonToken_def cstr_punct)
  then show ?thesis
    by (auto simp: tokenizes_def isComment_def scanToken_def isdigit_def isalpha_def EOF_def)
qed

subsection \<open>The parser in front of a token\<close>

lemma look_token:
  assumes "facing p v (ws @ w)" "blanks ws" "tokenizes v w k u"
  shows "\<exists>p'. facing p' v u \<and> jsonLookaheadToken p = (k, p'\<lparr>unreadToken := Some k\<rparr>)"
  using next_token [OF assms] assms(1) by (auto simp: jsonLookaheadToken_def facing_def)

lemma match_held:
  assumes "facing p v u"
  shows "jsonMatchToken (ttype k) (p\<lparr>unreadToken := Some k\<rparr>) = (k, p)"
proof -
  have "p\<lparr>unreadToken := None\<rparr> = p" using assms by (cases p) (simp add: facing_def)
  then show ?thesis by (subst jsonMatchToken_def) (simp add: jsonNextToken.simps)
qed

lemma match_token:
  assumes "facing p v (ws @ w)" "blanks ws" "tokenizes v w k u"
  shows "\<exists>p'. jsonMatchToken (ttype k) p = (k, p') \<and> facing p' v u"
  using next_token [OF assms] by (auto simp: jsonMatchToken_def)



subsection \<open>What comes back\<close>




fun need :: "json \<Rightarrow> nat" and need_members :: "property list \<Rightarrow> nat"
  and need_elements :: "json list \<Rightarrow> nat" where
  "need (JObject ps) = need_members ps + 2"
| "need (JArray js) = need_elements js + 2"
| "need _ = 1"
| "need_members [] = 1"
| "need_members ((k, j) # ps) = need j + need_members ps + 1"
| "need_elements [] = 1"
| "need_elements (j # js) = need j + need_elements js + 1"

lemma need_pos: "0 < need j" "0 < need_members ps" "0 < need_elements js"
  by (induction j and ps and js rule: need_need_members_need_elements.induct
      [case_names 1 2 number str boolean null int64 double error 4 5 6 7]) simp_all


subsection \<open>Scalars\<close>

lemma parse_scalar:
  assumes "facing p v (ws @ w)" "blanks ws" "tokenizes v w k u" "n = Suc m"
    and get: "\<And>q. jsonParse n f p = Some (jsonGetScalar (ttype k) build q) \<or> \<not> jsonLookaheadToken p = (k, q)"
    and "ttype k \<noteq> TOKEN_UNMATCHED"
  shows "\<exists>p'. jsonParse n f p = Some (build (ttext k), p') \<and> facing p' v u"
proof -
  from look_token [OF assms(1-3)] obtain p1 where p1: "facing p1 v u"
      "jsonLookaheadToken p = (k, p1\<lparr>unreadToken := Some k\<rparr>)" by blast
  from get [of "p1\<lparr>unreadToken := Some k\<rparr>"] p1(2)
  have "jsonParse n f p = Some (jsonGetScalar (ttype k) build (p1\<lparr>unreadToken := Some k\<rparr>))" by blast
  with match_held [OF p1(1), of k] p1(1) assms(6) show ?thesis
    by (simp add: jsonGetScalar_def jsonIsTokenUnmatched_def)
qed





subsection \<open>Objects and arrays\<close>




lemma blanks_app [simp]: "blanks (a @ b) \<longleftrightarrow> blanks a \<and> blanks b" "blanks []"
  "blanks (c # w) \<longleftrightarrow> (c = 32 \<or> c = 10) \<and> blanks w"
  by (simp_all add: blanks_def)



lemma ctext_quoted: "ctext (quoted e s) = 34 # ctext (e s) @ [34]"
  by (simp add: quoted_def escape_codes)






subsection \<open>Whole texts\<close>






lemma facing_new:
  "2 ^ 26 \<le> alloc \<Longrightarrow> facing (makeJsonParser s alloc) 0 (ctext s)"
  "2 ^ 26 \<le> alloc \<Longrightarrow> facing ((makeJsonFileParser cs alloc)\<lparr>version := v\<rparr>) v cs"
  by (auto simp: facing_def makeJsonParser_def makeJsonFileParser_def at_def room_def makeJsonTokenizer_def
      makeBufferCharStream_def makeFileCharStream_def JSON_TOKEN_BUFFER_SIZE_def ctext_def
      intro!: exI [of _ 0])



subsection \<open>A text that is one string\<close>

lemma parse_quoted:
  assumes "\<And>t. at t (w @ [34]) \<Longrightarrow> \<exists>t'. getStringLoop t [] = (TOKEN_STRING, s, t') \<and> at t' []"
    and "cstr s = s" "2 ^ 26 \<le> alloc" "ctext q = 34 # w @ [34]"
  shows "jsonParseUnterminatedString f alloc q e = Some (Some (JString s), None)"
proof -
  have k: "\<exists>t'. getStringToken t = (\<lparr>ttype = TOKEN_STRING, ttext = s\<rparr>, t') \<and> at t' []"
    if "at t (34 # w @ [34])" for t
    using at_read [OF that] assms(1) by (force simp: getStringToken_def makeJsonToken_def assms(2))
  have t: "tokenizes 0 (34 # w @ [34]) \<lparr>ttype = TOKEN_STRING, ttext = s\<rparr> []"
    using k by (simp add: tokenizes_def isComment_def isspace_def scanToken_def)
  let ?p = "makeJsonParser q alloc"
  have p: "facing ?p 0 ([] @ 34 # w @ [34])" using facing_new(1) [OF assms(3), of q] assms(4) by simp
  obtain m where fuel: "parse_fuel ?p = Suc m" by (simp add: parse_fuel_def)
  from parse_scalar [OF p _ t refl, where f = f and m = m and build = JString] obtain p1 where
    1: "jsonParse (parse_fuel ?p) f ?p = Some (JString s, p1)" "facing p1 0 []"
    unfolding fuel by (fastforce simp: jsonGetString_def)
  from match_token [of p1 0 "[]" "[]", OF _ _ tokenizes_end] 1(2) obtain p2 where
    "jsonMatchToken TOKEN_EOF p1 = (\<lparr>ttype = TOKEN_EOF, ttext = ''EOF''\<rparr>, p2)" by auto
  with 1 show ?thesis by (simp add: jsonParseUnterminatedString_def parseAll_def jsonIsTokenUnmatched_def)
qed

lemma string_end:
  assumes "at t (34 # u)"
  shows "\<exists>t'. getStringLoop t buf = (TOKEN_STRING, buf, t') \<and> at t' u"
proof -
  from at_step [OF assms] obtain t1 t2 where "jsonTokenizerLookahead t = (34, t1)"
      "jsonTokenizerRead t1 = (34, t2)" "at t2 u" by (metis zero_less_numeral)
  then show ?thesis by (subst getStringLoop.simps) (simp add: EOF_def)
qed

text \<open>A character that is not printable is dropped.\<close>

definition ordinary :: "char \<Rightarrow> bool" where
  "ordinary c \<longleftrightarrow> char_code c \<notin> {0, EOF, 10, 34, 92}"

lemma string_step_drop:
  assumes "at t (d # w)" "d \<notin> {0, EOF, 10, 34, 92}" "\<not> isprint d"
  shows "\<exists>t'. getStringLoop t buf = getStringLoop t' buf \<and> at t' w"
proof -
  from at_lookahead_any [OF assms(1)] assms(2) obtain t1 where
    l: "jsonTokenizerLookahead t = (d, t1)" "at t1 (d # w)" by auto
  from at_read_any [OF l(2)] assms(2) obtain t2 where
    "jsonTokenizerRead t1 = (d, t2)" "at t2 w" by auto
  with l assms(2,3) show ?thesis by (subst getStringLoop.simps) auto
qed

lemma at_ordinary:
  assumes "at t (ctext s @ 34 # u)" "list_all ordinary s" "length buf + length s \<le> 2 ^ 26"
  shows "\<exists>t'. getStringLoop t buf = (TOKEN_STRING, buf @ filter (\<lambda>c. isprint (char_code c)) s, t') \<and> at t' u"
  using assms
proof (induction s arbitrary: t buf)
  case Nil
  then show ?case using string_end [of t u buf] by simp
next
  case (Cons c s)
  let ?w = "ctext s @ 34 # u"
  from Cons.prems have a: "at t (char_code c # ?w)" and o: "char_code c \<notin> {0, EOF, 10, 34, 92}"
    and l: "list_all ordinary s" "length buf < 2 ^ 26"
    using ordinary_def [of c] by simp_all
  show ?case
  proof (cases "isprint (char_code c)")
    case True
    from string_step_plain [OF a True _ _ l(2)] o obtain t' where
      t': "getStringLoop t buf = getStringLoop t' (buf @ [c])" "at t' ?w" by auto
    from Cons.IH [OF t'(2) l(1), of "buf @ [c]"] Cons.prems(3) t'(1) True show ?thesis by simp
  next
    case False
    from string_step_drop [OF a o False] obtain t' where
      t': "getStringLoop t buf = getStringLoop t' buf" "at t' ?w" by blast
    from Cons.IH [OF t'(2) l(1), of buf] Cons.prems(3) t'(1) False show ?thesis by simp
  qed
qed

text \<open>The escape of a control character, as the tokenizer reads it.\<close>

lemma at_unicode_escape:
  assumes "at t (92 # 117 # ctext h @ 34 # u)" "list_all (\<lambda>c. isprint (char_code c) \<and> ordinary c) h"
    "length h < 2 ^ 26"
  shows "\<exists>t'. getStringLoop t [] = (TOKEN_STRING, CHR ''u'' # h, t') \<and> at t' u"
proof -
  have e: "unescape 117 = CHR ''u''" by code_simp
  from string_step_escape [OF assms(1), of "[]"] obtain t' where
    t': "getStringLoop t [] = getStringLoop t' [CHR ''u'']" "at t' (ctext h @ 34 # u)" by (auto simp: e)
  have o: "list_all ordinary h" "filter (\<lambda>c. isprint (char_code c)) h = h"
    using assms(2) by (auto simp: list_all_iff)
  from at_ordinary [OF t'(2) o(1), of "[CHR ''u'']"] assms(3) t'(1) o(2) show ?thesis by simp
qed

subsection \<open>Properties\<close>

text \<open>
  C24. Parsing always ends, whatever the bytes, the version and the storage: the result is a value
  that is not an error, or no value and the message of the first failure (the code never
  follows a null \<open>parser->jsonError\<close>), for strings and for files.
\<close>

theorem parse_always_answers:
  "((\<exists>j. jsonParseUnterminatedString f alloc s e = Some (Some j, None) \<and> \<not> jsonIsError j) \<or>
    (\<exists>m. jsonParseUnterminatedString f alloc s e = Some (None, Some m))) \<and>
   ((\<exists>j. jsonParseFileInternal f alloc name file e v = Some (Some j, None) \<and> \<not> jsonIsError j) \<or>
    (\<exists>m. jsonParseFileInternal f alloc name file e v = Some (None, Some m)))"
proof
  show "(\<exists>j. jsonParseUnterminatedString f alloc s e = Some (Some j, None) \<and> \<not> jsonIsError j) \<or>
    (\<exists>m. jsonParseUnterminatedString f alloc s e = Some (None, Some m))"
    using parseAll_result [of "makeJsonParser s alloc" f e]
    by (simp add: jsonParseUnterminatedString_def makeJsonParser_def)
  show "(\<exists>j. jsonParseFileInternal f alloc name file e v = Some (Some j, None) \<and> \<not> jsonIsError j) \<or>
    (\<exists>m. jsonParseFileInternal f alloc name file e v = Some (None, Some m))"
  proof (cases "file")
    case None
    then show ?thesis by (simp add: jsonParseFileInternal_def)
  next
    case (Some cs)
    from parseAll_result [of "(makeJsonFileParser cs alloc)\<lparr>version := v\<rparr>" f e] Some
    show ?thesis by (simp add: jsonParseFileInternal_def makeJsonFileParser_def)
  qed
qed





text \<open>
  C27. The escapes of the UTF-8 mode do not come back. A control character is written as its
  \<open>\u\<close> escape, which the parser does not decode: the string read consists of the letter u and
  the four digits.
\<close>

theorem control_characters_do_not_return:
  assumes "0 \<le> char_code c" "char_code c < 32" "2 ^ 26 \<le> alloc"
  shows "jsonParseUnterminatedString f alloc (value_text env escapeUtf8 pp d (JString [c])) e =
     Some (Some (JString (CHR ''u'' # CHR ''0'' # CHR ''0'' #
       [hex_char (nat (char_code c div 16)), hex_char (nat (char_code c mod 16))])), None)"
proof -
  let ?h = "CHR ''0'' # CHR ''0'' #
      [hex_char (nat (char_code c div 16)), hex_char (nat (char_code c mod 16))]"
  have b: "(of_char c :: byte) = word_of_int (char_code c)"
    using ascii_code(2) [OF assms(1)] by (metis of_nat_of_char of_int_of_nat_eq)
  have lt: "(of_char c :: byte) < 128" "uint (of_char c :: byte) = char_code c"
    unfolding b using assms(1,2) by (simp_all add: word_less_def uint_word_of_int)
  have u: "utf8_next c = (char_code c, 1)" using lt(2) low_byte [OF lt(1)] by (simp add: utf8_next_def Let_def)
  have esc: "escapeUtf8 [c] = [CHR 0x5C, CHR ''u''] @ ?h"
    using u assms(2) by (simp add: must_escape_def utf8_escape_def UTF8_BACKSLASH_def UTF8_QUOTE_def)
  have hex: "isprint (char_code (hex_char n)) \<and> ordinary (hex_char n)" if "n < 16" for n
  proof -
    have "\<forall>n \<in> set [0..<16]. isprint (char_code (hex_char n)) \<and> ordinary (hex_char n)" by code_simp
    with that show ?thesis by (simp add: atLeast0LessThan)
  qed
  have "isprint (char_code CHR ''0'') \<and> ordinary CHR ''0''" by code_simp
  then have ok: "list_all (\<lambda>c. isprint (char_code c) \<and> ordinary c) ?h"
    using hex [of "nat (char_code c div 16)"] hex [of "nat (char_code c mod 16)"] assms(1,2) by auto
  have w: "ctext (value_text env escapeUtf8 pp d (JString [c])) = 34 # (92 # 117 # ctext ?h) @ [34]"
  proof -
    have "char_code CHR ''u'' = 117" by code_simp
    then show ?thesis unfolding value_text.simps ctext_quoted esc by (simp add: escape_codes)
  qed
  show ?thesis
  proof (rule parse_quoted [OF _ _ assms(3) w])
    fix t assume "at t ((92 # 117 # ctext ?h) @ [34])"
    then show "\<exists>t'. getStringLoop t [] = (TOKEN_STRING, CHR ''u'' # ?h, t') \<and> at t' []"
      using at_unicode_escape [of t ?h "[]", OF _ ok] by simp
  next
    have "readable CHR ''u''" by code_simp
    then show "cstr (CHR ''u'' # ?h) = CHR ''u'' # ?h"
      using ok by (intro cstr_readable) (auto simp: readable_def list_all_iff)
  qed
qed

theorem control_characters_do_not_return_witness:
  "jsonParseUnterminatedString (fp demo_env) (2 ^ 26) (value_text demo_env escapeUtf8 False 0 (JString [CHR 0x1B])) 80 =
     Some (Some (JString ''u001b''), None)"
proof -
  have c: "char_code CHR 0x1B = 27" "hex_char (Suc 0) = CHR ''1''" "hex_char 11 = CHR ''b''" by code_simp+
  from control_characters_do_not_return [of "CHR 0x1B" "2 ^ 26" "fp demo_env" demo_env False 0 80]
  show ?thesis by (simp add: c del: value_text.simps)
qed

end
