(* ===== verification/JsonBuilder.thy ===== *)
theory JsonBuilder
  imports JsonData CStrings
begin

section \<open>Building, copying and merging JSON values\<close>

text \<open>
  \<open>JsonBuilder\<close> and \<open>JsonMerger\<close> of \<open>c/json.c\<close>. A builder adds nodes under a parent that it
  changes in place, so that the nodes live in a store: \<open>nodes\<close> maps an address to a scalar, to an
  object with its properties or to an array with its vector, and \<open>next_node\<close> is the address of the
  next allocation on the \<open>ShortLivedHeap\<close>, which is taken to have room. \<open>NULL\<close> is address 0.
  \<open>is_tree\<close> says that a value can be read at an address, within a range of addresses.
\<close>

datatype node = NScalar json | NObject "(string \<times> ptr) list" | NArray "ptr json_array"

record jsonBuilder =
  nodes :: "ptr \<Rightarrow> node option"
  next_node :: ptr
  root :: ptr

definition makeJsonBuilder :: jsonBuilder where
  "makeJsonBuilder = \<lparr>nodes = (\<lambda>_. None), next_node = 1, root = NULL\<rparr>"

definition ADD_TO_ROOT :: int where "ADD_TO_ROOT = -1"
definition ADD_TO_OBJECT :: int where "ADD_TO_OBJECT = -2"
definition ADD_TO_ARRAY :: int where "ADD_TO_ARRAY = -3"
definition JSON_BUILD_FAIL_PARENT_IS_SCALAR :: int where "JSON_BUILD_FAIL_PARENT_IS_SCALAR = 12"
definition JSON_BUILD_FAIL_KEY_ON_ARRAY :: int where "JSON_BUILD_FAIL_KEY_ON_ARRAY = 16"
definition JSON_BUILD_FAIL_KEY_ON_ROOT :: int where "JSON_BUILD_FAIL_KEY_ON_ROOT = 20"
definition JSON_BUILD_FAIL_NO_KEY_ON_OBJECT :: int where "JSON_BUILD_FAIL_NO_KEY_ON_OBJECT = 24"

lemmas build_codes = ADD_TO_ROOT_def ADD_TO_OBJECT_def ADD_TO_ARRAY_def
  JSON_BUILD_FAIL_PARENT_IS_SCALAR_def JSON_BUILD_FAIL_KEY_ON_ARRAY_def
  JSON_BUILD_FAIL_KEY_ON_ROOT_def JSON_BUILD_FAIL_NO_KEY_ON_OBJECT_def

definition checkParentLValue :: "jsonBuilder \<Rightarrow> ptr \<Rightarrow> string option \<Rightarrow> int" where
  "checkParentLValue b parent parentKey =
     (if parent \<noteq> NULL then
        (case nodes b parent of
           Some (NObject _) \<Rightarrow>
             (if parentKey \<noteq> None then ADD_TO_OBJECT else JSON_BUILD_FAIL_NO_KEY_ON_OBJECT)
         | Some (NArray _) \<Rightarrow>
             (if parentKey \<noteq> None then JSON_BUILD_FAIL_KEY_ON_ARRAY else ADD_TO_ARRAY)
         | _ \<Rightarrow> JSON_BUILD_FAIL_PARENT_IS_SCALAR)
      else if parentKey \<noteq> None then JSON_BUILD_FAIL_KEY_ON_ROOT else ADD_TO_ROOT)"

definition addToParent :: "jsonBuilder \<Rightarrow> int \<Rightarrow> ptr \<Rightarrow> string option \<Rightarrow> ptr \<Rightarrow> jsonBuilder" where
  "addToParent b lvalueStatus parent parentKey json =
     (if lvalueStatus = ADD_TO_ROOT then b\<lparr>root := json\<rparr>
      else if lvalueStatus = ADD_TO_OBJECT then
        (case (nodes b parent, parentKey) of
           (Some (NObject ps), Some key) \<Rightarrow>
             b\<lparr>nodes := (nodes b)(parent \<mapsto> NObject (ps @ [(key, json)]))\<rparr>
         | _ \<Rightarrow> b)
      else if lvalueStatus = ADD_TO_ARRAY then
        (case nodes b parent of
           Some (NArray arr) \<Rightarrow> b\<lparr>nodes := (nodes b)(parent \<mapsto> NArray (jsonArrayAddElement arr json))\<rparr>
         | _ \<Rightarrow> b)
      else b)"

text \<open>
  What the eight calls \<open>jsonBuildObject\<close> to \<open>jsonBuildNull\<close> share: the test of the parent, the
  allocation of the node, and its attachment. The results are the node or \<open>NULL\<close>, the error code
  and the builder.
\<close>

definition jsonBuildNode :: "jsonBuilder \<Rightarrow> ptr \<Rightarrow> string option \<Rightarrow> node \<Rightarrow> ptr \<times> int \<times> jsonBuilder" where
  "jsonBuildNode b parent parentKey n =
     (let lvalueStatus = checkParentLValue b parent parentKey in
      if lvalueStatus < 0 then
        let json = next_node b;
            b1 = b\<lparr>nodes := (nodes b)(json \<mapsto> n), next_node := json + 1\<rparr>
        in (json, 0, addToParent b1 lvalueStatus parent parentKey json)
      else (NULL, lvalueStatus, b))"

definition jsonBuildObject :: "jsonBuilder \<Rightarrow> ptr \<Rightarrow> string option \<Rightarrow> ptr \<times> int \<times> jsonBuilder" where
  "jsonBuildObject b parent parentKey = jsonBuildNode b parent parentKey (NObject [])"

definition jsonBuildArray :: "jsonBuilder \<Rightarrow> ptr \<Rightarrow> string option \<Rightarrow> ptr \<times> int \<times> jsonBuilder" where
  "jsonBuildArray b parent parentKey = jsonBuildNode b parent parentKey (NArray (newJsonArray 8))"

definition jsonBuildString ::
  "jsonBuilder \<Rightarrow> ptr \<Rightarrow> string option \<Rightarrow> string \<Rightarrow> nat \<Rightarrow> ptr \<times> int \<times> jsonBuilder" where
  "jsonBuildString b parent parentKey s sLen =
     jsonBuildNode b parent parentKey (NScalar (JString (take sLen s)))"

definition jsonBuildInt :: "jsonBuilder \<Rightarrow> ptr \<Rightarrow> string option \<Rightarrow> 32 word \<Rightarrow> ptr \<times> int \<times> jsonBuilder" where
  "jsonBuildInt b parent parentKey i = jsonBuildNode b parent parentKey (NScalar (JNumber i))"

definition jsonBuildInt64 :: "jsonBuilder \<Rightarrow> ptr \<Rightarrow> string option \<Rightarrow> 64 word \<Rightarrow> ptr \<times> int \<times> jsonBuilder" where
  "jsonBuildInt64 b parent parentKey i = jsonBuildNode b parent parentKey (NScalar (JInt64 i))"

definition jsonBuildDouble :: "jsonBuilder \<Rightarrow> ptr \<Rightarrow> string option \<Rightarrow> double \<Rightarrow> ptr \<times> int \<times> jsonBuilder" where
  "jsonBuildDouble b parent parentKey d = jsonBuildNode b parent parentKey (NScalar (JDouble d))"

definition jsonBuildBool :: "jsonBuilder \<Rightarrow> ptr \<Rightarrow> string option \<Rightarrow> bool \<Rightarrow> ptr \<times> int \<times> jsonBuilder" where
  "jsonBuildBool b parent parentKey truthValue =
     jsonBuildNode b parent parentKey (NScalar (JBoolean (if truthValue then 1 else 0)))"

definition jsonBuildNull :: "jsonBuilder \<Rightarrow> ptr \<Rightarrow> string option \<Rightarrow> ptr \<times> int \<times> jsonBuilder" where
  "jsonBuildNull b parent parentKey = jsonBuildNode b parent parentKey (NScalar JNull)"

definition jsonBuildKey :: "string \<Rightarrow> nat \<Rightarrow> string" where
  "jsonBuildKey key len = cstr (take len key)"

subsection \<open>Copying\<close>

text \<open>\<open>strlen\<close> of a string value is its length: the values hold C strings.\<close>

fun copyJson :: "jsonBuilder \<Rightarrow> ptr \<Rightarrow> string option \<Rightarrow> json \<Rightarrow> jsonBuilder"
  and copyProps :: "jsonBuilder \<Rightarrow> ptr \<Rightarrow> property list \<Rightarrow> jsonBuilder"
  and copyElements :: "jsonBuilder \<Rightarrow> ptr \<Rightarrow> json list \<Rightarrow> jsonBuilder" where
  "copyJson b parent parentKey (JObject ps) =
     (case jsonBuildObject b parent parentKey of (copyObject, _, b1) \<Rightarrow> copyProps b1 copyObject ps)"
| "copyJson b parent parentKey (JArray js) =
     (case jsonBuildArray b parent parentKey of (copyArray, _, b1) \<Rightarrow> copyElements b1 copyArray js)"
| "copyJson b parent parentKey (JBoolean v) = snd (snd (jsonBuildBool b parent parentKey (v \<noteq> 0)))"
| "copyJson b parent parentKey JNull = snd (snd (jsonBuildNull b parent parentKey))"
| "copyJson b parent parentKey (JDouble d) = snd (snd (jsonBuildDouble b parent parentKey d))"
| "copyJson b parent parentKey (JInt64 i) = snd (snd (jsonBuildInt64 b parent parentKey i))"
| "copyJson b parent parentKey (JNumber n) = snd (snd (jsonBuildInt b parent parentKey n))"
| "copyJson b parent parentKey (JString s) = snd (snd (jsonBuildString b parent parentKey s (length s)))"
| "copyJson b parent parentKey (JError m) = b"
| "copyProps b copyObject [] = b"
| "copyProps b copyObject ((k, v) # ps) = copyProps (copyJson b copyObject (Some k) v) copyObject ps"
| "copyElements b copyArray [] = b"
| "copyElements b copyArray (j # js) = copyElements (copyJson b copyArray None j) copyArray js"

subsection \<open>Merging\<close>

definition JSON_MERGE_STATUS_SUCCESS :: nat where
  "JSON_MERGE_STATUS_SUCCESS = 0"

definition JSON_MERGE_FLAG_ARRAY_POLICY_MASK :: "32 word" where
  "JSON_MERGE_FLAG_ARRAY_POLICY_MASK = 0x000F"

definition JSON_MERGE_FLAG_CONCATENATE_ARRAYS :: "32 word" where
  "JSON_MERGE_FLAG_CONCATENATE_ARRAYS = 1"

definition JSON_MERGE_FLAG_MERGE_IN_PLACE :: "32 word" where
  "JSON_MERGE_FLAG_MERGE_IN_PLACE = 2"

definition JSON_MERGE_FLAG_TAKE_BASE :: "32 word" where
  "JSON_MERGE_FLAG_TAKE_BASE = 3"

definition JSON_MERGE_FLAG_TAKE_OVERRIDES :: "32 word" where
  "JSON_MERGE_FLAG_TAKE_OVERRIDES = 4"

text \<open>The second loop over the properties of two objects.\<close>

fun mergeOverrideLoop :: "jsonBuilder \<Rightarrow> ptr \<Rightarrow> property list \<Rightarrow> property list \<Rightarrow> jsonBuilder" where
  "mergeOverrideLoop b merged baseObject [] = b"
| "mergeOverrideLoop b merged baseObject ((k, v) # ps) =
     mergeOverrideLoop (if jsonObjectHasKey baseObject k then b else copyJson b merged (Some k) v)
       merged baseObject ps"

fun mergeJson1 :: "32 word \<Rightarrow> jsonBuilder \<Rightarrow> ptr \<Rightarrow> string option \<Rightarrow> json \<Rightarrow> json \<Rightarrow> nat \<times> jsonBuilder"
  and mergeBaseLoop :: "32 word \<Rightarrow> jsonBuilder \<Rightarrow> ptr \<Rightarrow> property list \<Rightarrow> property list \<Rightarrow> nat \<times> jsonBuilder"
  and mergeInPlace :: "32 word \<Rightarrow> jsonBuilder \<Rightarrow> ptr \<Rightarrow> json list \<Rightarrow> json list \<Rightarrow> jsonBuilder" where
  "mergeJson1 flags b parent parentKey overrides (JObject baseObject) =
     (case overrides of
        JObject overridesObject \<Rightarrow>
          (case jsonBuildObject b parent parentKey of
             (merged, _, b1) \<Rightarrow>
               (case mergeBaseLoop flags b1 merged overridesObject baseObject of
                  (status, b2) \<Rightarrow>
                    (status,
                     if status = 0 then mergeOverrideLoop b2 merged baseObject overridesObject else b2)))
      | _ \<Rightarrow> (JSON_MERGE_STATUS_SUCCESS, copyJson b parent parentKey overrides))"
| "mergeJson1 flags b parent parentKey overrides (JArray baseArray) =
     (case overrides of
        JArray overridesArray \<Rightarrow>
          (case jsonBuildArray b parent parentKey of
             (merged, _, b1) \<Rightarrow>
               let arrayPolicy = flags AND JSON_MERGE_FLAG_ARRAY_POLICY_MASK in
               (JSON_MERGE_STATUS_SUCCESS,
                if arrayPolicy = JSON_MERGE_FLAG_CONCATENATE_ARRAYS
                then copyElements (copyElements b1 merged baseArray) merged overridesArray
                else if arrayPolicy = JSON_MERGE_FLAG_MERGE_IN_PLACE
                then mergeInPlace flags b1 merged overridesArray baseArray
                else if arrayPolicy = JSON_MERGE_FLAG_TAKE_BASE
                then copyElements b1 merged baseArray
                else copyElements b1 merged overridesArray))
      | _ \<Rightarrow> (JSON_MERGE_STATUS_SUCCESS, copyJson b parent parentKey overrides))"
| "mergeJson1 flags b parent parentKey overrides base =
     (JSON_MERGE_STATUS_SUCCESS, copyJson b parent parentKey overrides)"
| "mergeBaseLoop flags b merged overridesObject [] = (JSON_MERGE_STATUS_SUCCESS, b)"
| "mergeBaseLoop flags b merged overridesObject ((k, v) # ps) =
     (case jsonObjectGetPropertyValue overridesObject k of
        None \<Rightarrow> mergeBaseLoop flags (copyJson b merged (Some k) v) merged overridesObject ps
      | Some overrideValue \<Rightarrow>
          (case mergeJson1 flags b merged (Some k) overrideValue v of
             (status, b1) \<Rightarrow>
               if status = 0 then mergeBaseLoop flags b1 merged overridesObject ps else (status, b1)))"
| "mergeInPlace flags b merged os [] = copyElements b merged os"
| "mergeInPlace flags b merged [] (v # vs) = mergeInPlace flags (copyJson b merged None v) merged [] vs"
| "mergeInPlace flags b merged (w # ws) (v # vs) =
     mergeInPlace flags (snd (mergeJson1 flags b merged None w v)) merged ws vs"

text \<open>The value returned, the status, and the store it lives in.\<close>

definition jsonMerge :: "json \<Rightarrow> json \<Rightarrow> 32 word \<Rightarrow> ptr \<times> nat \<times> jsonBuilder" where
  "jsonMerge overrides base flags =
     (case mergeJson1 flags makeJsonBuilder NULL None overrides base of
        (status, b) \<Rightarrow> (if status \<noteq> 0 then NULL else root b, status, b))"

definition jsonCopy :: "json \<Rightarrow> ptr \<times> jsonBuilder" where
  "jsonCopy v = (let b = copyJson makeJsonBuilder NULL None v in (root b, b))"

subsection \<open>Reading the store\<close>

text \<open>\<open>is_tree m lo hi j a\<close>: the value \<open>j\<close> is at \<open>a\<close>, in nodes from \<open>lo\<close> up to \<open>hi\<close>.\<close>

fun is_tree :: "(ptr \<Rightarrow> node option) \<Rightarrow> ptr \<Rightarrow> ptr \<Rightarrow> json \<Rightarrow> ptr \<Rightarrow> bool"
  and are_props :: "(ptr \<Rightarrow> node option) \<Rightarrow> ptr \<Rightarrow> ptr \<Rightarrow> property list \<Rightarrow> (string \<times> ptr) list \<Rightarrow> bool"
  and are_elems :: "(ptr \<Rightarrow> node option) \<Rightarrow> ptr \<Rightarrow> ptr \<Rightarrow> json list \<Rightarrow> ptr list \<Rightarrow> bool" where
  "is_tree m lo hi (JObject ps) a \<longleftrightarrow> lo \<le> a \<and> a < hi \<and>
     (case m a of Some (NObject qs) \<Rightarrow> are_props m (a + 1) hi ps qs | _ \<Rightarrow> False)"
| "is_tree m lo hi (JArray js) a \<longleftrightarrow> lo \<le> a \<and> a < hi \<and>
     (case m a of Some (NArray arr) \<Rightarrow> are_elems m (a + 1) hi js (array_items arr) | _ \<Rightarrow> False)"
| "is_tree m lo hi j a \<longleftrightarrow> lo \<le> a \<and> a < hi \<and> m a = Some (NScalar j)"
| "are_props m lo hi [] [] \<longleftrightarrow> True"
| "are_props m lo hi ((k, j) # ps) ((k', a) # qs) \<longleftrightarrow> k = k' \<and> is_tree m lo hi j a \<and> are_props m lo hi ps qs"
| "are_props m lo hi ps qs \<longleftrightarrow> False"
| "are_elems m lo hi [] [] \<longleftrightarrow> True"
| "are_elems m lo hi (j # js) (a # as) \<longleftrightarrow> is_tree m lo hi j a \<and> are_elems m lo hi js as"
| "are_elems m lo hi js as \<longleftrightarrow> False"

subsection \<open>What copying and merging yield\<close>

text \<open>A copy differs in a boolean only, which becomes 0 or 1.\<close>

fun copied :: "json \<Rightarrow> json" where
  "copied (JBoolean v) = JBoolean (if v \<noteq> 0 then 1 else 0)"
| "copied (JObject ps) = JObject (map (\<lambda>(k, v). (k, copied v)) ps)"
| "copied (JArray js) = JArray (map copied js)"
| "copied j = j"

abbreviation copied_props :: "property list \<Rightarrow> property list" where
  "copied_props \<equiv> map (\<lambda>(k, v). (k, copied v))"

fun merge_spec :: "32 word \<Rightarrow> json \<Rightarrow> json \<Rightarrow> json"
  and merge_props :: "32 word \<Rightarrow> property list \<Rightarrow> property list \<Rightarrow> property list"
  and merge_elems :: "32 word \<Rightarrow> json list \<Rightarrow> json list \<Rightarrow> json list" where
  "merge_spec flags ov (JObject bs) =
     (case ov of
        JObject os \<Rightarrow> JObject (merge_props flags os bs @
          copied_props (filter (\<lambda>(k, v). k \<notin> fst ` set bs) os))
      | _ \<Rightarrow> copied ov)"
| "merge_spec flags ov (JArray bs) =
     (case ov of
        JArray os \<Rightarrow>
          (let policy = flags AND 15 in
           JArray (if policy = 1 then map copied (bs @ os)
                   else if policy = 2 then merge_elems flags os bs
                   else if policy = 3 then map copied bs
                   else map copied os))
      | _ \<Rightarrow> copied ov)"
| "merge_spec flags ov base = copied ov"
| "merge_props flags os [] = []"
| "merge_props flags os ((k, v) # bs) =
     (k, case jsonObjectGetPropertyValue os k of None \<Rightarrow> copied v | Some w \<Rightarrow> merge_spec flags w v) #
     merge_props flags os bs"
| "merge_elems flags os [] = map copied os"
| "merge_elems flags [] (v # vs) = copied v # merge_elems flags [] vs"
| "merge_elems flags (w # ws) (v # vs) = merge_spec flags w v # merge_elems flags ws vs"

text \<open>No value of type \<open>JSON_TYPE_ERROR\<close> anywhere.\<close>

fun no_error :: "json \<Rightarrow> bool" where
  "no_error (JError m) = False"
| "no_error (JObject ps) = list_all (\<lambda>(k, v). no_error v) ps"
| "no_error (JArray js) = list_all no_error js"
| "no_error j = True"

subsection \<open>Trees in a store\<close>

lemma is_tree_frame:
  assumes "hi \<le> hi'" "lo' \<le> lo" "\<And>x. lo \<le> x \<Longrightarrow> x < hi \<Longrightarrow> m' x = m x"
  shows "is_tree m lo hi j a \<Longrightarrow> is_tree m' lo' hi' j a"
    and "are_props m lo hi ps qs \<Longrightarrow> are_props m' lo' hi' ps qs"
    and "are_elems m lo hi js as \<Longrightarrow> are_elems m' lo' hi' js as"
  using assms
proof (induction m lo hi j a and m lo hi ps qs and m lo hi js as arbitrary: lo' and lo' and lo'
    rule: is_tree_are_props_are_elems.induct)
  case (1 m lo hi ps a)
  then show ?case by (fastforce split: option.splits node.splits)
next
  case (2 m lo hi js a)
  then show ?case by (fastforce split: option.splits node.splits)
qed auto

lemma are_props_append:
  "are_props m lo hi ps qs \<Longrightarrow> are_props m lo hi ps' qs' \<Longrightarrow> are_props m lo hi (ps @ ps') (qs @ qs')"
proof (induction ps arbitrary: qs)
  case Nil
  then show ?case by (cases qs) auto
next
  case (Cons p ps)
  then show ?case by (cases p; cases qs) auto
qed

lemma are_elems_append:
  "are_elems m lo hi js as \<Longrightarrow> are_elems m lo hi js' as' \<Longrightarrow> are_elems m lo hi (js @ js') (as @ as')"
proof (induction js arbitrary: as)
  case Nil
  then show ?case by (cases as) auto
next
  case (Cons j js)
  then show ?case by (cases as) auto
qed

text \<open>
  \<open>kept b b' p\<close>: the nodes of \<open>b\<close> other than \<open>p\<close> are unchanged. \<open>grown\<close>: the value \<open>j\<close> was
  attached under the parent. \<open>props_added\<close> and \<open>elems_added\<close>: a list of them was attached.
\<close>

definition kept :: "jsonBuilder \<Rightarrow> jsonBuilder \<Rightarrow> ptr \<Rightarrow> bool" where
  "kept b b' p \<longleftrightarrow> next_node b \<le> next_node b' \<and> (\<forall>x<next_node b. x \<noteq> p \<longrightarrow> nodes b' x = nodes b x)"

definition attached :: "node \<Rightarrow> string option \<Rightarrow> ptr \<Rightarrow> node" where
  "attached n key a =
     (case n of
        NObject qs \<Rightarrow> NObject (qs @ [(the key, a)])
      | NArray arr \<Rightarrow> NArray (jsonArrayAddElement arr a)
      | NScalar j \<Rightarrow> NScalar j)"

fun takes :: "node option \<Rightarrow> string option \<Rightarrow> bool" where
  "takes (Some (NObject qs)) key \<longleftrightarrow> key \<noteq> None"
| "takes (Some (NArray arr)) key \<longleftrightarrow> key = None \<and> array_ok arr (array_items arr)"
| "takes _ key \<longleftrightarrow> False"

definition can_add :: "jsonBuilder \<Rightarrow> ptr \<Rightarrow> string option \<Rightarrow> bool" where
  "can_add b p key \<longleftrightarrow> 0 < next_node b \<and>
     (if p = NULL then key = None else p < next_node b \<and> takes (nodes b p) key)"

definition placed :: "jsonBuilder \<Rightarrow> jsonBuilder \<Rightarrow> ptr \<Rightarrow> string option \<Rightarrow> bool" where
  "placed b b' p key \<longleftrightarrow>
     (if p = NULL then root b' = next_node b
      else root b' = root b \<and> nodes b' p = Some (attached (the (nodes b p)) key (next_node b)))"

definition grown :: "jsonBuilder \<Rightarrow> jsonBuilder \<Rightarrow> ptr \<Rightarrow> string option \<Rightarrow> json \<Rightarrow> bool" where
  "grown b b' p key j \<longleftrightarrow> kept b b' p \<and> placed b b' p key \<and>
     is_tree (nodes b') (next_node b) (next_node b') j (next_node b)"

definition props_added :: "jsonBuilder \<Rightarrow> jsonBuilder \<Rightarrow> ptr \<Rightarrow> property list \<Rightarrow> bool" where
  "props_added b b' p ps \<longleftrightarrow> 0 < p \<and> p < next_node b \<and> kept b b' p \<and> root b' = root b \<and>
     (\<exists>qs new. nodes b p = Some (NObject qs) \<and> nodes b' p = Some (NObject (qs @ new)) \<and>
        are_props (nodes b') (next_node b) (next_node b') ps new)"

definition elems_added :: "jsonBuilder \<Rightarrow> jsonBuilder \<Rightarrow> ptr \<Rightarrow> json list \<Rightarrow> bool" where
  "elems_added b b' p js \<longleftrightarrow> 0 < p \<and> p < next_node b \<and> kept b b' p \<and> root b' = root b \<and>
     (\<exists>arr arr' new. nodes b p = Some (NArray arr) \<and> nodes b' p = Some (NArray arr') \<and>
        array_ok arr (array_items arr) \<and> array_ok arr' (array_items arr @ new) \<and>
        are_elems (nodes b') (next_node b) (next_node b') js new)"

lemma kept_trans: "kept b b1 p \<Longrightarrow> kept b1 b2 p \<Longrightarrow> kept b b2 p"
  by (force simp: kept_def)

lemma props_added_Nil:
  "nodes b p = Some (NObject qs) \<Longrightarrow> 0 < p \<Longrightarrow> p < next_node b \<Longrightarrow> props_added b b p []"
  by (auto simp: props_added_def kept_def)

lemma elems_added_Nil:
  "nodes b p = Some (NArray arr) \<Longrightarrow> array_ok arr (array_items arr) \<Longrightarrow> 0 < p \<Longrightarrow> p < next_node b \<Longrightarrow>
     elems_added b b p []"
  by (force simp: elems_added_def kept_def intro: exI [of _ "[]"])

lemma props_added_trans:
  assumes "props_added b b1 p ps" "props_added b1 b2 p qs"
  shows "props_added b b2 p (ps @ qs)"
proof -
  from assms(1) obtain qs0 new where 1: "nodes b p = Some (NObject qs0)"
      "nodes b1 p = Some (NObject (qs0 @ new))" "are_props (nodes b1) (next_node b) (next_node b1) ps new"
      "0 < p" "p < next_node b" "kept b b1 p" "root b1 = root b"
    by (auto simp: props_added_def)
  from assms(2) 1(2) obtain new' where 2: "nodes b2 p = Some (NObject ((qs0 @ new) @ new'))"
      "are_props (nodes b2) (next_node b1) (next_node b2) qs new'" "kept b1 b2 p" "root b2 = root b1"
    by (auto simp: props_added_def)
  have le: "next_node b \<le> next_node b1" "next_node b1 \<le> next_node b2"
    using 1(6) 2(3) by (auto simp: kept_def)
  have "are_props (nodes b2) (next_node b) (next_node b2) ps new"
    using 1(3) by (rule is_tree_frame(2)[rotated 3]) (use le 1(5) 2(3) in \<open>auto simp: kept_def\<close>)
  moreover have "are_props (nodes b2) (next_node b) (next_node b2) qs new'"
    using 2(2) by (rule is_tree_frame(2)[rotated 3]) (use le in auto)
  ultimately show ?thesis
    using 1 2 kept_trans are_props_append by (fastforce simp: props_added_def)
qed

lemma elems_added_trans:
  assumes "elems_added b b1 p js" "elems_added b1 b2 p ks"
  shows "elems_added b b2 p (js @ ks)"
proof -
  from assms(1) obtain arr arr1 new where 1: "nodes b p = Some (NArray arr)"
      "nodes b1 p = Some (NArray arr1)" "array_ok arr (array_items arr)"
      "array_ok arr1 (array_items arr @ new)"
      "are_elems (nodes b1) (next_node b) (next_node b1) js new"
      "0 < p" "p < next_node b" "kept b b1 p" "root b1 = root b"
    by (auto simp: elems_added_def)
  from assms(2) 1(2) obtain arr2 new' where 2: "nodes b2 p = Some (NArray arr2)"
      "array_ok arr2 (array_items arr1 @ new')"
      "are_elems (nodes b2) (next_node b1) (next_node b2) ks new'" "kept b1 b2 p" "root b2 = root b1"
    by (auto simp: elems_added_def)
  have le: "next_node b \<le> next_node b1" "next_node b1 \<le> next_node b2"
    using 1(8) 2(4) by (auto simp: kept_def)
  have "are_elems (nodes b2) (next_node b) (next_node b2) js new"
    using 1(5) by (rule is_tree_frame(3)[rotated 3]) (use le 1(7) 2(4) in \<open>auto simp: kept_def\<close>)
  moreover have "are_elems (nodes b2) (next_node b) (next_node b2) ks new'"
    using 2(3) by (rule is_tree_frame(3)[rotated 3]) (use le in auto)
  moreover have "array_items arr1 = array_items arr @ new" using 1(4) by (rule array_ok_items)
  ultimately show ?thesis
    using 1 2 kept_trans are_elems_append by (fastforce simp: elems_added_def)
qed

lemma grown_props_added:
  assumes "grown b b' p (Some k) j" "nodes b p = Some (NObject qs)" "0 < p" "p < next_node b"
  shows "props_added b b' p [(k, j)]"
  using assms by (auto simp: grown_def placed_def attached_def props_added_def)

lemma grown_elems_added:
  assumes "grown b b' p None j" "nodes b p = Some (NArray arr)" "array_ok arr (array_items arr)"
    "0 < p" "p < next_node b"
  shows "elems_added b b' p [j]"
  using assms array_ok_add [OF assms(3), of "next_node b"]
  by (force simp: grown_def placed_def attached_def elems_added_def intro: exI [of _ "[next_node b]"])

subsection \<open>What a build call does\<close>

lemma jsonBuildNode_placed:
  assumes "can_add b p key"
  obtains b1 where "jsonBuildNode b p key n = (next_node b, 0, b1)" "kept b b1 p" "placed b b1 p key"
    "nodes b1 (next_node b) = Some n" "next_node b1 = next_node b + 1"
proof -
  let ?a = "next_node b"
  let ?c = "b\<lparr>nodes := (nodes b)(?a \<mapsto> n), next_node := ?a + 1\<rparr>"
  have "\<exists>b1. jsonBuildNode b p key n = (?a, 0, b1) \<and> kept b b1 p \<and> placed b b1 p key \<and>
      nodes b1 ?a = Some n \<and> next_node b1 = ?a + 1"
  proof (cases "p = NULL")
    case True
    then show ?thesis using assms
      by (simp add: can_add_def jsonBuildNode_def checkParentLValue_def addToParent_def build_codes
          kept_def placed_def Let_def)
  next
    case False
    then have p: "p < ?a" "takes (nodes b p) key" using assms by (auto simp: can_add_def)
    then show ?thesis using False
      by (cases "nodes b p" rule: option.exhaust; cases "the (nodes b p)"; cases key)
         (auto simp: jsonBuildNode_def checkParentLValue_def addToParent_def build_codes
            kept_def placed_def attached_def Let_def)
  qed
  then show ?thesis using that by blast
qed

lemma grown_scalar:
  assumes "can_add b p key" "\<And>m lo hi a. is_tree m lo hi j a \<longleftrightarrow> lo \<le> a \<and> a < hi \<and> m a = Some (NScalar j)"
  shows "grown b (snd (snd (jsonBuildNode b p key (NScalar j)))) p key j"
proof -
  obtain b1 where "jsonBuildNode b p key (NScalar j) = (next_node b, 0, b1)" "kept b b1 p"
      "placed b b1 p key" "nodes b1 (next_node b) = Some (NScalar j)" "next_node b1 = next_node b + 1"
    using assms(1) by (rule jsonBuildNode_placed)
  then show ?thesis using assms(2) by (simp add: grown_def)
qed

lemma placed_after:
  assumes "placed b b1 p key" "kept b b1 p" "next_node b < next_node b1" "can_add b p key"
    "kept b1 b' a" "a = next_node b" "root b' = root b1"
  shows "placed b b' p key" "kept b b' p"
  using assms by (auto simp: placed_def kept_def can_add_def split: if_splits)

lemma grown_object:
  assumes "can_add b p key" "jsonBuildObject b p key = (a, c, b1)" "props_added b1 b' a ps"
  shows "grown b b' p key (JObject ps)"
proof -
  from assms(1) obtain b2 where b2: "jsonBuildNode b p key (NObject []) = (next_node b, 0, b2)"
      "kept b b2 p" "placed b b2 p key" "nodes b2 (next_node b) = Some (NObject [])"
      "next_node b2 = next_node b + 1"
    by (rule jsonBuildNode_placed)
  with assms(2) have eq: "a = next_node b" "b1 = b2" by (auto simp: jsonBuildObject_def)
  from assms(3) b2 eq have "are_props (nodes b') (next_node b + 1) (next_node b') ps qs"
      "nodes b' a = Some (NObject qs)" if "nodes b' a = Some (NObject qs)" for qs
    using that by (auto simp: props_added_def)
  with assms(3) b2 eq placed_after [OF b2(3,2) _ assms(1), of b' a] show ?thesis
    by (auto simp: grown_def props_added_def kept_def)
qed

lemma grown_array:
  assumes "can_add b p key" "jsonBuildArray b p key = (a, c, b1)" "elems_added b1 b' a js"
  shows "grown b b' p key (JArray js)"
proof -
  from assms(1) obtain b2 where b2: "jsonBuildNode b p key (NArray (newJsonArray 8)) = (next_node b, 0, b2)"
      "kept b b2 p" "placed b b2 p key" "nodes b2 (next_node b) = Some (NArray (newJsonArray 8))"
      "next_node b2 = next_node b + 1"
    by (rule jsonBuildNode_placed)
  with assms(2) have eq: "a = next_node b" "b1 = b2" by (auto simp: jsonBuildArray_def)
  from assms(3) eq b2 obtain arr' new where new: "nodes b' a = Some (NArray arr')"
      "array_ok arr' (array_items (newJsonArray 8) @ new)"
      "are_elems (nodes b') (next_node b + 1) (next_node b') js new"
    by (auto simp: elems_added_def)
  then have "array_items arr' = new"
    using array_ok_items [OF new(2)] array_ok_items [OF array_ok_new [of 8]] by simp
  with new assms(3) b2 eq placed_after [OF b2(3,2) _ assms(1), of b' a] show ?thesis
    by (auto simp: grown_def elems_added_def kept_def)
qed

subsection \<open>Containers being filled\<close>

definition obj_at :: "jsonBuilder \<Rightarrow> ptr \<Rightarrow> bool" where
  "obj_at b p \<longleftrightarrow> 0 < p \<and> p < next_node b \<and> (\<exists>qs. nodes b p = Some (NObject qs))"

definition arr_at :: "jsonBuilder \<Rightarrow> ptr \<Rightarrow> bool" where
  "arr_at b p \<longleftrightarrow> 0 < p \<and> p < next_node b \<and>
     (\<exists>arr. nodes b p = Some (NArray arr) \<and> array_ok arr (array_items arr))"

lemma obj_at_can_add: "obj_at b p \<Longrightarrow> can_add b p (Some k)"
  by (auto simp: obj_at_def can_add_def)

lemma arr_at_can_add: "arr_at b p \<Longrightarrow> can_add b p None"
  by (auto simp: arr_at_def can_add_def)

lemma obj_at_Nil: "obj_at b p \<Longrightarrow> props_added b b p []"
  by (auto simp: obj_at_def intro: props_added_Nil)

lemma arr_at_Nil: "arr_at b p \<Longrightarrow> elems_added b b p []"
  by (auto simp: arr_at_def intro: elems_added_Nil)

lemma obj_at_grown: "obj_at b p \<Longrightarrow> grown b b' p (Some k) j \<Longrightarrow> props_added b b' p [(k, j)]"
  by (auto simp: obj_at_def intro: grown_props_added)

lemma arr_at_grown: "arr_at b p \<Longrightarrow> grown b b' p None j \<Longrightarrow> elems_added b b' p [j]"
  by (auto simp: arr_at_def intro: grown_elems_added)

lemma props_added_obj_at: "props_added b b' p ps \<Longrightarrow> obj_at b' p"
  by (auto simp: props_added_def obj_at_def kept_def)

lemma elems_added_arr_at: "elems_added b b' p js \<Longrightarrow> arr_at b' p"
  by (auto simp: elems_added_def arr_at_def kept_def) (metis array_ok_items)

lemma props_added_step:
  assumes "obj_at b p" "grown b b1 p (Some k) j" "obj_at b1 p \<Longrightarrow> props_added b1 b2 p ps"
  shows "props_added b b2 p ((k, j) # ps)"
proof -
  from assms(1,2) have 1: "props_added b b1 p [(k, j)]" by (rule obj_at_grown)
  from props_added_trans [OF 1 assms(3) [OF props_added_obj_at [OF 1]]] show ?thesis by simp
qed

lemma elems_added_step:
  assumes "arr_at b p" "grown b b1 p None j" "arr_at b1 p \<Longrightarrow> elems_added b1 b2 p js"
  shows "elems_added b b2 p (j # js)"
proof -
  from assms(1,2) have 1: "elems_added b b1 p [j]" by (rule arr_at_grown)
  from elems_added_trans [OF 1 assms(3) [OF elems_added_arr_at [OF 1]]] show ?thesis by simp
qed

lemma new_object:
  assumes "can_add b p key" "jsonBuildObject b p key = (a, c, b1)"
  shows "obj_at b1 a"
proof -
  obtain b2 where "jsonBuildNode b p key (NObject []) = (next_node b, 0, b2)"
      "nodes b2 (next_node b) = Some (NObject [])" "next_node b2 = next_node b + 1"
    using assms(1) by (rule jsonBuildNode_placed)
  then show ?thesis using assms by (auto simp: jsonBuildObject_def obj_at_def can_add_def)
qed

lemma new_array:
  assumes "can_add b p key" "jsonBuildArray b p key = (a, c, b1)"
  shows "arr_at b1 a"
proof -
  obtain b2 where "jsonBuildNode b p key (NArray (newJsonArray 8)) = (next_node b, 0, b2)"
      "nodes b2 (next_node b) = Some (NArray (newJsonArray 8))" "next_node b2 = next_node b + 1"
    using assms(1) by (rule jsonBuildNode_placed)
  moreover have "array_ok (newJsonArray 8 :: ptr json_array) (array_items (newJsonArray 8))"
    by (simp add: array_items_def newJsonArray_def array_ok_def)
  ultimately show ?thesis using assms by (auto simp: jsonBuildArray_def arr_at_def can_add_def)
qed

subsection \<open>Copying and merging build what they should\<close>

lemmas build_scalars = jsonBuildBool_def jsonBuildNull_def jsonBuildDouble_def jsonBuildInt64_def
  jsonBuildInt_def jsonBuildString_def

lemma copy_grown:
  "no_error j \<Longrightarrow> can_add b p key \<Longrightarrow> grown b (copyJson b p key j) p key (copied j)"
  "list_all (\<lambda>(k, v). no_error v) ps \<Longrightarrow> obj_at b p \<Longrightarrow>
     props_added b (copyProps b p ps) p (copied_props ps)"
  "list_all no_error js \<Longrightarrow> arr_at b p \<Longrightarrow> elems_added b (copyElements b p js) p (map copied js)"
proof (induction b p key j and b p ps and b p js rule: copyJson_copyProps_copyElements.induct)
  case (1 b p key ps)
  obtain a c b1 where b1: "jsonBuildObject b p key = (a, c, b1)" by (metis prod_cases3)
  with 1 new_object grown_object show ?case by simp
next
  case (2 b p key js)
  obtain a c b1 where b1: "jsonBuildArray b p key = (a, c, b1)" by (metis prod_cases3)
  with 2 new_array grown_array show ?case by simp
next
  case (11 b p k v ps)
  then show ?case by (simp add: props_added_step obj_at_can_add)
next
  case (13 b p j js)
  then show ?case by (simp add: elems_added_step arr_at_can_add)
qed (simp_all add: build_scalars grown_scalar obj_at_Nil arr_at_Nil)

lemmas props_added_copy = props_added_step [OF _ copy_grown(1) [OF _ obj_at_can_add]]
lemmas elems_added_copy = elems_added_step [OF _ copy_grown(1) [OF _ arr_at_can_add]]

lemma jsonObjectHasKey_set: "jsonObjectHasKey ps k \<longleftrightarrow> k \<in> fst ` set ps"
  by (induction ps) auto

lemma getPropertyValue_set: "jsonObjectGetPropertyValue ps k = Some v \<Longrightarrow> (k, v) \<in> set ps"
  by (induction ps) (auto split: if_splits)

lemma getPropertyValue_no_error:
  "list_all (\<lambda>(k, v). no_error v) ps \<Longrightarrow> jsonObjectGetPropertyValue ps k = Some v \<Longrightarrow> no_error v"
  using getPropertyValue_set by (fastforce simp: list_all_iff)

lemma override_loop_added:
  "list_all (\<lambda>(k, v). no_error v) ps \<Longrightarrow> obj_at b p \<Longrightarrow>
     props_added b (mergeOverrideLoop b p bs ps) p (copied_props (filter (\<lambda>(k, v). k \<notin> fst ` set bs) ps))"
proof (induction b p bs ps rule: mergeOverrideLoop.induct)
  case (2 b p bs k v ps)
  show ?case
  proof (cases "k \<in> fst ` set bs")
    case True
    with 2 show ?thesis by (simp add: jsonObjectHasKey_set)
  next
    case False
    with 2 props_added_copy [OF 2(3) _ 2(3)] show ?thesis by (simp add: jsonObjectHasKey_set)
  qed
qed (simp add: obj_at_Nil)

lemma merge_grown:
  "no_error ov \<Longrightarrow> no_error base \<Longrightarrow> can_add b p key \<Longrightarrow>
     fst (mergeJson1 flags b p key ov base) = 0 \<and>
     grown b (snd (mergeJson1 flags b p key ov base)) p key (merge_spec flags ov base)"
  "list_all (\<lambda>(k, v). no_error v) os \<Longrightarrow> list_all (\<lambda>(k, v). no_error v) bs \<Longrightarrow> obj_at b p \<Longrightarrow>
     fst (mergeBaseLoop flags b p os bs) = 0 \<and>
     props_added b (snd (mergeBaseLoop flags b p os bs)) p (merge_props flags os bs)"
  "list_all no_error ws \<Longrightarrow> list_all no_error vs \<Longrightarrow> arr_at b p \<Longrightarrow>
     elems_added b (mergeInPlace flags b p ws vs) p (merge_elems flags ws vs)"
proof (induction flags b p key ov base and flags b p os bs and flags b p ws vs
    rule: mergeJson1_mergeBaseLoop_mergeInPlace.induct)
  case (1 flags b p key ov bs)
  show ?case
  proof (cases "\<exists>os. ov = JObject os")
    case False
    then have "mergeJson1 flags b p key ov (JObject bs) = (0, copyJson b p key ov)"
      "merge_spec flags ov (JObject bs) = copied ov"
      by (cases ov; simp add: JSON_MERGE_STATUS_SUCCESS_def)+
    with 1 copy_grown(1) show ?thesis by simp
  next
    case True
    then obtain os where os: "ov = JObject os" ..
    obtain a c b1 where b1: "jsonBuildObject b p key = (a, c, b1)" by (metis prod_cases3)
    obtain st b2 where b2: "mergeBaseLoop flags b1 a os bs = (st, b2)" by fastforce
    have ne: "list_all (\<lambda>(k, v). no_error v) os" "list_all (\<lambda>(k, v). no_error v) bs"
      using 1 os by simp_all
    have at: "obj_at b1 a" using 1(4) b1 by (rule new_object)
    have st: "st = 0" and p2: "props_added b1 b2 a (merge_props flags os bs)"
      using 1(1) [OF os b1 [symmetric] refl ne at] b2 by auto
    have p3: "props_added b2 (mergeOverrideLoop b2 a bs os) a
        (copied_props (filter (\<lambda>(k, v). k \<notin> fst ` set bs) os))"
      using ne(1) props_added_obj_at [OF p2] by (rule override_loop_added)
    from grown_object [OF 1(4) b1 props_added_trans [OF p2 p3]] show ?thesis
      using os b1 b2 st by simp
  qed
next
  case (2 flags b p key ov bs)
  show ?case
  proof (cases "\<exists>os. ov = JArray os")
    case False
    then have "mergeJson1 flags b p key ov (JArray bs) = (0, copyJson b p key ov)"
      "merge_spec flags ov (JArray bs) = copied ov"
      by (cases ov; simp add: JSON_MERGE_STATUS_SUCCESS_def)+
    with 2 copy_grown(1) show ?thesis by simp
  next
    case True
    then obtain os where os: "ov = JArray os" ..
    obtain a c b1 where b1: "jsonBuildArray b p key = (a, c, b1)" by (metis prod_cases3)
    have ne: "list_all no_error os" "list_all no_error bs" using 2 os by simp_all
    have at: "arr_at b1 a" using 2(4) b1 by (rule new_array)
    note base = copy_grown(3) [OF ne(2) at]
    note both = elems_added_trans [OF base copy_grown(3) [OF ne(1) elems_added_arr_at [OF base]]]
    note overs = copy_grown(3) [OF ne(1) at]
    note grow = grown_array [OF 2(4) b1]
    show ?thesis
      using 2(1) [OF os b1 [symmetric] refl refl _ _ ne at] grow [OF base] grow [OF both] grow [OF overs]
        os b1 grow
      by (simp add: Let_def JSON_MERGE_STATUS_SUCCESS_def JSON_MERGE_FLAG_ARRAY_POLICY_MASK_def
          JSON_MERGE_FLAG_CONCATENATE_ARRAYS_def JSON_MERGE_FLAG_MERGE_IN_PLACE_def
          JSON_MERGE_FLAG_TAKE_BASE_def)
  qed
next
  case (5 flags b p os k v bs)
  show ?case
  proof (cases "jsonObjectGetPropertyValue os k")
    case None
    have "no_error v" using 5(5) by simp
    then have "obj_at (copyJson b p (Some k) v) p"
      using props_added_obj_at [OF obj_at_grown [OF 5(6) copy_grown(1) [OF _ obj_at_can_add [OF 5(6)]]]]
      by blast
    with 5 None props_added_copy [OF 5(6) _ 5(6)] show ?thesis by simp
  next
    case (Some w)
    obtain st b1 where b1: "mergeJson1 flags b p (Some k) w v = (st, b1)" by fastforce
    have ne: "no_error w" "no_error v" "list_all (\<lambda>(k, v). no_error v) bs"
      using 5(4,5) Some getPropertyValue_no_error by auto
    have 1: "st = 0 \<and> grown b b1 p (Some k) (merge_spec flags w v)"
      using 5(2) [OF Some ne(1,2) obj_at_can_add [OF 5(6)]] b1 by simp
    have 2: "fst (mergeBaseLoop flags b1 p os bs) = 0 \<and>
        props_added b1 (snd (mergeBaseLoop flags b1 p os bs)) p (merge_props flags os bs)"
      using 5(3) [OF Some b1 [symmetric] _ 5(4) ne(3) props_added_obj_at [OF obj_at_grown [OF 5(6)]]] 1
      by blast
    then have "props_added b (snd (mergeBaseLoop flags b1 p os bs)) p
        ((k, merge_spec flags w v) # merge_props flags os bs)"
      using 1 by (blast intro: props_added_step [OF 5(6)])
    then show ?thesis using 1 2 b1 Some by simp
  qed
next
  case (7 flags b p v vs)
  with elems_added_copy [OF 7(4) _ 7(4)] show ?case by simp
next
  case (8 flags b p w ws v vs)
  obtain st b1 where b1: "mergeJson1 flags b p None w v = (st, b1)" by fastforce
  with 8 arr_at_can_add [OF 8(5)] have 1: "grown b b1 p None (merge_spec flags w v)"
      "arr_at b1 p \<Longrightarrow> elems_added b1 (mergeInPlace flags b1 p ws vs) p (merge_elems flags ws vs)"
    by simp_all
  from elems_added_step [OF 8(5) this] b1 show ?case by simp
qed (simp_all add: copy_grown obj_at_Nil JSON_MERGE_STATUS_SUCCESS_def)

lemma merge_props_keys: "map fst (merge_props flags os bs) = map fst bs"
  by (induction bs) (auto split: option.splits)

lemma get_copied: "jsonObjectGetPropertyValue (copied_props ps) k = map_option copied (jsonObjectGetPropertyValue ps k)"
  by (induction ps) auto

lemma get_append: "jsonObjectGetPropertyValue (ps @ qs) k =
    (case jsonObjectGetPropertyValue ps k of None \<Rightarrow> jsonObjectGetPropertyValue qs k | Some v \<Rightarrow> Some v)"
  by (induction ps) auto

lemma get_None: "jsonObjectGetPropertyValue ps k = None \<longleftrightarrow> k \<notin> fst ` set ps"
  by (induction ps) auto

lemma get_merge_props: "jsonObjectGetPropertyValue (merge_props flags os bs) k =
    (case jsonObjectGetPropertyValue bs k of
       None \<Rightarrow> None
     | Some v \<Rightarrow> Some (case jsonObjectGetPropertyValue os k of
                       None \<Rightarrow> copied v | Some w \<Rightarrow> merge_spec flags w v))"
  by (induction bs) (auto split: option.split)

lemma get_filter: "jsonObjectGetPropertyValue (filter (\<lambda>(k, v). k \<notin> K) ps) k =
    (if k \<in> K then None else jsonObjectGetPropertyValue ps k)"
  by (induction ps) auto

lemma jsonMerge_tree:
  assumes "no_error ov" "no_error base"
  shows "\<exists>a b. jsonMerge ov base flags = (a, 0, b) \<and> a \<noteq> NULL \<and>
           is_tree (nodes b) 1 (next_node b) (merge_spec flags ov base) a"
proof -
  have "can_add makeJsonBuilder NULL None" by (simp add: can_add_def makeJsonBuilder_def)
  from merge_grown(1) [OF assms this, of flags] show ?thesis
    by (auto simp: jsonMerge_def grown_def placed_def makeJsonBuilder_def split: prod.splits)
qed

text \<open>
  A build call succeeds exactly when the key fits the parent: none at the root, none in an array,
  one in an object, and no scalar parent. Otherwise it returns \<open>NULL\<close> with the code of the misfit and
  leaves the builder as it was. When it succeeds the new object is the root, the last element of the
  array or the last property of the object.
\<close>

lemma jsonBuildObject_by_parent:
  assumes "parent \<noteq> next_node b"
  shows "jsonBuildObject b parent key =
    (let a = next_node b;
         new = (nodes b)(a \<mapsto> NObject []);
         b1 = b\<lparr>nodes := new, next_node := a + 1\<rparr>
     in if parent = NULL then
          (case key of None \<Rightarrow> (a, 0, b1\<lparr>root := a\<rparr>) | Some k \<Rightarrow> (NULL, 20, b))
        else
          (case (nodes b parent, key) of
             (Some (NObject ps), Some k) \<Rightarrow> (a, 0, b1\<lparr>nodes := new(parent \<mapsto> NObject (ps @ [(k, a)]))\<rparr>)
           | (Some (NObject ps), None) \<Rightarrow> (NULL, 24, b)
           | (Some (NArray arr), None) \<Rightarrow>
               (a, 0, b1\<lparr>nodes := new(parent \<mapsto> NArray (jsonArrayAddElement arr a))\<rparr>)
           | (Some (NArray arr), Some k) \<Rightarrow> (NULL, 16, b)
           | _ \<Rightarrow> (NULL, 12, b)))"
  using assms
  by (auto simp: jsonBuildObject_def jsonBuildNode_def checkParentLValue_def addToParent_def build_codes
      Let_def split: option.splits node.splits)

subsection \<open>Properties\<close>

text \<open>
  C28. Merging two values that hold no error node always succeeds: the value left in the store is a
  tree at the address returned, and it is the merge of the two by the pure function \<open>merge_spec\<close>,
  with every copied node a fresh one.
\<close>

theorem jsonMerge_refines_spec:
  assumes "no_error overrides" "no_error base"
  shows "case jsonMerge overrides base flags of
           (merged, status, b) \<Rightarrow> status = JSON_MERGE_STATUS_SUCCESS \<and> merged \<noteq> NULL \<and>
             is_tree (nodes b) 1 (next_node b) (merge_spec flags overrides base) merged"
  using jsonMerge_tree [OF assms, of flags] by (auto simp: JSON_MERGE_STATUS_SUCCESS_def)

theorem jsonMerge_refines_spec_witness:
  "case jsonMerge (JObject [(''a'', JArray [JNumber 1]), (''b'', JNull)])
                  (JObject [(''a'', JArray [JNumber 2])]) 1 of
     (merged, status, b) \<Rightarrow> status = JSON_MERGE_STATUS_SUCCESS \<and> merged \<noteq> NULL \<and>
       is_tree (nodes b) 1 (next_node b)
         (merge_spec 1 (JObject [(''a'', JArray [JNumber 1]), (''b'', JNull)])
                       (JObject [(''a'', JArray [JNumber 2])])) merged"
  by (rule jsonMerge_refines_spec) simp_all

text \<open>
  C29. Merging an object over an object keeps the keys of the base in their order, followed by those
  of the overrides that the base lacks. Looking a key up yields the merge of the two values where both
  objects have it, and otherwise a copy of the only one.
\<close>

theorem jsonMerge_lookup:
  assumes "no_error (JObject os)" "no_error (JObject bs)"
  shows "\<exists>merged b ps. jsonMerge (JObject os) (JObject bs) flags = (merged, 0, b) \<and>
     is_tree (nodes b) 1 (next_node b) (JObject ps) merged \<and>
     map fst ps = map fst bs @ filter (\<lambda>k. k \<notin> fst ` set bs) (map fst os) \<and>
     (\<forall>k. jsonObjectGetPropertyValue ps k =
        (case (jsonObjectGetPropertyValue os k, jsonObjectGetPropertyValue bs k) of
           (None, None) \<Rightarrow> None
         | (Some w, None) \<Rightarrow> Some (copied w)
         | (None, Some v) \<Rightarrow> Some (copied v)
         | (Some w, Some v) \<Rightarrow> Some (merge_spec flags w v)))"
proof -
  define ps where "ps = merge_props flags os bs @ copied_props (filter (\<lambda>(k, v). k \<notin> fst ` set bs) os)"
  have "merge_spec flags (JObject os) (JObject bs) = JObject ps" by (simp add: ps_def)
  moreover have "map fst ps = map fst bs @ filter (\<lambda>k. k \<notin> fst ` set bs) (map fst os)"
    by (simp add: ps_def merge_props_keys filter_map comp_def case_prod_unfold)
  moreover have "jsonObjectGetPropertyValue ps k =
        (case (jsonObjectGetPropertyValue os k, jsonObjectGetPropertyValue bs k) of
           (None, None) \<Rightarrow> None
         | (Some w, None) \<Rightarrow> Some (copied w)
         | (None, Some v) \<Rightarrow> Some (copied v)
         | (Some w, Some v) \<Rightarrow> Some (merge_spec flags w v))" for k
    using get_None [of bs k]
    by (auto simp: ps_def get_append get_merge_props get_copied get_filter split: option.splits)
  ultimately show ?thesis using jsonMerge_tree [OF assms, of flags] by metis
qed

theorem jsonMerge_lookup_witness:
  "\<exists>merged b ps. jsonMerge (JObject [(''b'', JNull), (''c'', JNull)]) (JObject [(''b'', JNumber 1)]) 1 =
       (merged, 0, b) \<and> is_tree (nodes b) 1 (next_node b) (JObject ps) merged \<and>
     map fst ps = [''b'', ''c'']"
proof -
  have "no_error (JObject [(''b'', JNull), (''c'', JNull)])" "no_error (JObject [(''b'', JNumber 1)])"
    by simp_all
  from jsonMerge_lookup [OF this, of 1] obtain merged b ps where
    "jsonMerge (JObject [(''b'', JNull), (''c'', JNull)]) (JObject [(''b'', JNumber 1)]) 1 = (merged, 0, b)"
    "is_tree (nodes b) 1 (next_node b) (JObject ps) merged"
    "map fst ps = map fst [(''b'', JNumber 1)] @
       filter (\<lambda>k. k \<notin> fst ` set [(''b'', JNumber 1)]) (map fst [(''b'', JNull), (''c'', JNull)])"
    by blast
  note merged = this
  have "map fst ps = [''b'', ''c'']" using merged(3) by simp
  with merged(1,2) show ?thesis by (intro exI conjI)
qed

end
