(* ===== verification/StrUtils.thy ===== *)
theory StrUtils
  imports CStrings
begin

section \<open>Searching and tokenizing strings\<close>

text \<open>
  The searches of \<open>c/utils.c\<close> over the first \<open>len\<close> bytes of a buffer, and its \<open>tkn\<close> scanners. A
  result of -1 means not found. The variant of the code is the one for Linux. The character
  classes of the scanners are those of EBCDIC on every platform. Positions are natural
  numbers: the callers pass no negative one.
\<close>

function indexOf :: "string \<Rightarrow> nat \<Rightarrow> char \<Rightarrow> nat \<Rightarrow> int" where
  "indexOf str len c pos =
     (if pos < len then (if str ! pos = c then int pos else indexOf str len c (pos + 1)) else -1)"
  by pat_completeness auto
termination by (relation "measure (\<lambda>(str, len, c, pos). len - pos)") auto

fun lastIndexOfLoop :: "string \<Rightarrow> char \<Rightarrow> nat \<Rightarrow> int" where
  "lastIndexOfLoop str c 0 = -1"
| "lastIndexOfLoop str c (Suc pos) = (if str ! pos = c then int pos else lastIndexOfLoop str c pos)"

definition lastIndexOf :: "string \<Rightarrow> nat \<Rightarrow> char \<Rightarrow> int" where
  "lastIndexOf str len c = lastIndexOfLoop str c len"

definition match_at :: "string \<Rightarrow> nat \<Rightarrow> string \<Rightarrow> bool" where
  "match_at str pos searchString \<longleftrightarrow> take (length searchString) (drop pos str) = searchString"

function indexOfStringLoop :: "(nat \<Rightarrow> bool) \<Rightarrow> nat \<Rightarrow> nat \<Rightarrow> int" where
  "indexOfStringLoop hit lastPossibleStart pos =
     (if pos \<le> lastPossibleStart then
        (if hit pos then int pos else indexOfStringLoop hit lastPossibleStart (pos + 1))
      else -1)"
  by pat_completeness auto
termination by (relation "measure (\<lambda>(hit, lastPossibleStart, pos). Suc lastPossibleStart - pos)") auto

definition indexOfString :: "string \<Rightarrow> nat \<Rightarrow> string \<Rightarrow> nat \<Rightarrow> int" where
  "indexOfString str len searchString startPos =
     (if int startPos > int len - int (length searchString) then -1
      else indexOfStringLoop (\<lambda>pos. match_at str pos searchString) (len - length searchString) startPos)"

fun lastIndexOfStringLoop :: "string \<Rightarrow> string \<Rightarrow> nat \<Rightarrow> int" where
  "lastIndexOfStringLoop str searchString 0 = (if match_at str 0 searchString then 0 else -1)"
| "lastIndexOfStringLoop str searchString (Suc pos) =
     (if match_at str (Suc pos) searchString then int (Suc pos)
      else lastIndexOfStringLoop str searchString pos)"

definition lastIndexOfString :: "string \<Rightarrow> nat \<Rightarrow> string \<Rightarrow> int" where
  "lastIndexOfString str len searchString =
     (if length searchString > len then -1
      else lastIndexOfStringLoop str searchString (len - length searchString))"

definition cheesyInsensitiveMatch :: "string \<Rightarrow> nat \<Rightarrow> nat \<Rightarrow> string \<Rightarrow> bool" where
  "cheesyInsensitiveMatch str pos len searchString =
     (if length searchString \<noteq> len then False else match_at str pos searchString)"

definition indexOfStringInsensitive :: "string \<Rightarrow> nat \<Rightarrow> string \<Rightarrow> nat \<Rightarrow> int" where
  "indexOfStringInsensitive str len searchString startPos =
     (if int startPos > int len - int (length searchString) then -1
      else indexOfStringLoop (\<lambda>pos. cheesyInsensitiveMatch str pos (len - pos) searchString)
             (len - length searchString) startPos)"

subsection \<open>Character classes\<close>

definition upchar :: "char \<Rightarrow> int" where
  "upchar c =
     (let b = of_char c :: byte; low = b AND 0x0F; high = b AND 0xF0 in
      if high = 0x80 \<or> high = 0x90 then
        (if 0x01 \<le> low \<and> low \<le> 0x09 then sint (b OR 0x40) else uint b)
      else if high = 0xA0 then
        (if 0x02 \<le> low \<and> low \<le> 0x09 then sint (b OR 0x40) else uint b)
      else uint b)"

fun compareIgnoringCase :: "string \<Rightarrow> string \<Rightarrow> nat \<Rightarrow> int" where
  "compareIgnoringCase s1 s2 0 = 0"
| "compareIgnoringCase (c # s1) (d # s2) (Suc len) =
     (let diff = upchar c - upchar d in
      if diff \<noteq> 0 then diff else compareIgnoringCase s1 s2 len)"
| "compareIgnoringCase _ _ (Suc len) = 0"

definition isCharAN :: "char \<Rightarrow> bool" where
  "isCharAN c \<longleftrightarrow>
     (let b = of_char c :: byte; low = b AND 0x0F; high = b AND 0xF0 in
      if high \<in> {0x80, 0x90, 0xC0, 0xD0} then 0 < low \<and> low < 0x0A
      else if high \<in> {0xA0, 0xE0} then 1 < low \<and> low < 0x0A
      else if high = 0xF0 then low < 0x0A
      else False)"

declare indexOf.simps [simp del] indexOfStringLoop.simps [simp del]

subsection \<open>What the searches find\<close>

lemma indexOf_step:
  "pos < len \<Longrightarrow> s ! pos = c \<Longrightarrow> indexOf s len c pos = int pos"
  "pos < len \<Longrightarrow> s ! pos \<noteq> c \<Longrightarrow> indexOf s len c pos = indexOf s len c (pos + 1)"
  "\<not> pos < len \<Longrightarrow> indexOf s len c pos = -1"
  by (simp_all add: indexOf.simps [of s len c pos])

lemma indexOf_from: "indexOf s len c pos \<noteq> -1 \<Longrightarrow> int pos \<le> indexOf s len c pos"
proof (induction s len c pos rule: indexOf.induct)
  case (1 s len c pos)
  then show ?case by (cases "pos < len"; cases "s ! pos = c") (auto simp: indexOf_step)
qed

lemma indexOf_takeWhile:
  assumes "len \<le> length s" "pos \<le> len"
  shows "indexOf s len c pos =
    (if c \<in> set (drop pos (take len s)) then int (pos + length (takeWhile (\<lambda>x. x \<noteq> c) (drop pos (take len s))))
     else -1)"
  using assms
proof (induction s len c pos rule: indexOf.induct)
  case (1 s len c pos)
  show ?case
  proof (cases "pos < len")
    case False
    with 1 show ?thesis by (simp add: indexOf_step)
  next
    case True
    then have "drop pos (take len s) = s ! pos # drop (pos + 1) (take len s)"
      using 1(2) Cons_nth_drop_Suc [of pos "take len s"] by simp
    with 1 True show ?thesis by (cases "s ! pos = c") (simp_all add: indexOf_step)
  qed
qed

subsection \<open>Tokens\<close>

text \<open>
  The four scanners for a run of characters of a class have one loop: it goes to the first
  character of the class and on to the first one outside it, or to the end.
\<close>

record token =
  tstart :: nat
  tend :: nat

function tknLoop :: "(char \<Rightarrow> bool) \<Rightarrow> string \<Rightarrow> nat \<Rightarrow> nat \<Rightarrow> nat option \<Rightarrow> token option" where
  "tknLoop inClass str len i tokenStart =
     (if i < len then
        (if inClass (str ! i) then
           tknLoop inClass str len (i + 1) (case tokenStart of None \<Rightarrow> Some i | Some s \<Rightarrow> Some s)
         else (case tokenStart of
                 Some s \<Rightarrow> Some \<lparr>tstart = s, tend = i\<rparr>
               | None \<Rightarrow> tknLoop inClass str len (i + 1) None))
      else (case tokenStart of Some s \<Rightarrow> Some \<lparr>tstart = s, tend = i\<rparr> | None \<Rightarrow> None))"
  by pat_completeness auto
termination by (relation "measure (\<lambda>(inClass, str, len, i, tokenStart). len - i)") auto

declare tknLoop.simps [simp del]

definition tknGetDecimal :: "string \<Rightarrow> nat \<Rightarrow> nat \<Rightarrow> token option" where
  "tknGetDecimal str len start = tknLoop (\<lambda>c. isdigit (char_code c)) str len start None"

definition tknGetAlphanumeric :: "string \<Rightarrow> nat \<Rightarrow> nat \<Rightarrow> token option" where
  "tknGetAlphanumeric str len start = tknLoop isCharAN str len start None"

definition tknGetStandard :: "string \<Rightarrow> nat \<Rightarrow> nat \<Rightarrow> token option" where
  "tknGetStandard str len start = tknLoop (\<lambda>c. c \<in> set ''@#$.'' \<or> isCharAN c) str len start None"

definition tknGetNonWhitespace :: "string \<Rightarrow> nat \<Rightarrow> nat \<Rightarrow> token option" where
  "tknGetNonWhitespace str len start =
     tknLoop (\<lambda>c. c \<noteq> CHR '' '' \<and> c \<noteq> CHR 0x09 \<and> c \<noteq> CHR 0x0A \<and> c \<noteq> CHR 0x00) str len start None"

text \<open>The escape character is stepped over like any other: it escapes nothing.\<close>

function tknGetQuotedLoop :: "string \<Rightarrow> nat \<Rightarrow> nat \<Rightarrow> char \<Rightarrow> char \<Rightarrow> nat option \<Rightarrow> token option" where
  "tknGetQuotedLoop str len i quote escape tokenStart =
     (if i < len then
        (if str ! i = escape then tknGetQuotedLoop str len (i + 1) quote escape tokenStart
         else if str ! i = quote then
           (case tokenStart of
              None \<Rightarrow> tknGetQuotedLoop str len (i + 1) quote escape (Some i)
            | Some s \<Rightarrow> Some \<lparr>tstart = s, tend = i + 1\<rparr>)
         else tknGetQuotedLoop str len (i + 1) quote escape tokenStart)
      else None)"
  by pat_completeness auto
termination by (relation "measure (\<lambda>(str, len, i, quote, escape, tokenStart). len - i)") auto

declare tknGetQuotedLoop.simps [simp del]

definition tknGetQuoted :: "string \<Rightarrow> nat \<Rightarrow> nat \<Rightarrow> char \<Rightarrow> char \<Rightarrow> token option" where
  "tknGetQuoted str len start quote escape = tknGetQuotedLoop str len start quote escape None"

text \<open>
  The comparison at \<open>i\<close> from the second character of \<open>match\<close> on: no chance of a match any more,
  no match here, or a match.
\<close>

datatype match_result = NoChance | NoMatch | Matched nat

fun matchRest :: "string \<Rightarrow> nat \<Rightarrow> nat \<Rightarrow> nat \<Rightarrow> string \<Rightarrow> match_result" where
  "matchRest str len i j [] = Matched j"
| "matchRest str len i j (m # ms) =
     (if i + j \<ge> len then NoChance
      else if str ! (i + j) \<noteq> m then NoMatch
      else matchRest str len i (j + 1) ms)"

function tknGetTerminating :: "string \<Rightarrow> nat \<Rightarrow> string \<Rightarrow> nat \<Rightarrow> token option" where
  "tknGetTerminating str len match i =
     (if i < len then
        (if str ! i = (match @ [CHR 0x00]) ! 0 then
           (case matchRest str len i 1 (tl match) of
              NoChance \<Rightarrow> None
            | Matched j \<Rightarrow> Some \<lparr>tstart = i, tend = i + j\<rparr>
            | NoMatch \<Rightarrow> tknGetTerminating str len match (i + 1))
         else tknGetTerminating str len match (i + 1))
      else None)"
  by pat_completeness auto
termination by (relation "measure (\<lambda>(str, len, match, i). len - i)") auto

declare tknGetTerminating.simps [simp del]

definition tknLength :: "token \<Rightarrow> nat" where
  "tknLength t = tend t - tstart t"

definition tknText :: "token \<Rightarrow> string \<Rightarrow> string" where
  "tknText t str = take (tend t - tstart t) (drop (tstart t) str)"

definition tknTextEquals :: "token \<Rightarrow> string \<Rightarrow> string \<Rightarrow> bool" where
  "tknTextEquals t str match =
     (if tend t - tstart t \<noteq> length match then False
      else take (length match) (drop (tstart t) str) = match)"

fun tknIntLoop :: "cint \<Rightarrow> string \<Rightarrow> cint" where
  "tknIntLoop x [] = x"
| "tknIntLoop x (c # cs) = tknIntLoop (x * 10 + word_of_int (char_code c - 48)) cs"

definition tknInt :: "token \<Rightarrow> string \<Rightarrow> cint" where
  "tknInt t str = tknIntLoop 0 (take (tend t - tstart t) (drop (tstart t) str))"

subsection \<open>Blanks\<close>

fun hasTextLoop :: "bool \<Rightarrow> string \<Rightarrow> bool" where
  "hasTextLoop found [] = found"
| "hasTextLoop found (c # cs) =
     (let b = (of_char c :: nat) in
      if b < 40 then True else hasTextLoop (if b > 40 then True else found) cs)"

definition hasText :: "string \<Rightarrow> nat \<Rightarrow> nat \<Rightarrow> bool" where
  "hasText data offset len = hasTextLoop False (take len (drop offset data))"

fun isBlanksLoop :: "string \<Rightarrow> bool" where
  "isBlanksLoop [] = True"
| "isBlanksLoop (c # cs) = (if c \<noteq> CHR '' '' then False else isBlanksLoop cs)"

definition isBlanks :: "string \<Rightarrow> nat \<Rightarrow> nat \<Rightarrow> bool" where
  "isBlanks data offset len = isBlanksLoop (take len (drop offset data))"

subsection \<open>What the scanners find\<close>

lemma tknLoop_inside:
  assumes "len \<le> length str" "i \<le> len"
  shows "tknLoop p str len i (Some s) = Some \<lparr>tstart = s, tend = i + length (takeWhile p (drop i (take len str)))\<rparr>"
  using assms
proof (induction "len - i" arbitrary: i)
  case 0
  then show ?case by (simp add: tknLoop.simps)
next
  case (Suc n)
  then have i: "i < len" by simp
  then have "drop i (take len str) = str ! i # drop (i + 1) (take len str)"
    using Suc.prems(1) Cons_nth_drop_Suc [of i "take len str"] by simp
  with Suc i show ?case by (subst tknLoop.simps) simp
qed

text \<open>The token found is the first run of characters of the class, taken as far as it goes.\<close>

lemma tknLoop_first_run:
  assumes "len \<le> length str" "start \<le> len"
  defines "cs \<equiv> drop start (take len str)"
  shows "tknLoop p str len start None =
    (if \<exists>c\<in>set cs. p c then
       let n = start + length (takeWhile (\<lambda>c. \<not> p c) cs) in
       Some \<lparr>tstart = n, tend = n + length (takeWhile p (dropWhile (\<lambda>c. \<not> p c) cs))\<rparr>
     else None)"
  using assms(1,2) unfolding cs_def
proof (induction "len - start" arbitrary: start)
  case 0
  then show ?case by (simp add: tknLoop.simps)
next
  case (Suc n)
  then have i: "start < len" by simp
  then have cs: "drop start (take len str) = str ! start # drop (start + 1) (take len str)"
    using Suc.prems(1) Cons_nth_drop_Suc [of start "take len str"] by simp
  show ?case
  proof (cases "p (str ! start)")
    case True
    have "tknLoop p str len start None = tknLoop p str len (start + 1) (Some start)"
      using i True by (subst tknLoop.simps) simp
    with True i Suc.prems show ?thesis unfolding cs by (simp add: tknLoop_inside)
  next
    case False
    have "tknLoop p str len start None = tknLoop p str len (start + 1) None"
      using i False by (subst tknLoop.simps) simp
    moreover have "n = len - (start + 1)" "start + 1 \<le> len" using Suc i by auto
    ultimately show ?thesis using Suc.hyps(1) [of "start + 1"] Suc.prems(1) False
      unfolding cs by (simp add: Let_def)
  qed
qed

subsection \<open>What the string searches find\<close>

lemma indexOfStringLoop_least:
  "indexOfStringLoop hit hi pos =
     (if \<exists>i. pos \<le> i \<and> i \<le> hi \<and> hit i then int (LEAST i. pos \<le> i \<and> i \<le> hi \<and> hit i) else -1)"
proof (induction hit hi pos rule: indexOfStringLoop.induct)
  case (1 hit hi pos)
  show ?case
  proof (cases "pos \<le> hi \<and> \<not> hit pos")
    case True
    then have "(pos \<le> i \<and> i \<le> hi \<and> hit i) = (pos + 1 \<le> i \<and> i \<le> hi \<and> hit i)" for i
      by (cases "i = pos") auto
    with 1 True show ?thesis by (subst indexOfStringLoop.simps) auto
  next
    case False
    then show ?thesis
      by (subst indexOfStringLoop.simps) (auto intro!: Least_equality [symmetric])
  qed
qed

text \<open>
  On Linux the search that should ignore case compares the whole rest of the buffer, and compares it
  exactly: it finds a string only where the buffer ends with it.
\<close>

lemma indexOfStringInsensitive_suffix:
  assumes "len \<le> length str"
  shows "indexOfStringInsensitive str len search start =
    (if length search \<le> len \<and> start \<le> len - length search \<and>
        take len (drop (len - length search) (take len str)) = search
     then int (len - length search) else -1)"
proof (cases "length search \<le> len \<and> start \<le> len - length search")
  case False
  then show ?thesis by (auto simp: indexOfStringInsensitive_def)
next
  case True
  let ?e = "len - length search"
  have hit: "cheesyInsensitiveMatch str i (len - i) search \<longleftrightarrow>
      i = ?e \<and> take len (drop ?e (take len str)) = search" if "i \<le> ?e" for i
    using that True assms by (auto simp: cheesyInsensitiveMatch_def match_at_def drop_take)
  have "(start \<le> i \<and> i \<le> ?e \<and> cheesyInsensitiveMatch str i (len - i) search) =
      (i = ?e \<and> take len (drop ?e (take len str)) = search)" for i
    using hit True by auto
  moreover have "(LEAST i. i = ?e) = ?e" by (rule Least_equality) simp_all
  ultimately show ?thesis using True
    by (auto simp: indexOfStringInsensitive_def indexOfStringLoop_least of_nat_diff)
qed

end
