(* ===== verification/JsonPointer.thy ===== *)
theory JsonPointer
  imports StrUtils
begin

section \<open>JSON pointers\<close>

text \<open>
  \<open>parseJsonPointer\<close> of \<open>c/json.c\<close> and the \<open>ArrayList\<close> of \<open>c/collections.c\<close> that it fills. A list
  is its capacity, its size and the slots of its vector; a slot that was never written is
  \<open>None\<close>. The size in bytes of a vector is passed as a \<open>uint32_t\<close>: \<open>arrayListAlloc\<close> gives the
  slots that the truncated size holds. \<open>arrayListAdd\<close> is \<open>None\<close> when it writes beyond the new
  vector, and then so is everything that follows.
\<close>

subsection \<open>Array lists\<close>

record 'a arrayList =
  al_capacity :: nat
  al_size :: nat
  al_array :: "'a option list"

definition arrayListAlloc :: "nat \<Rightarrow> 'a option list" where
  "arrayListAlloc bytes = replicate (bytes mod 2 ^ 32 div 8) None"

definition initEmbeddedArrayList :: "'a arrayList" where
  "initEmbeddedArrayList = \<lparr>al_capacity = 8, al_size = 0, al_array = arrayListAlloc (8 * 8)\<rparr>"

definition makeArrayList :: "'a arrayList" where
  "makeArrayList = \<lparr>al_capacity = 8, al_size = 0, al_array = replicate 8 None\<rparr>"

definition arrayListAdd :: "'a arrayList \<Rightarrow> 'a \<Rightarrow> 'a arrayList option" where
  "arrayListAdd l thing =
     (let grown =
        (if al_size l = al_capacity l then
           let newCapacity = 2 * al_capacity l;
               newArray = arrayListAlloc (newCapacity * 8)
           in if al_capacity l \<le> length newArray
              then Some (l\<lparr>al_array := al_array l @ drop (al_capacity l) newArray,
                           al_capacity := newCapacity\<rparr>)
              else None
         else Some l)
      in case grown of
           None \<Rightarrow> None
         | Some l1 \<Rightarrow>
             if al_size l1 < length (al_array l1)
             then Some (l1\<lparr>al_array := (al_array l1)[al_size l1 := Some thing], al_size := al_size l1 + 1\<rparr>)
             else None)"

fun arrayListContainsLoop :: "'a option list \<Rightarrow> nat \<Rightarrow> 'a \<Rightarrow> bool" where
  "arrayListContainsLoop (x # xs) (Suc n) element =
     (if x = Some element then True else arrayListContainsLoop xs n element)"
| "arrayListContainsLoop _ _ element = False"

definition arrayListContains :: "'a arrayList \<Rightarrow> 'a \<Rightarrow> bool" where
  "arrayListContains l element = arrayListContainsLoop (al_array l) (al_size l) element"

definition arrayListElement :: "'a arrayList \<Rightarrow> nat \<Rightarrow> 'a option" where
  "arrayListElement l i = (if i < al_size l then al_array l ! i else None)"

definition arrayListShallowCopy :: "'a arrayList \<Rightarrow> 'a arrayList option" where
  "arrayListShallowCopy source =
     (let a = arrayListAlloc (al_capacity source * 8) in
      if al_size source \<le> length a
      then Some (source\<lparr>al_array := take (al_size source) (al_array source) @ drop (al_size source) a\<rparr>)
      else None)"

subsection \<open>Parsing a pointer\<close>

definition JSON_POINTER_NORMAL_KEY :: nat where "JSON_POINTER_NORMAL_KEY = 1"
definition JSON_POINTER_INTEGER :: nat where "JSON_POINTER_INTEGER = 2"

record jsonPointerElement =
  pe_string :: string
  pe_type :: nat

definition makePointerElement :: "string \<Rightarrow> nat \<Rightarrow> jsonPointerElement" where
  "makePointerElement token ty = \<lparr>pe_string = token, pe_type = ty\<rparr>"

text \<open>The loop over the characters of a token: \<open>None\<close> is \<open>failed\<close>.\<close>

fun pointerToken :: "string \<Rightarrow> bool \<Rightarrow> string \<Rightarrow> bool \<Rightarrow> (string \<times> bool) option" where
  "pointerToken [] pendingTilde token allDigits = (if pendingTilde then None else Some (token, allDigits))"
| "pointerToken (c # cs) pendingTilde token allDigits =
     (let allDigits1 = (if char_code c < 48 \<or> char_code c > 57 then False else allDigits) in
      if pendingTilde then
        (if c = CHR ''0'' then pointerToken cs False (token @ ''~'') allDigits1
         else if c = CHR ''1'' then pointerToken cs False (token @ ''/'') allDigits1
         else None)
      else if c = CHR ''~'' then pointerToken cs True token allDigits1
      else pointerToken cs False (token @ [c]) allDigits1)"

type_synonym jsonPointer = "jsonPointerElement arrayList"

text \<open>The inner option is \<open>NULL\<close>.\<close>

function parsePointerLoop :: "string \<Rightarrow> nat \<Rightarrow> jsonPointer \<Rightarrow> jsonPointer option option" where
  "parsePointerLoop s pos elements =
     (if pos < length s then
        let nextSlash = indexOf s (length s) CHR ''/'' pos;
            end' = (if nextSlash = -1 then length s else nat nextSlash)
        in case pointerToken (take (end' - pos) (drop pos s)) False [] True of
             None \<Rightarrow> Some None
           | Some (token, allDigits) \<Rightarrow>
               (case arrayListAdd elements
                   (makePointerElement token
                      (if allDigits then JSON_POINTER_INTEGER else JSON_POINTER_NORMAL_KEY)) of
                  None \<Rightarrow> None
                | Some elements1 \<Rightarrow>
                    if nextSlash = -1 then Some (Some elements1)
                    else parsePointerLoop s (nat nextSlash + 1) elements1)
      else Some (Some elements))"
  by pat_completeness auto
termination
proof (relation "measure (\<lambda>(s, pos, elements). length s - pos)", goal_cases)
  case 1
  then show ?case by simp
next
  case (2 s pos elements nextSlash)
  then show ?case using indexOf_from [of s "length s" "CHR ''/''" pos] by auto
qed

declare parsePointerLoop.simps [simp del]

definition parseJsonPointer :: "string \<Rightarrow> jsonPointer option option" where
  "parseJsonPointer s =
     (if length s = 0 then Some (Some initEmbeddedArrayList)
      else if s ! 0 \<noteq> CHR ''/'' then Some None
      else parsePointerLoop s 1 initEmbeddedArrayList)"

subsection \<open>Lists that fit\<close>

definition list_ok :: "'a arrayList \<Rightarrow> 'a list \<Rightarrow> bool" where
  "list_ok l xs \<longleftrightarrow> al_size l = length xs \<and> length xs \<le> al_capacity l \<and> 0 < al_capacity l \<and>
     al_capacity l < 2 ^ 29 \<and> length (al_array l) = al_capacity l \<and>
     take (length xs) (al_array l) = map Some xs"

lemma list_ok_init: "list_ok initEmbeddedArrayList []"
  by (simp add: list_ok_def initEmbeddedArrayList_def arrayListAlloc_def)

lemma list_ok_element: "list_ok l xs \<Longrightarrow> arrayListElement l i = (if i < length xs then Some (xs ! i) else None)"
  by (auto simp: list_ok_def arrayListElement_def) (metis nth_map nth_take)

lemma take_update_snoc: "n < length a \<Longrightarrow> take (Suc n) (a[n := Some x]) = take n a @ [Some x]"
  by (simp add: take_Suc_conv_app_nth take_update_cancel)

lemma arrayListAdd_ok:
  assumes "list_ok l xs" "length xs < 2 ^ 28"
  shows "\<exists>l'. arrayListAdd l x = Some l' \<and> list_ok l' (xs @ [x])"
proof (cases "length xs = al_capacity l")
  case False
  with assms show ?thesis by (simp add: arrayListAdd_def list_ok_def take_update_snoc)
next
  case True
  have "2 * al_capacity l * 8 < 2 ^ 32" using True assms(2) by simp
  then have "(2 * al_capacity l * 8) mod 2 ^ 32 div 8 = 2 * al_capacity l" by simp
  then have "arrayListAlloc (2 * al_capacity l * 8) = (replicate (2 * al_capacity l) None :: 'a option list)"
    unfolding arrayListAlloc_def by metis
  moreover have "al_array l = map Some xs"
    using assms(1) True unfolding list_ok_def by (metis take_all order_refl)
  ultimately show ?thesis
    using assms True by (simp add: arrayListAdd_def list_ok_def Let_def take_update_snoc)
qed

text \<open>At \<open>2 ^ 28\<close> elements the size of the doubled vector is truncated to zero bytes.\<close>

lemma arrayListAdd_overrun: "al_size l = 2 ^ 28 \<Longrightarrow> al_capacity l = 2 ^ 28 \<Longrightarrow> arrayListAdd l x = None"
  by (simp add: arrayListAdd_def arrayListAlloc_def)

subsection \<open>The text of a pointer\<close>

fun escape_char :: "char \<Rightarrow> string" where
  "escape_char c = (if c = CHR ''~'' then ''~0'' else if c = CHR ''/'' then ''~1'' else [c])"

definition escape_token :: "string \<Rightarrow> string" where
  "escape_token t = concat (map escape_char t)"

definition pointer_text :: "string list \<Rightarrow> string" where
  "pointer_text ts = concat (map (\<lambda>t. CHR ''/'' # escape_token t) ts)"

definition pointer_element :: "string \<Rightarrow> jsonPointerElement" where
  "pointer_element t = \<lparr>pe_string = t,
     pe_type = (if \<forall>c\<in>set t. isdigit (char_code c) then JSON_POINTER_INTEGER else JSON_POINTER_NORMAL_KEY)\<rparr>"

definition without_last_empty :: "string list \<Rightarrow> string list" where
  "without_last_empty ts = (if ts \<noteq> [] \<and> last ts = [] then butlast ts else ts)"

lemma tilde_slash: "char_code CHR ''~'' = 126" "char_code CHR ''/'' = 47" "char_code CHR ''0'' = 48"
    "char_code CHR ''1'' = 49"
  by (simp_all add: char_code_def)

lemma pointerToken_escape:
  "pointerToken (escape_token t) False acc d = Some (acc @ t, d \<and> (\<forall>c\<in>set t. isdigit (char_code c)))"
  by (induction t arbitrary: acc d) (auto simp: escape_token_def tilde_slash isdigit_def)

lemma escape_no_slash: "CHR ''/'' \<notin> set (escape_token t)"
  by (induction t) (auto simp: escape_token_def)

lemma escape_empty [simp]: "escape_token t = [] \<longleftrightarrow> t = []"
  by (cases t) (auto simp: escape_token_def)

lemma escape_Nil [simp]: "escape_token [] = []"
  by simp

lemma loop_step:
  assumes "pos < length s"
  defines "cs \<equiv> takeWhile (\<lambda>x. x \<noteq> CHR ''/'') (drop pos s)"
  shows "parsePointerLoop s pos l =
    (case pointerToken cs False [] True of
       None \<Rightarrow> Some None
     | Some (token, allDigits) \<Rightarrow>
         (case arrayListAdd l (makePointerElement token
                 (if allDigits then JSON_POINTER_INTEGER else JSON_POINTER_NORMAL_KEY)) of
            None \<Rightarrow> None
          | Some l1 \<Rightarrow>
              if CHR ''/'' \<notin> set (drop pos s) then Some (Some l1)
              else parsePointerLoop s (pos + length cs + 1) l1))"
proof -
  let ?i = "indexOf s (length s) CHR ''/'' pos"
  have i: "?i = (if CHR ''/'' \<in> set (drop pos s) then int (pos + length cs) else -1)"
    using indexOf_takeWhile [of "length s" s pos "CHR ''/''"] assms by auto
  have "take ((if ?i = -1 then length s else nat ?i) - pos) (drop pos s) = cs"
  proof (cases "CHR ''/'' \<in> set (drop pos s)")
    case True
    then show ?thesis using i by (simp add: cs_def nat_int_add takeWhile_eq_take [symmetric])
  next
    case False
    then have "cs = drop pos s" unfolding cs_def by (auto simp: takeWhile_eq_all_conv)
    then show ?thesis using i False by simp
  qed
  note tok = this
  show ?thesis
  proof (cases "CHR ''/'' \<in> set (drop pos s)")
    case True
    then have i': "?i = int (pos + length cs)" using i by simp
    from tok have "take (pos + length cs - pos) (drop pos s) = cs" unfolding i' by (simp add: nat_int_add)
    with assms(1) True show ?thesis
      by (auto simp: parsePointerLoop.simps [of s pos l] i' Let_def nat_int_add split: option.split)
  next
    case False
    then have i': "?i = -1" using i by simp
    have "cs = drop pos s" using False unfolding cs_def by (auto simp: takeWhile_eq_all_conv)
    with assms(1) False show ?thesis
      by (auto simp: parsePointerLoop.simps [of s pos l] i' Let_def split: option.split)
  qed
qed

lemma loop_reads_token:
  assumes "pos \<le> length s" "drop pos s = escape_token t @ pointer_text ts" "t \<noteq> [] \<or> ts \<noteq> []"
  shows "parsePointerLoop s pos l =
    (case arrayListAdd l (pointer_element t) of
       None \<Rightarrow> None
     | Some l1 \<Rightarrow> if ts = [] then Some (Some l1) else parsePointerLoop s (pos + length (escape_token t) + 1) l1)"
proof -
  have "drop pos s \<noteq> []" using assms(2,3) by (cases ts) (auto simp: pointer_text_def)
  then have pos: "pos < length s" by simp
  have tw: "takeWhile (\<lambda>x. x \<noteq> CHR ''/'') (drop pos s) = escape_token t"
    using assms(2) escape_no_slash [of t]
    by (cases ts) (auto simp: pointer_text_def takeWhile_append takeWhile_eq_all_conv)
  have slash: "CHR ''/'' \<in> set (drop pos s) \<longleftrightarrow> ts \<noteq> []"
    using assms(2) escape_no_slash [of t] by (cases ts) (simp_all add: pointer_text_def)
  show ?thesis
    unfolding loop_step [OF pos] tw slash
    using pointerToken_escape [of t "[]" True] by (auto simp: pointer_element_def makePointerElement_def split: option.split)
qed

lemma loop_reads_tokens:
  assumes "pos \<le> length s" "drop pos s = escape_token t @ pointer_text ts" "list_ok l xs"
    "length xs + length ts < 2 ^ 28"
  shows "\<exists>l'. parsePointerLoop s pos l = Some (Some l') \<and>
    list_ok l' (xs @ map pointer_element (without_last_empty (t # ts)))"
  using assms
proof (induction ts arbitrary: t pos l xs)
  case Nil
  show ?case
  proof (cases "t = []")
    case True
    with Nil have "pos = length s" by (simp add: pointer_text_def)
    with True Nil show ?thesis by (simp add: parsePointerLoop.simps without_last_empty_def)
  next
    case False
    have "length xs < 2 ^ 28" using Nil by simp
    from arrayListAdd_ok [OF Nil(3) this] obtain l1 where
      "arrayListAdd l (pointer_element t) = Some l1" "list_ok l1 (xs @ [pointer_element t])" by blast
    with loop_reads_token [OF Nil(1,2)] False show ?thesis by (simp add: without_last_empty_def)
  qed
next
  case (Cons u ts)
  have "length xs < 2 ^ 28" using Cons.prems(4) by simp
  from arrayListAdd_ok [OF Cons.prems(3) this] obtain l1 where
    l1: "arrayListAdd l (pointer_element t) = Some l1" "list_ok l1 (xs @ [pointer_element t])" by blast
  let ?pos = "pos + length (escape_token t) + 1"
  have d: "drop ?pos s = escape_token u @ pointer_text ts"
  proof -
    have "drop ?pos s = drop (length (escape_token t) + 1) (drop pos s)" by (simp add: ac_simps)
    then show ?thesis using Cons.prems(2) by (simp add: pointer_text_def)
  qed
  have len: "length (drop pos s) = length (escape_token t @ pointer_text (u # ts))"
    using Cons.prems(2) by simp
  then have "?pos \<le> length s" using Cons.prems(1) by (simp add: pointer_text_def)
  from Cons.IH [OF this d l1(2)] Cons.prems(4) obtain l' where
    "parsePointerLoop s ?pos l1 = Some (Some l')"
    "list_ok l' ((xs @ [pointer_element t]) @ map pointer_element (without_last_empty (u # ts)))"
    by auto
  then show ?case
    using loop_reads_token [OF Cons.prems(1,2)] l1 by (auto simp: without_last_empty_def)
qed

subsection \<open>Tildes that are no escape\<close>

fun bad_tilde :: "string \<Rightarrow> bool" where
  "bad_tilde [] \<longleftrightarrow> False"
| "bad_tilde (c # cs) \<longleftrightarrow> c = CHR ''~'' \<and> (cs = [] \<or> hd cs \<notin> {CHR ''0'', CHR ''1''}) \<or> bad_tilde cs"

lemma pointerToken_fails:
  "pointerToken cs pending acc d = None \<longleftrightarrow>
     bad_tilde cs \<or> pending \<and> (cs = [] \<or> hd cs \<notin> {CHR ''0'', CHR ''1''})"
  by (induction cs pending acc d rule: pointerToken.induct) (auto simp: Let_def)

lemma bad_tilde_slash: "bad_tilde (as @ CHR ''/'' # bs) \<longleftrightarrow> bad_tilde as \<or> bad_tilde bs"
proof (induction as)
  case (Cons a as)
  then show ?case by (cases as) auto
qed simp

lemma split_first: "c \<in> set xs \<Longrightarrow>
    xs = takeWhile (\<lambda>x. x \<noteq> c) xs @ c # drop (length (takeWhile (\<lambda>x. x \<noteq> c) xs) + 1) xs"
  by (induction xs) auto

lemma bad_tilde_iff: "bad_tilde t \<longleftrightarrow>
    (\<exists>i<length t. t ! i = CHR ''~'' \<and> (i + 1 = length t \<or> t ! (i + 1) \<notin> {CHR ''0'', CHR ''1''}))"
proof (induction t)
  case (Cons c cs)
  then show ?case by (cases cs) (simp_all add: Ex_less_Suc2)
qed simp

lemma loop_rejects:
  assumes "pos \<le> length s" "list_ok l xs" "length xs + length s - pos < 2 ^ 28"
  shows "parsePointerLoop s pos l \<noteq> None \<and> (parsePointerLoop s pos l = Some None \<longleftrightarrow> bad_tilde (drop pos s))"
  using assms
proof (induction "length s - pos" arbitrary: pos l xs rule: less_induct)
  case less
  show ?case
  proof (cases "pos < length s")
    case False
    then show ?thesis by (simp add: parsePointerLoop.simps)
  next
    case True
    let ?cs = "takeWhile (\<lambda>x. x \<noteq> CHR ''/'') (drop pos s)"
    note step = loop_step [OF True, of l]
    have cs: "bad_tilde ?cs \<longleftrightarrow> pointerToken ?cs False [] True = None"
      by (simp add: pointerToken_fails)
    have room: "length xs < 2 ^ 28" using less.prems(3) True by linarith
    have split: "drop pos s = ?cs @ CHR ''/'' # drop (length ?cs + 1) (drop pos s)"
      if "CHR ''/'' \<in> set (drop pos s)"
      using that by (rule split_first)
    have whole: "?cs = drop pos s" if "CHR ''/'' \<notin> set (drop pos s)"
      using that by (auto simp: takeWhile_eq_all_conv)
    show ?thesis
    proof (cases "pointerToken ?cs False [] True")
      case None
      then have "bad_tilde (drop pos s)" using cs split whole bad_tilde_slash by metis
      with None step show ?thesis by simp
    next
      case (Some r)
      obtain token allDigits where r: "r = (token, allDigits)" by fastforce
      let ?e = "makePointerElement token
          (if allDigits then JSON_POINTER_INTEGER else JSON_POINTER_NORMAL_KEY)"
      obtain l1 where l1: "arrayListAdd l ?e = Some l1" "list_ok l1 (xs @ [?e])"
        using arrayListAdd_ok [OF less.prems(2) room] by blast
      show ?thesis
      proof (cases "CHR ''/'' \<in> set (drop pos s)")
        case False
        then have "parsePointerLoop s pos l = Some (Some l1)" using Some step r l1(1) by simp
        moreover have "\<not> bad_tilde (drop pos s)" using Some cs whole [OF False] by simp
        ultimately show ?thesis by simp
      next
        case slash: True
        let ?pos = "pos + length ?cs + 1"
        have "drop ?pos s = drop (length ?cs + 1) (drop pos s)" by (simp add: ac_simps)
        then have rest: "drop pos s = ?cs @ CHR ''/'' # drop ?pos s" using split [OF slash] by metis
        then have "length (drop pos s) = length (?cs @ CHR ''/'' # drop ?pos s)" by simp
        then have le: "?pos \<le> length s" using less.prems(1) by simp
        have bt: "bad_tilde (drop pos s) \<longleftrightarrow> bad_tilde (drop ?pos s)"
          using rest bad_tilde_slash [of ?cs "drop ?pos s"] cs Some by simp
        have "parsePointerLoop s ?pos l1 \<noteq> None \<and>
            (parsePointerLoop s ?pos l1 = Some None \<longleftrightarrow> bad_tilde (drop ?pos s))"
          by (rule less.hyps [OF _ le l1(2)]) (use True less.prems in auto)
        with bt step Some r l1 slash show ?thesis by simp
      qed
    qed
  qed
qed

subsection \<open>Properties\<close>

text \<open>
  C30. Parsing the text of a list of tokens, each after a slash with \<open>~\<close> written as \<open>~0\<close> and \<open>/\<close> as
  \<open>~1\<close>, gives those tokens back in order, typed as integer exactly when they have digits only. The one
  exception is an empty last token, which RFC 6901 keeps and the code drops.
\<close>

theorem parseJsonPointer_roundtrip:
  assumes "length ts < 2 ^ 28"
  shows "\<exists>jp. parseJsonPointer (pointer_text ts) = Some (Some jp) \<and>
    al_size jp = length (without_last_empty ts) \<and>
    (\<forall>i. arrayListElement jp i =
       (if i < length (without_last_empty ts) then Some (pointer_element (without_last_empty ts ! i)) else None))"
proof (cases ts)
  case Nil
  have "al_size (initEmbeddedArrayList :: jsonPointer) = 0" by (simp add: initEmbeddedArrayList_def)
  with Nil show ?thesis
    by (simp add: parseJsonPointer_def pointer_text_def without_last_empty_def
        list_ok_element [OF list_ok_init])
next
  case (Cons t us)
  have "drop 1 (pointer_text ts) = escape_token t @ pointer_text us" "1 \<le> length (pointer_text ts)"
    using Cons by (simp_all add: pointer_text_def)
  from loop_reads_tokens [OF this(2,1) list_ok_init] assms Cons obtain jp where
    jp: "parsePointerLoop (pointer_text ts) 1 initEmbeddedArrayList = Some (Some jp)"
    "list_ok jp (map pointer_element (without_last_empty ts))" by auto
  then have "al_size jp = length (without_last_empty ts)" by (simp add: list_ok_def)
  moreover have "parseJsonPointer (pointer_text ts) = Some (Some jp)"
    using jp(1) Cons by (simp add: parseJsonPointer_def pointer_text_def)
  ultimately show ?thesis using list_ok_element [OF jp(2)] by auto
qed

theorem parseJsonPointer_roundtrip_witness:
  "\<exists>jp. parseJsonPointer (pointer_text [''a/b'', ''7'', ''x~'', []]) = Some (Some jp) \<and> al_size jp = 3 \<and>
     arrayListElement jp 0 = Some (pointer_element ''a/b'')"
  using parseJsonPointer_roundtrip [of "[''a/b'', ''7'', ''x~'', []]"]
  by (auto simp: without_last_empty_def)

text \<open>
  C31. The parser answers \<open>NULL\<close> exactly for a text that does not begin with a slash, the empty one
  apart, and for one with a tilde that neither \<open>0\<close> nor \<open>1\<close> follows; it never writes outside the list.
\<close>

theorem parseJsonPointer_rejects:
  assumes "length s < 2 ^ 28"
  shows "parseJsonPointer s \<noteq> None \<and>
    (parseJsonPointer s = Some None \<longleftrightarrow>
       s \<noteq> [] \<and> (hd s \<noteq> CHR ''/'' \<or>
         (\<exists>i<length s. s ! i = CHR ''~'' \<and> (i + 1 = length s \<or> s ! (i + 1) \<notin> {CHR ''0'', CHR ''1''}))))"
proof -
  show ?thesis
  proof (cases s)
    case Nil
    then show ?thesis by (simp add: parseJsonPointer_def)
  next
    case (Cons c cs)
    show ?thesis
    proof (cases "c = CHR ''/''")
      case False
      with Cons show ?thesis by (simp add: parseJsonPointer_def)
    next
      case True
      have "bad_tilde s = bad_tilde cs" using Cons True by simp
      with Cons True loop_rejects [of 1 s initEmbeddedArrayList "[]"] list_ok_init assms bad_tilde_iff [of s]
      show ?thesis by (simp add: parseJsonPointer_def)
    qed
  qed
qed

theorem parseJsonPointer_rejects_witness:
  "parseJsonPointer ''/a~2'' \<noteq> None \<and> parseJsonPointer ''/a~2'' = Some None"
  using parseJsonPointer_rejects [of "''/a~2''"] by (auto intro!: exI [of _ 2])

end
