(* ===== verification/Encodings.thy ===== *)
theory Encodings
  imports CStrings
begin

section \<open>Encodings of bytes as text\<close>

text \<open>
  The hexadecimal, percent, base64 and base32 encodings of \<open>c/utils.c\<close>. Data and text are HOL
  strings; the \<open>int\<close> of a byte is signed (\<open>char_code\<close>) unless the code masks it. Output buffers
  are taken to have room. Where the code reads outside a table or its input the model gives
  \<open>None\<close>.
\<close>

definition uchar :: "char \<Rightarrow> int" where
  "uchar c = char_code c AND 0xFF"

subsection \<open>Hexadecimal\<close>

definition hexDigits :: string where
  "hexDigits = ''0123456789ABCDEF''"

definition hexDigitsLower :: string where
  "hexDigitsLower = ''0123456789abcdef''"

text \<open>The part of the buffer that \<open>hexFill\<close> writes from \<open>offset\<close> on, and the next offset.\<close>

definition hexFill :: "nat \<Rightarrow> nat \<Rightarrow> nat \<Rightarrow> nat \<Rightarrow> int \<Rightarrow> string \<times> nat" where
  "hexFill offset prePad formatWidth postPad value =
     (replicate prePad CHR '' '' @
      map (\<lambda>i. hexDigits ! nat (drop_bit (4 * (formatWidth - i - 1)) value AND 0xF)) [0..<formatWidth] @
      replicate postPad CHR '' '',
      offset + prePad + formatWidth + postPad)"

definition simpleHexFill :: "nat \<Rightarrow> int \<Rightarrow> string" where
  "simpleHexFill formatWidth value = fst (hexFill 0 0 formatWidth 0 value)"

fun simpleHexPrint :: "string \<Rightarrow> string" where
  "simpleHexPrint [] = []"
| "simpleHexPrint (c # data) =
     hexDigits ! nat (drop_bit 4 (char_code c AND 0xF0)) # hexDigits ! nat (char_code c AND 0x0F) #
     simpleHexPrint data"

fun simpleHexPrintLower :: "string \<Rightarrow> string" where
  "simpleHexPrintLower [] = []"
| "simpleHexPrintLower (c # data) =
     hexDigitsLower ! nat (drop_bit 4 (char_code c AND 0xF0)) # hexDigitsLower ! nat (char_code c AND 0x0F) #
     simpleHexPrintLower data"

definition toupper :: "char \<Rightarrow> char" where
  "toupper c = (if 97 \<le> char_code c \<and> char_code c \<le> 122 then code_char (char_code c - 32) else c)"

definition strupcase :: "string \<Rightarrow> string" where
  "strupcase s = map toupper s"

subsection \<open>Percent encoding\<close>







subsection \<open>Base64\<close>

definition getBitsForChar :: "char \<Rightarrow> int" where
  "getBitsForChar ch =
     (let c = char_code ch in
      if 97 \<le> c \<and> c \<le> 105 then c - 97 + 26
      else if 106 \<le> c \<and> c \<le> 114 then c - 106 + 35
      else if 115 \<le> c \<and> c \<le> 122 then c - 115 + 44
      else if 65 \<le> c \<and> c \<le> 73 then c - 65
      else if 74 \<le> c \<and> c \<le> 82 then c - 74 + 9
      else if 83 \<le> c \<and> c \<le> 90 then c - 83 + 18
      else if 48 \<le> c \<and> c \<le> 57 then c - 48 + 52
      else if c = 43 then 62
      else if c = 47 then 63
      else -1)"

text \<open>The full groups, and what is left of the text.\<close>

fun decodeGroups :: "nat \<Rightarrow> string \<Rightarrow> string \<times> string" where
  "decodeGroups (Suc n) (c0 # c1 # c2 # c3 # s) =
     (let ch0 = getBitsForChar c0; ch1 = getBitsForChar c1;
          ch2 = getBitsForChar c2; ch3 = getBitsForChar c3
      in case decodeGroups n s of
           (out, rest) \<Rightarrow>
             (code_char (push_bit 2 ch0 OR drop_bit 4 ch1) # code_char (push_bit 4 ch1 OR drop_bit 2 ch2) #
              code_char (push_bit 6 ch2 OR ch3) # out, rest))"
| "decodeGroups _ s = ([], s)"

datatype decoded = Not_Multiple_Of_4 | Beyond_Input | Decoded string

definition decodePartial :: "nat \<Rightarrow> string \<Rightarrow> string option" where
  "decodePartial missing s =
     (if missing = 0 then Some []
      else (case s of
              c0 # c1 # s1 \<Rightarrow>
                (let ch0 = getBitsForChar c0; ch1 = getBitsForChar c1;
                     b0 = code_char (push_bit 2 ch0 OR drop_bit 4 ch1)
                 in if missing = 1 then
                      (case s1 of
                         c2 # _ \<Rightarrow> Some [b0, code_char (push_bit 4 ch1 OR drop_bit 2 (getBitsForChar c2))]
                       | [] \<Rightarrow> None)
                    else Some [b0])
            | _ \<Rightarrow> None))"

definition decodeBase64Unterminated :: "string \<Rightarrow> decoded" where
  "decodeBase64Unterminated s =
     (let sLen = length s; numGroups = sLen div 4 in
      if 4 * numGroups \<noteq> sLen then Not_Multiple_Of_4
      else
        let last = sLen \<noteq> 0 \<and> s ! (sLen - 1) = CHR ''='';
            missing = (if last then 1 else 0) + (if sLen \<noteq> 0 \<and> s ! (sLen - 2) = CHR ''='' then 1 else 0);
            numFullGroups = numGroups - (if last then 1 else 0)
        in case decodeGroups numFullGroups s of
             (out, rest) \<Rightarrow>
               (case decodePartial missing rest of
                  Some out2 \<Rightarrow> Decoded (out @ out2)
                | None \<Rightarrow> Beyond_Input))"

definition binToB64 :: string where
  "binToB64 = ''ABCDEFGHIJKLMNOPQRSTUVWXYZabcdefghijklmnopqrstuvwxyz0123456789+/''"

definition binToEB64 :: string where
  "binToEB64 = map char_of
    [0xc1::nat,0xc2,0xc3,0xc4,0xc5,0xc6,0xc7,0xc8,0xc9,0xd1,0xd2,0xd3,0xd4,0xd5,0xd6,0xd7,
     0xd8,0xd9,0xe2,0xe3,0xe4,0xe5,0xe6,0xe7,0xe8,0xe9,0x81,0x82,0x83,0x84,0x85,0x86,
     0x87,0x88,0x89,0x91,0x92,0x93,0x94,0x95,0x96,0x97,0x98,0x99,0xa2,0xa3,0xa4,0xa5,
     0xa6,0xa7,0xa8,0xa9,0xf0,0xf1,0xf2,0xf3,0xf4,0xf5,0xf6,0xf7,0xf8,0xf9,0x4e,0x61]"

fun encodeGroups :: "string \<Rightarrow> string \<Rightarrow> string" where
  "encodeGroups tr (c0 # c1 # c2 # data) =
     (let byte0 = uchar c0; byte1 = uchar c1; byte2 = uchar c2 in
      tr ! nat (drop_bit 2 byte0) #
      tr ! nat ((push_bit 4 byte0 AND 0x3F) OR drop_bit 4 byte1) #
      tr ! nat ((push_bit 2 byte1 AND 0x3F) OR drop_bit 6 byte2) #
      tr ! nat (byte2 AND 0x3F) #
      encodeGroups tr data)"
| "encodeGroups tr [c0, c1] =
     (let byte0 = uchar c0; byte1 = uchar c1 in
      [tr ! nat (drop_bit 2 byte0),
       tr ! nat ((push_bit 4 byte0 AND 0x3F) OR drop_bit 4 byte1),
       tr ! nat (push_bit 2 byte1 AND 0x3F), CHR ''=''])"
| "encodeGroups tr [c0] =
     (let byte0 = uchar c0 in
      [tr ! nat (drop_bit 2 byte0), tr ! nat (push_bit 4 byte0 AND 0x3F), CHR ''='', CHR ''=''])"
| "encodeGroups tr [] = []"

definition encodeBase64NoAlloc :: "string \<Rightarrow> bool \<Rightarrow> string" where
  "encodeBase64NoAlloc buf useEbcdic = encodeGroups (if useEbcdic then binToEB64 else binToB64) buf"

definition base64ToBase64url :: "string \<Rightarrow> string" where
  "base64ToBase64url s =
     rev (dropWhile (\<lambda>c. c = CHR ''='')
       (rev (map (\<lambda>c. if c = CHR ''+'' then CHR ''-'' else if c = CHR ''/'' then CHR ''_'' else c) s)))"

text \<open>The buffer of \<open>bufSize\<close> bytes holds the string and its terminating zero.\<close>

definition base64urlToBase64 :: "string \<Rightarrow> nat \<Rightarrow> string \<times> int" where
  "base64urlToBase64 s bufSize =
     (let t = map (\<lambda>c. if c = CHR ''-'' then CHR ''+'' else if c = CHR ''_'' then CHR ''/'' else c) s;
          i = length t;
          three = (\<lambda>t rc. if int (length t) \<ge> int bufSize - 1 then (t, -1) else (t @ ''='', rc + 1))
      in if i mod 4 = 2 then
           (if int i \<ge> int bufSize - 2 then (t, -2) else three (t @ ''='') 1)
         else if i mod 4 = 3 then three t 0
         else if i mod 4 = 0 then (t, 0)
         else (t, -3))"

subsection \<open>Base32\<close>

definition RFC4648 :: int where "RFC4648 = 0"
definition INVALID_ALPHABET :: int where "INVALID_ALPHABET = 1"
definition INVALID_DECODE_SIZE :: int where "INVALID_DECODE_SIZE = 2"
definition DECODE_LENGTH_TOO_SMALL :: int where "DECODE_LENGTH_TOO_SMALL = 3"
definition DECODE_CHAR_INVALID :: int where "DECODE_CHAR_INVALID = 4"
definition ENCODE_LENGTH_TOO_SMALL :: int where "ENCODE_LENGTH_TOO_SMALL = 3"

definition ASCIIDecodeTable :: "int list" where
  "ASCIIDecodeTable = replicate 50 (-1) @ [26..31] @ replicate 9 (-1) @ [0..25] @ replicate 165 (-1)"

definition EBCDICDecodeTable :: "int list" where
  "EBCDICDecodeTable = replicate 193 (-1) @ [0..8] @ replicate 7 (-1) @ [9..17] @ replicate 8 (-1) @
     [18..25] @ replicate 8 (-1) @ [26..31] @ replicate 8 (-1)"

definition ASCIIEncodeTable :: string where
  "ASCIIEncodeTable = ''ABCDEFGHIJKLMNOPQRSTUVWXYZ234567''"

definition EBCDICEncodeTable :: string where
  "EBCDICEncodeTable = ''ABCDEFGHIJKLMNOPQRSTUVWXYZ234567''"

text \<open>
  One of the eight reads of a group: \<open>=\<close> is -2 and is not stepped over. A \<open>char\<close> above 127 is a
  negative index. The string ends with a zero byte.
\<close>

fun base32Digit :: "int list \<Rightarrow> string \<Rightarrow> (int \<times> string) option" where
  "base32Digit table [] = Some (table ! 0, [])"
| "base32Digit table (c # s) =
     (if c = CHR ''='' then Some (-2, c # s)
      else if char_code c < 0 then None
      else Some (table ! nat (char_code c), s))"

fun base32Digits :: "nat \<Rightarrow> int list \<Rightarrow> string \<Rightarrow> (int list \<times> string) option" where
  "base32Digits 0 table s = Some ([], s)"
| "base32Digits (Suc n) table s =
     (case base32Digit table s of
        None \<Rightarrow> None
      | Some (d, s1) \<Rightarrow>
          (case base32Digits n table s1 of None \<Rightarrow> None | Some (ds, s2) \<Rightarrow> Some (d # ds, s2)))"

text \<open>What one group writes, and whether the loop goes on.\<close>

definition base32Bytes :: "int list \<Rightarrow> string \<times> bool" where
  "base32Bytes ch =
     (if ch ! 0 = -2 then ([], False)
      else let o0 = [code_char (push_bit 3 (ch ! 0) OR drop_bit 2 (ch ! 1))] in
      if ch ! 2 = -2 then (o0, False)
      else let o1 = o0 @ [code_char (push_bit 6 (ch ! 1) OR push_bit 1 (ch ! 2) OR (drop_bit 4 (ch ! 3) AND 0xFF))] in
      if ch ! 4 = -2 then (o1, False)
      else let o2 = o1 @ [code_char (push_bit 4 (ch ! 3) OR (drop_bit 1 (ch ! 4) AND 0xFF))] in
      if ch ! 5 = -2 then (o2, False)
      else let o3 = o2 @ [code_char (push_bit 7 (ch ! 4) OR push_bit 2 (ch ! 5) OR (drop_bit 3 (ch ! 6) AND 0xFF))] in
      if ch ! 7 = -2 then (o3, False)
      else (o3 @ [code_char (push_bit 5 (ch ! 6) OR (ch ! 7 AND 0xFF))], True))"

text \<open>The outer option is a read outside the table, the inner one a character that is not of the alphabet.\<close>

fun base32DecodeLoop :: "nat \<Rightarrow> int list \<Rightarrow> string \<Rightarrow> string option option" where
  "base32DecodeLoop 0 table s = Some (Some [])"
| "base32DecodeLoop (Suc n) table s =
     (case base32Digits 8 table s of
        None \<Rightarrow> None
      | Some (ch, s1) \<Rightarrow>
          if -1 \<in> set ch then Some None
          else (case base32Bytes ch of
                  (out, True) \<Rightarrow> map_option (map_option (\<lambda>rest. out @ rest)) (base32DecodeLoop n table s1)
                | (out, False) \<Rightarrow> Some (Some out)))"

definition base32Decode :: "int \<Rightarrow> string \<Rightarrow> nat \<Rightarrow> bool \<Rightarrow> (int \<times> string) option" where
  "base32Decode alphabet input outputLength useEBCDIC =
     (let inputLength = length input in
      if alphabet \<noteq> RFC4648 then Some (INVALID_ALPHABET, [])
      else if inputLength mod 8 \<noteq> 0 then Some (INVALID_DECODE_SIZE, [])
      else if (inputLength + 7) div 8 * 5 > outputLength then Some (DECODE_LENGTH_TOO_SMALL, [])
      else (case base32DecodeLoop (inputLength div 8)
                   (if useEBCDIC then EBCDICDecodeTable else ASCIIDecodeTable) input of
              None \<Rightarrow> None
            | Some None \<Rightarrow> Some (DECODE_CHAR_INVALID, [])
            | Some (Some out) \<Rightarrow> Some (0, out)))"

definition table_char :: "string \<Rightarrow> int \<Rightarrow> char option" where
  "table_char table i = (if 0 \<le> i \<and> i < int (length table) then Some (table ! nat i) else None)"

text \<open>The characters at a list of indexes.\<close>

fun table_chars :: "string \<Rightarrow> int list \<Rightarrow> string option" where
  "table_chars table [] = Some []"
| "table_chars table (i # is) =
     (case table_char table i of
        None \<Rightarrow> None
      | Some c \<Rightarrow> (case table_chars table is of None \<Rightarrow> None | Some cs \<Rightarrow> Some (c # cs)))"

text \<open>The full groups mask their bytes; the last partial group does not.\<close>

definition base32Group :: "string \<Rightarrow> int \<Rightarrow> int \<Rightarrow> int \<Rightarrow> int \<Rightarrow> int \<Rightarrow> string option" where
  "base32Group table byte0 byte1 byte2 byte3 byte4 =
     table_chars table
       [drop_bit 3 byte0 AND 0x1F,
        (push_bit 2 byte0 AND 0x1F) OR drop_bit 6 byte1,
        drop_bit 1 byte1 AND 0x1F,
        (push_bit 4 byte1 AND 0x1F) OR drop_bit 4 byte2,
        (push_bit 1 byte2 AND 0x1F) OR drop_bit 7 byte3,
        drop_bit 2 byte3 AND 0x1F,
        (push_bit 3 byte3 AND 0x1F) OR drop_bit 5 byte4,
        byte4 AND 0x1F]"

definition base32Partial :: "string \<Rightarrow> string \<Rightarrow> string option" where
  "base32Partial table left =
     (let b = map char_code left in
      case b of
        [byte0] \<Rightarrow>
          map_option (\<lambda>t. t @ ''======'')
            (table_chars table [drop_bit 3 byte0 AND 0x1F, push_bit 2 byte0 AND 0x1F])
      | [byte0, byte1] \<Rightarrow>
          map_option (\<lambda>t. t @ ''===='')
            (table_chars table
              [drop_bit 3 byte0 AND 0x1F, (push_bit 2 byte0 AND 0x1F) OR drop_bit 6 byte1,
               drop_bit 1 byte1 AND 0x1F, push_bit 4 byte1 AND 0x1F])
      | [byte0, byte1, byte2] \<Rightarrow>
          map_option (\<lambda>t. t @ ''==='')
            (table_chars table
              [drop_bit 3 byte0 AND 0x1F, (push_bit 2 byte0 AND 0x1F) OR drop_bit 6 byte1,
               drop_bit 1 byte1 AND 0x1F, (push_bit 4 byte1 AND 0x1F) OR drop_bit 4 byte2,
               push_bit 1 byte2 AND 0x1F])
      | [byte0, byte1, byte2, byte3] \<Rightarrow>
          map_option (\<lambda>t. t @ ''='')
            (table_chars table
              [drop_bit 3 byte0 AND 0x1F, (push_bit 2 byte0 AND 0x1F) OR drop_bit 6 byte1,
               drop_bit 1 byte1 AND 0x1F, (push_bit 4 byte1 AND 0x1F) OR drop_bit 4 byte2,
               (push_bit 1 byte2 AND 0x1F) OR drop_bit 7 byte3, drop_bit 2 byte3 AND 0x1F,
               push_bit 3 byte3 AND 0x1F])
      | _ \<Rightarrow> Some [])"

fun base32EncodeLoop :: "string \<Rightarrow> string \<Rightarrow> string option" where
  "base32EncodeLoop table (c0 # c1 # c2 # c3 # c4 # input) =
     (case base32Group table (uchar c0) (uchar c1) (uchar c2) (uchar c3) (uchar c4) of
        None \<Rightarrow> None
      | Some t \<Rightarrow> map_option (\<lambda>rest. t @ rest) (base32EncodeLoop table input))"
| "base32EncodeLoop table left = base32Partial table left"

definition base32Encode :: "int \<Rightarrow> string \<Rightarrow> nat \<Rightarrow> bool \<Rightarrow> (int \<times> string) option" where
  "base32Encode alphabet input outputLength useEBCDIC =
     (let inputLength = length input in
      if alphabet \<noteq> RFC4648 then Some (INVALID_ALPHABET, [])
      else if (inputLength + 4) div 5 * 8 + 1 > outputLength then Some (ENCODE_LENGTH_TOO_SMALL, [])
      else map_option (\<lambda>out. (0, out))
             (base32EncodeLoop (if useEBCDIC then EBCDICEncodeTable else ASCIIEncodeTable) input))"

subsection \<open>Bytes and their bits\<close>

lemma code_char_take_bit: "code_char (take_bit 8 i) = code_char i"
proof -
  have "(word_of_int (take_bit 8 i) :: byte) = word_of_int i"
    by (simp add: word_of_int_eq_iff)
  then show ?thesis unfolding code_char_def by (rule arg_cong)
qed

lemma uchar_take_bit: "uchar c = take_bit 8 (char_code c)"
proof -
  have "(0xFF :: int) = mask 8" by (simp add: mask_eq_exp_minus_1)
  then show ?thesis by (simp add: uchar_def take_bit_eq_mask)
qed

lemma code_char_eqI: "take_bit 8 i = uchar c \<Longrightarrow> code_char i = c"
  by (metis code_char_take_bit uchar_take_bit code_char_code)

lemma uchar_bit: "bit (uchar c) n \<Longrightarrow> n < 8"
  by (simp add: uchar_take_bit bit_take_bit_iff)

lemma uchar_range: "0 \<le> uchar c" "uchar c < 256"
  using take_bit_int_less_exp [of 8 "char_code c"] by (simp_all add: uchar_take_bit)

lemma masks: "(0x3F :: int) = mask 6" "(0x1F :: int) = mask 5" "(0xFF :: int) = mask 8" "(0x0F :: int) = mask 4"
  by (simp_all add: mask_eq_exp_minus_1)

lemma uchar_high [simp]: "8 \<le> n \<Longrightarrow> \<not> bit (uchar c) n"
  using uchar_bit [of c n] by auto

lemma byte_eqI:
  assumes "bit i 0 = bit (uchar c) 0" "bit i 1 = bit (uchar c) 1" "bit i 2 = bit (uchar c) 2"
    "bit i 3 = bit (uchar c) 3" "bit i 4 = bit (uchar c) 4" "bit i 5 = bit (uchar c) 5"
    "bit i 6 = bit (uchar c) 6" "bit i 7 = bit (uchar c) 7"
  shows "code_char i = c"
proof (rule code_char_eqI, rule bit_eqI)
  fix n
  show "bit (take_bit 8 i) n = bit (uchar c) n"
  proof (cases "n < 8")
    case True
    then have "n \<in> {0, 1, 2, 3, 4, 5, 6, 7}" by auto
    with assms True show ?thesis by (auto simp: bit_take_bit_iff)
  qed (simp add: bit_take_bit_iff)
qed

lemma base64_bits:
  "code_char (push_bit 2 (drop_bit 2 (uchar a)) OR drop_bit 4 ((push_bit 4 (uchar a) AND 0x3F) OR drop_bit 4 (uchar b))) = a"
  "code_char (push_bit 4 ((push_bit 4 (uchar a) AND 0x3F) OR drop_bit 4 (uchar b)) OR
     drop_bit 2 ((push_bit 2 (uchar b) AND 0x3F) OR drop_bit 6 (uchar c))) = b"
  "code_char (push_bit 6 ((push_bit 2 (uchar b) AND 0x3F) OR drop_bit 6 (uchar c)) OR (uchar c AND 0x3F)) = c"
  "code_char (push_bit 2 (drop_bit 2 (uchar a)) OR drop_bit 4 (push_bit 4 (uchar a) AND 0x3F)) = a"
  "code_char (push_bit 4 ((push_bit 4 (uchar a) AND 0x3F) OR drop_bit 4 (uchar b)) OR
     drop_bit 2 (push_bit 2 (uchar b) AND 0x3F)) = b"
  unfolding masks by (rule byte_eqI; simp add: bit_simps)+

subsection \<open>Base64 there and back\<close>

lemma small_index:
  assumes "\<And>n. k \<le> n \<Longrightarrow> \<not> bit i n"
  shows "0 \<le> i \<and> i < (2 :: int) ^ k"
proof -
  have "take_bit k i = i" by (rule bit_eqI) (use assms not_less in \<open>auto simp: bit_take_bit_iff\<close>)
  then show ?thesis using take_bit_int_less_exp [of k i] take_bit_nonnegative [of k i] by simp
qed

lemma base64_index:
  "0 \<le> drop_bit 2 (uchar a) \<and> drop_bit 2 (uchar a) < 64"
  "0 \<le> (push_bit 4 (uchar a) AND 0x3F) OR drop_bit 4 (uchar b) \<and>
     (push_bit 4 (uchar a) AND 0x3F) OR drop_bit 4 (uchar b) < 64"
  "0 \<le> (push_bit 2 (uchar b) AND 0x3F) OR drop_bit 6 (uchar c) \<and>
     (push_bit 2 (uchar b) AND 0x3F) OR drop_bit 6 (uchar c) < 64"
  "0 \<le> uchar c AND 0x3F \<and> uchar c AND 0x3F < 64"
  "0 \<le> push_bit 4 (uchar a) AND 0x3F \<and> push_bit 4 (uchar a) AND 0x3F < 64"
  "0 \<le> push_bit 2 (uchar b) AND 0x3F \<and> push_bit 2 (uchar b) AND 0x3F < 64"
  unfolding masks by (rule small_index [of 6, simplified]; simp add: bit_simps)+

lemma b64_chars_all:
  "list_all (\<lambda>n. getBitsForChar (binToB64 ! n) = int n \<and> binToB64 ! n \<noteq> CHR ''='' \<and>
     binToB64 ! n \<noteq> CHR ''-'' \<and> binToB64 ! n \<noteq> CHR ''_'') [0..<64]"
  by code_simp

definition b64_char :: "char \<Rightarrow> bool" where
  "b64_char c \<longleftrightarrow> c \<noteq> CHR ''='' \<and> c \<noteq> CHR ''-'' \<and> c \<noteq> CHR ''_''"

lemma b64_bits: "0 \<le> i \<and> i < 64 \<Longrightarrow> getBitsForChar (binToB64 ! nat i) = i"
    and b64_ok: "0 \<le> i \<and> i < 64 \<Longrightarrow> b64_char (binToB64 ! nat i)"
proof -
  assume "0 \<le> i \<and> i < 64"
  then have "nat i \<in> set [0..<64]" "int (nat i) = i" by auto
  then show "getBitsForChar (binToB64 ! nat i) = i" "b64_char (binToB64 ! nat i)"
    using b64_chars_all unfolding list_all_iff b64_char_def by metis+
qed

lemmas b64_simps = b64_bits [OF base64_index(1)] b64_bits [OF base64_index(2)] b64_bits [OF base64_index(3)]
  b64_bits [OF base64_index(4)] b64_bits [OF base64_index(5)] b64_bits [OF base64_index(6)]
  b64_ok [OF base64_index(1)] b64_ok [OF base64_index(2)] b64_ok [OF base64_index(3)]
  b64_ok [OF base64_index(4)] b64_ok [OF base64_index(5)] b64_ok [OF base64_index(6)]

lemma length3: "length xs = 3 * Suc k \<Longrightarrow> \<exists>a b c ys. xs = a # b # c # ys \<and> length ys = 3 * k"
  by (auto simp: length_Suc_conv eval_nat_numeral)

lemma encode_full:
  "length buf = 3 * k \<Longrightarrow>
     encodeGroups binToB64 (buf @ left) = encodeGroups binToB64 buf @ encodeGroups binToB64 left \<and>
     decodeGroups k (encodeGroups binToB64 buf @ rest) = (buf, rest) \<and>
     length (encodeGroups binToB64 buf) = 4 * k \<and> list_all b64_char (encodeGroups binToB64 buf)"
proof (induction k arbitrary: buf)
  case 0
  then show ?case by simp
next
  case (Suc k)
  obtain a b c ys where "buf = a # b # c # ys" "length ys = 3 * k" using length3 [OF Suc.prems] by blast
  then show ?case using Suc.IH [of ys] by (simp add: Let_def b64_simps base64_bits [simplified])
qed

lemma encode_shape:
  obtains full tail k pre left where "encodeGroups binToB64 buf = full @ tail" "length full = 4 * k"
    "list_all b64_char full" "\<forall>rest. decodeGroups k (full @ rest) = (pre, rest)"
    "tail = encodeGroups binToB64 left" "length left < 3" "buf = pre @ left"
proof -
  let ?k = "length buf div 3"
  have "length (take (3 * ?k) buf) = 3 * ?k" by simp
  from encode_full [OF this, of "drop (3 * ?k) buf"] encode_full [OF this]
  show ?thesis by (intro that [of "encodeGroups binToB64 (take (3 * ?k) buf)"
      "encodeGroups binToB64 (drop (3 * ?k) buf)" ?k "take (3 * ?k) buf" "drop (3 * ?k) buf"]) auto
qed

lemma short_list: "length xs < 3 \<Longrightarrow> xs = [] \<or> (\<exists>a. xs = [a]) \<or> (\<exists>a b. xs = [a, b])"
  by (cases xs rule: remdups_adj.cases) (auto simp: length_Suc_conv)

lemma replicate_2: "replicate 2 x = [x, x]"
  by (simp add: numeral_2_eq_2)

lemma tail_decodes:
  assumes "length left < 3"
  defines "tail \<equiv> encodeGroups binToB64 left"
  shows "decodePartial (if left = [] then 0 else 3 - length left) tail = Some left"
    "length tail = (if left = [] then 0 else 4)"
    "left \<noteq> [] \<Longrightarrow> tail ! 3 = CHR ''='' \<and> (tail ! 2 = CHR ''='' \<longleftrightarrow> length left = 1)"
    "\<exists>cs. list_all b64_char cs \<and> length cs = (if left = [] then 0 else length left + 1) \<and>
       tail = cs @ replicate (if left = [] then 0 else 3 - length left) CHR ''=''"
proof -
  have "b64_char x \<Longrightarrow> x \<noteq> CHR ''=''" for x by (simp add: b64_char_def)
  note ne = this [OF b64_ok [OF base64_index(6)]]
  from short_list [OF assms(1)] show
    "decodePartial (if left = [] then 0 else 3 - length left) tail = Some left"
    "length tail = (if left = [] then 0 else 4)"
    "left \<noteq> [] \<Longrightarrow> tail ! 3 = CHR ''='' \<and> (tail ! 2 = CHR ''='' \<longleftrightarrow> length left = 1)"
    unfolding tail_def
    by (auto simp: decodePartial_def Let_def b64_simps base64_bits [simplified] ne)
  from short_list [OF assms(1)] consider "left = []" | a where "left = [a]" | a b where "left = [a, b]"
    by blast
  then show "\<exists>cs. list_all b64_char cs \<and> length cs = (if left = [] then 0 else length left + 1) \<and>
       tail = cs @ replicate (if left = [] then 0 else 3 - length left) CHR ''=''"
  proof cases
    case (2 a)
    then show ?thesis unfolding tail_def
      by (intro exI [of _ "butlast (butlast (encodeGroups binToB64 [a]))"])
         (simp add: Let_def b64_simps replicate_2)
  next
    case (3 a b)
    then show ?thesis unfolding tail_def
      by (intro exI [of _ "butlast (encodeGroups binToB64 [a, b])"])
         (simp add: Let_def b64_simps replicate_2)
  qed (simp add: tail_def)
qed

lemma decode_encode: "decodeBase64Unterminated (encodeGroups binToB64 buf) = Decoded buf"
proof -
  obtain full tail k pre left where enc: "encodeGroups binToB64 buf = full @ tail" "length full = 4 * k"
      "list_all b64_char full" "\<forall>rest. decodeGroups k (full @ rest) = (pre, rest)"
      "tail = encodeGroups binToB64 left" "length left < 3" "buf = pre @ left"
    by (rule encode_shape [of buf])
  note tail = tail_decodes [OF enc(6), folded enc(5)]
  have ne: "c \<noteq> CHR ''=''" if "c \<in> set full" for c using that enc(3) by (auto simp: list_all_iff b64_char_def)
  show ?thesis
  proof (cases "left = []")
    case True
    then have t: "tail = []" using tail(2) by simp
    have "full ! (4 * k - 1) \<noteq> CHR ''=''" "full ! (4 * k - 2) \<noteq> CHR ''=''" if "k \<noteq> 0"
      using ne [OF nth_mem] enc(2) that by auto
    with True t enc(1,2,7) enc(4) [THEN spec, of "[]"] show ?thesis
      by (auto simp: decodeBase64Unterminated_def decodePartial_def Let_def)
  next
    case False
    have len: "length (full @ tail) = 4 * (k + 1)" using enc(2) tail(2) False by simp
    have "(full @ tail) ! (4 * (k + 1) - 1) = tail ! 3" "(full @ tail) ! (4 * (k + 1) - 2) = tail ! 2"
      using enc(2) by (simp_all add: nth_append)
    moreover have "length left \<noteq> 0" using False by simp
    then have "length left = 1 \<or> length left = 2" using enc(6) by linarith
    ultimately show ?thesis
      using enc(1,7) enc(4) [THEN spec, of tail] tail(1,3) False len
      by (auto simp: decodeBase64Unterminated_def Let_def numeral_2_eq_2)
  qed
qed

definition url_char :: "char \<Rightarrow> char" where
  "url_char c = (if c = CHR ''+'' then CHR ''-'' else if c = CHR ''/'' then CHR ''_'' else c)"

definition plain_char :: "char \<Rightarrow> char" where
  "plain_char c = (if c = CHR ''-'' then CHR ''+'' else if c = CHR ''_'' then CHR ''/'' else c)"

lemma url_equals: "url_char CHR ''='' = CHR ''=''"
  by (simp add: url_char_def)

lemma url_plain: "list_all b64_char cs \<Longrightarrow> map plain_char (map url_char cs) = cs"
  by (induction cs) (auto simp: b64_char_def url_char_def plain_char_def)

lemma url_no_equals: "list_all b64_char cs \<Longrightarrow> CHR ''='' \<notin> set (map url_char cs)"
  by (auto simp: list_all_iff b64_char_def url_char_def)

lemma strip_equals:
  assumes "CHR ''='' \<notin> set cs"
  shows "rev (dropWhile (\<lambda>c. c = CHR ''='') (rev (cs @ replicate n CHR ''=''))) = cs"
proof -
  have "dropWhile (\<lambda>c. c = CHR ''='') (replicate n CHR ''='' @ rev cs) = rev cs"
    using assms by (induction n) (cases "rev cs"; auto)+
  then show ?thesis by simp
qed

lemma padding_mod:
  "((a :: nat) + n) mod 4 = 0 \<Longrightarrow> n < 3 \<Longrightarrow>
     n = 0 \<and> a mod 4 = 0 \<or> n = 1 \<and> a mod 4 = 3 \<or> n = 2 \<and> a mod 4 = 2"
  by presburger

lemma url_there_and_back:
  assumes "list_all b64_char cs" "length (cs @ replicate n CHR ''='') mod 4 = 0" "n < 3"
    "length (cs @ replicate n CHR ''='') < bufSize"
  shows "base64urlToBase64 (base64ToBase64url (cs @ replicate n CHR ''='')) bufSize =
    (cs @ replicate n CHR ''='', int n)"
proof -
  have "map url_char (cs @ replicate n CHR ''='') = map url_char cs @ replicate n CHR ''=''"
    by (simp add: url_char_def)
  then have url: "base64ToBase64url (cs @ replicate n CHR ''='') = map url_char cs"
    unfolding base64ToBase64url_def url_char_def [symmetric]
    using strip_equals [OF url_no_equals [OF assms(1)], of n] by (simp add: url_equals)
  have m: "(length cs + n) mod 4 = 0" using assms(2) by simp
  consider "n = 0" "length cs mod 4 = 0" | "n = 1" "length cs mod 4 = 3" | "n = 2" "length cs mod 4 = 2"
    using padding_mod [OF m assms(3)] by argo
  then show ?thesis
    unfolding url base64urlToBase64_def plain_char_def [symmetric] url_plain [OF assms(1)]
    by cases (use assms(4) in \<open>auto simp: Let_def replicate_2\<close>)
qed

subsection \<open>Base32 there and back\<close>

text \<open>The eight indexes of a group of five bytes.\<close>

definition ix :: "char \<Rightarrow> char \<Rightarrow> char \<Rightarrow> char \<Rightarrow> char \<Rightarrow> int list" where
  "ix a b c d e =
     [drop_bit 3 (uchar a) AND 0x1F,
      (push_bit 2 (uchar a) AND 0x1F) OR drop_bit 6 (uchar b),
      drop_bit 1 (uchar b) AND 0x1F,
      (push_bit 4 (uchar b) AND 0x1F) OR drop_bit 4 (uchar c),
      (push_bit 1 (uchar c) AND 0x1F) OR drop_bit 7 (uchar d),
      drop_bit 2 (uchar d) AND 0x1F,
      (push_bit 3 (uchar d) AND 0x1F) OR drop_bit 5 (uchar e),
      uchar e AND 0x1F]"

lemma ix_range: "\<forall>i\<in>set (ix a b c d e). 0 \<le> i \<and> i < 32"
proof -
  have "0 \<le> i \<and> i < 32" if "\<And>n. 5 \<le> n \<Longrightarrow> \<not> bit i n" for i :: int
    using small_index [of 5 i] that by simp
  then show ?thesis unfolding ix_def masks by (auto simp: bit_simps uchar_range)
qed

lemma base32_bits:
  "code_char (push_bit 3 (ix a b c d e ! 0) OR drop_bit 2 (ix a b c d e ! 1)) = a"
  "code_char (push_bit 6 (ix a b c d e ! 1) OR push_bit 1 (ix a b c d e ! 2) OR
     (drop_bit 4 (ix a b c d e ! 3) AND 0xFF)) = b"
  "code_char (push_bit 4 (ix a b c d e ! 3) OR (drop_bit 1 (ix a b c d e ! 4) AND 0xFF)) = c"
  "code_char (push_bit 7 (ix a b c d e ! 4) OR push_bit 2 (ix a b c d e ! 5) OR
     (drop_bit 3 (ix a b c d e ! 6) AND 0xFF)) = d"
  "code_char (push_bit 5 (ix a b c d e ! 6) OR (ix a b c d e ! 7 AND 0xFF)) = e"
  unfolding masks
  by (rule byte_eqI; simp add: ix_def masks bit_simps bit_double_iff mult.commute [of _ 2]
      numeral_2_eq_2 [symmetric] numeral_3_eq_3 [symmetric])+

lemma table_chars_ok:
  "\<forall>i\<in>set is. 0 \<le> i \<and> i < int (length table) \<Longrightarrow> table_chars table is = Some (map (\<lambda>i. table ! nat i) is)"
  by (induction "is") (auto simp: table_char_def)

lemma base32_table_all:
  "list_all (\<lambda>n. ASCIIDecodeTable ! nat (char_code (ASCIIEncodeTable ! n)) = int n \<and>
     0 \<le> char_code (ASCIIEncodeTable ! n) \<and> ASCIIEncodeTable ! n \<noteq> CHR ''='') [0..<32]"
  by code_simp

lemma base32Digit_ok:
  assumes "0 \<le> i" "i < 32"
  shows "base32Digit ASCIIDecodeTable (ASCIIEncodeTable ! nat i # s) = Some (i, s)"
proof -
  have "nat i \<in> set [0..<32]" "int (nat i) = i" using assms by auto
  with base32_table_all show ?thesis unfolding list_all_iff by fastforce
qed

lemma base32Digits_ok:
  "\<forall>i\<in>set is. 0 \<le> i \<and> i < 32 \<Longrightarrow>
     base32Digits (length is) ASCIIDecodeTable (map (\<lambda>i. ASCIIEncodeTable ! nat i) is @ s) = Some (is, s)"
  by (induction "is") (simp_all add: base32Digit_ok del: base32Digit.simps)

lemma base32Digits_pad:
  "\<forall>i\<in>set is. 0 \<le> i \<and> i < 32 \<Longrightarrow>
     base32Digits (length is + k) ASCIIDecodeTable (map (\<lambda>i. ASCIIEncodeTable ! nat i) is @ CHR ''='' # s) =
     Some (is @ replicate k (-2), CHR ''='' # s)"
proof (induction "is")
  case Nil
  show ?case by (induction k) simp_all
qed (simp add: base32Digit_ok del: base32Digit.simps)


lemma uchar_zero [simp]: "uchar CHR 0x00 = 0"
  by (simp add: uchar_def char_code_def)

lemma uchar_ascii: "0 \<le> char_code c \<Longrightarrow> char_code c = uchar c"
proof -
  assume "0 \<le> char_code c"
  then have "char_code c < 256" "0 \<le> char_code c" using ascii_code [of c] by auto
  then show ?thesis by (simp add: uchar_take_bit take_bit_int_eq_self)
qed

lemma first_byte:
  "drop_bit 3 (char_code a) AND 0x1F = drop_bit 3 (uchar a) AND 0x1F"
  "push_bit 2 (char_code a) AND 0x1F = push_bit 2 (uchar a) AND 0x1F"
  unfolding masks uchar_take_bit by (rule bit_eqI; auto simp: bit_simps)+

abbreviation enc32 :: "int list \<Rightarrow> string" where
  "enc32 \<equiv> map (\<lambda>i. ASCIIEncodeTable ! nat i)"

lemma length_table [simp]: "length ASCIIEncodeTable = 32"
  by (simp add: ASCIIEncodeTable_def)

lemma table_chars_ix: "set is \<subseteq> set (ix a b c d e) \<Longrightarrow> table_chars ASCIIEncodeTable is = Some (enc32 is)"
  using ix_range [of a b c d e] by (intro table_chars_ok) auto

text \<open>The bytes left over after the full groups: the code reads them signed, and only the first is harmless.\<close>

definition left_ok :: "string \<Rightarrow> bool" where
  "left_ok left \<longleftrightarrow> (\<forall>c\<in>set (tl left). 0 \<le> char_code c)"

lemma table_chars_neg: "\<exists>i\<in>set is. i < 0 \<Longrightarrow> table_chars table is = None"
proof (induction "is")
  case (Cons i "is")
  then show ?case by (cases "i < 0") (auto simp: table_char_def split: option.split)
qed simp

definition byte_or_0 :: "string \<Rightarrow> nat \<Rightarrow> char" where
  "byte_or_0 s n = (if n < length s then s ! n else CHR 0x00)"

definition padded :: "string \<Rightarrow> nat \<Rightarrow> string" where
  "padded left n = enc32 (take n (ix (byte_or_0 left 0) (byte_or_0 left 1) (byte_or_0 left 2)
     (byte_or_0 left 3) CHR 0x00))"

lemma equals_pads:
  "replicate 6 x = [x, x, x, x, x, x]" "replicate 4 x = [x, x, x, x]" "replicate 3 x = [x, x, x]"
  by (simp_all add: eval_nat_numeral)

definition left_chars :: "nat \<Rightarrow> nat" where
  "left_chars n = (if n = 1 then 2 else if n = 2 then 4 else if n = 3 then 5 else 7)"

lemma left_cases:
  assumes "0 < length left" "length left < 5"
  obtains a where "left = [a]" | a b where "left = [a, b]" | a b c where "left = [a, b, c]"
    | a b c d where "left = [a, b, c, d]"
  using assms by (cases left rule: list.exhaust; cases "tl left"; cases "tl (tl left)"; cases "tl (tl (tl left))")
    (auto simp: less_Suc_eq)

lemma base32Partial_ok:
  assumes "0 < length left" "length left < 5" "left_ok left"
  shows "base32Partial ASCIIEncodeTable left =
    Some (padded left (left_chars (length left)) @ replicate (8 - left_chars (length left)) CHR ''='')"
proof -
  note defs = base32Partial_def padded_def left_chars_def first_byte uchar_ascii left_ok_def
    byte_or_0_def equals_pads ix_def
  from assms(1,2) show ?thesis
  proof (cases rule: left_cases)
    case (1 a)
    have "table_chars ASCIIEncodeTable (take 2 (ix a CHR 0x00 CHR 0x00 CHR 0x00 CHR 0x00)) =
        Some (enc32 (take 2 (ix a CHR 0x00 CHR 0x00 CHR 0x00 CHR 0x00)))"
      by (rule table_chars_ix) (rule set_take_subset)
    with 1 assms(3) show ?thesis by (simp add: defs del: table_chars.simps)
  next
    case (2 a b)
    have "table_chars ASCIIEncodeTable (take 4 (ix a b CHR 0x00 CHR 0x00 CHR 0x00)) =
        Some (enc32 (take 4 (ix a b CHR 0x00 CHR 0x00 CHR 0x00)))"
      by (rule table_chars_ix) (rule set_take_subset)
    with 2 assms(3) show ?thesis by (simp add: defs del: table_chars.simps)
  next
    case (3 a b c)
    have "table_chars ASCIIEncodeTable (take 5 (ix a b c CHR 0x00 CHR 0x00)) =
        Some (enc32 (take 5 (ix a b c CHR 0x00 CHR 0x00)))"
      by (rule table_chars_ix) (rule set_take_subset)
    with 3 assms(3) show ?thesis by (simp add: defs del: table_chars.simps)
  next
    case (4 a b c d)
    have "table_chars ASCIIEncodeTable (take 7 (ix a b c d CHR 0x00)) =
        Some (enc32 (take 7 (ix a b c d CHR 0x00)))"
      by (rule table_chars_ix) (rule set_take_subset)
    with 4 assms(3) show ?thesis by (simp add: defs del: table_chars.simps)
  qed
qed

lemma base32Partial_bad:
  assumes "length left < 5" "\<not> left_ok left"
  shows "base32Partial ASCIIEncodeTable left = None"
proof -
  have "0 < length left" using assms(2) by (cases left) (auto simp: left_ok_def)
  then show ?thesis using assms(1)
  proof (cases rule: left_cases)
    case (2 a b)
    with assms(2) show ?thesis
      by (simp add: base32Partial_def left_ok_def table_chars_neg del: table_chars.simps)
  next
    case (3 a b c)
    with assms(2) show ?thesis
      by (auto simp: base32Partial_def left_ok_def table_chars_neg simp del: table_chars.simps)
  next
    case (4 a b c d)
    with assms(2) show ?thesis
      by (auto simp: base32Partial_def left_ok_def table_chars_neg simp del: table_chars.simps)
  qed (use assms(2) in \<open>simp add: left_ok_def\<close>)
qed

fun e32 :: "string \<Rightarrow> string" where
  "e32 (a # b # c # d # e # cs) = enc32 (ix a b c d e) @ e32 cs"
| "e32 _ = []"

lemma base32Group_ix:
  "base32Group ASCIIEncodeTable (uchar a) (uchar b) (uchar c) (uchar d) (uchar e) = Some (enc32 (ix a b c d e))"
  using table_chars_ix [of "ix a b c d e" a b c d e] by (simp only: base32Group_def ix_def)

lemma length5: "length xs = 5 * Suc k \<Longrightarrow> \<exists>a b c d e ys. xs = a # b # c # d # e # ys \<and> length ys = 5 * k"
  by (auto simp: length_Suc_conv eval_nat_numeral)

lemma encode32_full:
  "length full = 5 * k \<Longrightarrow> length left < 5 \<Longrightarrow>
     base32EncodeLoop ASCIIEncodeTable (full @ left) =
       map_option (\<lambda>t. e32 full @ t) (base32Partial ASCIIEncodeTable left)"
proof (induction k arbitrary: full)
  case 0
  have "base32EncodeLoop ASCIIEncodeTable left = base32Partial ASCIIEncodeTable left"
  proof (cases "left = []")
    case False
    with 0 show ?thesis by (elim left_cases [rotated 1]) auto
  qed simp
  with 0 show ?case by (cases "base32Partial ASCIIEncodeTable left") simp_all
next
  case (Suc k)
  obtain a b c d e ys where "full = a # b # c # d # e # ys" "length ys = 5 * k"
    using length5 [OF Suc.prems(1)] by blast
  with Suc show ?case
    by (cases "base32Partial ASCIIEncodeTable left") (simp_all add: base32Group_ix)
qed

lemma ix_length [simp]: "length (ix a b c d e) = 8"
  by (simp add: ix_def)

lemma ix_nth: "n < 8 \<Longrightarrow> 0 \<le> ix a b c d e ! n"
  using ix_range [of a b c d e] by simp

lemma base32Bytes_full: "base32Bytes (ix a b c d e) = ([a, b, c, d, e], True)"
proof -
  have "ix a b c d e ! n \<noteq> -2" if "n < 8" for n using ix_nth [OF that, of a b c d e] by simp
  then show ?thesis using base32_bits [of a b c d e] by (simp add: base32Bytes_def Let_def)
qed

lemma decode32_full:
  "length full = 5 * k \<Longrightarrow>
     base32DecodeLoop (k + m) ASCIIDecodeTable (e32 full @ rest) =
       map_option (map_option (\<lambda>r. full @ r)) (base32DecodeLoop m ASCIIDecodeTable rest) \<and>
     length (e32 full) = 8 * k"
proof (induction k arbitrary: full)
  case 0
  then show ?case
    by (cases "base32DecodeLoop m ASCIIDecodeTable rest"; cases "the (base32DecodeLoop m ASCIIDecodeTable rest)")
       simp_all
next
  case (Suc k)
  obtain a b c d e ys where ys: "full = a # b # c # d # e # ys" "length ys = 5 * k"
    using length5 [OF Suc.prems(1)] by blast
  have r: "\<forall>i\<in>set (ix a b c d e). 0 \<le> i \<and> i < 32" by (rule ix_range)
  then have "-1 \<notin> set (ix a b c d e)" by auto
  moreover have "base32Digits 8 ASCIIDecodeTable (enc32 (ix a b c d e) @ e32 ys @ rest) =
      Some (ix a b c d e, e32 ys @ rest)"
    using base32Digits_ok [OF r] by simp
  ultimately show ?case
    using Suc.IH [OF ys(2)] ys
    by (cases "base32DecodeLoop m ASCIIDecodeTable rest"; cases "the (base32DecodeLoop m ASCIIDecodeTable rest)")
       (simp_all add: base32Bytes_full del: base32Digits.simps)
qed

lemma take_range: "\<forall>i\<in>set (take n (ix a b c d e)). 0 \<le> i \<and> i < 32"
  using ix_range [of a b c d e] set_take_subset by fast

lemma base32Bytes_left:
  assumes "0 < length left" "length left < 5"
  shows "base32Bytes (take (left_chars (length left)) (ix (byte_or_0 left 0) (byte_or_0 left 1)
      (byte_or_0 left 2) (byte_or_0 left 3) CHR 0x00) @
      replicate (8 - left_chars (length left)) (-2)) = (left, False)"
proof -
  have ne: "ix a b c d e ! n \<noteq> -2" if "n < 8" for a b c d e n using ix_nth [OF that, of a b c d e] by simp
  note defs = base32Bytes_def Let_def left_chars_def byte_or_0_def nth_append ne base32_bits [simplified]
  from assms show ?thesis
    by (cases rule: left_cases) (simp_all add: defs)
qed

lemma decode32_left:
  assumes "0 < length left" "length left < 5"
  defines "n \<equiv> left_chars (length left)"
  shows "base32DecodeLoop 1 ASCIIDecodeTable (padded left n @ replicate (8 - n) CHR ''='') = Some (Some left)"
    "length (padded left n @ replicate (8 - n) CHR ''='') = 8"
proof -
  let ?i = "ix (byte_or_0 left 0) (byte_or_0 left 1) (byte_or_0 left 2) (byte_or_0 left 3) CHR 0x00"
  have n: "n < 8" by (simp add: n_def left_chars_def)
  then obtain m where m: "8 - n = Suc m" by (metis Suc_diff_Suc)
  have n8: "n + Suc m = 8" using n m by simp
  have len: "length (take n ?i) = n" using n by simp
  have "base32Digits 8 ASCIIDecodeTable (padded left n @ replicate (8 - n) CHR ''='') =
      Some (take n ?i @ replicate (8 - n) (-2), replicate (8 - n) CHR ''='')"
    using base32Digits_pad [OF take_range, of n "byte_or_0 left 0" "byte_or_0 left 1" "byte_or_0 left 2"
        "byte_or_0 left 3" "CHR 0x00" "Suc m" "replicate m CHR ''=''"] len n m n8
    by (simp add: padded_def del: base32Digits.simps)
  moreover have "-1 \<notin> set (take n ?i @ replicate (8 - n) (-2))" using take_range by fastforce
  ultimately show "base32DecodeLoop 1 ASCIIDecodeTable (padded left n @ replicate (8 - n) CHR ''='') =
      Some (Some left)"
    using base32Bytes_left [OF assms(1,2), folded n_def]
    by (simp add: One_nat_def del: base32Digits.simps)
  show "length (padded left n @ replicate (8 - n) CHR ''='') = 8" using len n by (simp add: padded_def)
qed


subsection \<open>Percent encoding there and back\<close>




subsection \<open>Properties\<close>

text \<open>
  C32. What \<open>encodeBase64NoAlloc\<close> writes decodes to the bytes it was given, whatever they are; and it
  survives the conversion to base64url, which strips the padding, and back, which restores it, in any
  buffer with room for the padded text and its zero byte.
\<close>

theorem base64_roundtrip:
  assumes "length (encodeBase64NoAlloc buf False) < bufSize"
  shows "decodeBase64Unterminated (encodeBase64NoAlloc buf False) = Decoded buf \<and>
    fst (base64urlToBase64 (base64ToBase64url (encodeBase64NoAlloc buf False)) bufSize) =
      encodeBase64NoAlloc buf False"
proof -
  have enc: "encodeBase64NoAlloc buf False = encodeGroups binToB64 buf"
    by (simp add: encodeBase64NoAlloc_def)
  obtain full tail k pre left where shape: "encodeGroups binToB64 buf = full @ tail" "length full = 4 * k"
      "list_all b64_char full" "\<forall>rest. decodeGroups k (full @ rest) = (pre, rest)"
      "tail = encodeGroups binToB64 left" "length left < 3" "buf = pre @ left"
    by (rule encode_shape [of buf])
  define n where "n = (if left = [] then 0 else 3 - length left)"
  from tail_decodes(2,4) [OF shape(6), folded shape(5)] obtain cs where
    cs: "list_all b64_char cs" "tail = cs @ replicate n CHR ''=''" "length tail mod 4 = 0"
    unfolding n_def by auto
  have "n < 3" unfolding n_def by (cases left) auto
  moreover have "list_all b64_char (full @ cs)" using shape(3) cs(1) by simp
  moreover have whole: "encodeGroups binToB64 buf = (full @ cs) @ replicate n CHR ''=''"
    using shape(1) cs(2) by simp
  moreover have "length ((full @ cs) @ replicate n CHR ''='') mod 4 = 0"
    using shape(2) cs(2,3) by simp
  ultimately show ?thesis
    using url_there_and_back [of "full @ cs" n bufSize] decode_encode [of buf] assms enc by simp
qed

theorem base64_roundtrip_witness:
  "decodeBase64Unterminated (encodeBase64NoAlloc [CHR 0xFF, CHR 0x00] False) = Decoded [CHR 0xFF, CHR 0x00] \<and>
   fst (base64urlToBase64 (base64ToBase64url (encodeBase64NoAlloc [CHR 0xFF, CHR 0x00] False)) 5) =
     encodeBase64NoAlloc [CHR 0xFF, CHR 0x00] False"
  by (rule base64_roundtrip) code_simp


text \<open>
  C34. Encoding in base32 into a buffer with room either reads outside its table or gives a text that
  decodes to the input. It reads outside exactly when the bytes left over after the last full group of
  five hold one above 127 that is not their first: that byte is read signed and gives a negative index.
\<close>

theorem base32_roundtrip_or_overrun:
  assumes "(length input + 4) div 5 * 8 + 1 \<le> room"
  shows "if \<exists>c\<in>set (tl (drop (length input div 5 * 5) input)). char_code c < 0
         then base32Encode RFC4648 input room False = None
         else \<exists>t. base32Encode RFC4648 input room False = Some (0, t) \<and>
                  base32Decode RFC4648 t (length t) False = Some (0, input)"
proof -
  let ?k = "length input div 5"
  let ?full = "take (5 * ?k) input" and ?left = "drop (5 * ?k) input"
  have full: "length ?full = 5 * ?k" "length ?left < 5" by simp_all
  have enc: "base32Encode RFC4648 input room False =
      map_option (\<lambda>out. (0, e32 ?full @ out)) (base32Partial ASCIIEncodeTable ?left)"
    using encode32_full [OF full] assms
    by (cases "base32Partial ASCIIEncodeTable ?left") (simp_all add: base32Encode_def RFC4648_def)
  have ok: "left_ok ?left \<longleftrightarrow> \<not> (\<exists>c\<in>set (tl (drop (?k * 5) input)). char_code c < 0)"
    by (auto simp: left_ok_def mult.commute)
  have dec: "base32Decode RFC4648 t (length t) False = Some (0, input)"
    if "base32DecodeLoop (length t div 8) ASCIIDecodeTable t = Some (Some input)" "8 dvd length t" for t
  proof -
    from that(2) have "length t mod 8 = 0" "(length t + 7) div 8 * 5 \<le> length t" by presburger+
    with that(1) show ?thesis by (simp add: base32Decode_def RFC4648_def)
  qed
  show ?thesis
  proof (cases "left_ok ?left")
    case False
    then show ?thesis using ok enc base32Partial_bad [OF full(2) False] by simp
  next
    case True
    have "\<exists>t. base32Encode RFC4648 input room False = Some (0, t) \<and>
        base32Decode RFC4648 t (length t) False = Some (0, input)"
    proof (cases "?left = []")
      case empty: True
      have "base32Encode RFC4648 input room False = Some (0, e32 ?full)"
        using enc empty by (simp add: base32Partial_def)
      moreover have "length (e32 ?full) = 8 * ?k" using decode32_full [OF full(1)] by blast
      moreover have "?full = input" using append_take_drop_id [of "5 * ?k" input] empty by simp
      ultimately show ?thesis
        using decode32_full [OF full(1), of 0 "[]"] dec [of "e32 ?full"] by simp
    next
      case False
      then have pos: "0 < length ?left" by simp
      let ?n = "left_chars (length ?left)"
      let ?p = "padded ?left ?n @ replicate (8 - ?n) CHR ''=''"
      note left = decode32_left [OF pos full(2)]
      have e: "base32Encode RFC4648 input room False = Some (0, e32 ?full @ ?p)"
        using enc base32Partial_ok [OF pos full(2) True] by simp
      have len: "length (e32 ?full @ ?p) = 8 * (?k + 1)"
        using decode32_full [OF full(1)] left(2) by simp
      have d: "base32DecodeLoop (?k + 1) ASCIIDecodeTable (e32 ?full @ ?p) = Some (Some (?full @ ?left))"
        using decode32_full [OF full(1), of 1 ?p] left(1) by simp
      have "base32DecodeLoop (length (e32 ?full @ ?p) div 8) ASCIIDecodeTable (e32 ?full @ ?p) =
          Some (Some input)"
        using d unfolding len append_take_drop_id by simp
      then show ?thesis using e dec len by (metis dvd_triv_left)
    qed
    then show ?thesis using ok True by simp
  qed
qed

theorem base32_roundtrip_or_overrun_witness:
  "base32Encode RFC4648 [CHR 0x41, CHR 0xFF] 9 False = None"
  using base32_roundtrip_or_overrun [of "[CHR 0x41, CHR 0xFF]" 9] by (simp add: char_code_def)

end
