(* ===== verification/HttpParser.thy ===== *)
theory HttpParser
  imports StrUtils
begin

section \<open>The HTTP request parser\<close>

text \<open>
  \<open>HttpRequestParser\<close> of \<open>h/httpserver.h\<close> and \<open>processHttpFragment\<close> of \<open>c/httpserver.c\<close>: a state
  machine that is fed fragments of a connection and puts the requests it completes in a queue. The
  buffers for the URI, the version and the header name are the text in them so far, since what lies
  beyond is never read; the method name keeps all its bytes, since its test reads on to a zero
  byte. A byte written outside a buffer is the outcome \<open>Overrun\<close>. The \<open>ShortLivedHeap\<close> is taken to
  have room and to give cleared storage; the native form of a header is the header itself, as on any
  platform but z/OS. Trace output is left out. The comparisons of header values are those of values
  without zero bytes.
\<close>

definition HTTP_STATUS_BAD_REQUEST :: int where "HTTP_STATUS_BAD_REQUEST = 400"
definition HTTP_STATUS_METHOD_NOT_FOUND :: int where "HTTP_STATUS_METHOD_NOT_FOUND = 405"
definition HTTP_STATUS_ENTITY_TOO_LARGE :: int where "HTTP_STATUS_ENTITY_TOO_LARGE = 413"

definition MAX_HTTP_METHOD_NAME :: nat where "MAX_HTTP_METHOD_NAME = 256"
definition MAX_HTTP_VERSION :: nat where "MAX_HTTP_VERSION = 256"
definition MAX_HTTP_URI :: nat where "MAX_HTTP_URI = 1024"
definition MAX_HTTP_FIELD_NAME :: nat where "MAX_HTTP_FIELD_NAME = 1024"
definition MAX_HTTP_FIELD_VALUE :: nat where "MAX_HTTP_FIELD_VALUE = 16384"
definition MAX_HTTP_CHUNK :: int where "MAX_HTTP_CHUNK = 2147483647"

lemmas http_limits = MAX_HTTP_METHOD_NAME_def MAX_HTTP_VERSION_def MAX_HTTP_URI_def
  MAX_HTTP_FIELD_NAME_def MAX_HTTP_FIELD_VALUE_def MAX_HTTP_CHUNK_def

datatype httpState =
    HTTP_STATE_REQUEST_METHOD
  | HTTP_STATE_REQUEST_GAP1
  | HTTP_STATE_REQUEST_URI
  | HTTP_STATE_REQUEST_GAP2
  | HTTP_STATE_REQUEST_VERSION
  | HTTP_STATE_REQUEST_CR_SEEN
  | HTTP_STATE_HEADER_FIELD_NAME
  | HTTP_STATE_HEADER_GAP1
  | HTTP_STATE_HEADER_FIELD_CONTENT
  | HTTP_STATE_HEADER_GAP2
  | HTTP_STATE_HEADER_CR_SEEN
  | HTTP_STATE_END_CR_SEEN
  | HTTP_STATE_READING_FIXED_BODY
  | HTTP_STATE_READING_CHUNK_SIZE
  | HTTP_STATE_READING_CHUNK_EXTENSION
  | HTTP_STATE_CHUNK_SIZE_CR_SEEN
  | HTTP_STATE_READING_CHUNK_DATA
  | HTTP_STATE_CHUNK_DATA_CR_SEEN
  | HTTP_STATE_READING_CHUNK_TRAILER
  | HTTP_STATE_CHUNK_TRAILER_CR_SEEN

record httpHeader =
  hname :: string
  hvalue :: string

record httpRequest =
  rq_method :: string
  rq_uri :: string
  rq_headers :: "httpHeader list"
  rq_contentLength :: int
  rq_contentBody :: "string option"
  rq_isWebSocket :: bool
  rq_keepAlive :: bool

record httpParser =
  hstate :: httpState
  methodNameLength :: nat
  methodName :: string
  version :: string
  uri :: string
  headerName :: string
  headerValue :: string
  chunkSize :: int
  headerChain :: "httpHeader list"
  isChunked :: bool
  isWebSocket :: bool
  contentType :: "string option"
  specifiedContentLength :: int
  remainingContentLength :: int
  content :: "string option"
  httpReasonCode :: int
  requestQ :: "httpRequest list"
  keepAlive :: bool

definition makeHttpRequestParser :: httpParser where
  "makeHttpRequestParser =
     \<lparr>hstate = HTTP_STATE_REQUEST_METHOD, methodNameLength = 0,
      methodName = replicate (MAX_HTTP_METHOD_NAME + 8) CHR 0x00, version = [], uri = [],
      headerName = [], headerValue = [], chunkSize = 0, headerChain = [], isChunked = False,
      isWebSocket = False, contentType = None, specifiedContentLength = -1,
      remainingContentLength = 0, content = None, httpReasonCode = 0, requestQ = [], keepAlive = False\<rparr>"

text \<open>The parser can go on, has refused the stream, or has written outside a buffer.\<close>

datatype httpOutcome = Parsing httpParser | Refused httpParser | Overrun

definition refuse :: "int \<Rightarrow> httpParser \<Rightarrow> httpOutcome" where
  "refuse status p = Refused (p\<lparr>httpReasonCode := status\<rparr>)"

subsection \<open>Headers\<close>

text \<open>\<open>compareIgnoringCase\<close> with a literal, over as many bytes as the text received has.\<close>

definition matches :: "string \<Rightarrow> string \<Rightarrow> bool" where
  "matches s literal \<longleftrightarrow> compareIgnoringCase s (literal @ [CHR 0x00]) (length s) = 0"

text \<open>\<open>atoi\<close> on any C string: leading white space and a sign are accepted.\<close>

definition atoi_text :: "string \<Rightarrow> int" where
  "atoi_text s =
     (case dropWhile (\<lambda>c. isspace (char_code c)) (cstr s) of
        [] \<Rightarrow> 0
      | c # cs \<Rightarrow>
          if c = CHR ''+''
          then (if cs \<noteq> [] \<and> hd cs = CHR ''-'' then 0 else sint (atoi cs))
          else sint (atoi (c # cs)))"

definition addRequestHeader :: "httpParser \<Rightarrow> httpParser" where
  "addRequestHeader p =
     (let newHeader = \<lparr>hname = headerName p, hvalue = headerValue p\<rparr>;
          p1 =
            (if matches (headerName p) ''Transfer-Encoding'' then
               (if matches (headerValue p) ''chunked'' then p\<lparr>isChunked := True\<rparr> else p)
             else if matches (headerName p) ''Content-Length'' then
               p\<lparr>specifiedContentLength := atoi_text (headerValue p)\<rparr>
             else if matches (headerName p) ''Content-Type'' then
               p\<lparr>contentType := Some (cstr (headerValue p))\<rparr>
             else if matches (headerName p) ''Upgrade'' then
               (if matches (headerValue p) ''websocket'' then p\<lparr>isWebSocket := True\<rparr> else p)
             else if matches (headerName p) ''Connection'' then
               (if matches (headerValue p) ''Keep-Alive'' then p\<lparr>keepAlive := True\<rparr> else p)
             else p)
      in p1\<lparr>headerChain := headerChain p1 @ [newHeader]\<rparr>)"

subsection \<open>The queue of requests\<close>

definition enqueueLastRequest :: "httpParser \<Rightarrow> httpParser" where
  "enqueueLastRequest p =
     (let n = specifiedContentLength p;
          newRequest =
            \<lparr>rq_method = take (methodNameLength p) (methodName p), rq_uri = uri p,
             rq_headers = headerChain p,
             rq_contentLength = (if n \<noteq> -1 then n else 0),
             rq_contentBody = (if n \<noteq> -1 \<and> 0 < n then map_option (take (nat n)) (content p) else None),
             rq_isWebSocket = isWebSocket p, rq_keepAlive = keepAlive p\<rparr>
      in p\<lparr>headerChain := [], requestQ := requestQ p @ [newRequest]\<rparr>)"

definition dequeueHttpRequest :: "httpParser \<Rightarrow> httpRequest option \<times> httpParser" where
  "dequeueHttpRequest p =
     (case requestQ p of
        r # rs \<Rightarrow> (Some r, p\<lparr>requestQ := rs\<rparr>)
      | [] \<Rightarrow> (None, p))"

definition resetParserAndEnqueue :: "httpParser \<Rightarrow> httpParser" where
  "resetParserAndEnqueue p =
     (enqueueLastRequest p)
       \<lparr>methodNameLength := 0, uri := [], version := [], headerName := [], headerValue := [],
        isChunked := False, isWebSocket := False, specifiedContentLength := -1,
        hstate := HTTP_STATE_REQUEST_METHOD, keepAlive := False\<rparr>"

definition has_prefix :: "string \<Rightarrow> string \<Rightarrow> bool" where
  "has_prefix s t \<longleftrightarrow> take (length t) s = t"

definition parserMethodIsValid :: "httpParser \<Rightarrow> bool" where
  "parserMethodIsValid p \<longleftrightarrow>
     (let nativeMethod = cstr (methodName p) in
      has_prefix nativeMethod ''GET'' \<or> has_prefix nativeMethod ''POST'' \<or>
      has_prefix nativeMethod ''PUT'' \<or> has_prefix nativeMethod ''HEAD'' \<or>
      has_prefix nativeMethod ''DELETE'' \<or> has_prefix nativeMethod ''TRACE'' \<or>
      has_prefix nativeMethod ''OPTIONS'' \<or> has_prefix nativeMethod ''CONNECT'')"

subsection \<open>One byte in each state\<close>

definition isLF :: "char \<Rightarrow> bool" where
  "isLF c \<longleftrightarrow> char_code c = 10"

definition isCR :: "char \<Rightarrow> bool" where
  "isCR c \<longleftrightarrow> char_code c = 13"

definition isWhitespace :: "char \<Rightarrow> bool" where
  "isWhitespace c \<longleftrightarrow> \<not> isLF c \<and> \<not> isCR c \<and> 1 < char_code c \<and> char_code c \<le> 32"

definition isAsciiPrintable :: "char \<Rightarrow> bool" where
  "isAsciiPrintable c \<longleftrightarrow> 32 < char_code c \<and> char_code c < 127"

definition isHex :: "char \<Rightarrow> bool" where
  "isHex c \<longleftrightarrow> (let c = char_code c in (48 \<le> c \<and> c < 58) \<or> (65 \<le> c \<and> c < 71) \<or> (97 \<le> c \<and> c < 103))"

definition requestMethod :: "httpParser \<Rightarrow> char \<Rightarrow> httpOutcome" where
  "requestMethod p c =
     (if isWhitespace c then
        (if methodNameLength p < 1 then refuse HTTP_STATUS_BAD_REQUEST p
         else if \<not> parserMethodIsValid p then refuse HTTP_STATUS_BAD_REQUEST p
         else Parsing (p\<lparr>hstate := HTTP_STATE_REQUEST_GAP1\<rparr>))
      else if isAsciiPrintable c then
        (if methodNameLength p \<ge> MAX_HTTP_METHOD_NAME then refuse HTTP_STATUS_METHOD_NOT_FOUND p
         else Parsing (p\<lparr>methodName := (methodName p)[methodNameLength p := c],
                         methodNameLength := methodNameLength p + 1\<rparr>))
      else refuse HTTP_STATUS_BAD_REQUEST p)"

text \<open>A carriage return or line feed is no white space here and begins the URI.\<close>

definition requestGap1 :: "httpParser \<Rightarrow> char \<Rightarrow> httpOutcome" where
  "requestGap1 p c =
     (if \<not> isWhitespace c then Parsing (p\<lparr>uri := [c], hstate := HTTP_STATE_REQUEST_URI\<rparr>)
      else if isCR c \<or> isLF c then refuse HTTP_STATUS_BAD_REQUEST p
      else Parsing p)"

definition requestURI :: "httpParser \<Rightarrow> char \<Rightarrow> httpOutcome" where
  "requestURI p c =
     (if isCR c \<or> isLF c then refuse HTTP_STATUS_BAD_REQUEST p
      else if isWhitespace c then Parsing (p\<lparr>hstate := HTTP_STATE_REQUEST_GAP2\<rparr>)
      else if length (uri p) \<ge> MAX_HTTP_URI + 8 then Overrun
      else Parsing (p\<lparr>uri := uri p @ [c]\<rparr>))"

definition requestGap2 :: "httpParser \<Rightarrow> char \<Rightarrow> httpOutcome" where
  "requestGap2 p c =
     (if isCR c \<or> isLF c then refuse HTTP_STATUS_BAD_REQUEST p
      else if isWhitespace c then Parsing p
      else Parsing (p\<lparr>hstate := HTTP_STATE_REQUEST_VERSION, version := [c]\<rparr>))"

definition requestVersion :: "httpParser \<Rightarrow> char \<Rightarrow> httpOutcome" where
  "requestVersion p c =
     (if isCR c then Parsing (p\<lparr>hstate := HTTP_STATE_REQUEST_CR_SEEN\<rparr>)
      else if isAsciiPrintable c then
        (if length (version p) \<ge> MAX_HTTP_VERSION + 8 then Overrun
         else Parsing (p\<lparr>version := version p @ [c]\<rparr>))
      else refuse HTTP_STATUS_BAD_REQUEST p)"

definition requestCRSeen :: "httpParser \<Rightarrow> char \<Rightarrow> httpOutcome" where
  "requestCRSeen p c =
     (if isLF c then Parsing (p\<lparr>headerName := [], hstate := HTTP_STATE_HEADER_FIELD_NAME\<rparr>)
      else refuse HTTP_STATUS_BAD_REQUEST p)"

definition headerFieldName :: "httpParser \<Rightarrow> char \<Rightarrow> httpOutcome" where
  "headerFieldName p c =
     (if isCR c then
        (if headerName p = [] then Parsing (p\<lparr>hstate := HTTP_STATE_END_CR_SEEN\<rparr>)
         else refuse HTTP_STATUS_BAD_REQUEST p)
      else if c = CHR '':'' then
        (if headerName p = [] then refuse HTTP_STATUS_BAD_REQUEST p
         else Parsing (p\<lparr>hstate := HTTP_STATE_HEADER_GAP1\<rparr>))
      else if isAsciiPrintable c then
        (if length (headerName p) \<ge> MAX_HTTP_FIELD_NAME + 8 then Overrun
         else Parsing (p\<lparr>headerName := headerName p @ [c]\<rparr>))
      else refuse HTTP_STATUS_BAD_REQUEST p)"

definition headerGap1 :: "httpParser \<Rightarrow> char \<Rightarrow> httpOutcome" where
  "headerGap1 p c =
     (if isWhitespace c then Parsing p
      else if isCR c then Parsing (p\<lparr>hstate := HTTP_STATE_HEADER_CR_SEEN\<rparr>)
      else if isAsciiPrintable c then
        Parsing (p\<lparr>headerValue := [c], hstate := HTTP_STATE_HEADER_FIELD_CONTENT\<rparr>)
      else refuse HTTP_STATUS_BAD_REQUEST p)"

definition headerFieldContent :: "httpParser \<Rightarrow> char \<Rightarrow> httpOutcome" where
  "headerFieldContent p c =
     (if isCR c then Parsing (addRequestHeader (p\<lparr>hstate := HTTP_STATE_HEADER_CR_SEEN\<rparr>))
      else if isLF c then refuse HTTP_STATUS_BAD_REQUEST p
      else if length (headerValue p) < MAX_HTTP_FIELD_VALUE
      then Parsing (p\<lparr>headerValue := headerValue p @ [c]\<rparr>)
      else refuse HTTP_STATUS_ENTITY_TOO_LARGE p)"

definition headerCRSeen :: "httpParser \<Rightarrow> char \<Rightarrow> httpOutcome" where
  "headerCRSeen p c =
     (if isLF c then
        Parsing (p\<lparr>hstate := HTTP_STATE_HEADER_FIELD_NAME, headerName := [], headerValue := []\<rparr>)
      else refuse HTTP_STATUS_BAD_REQUEST p)"

definition endCRSeen :: "httpParser \<Rightarrow> char \<Rightarrow> httpOutcome" where
  "endCRSeen p c =
     (if isLF c then
        (if isChunked p then
           Parsing (p\<lparr>hstate := HTTP_STATE_READING_CHUNK_SIZE, chunkSize := 0,
                      specifiedContentLength := 0, content := None\<rparr>)
         else if specifiedContentLength p \<le> 0 then Parsing (resetParserAndEnqueue p)
         else Parsing (p\<lparr>hstate := HTTP_STATE_READING_FIXED_BODY,
                         content := Some (replicate (nat (specifiedContentLength p)) CHR 0x00),
                         remainingContentLength := specifiedContentLength p\<rparr>))
      else refuse HTTP_STATUS_BAD_REQUEST p)"

text \<open>\<open>content[specifiedContentLength - remainingContentLength] = c\<close>, and one byte less remains.\<close>

definition storeContent :: "httpParser \<Rightarrow> char \<Rightarrow> httpParser option" where
  "storeContent p c =
     (let i = specifiedContentLength p - remainingContentLength p in
      case content p of
        None \<Rightarrow> None
      | Some body \<Rightarrow>
          if 0 \<le> i \<and> i < int (length body)
          then Some (p\<lparr>content := Some (body[nat i := c]),
                       remainingContentLength := remainingContentLength p - 1\<rparr>)
          else None)"

definition readingFixedBody :: "httpParser \<Rightarrow> char \<Rightarrow> httpOutcome" where
  "readingFixedBody p c =
     (case storeContent p c of
        None \<Rightarrow> Overrun
      | Some p1 \<Rightarrow>
          Parsing (if remainingContentLength p1 \<le> 0 then resetParserAndEnqueue p1 else p1))"

definition hexValue :: "char \<Rightarrow> int" where
  "hexValue ch =
     (let c = char_code ch in
      if 48 \<le> c \<and> c < 58 then c - 48
      else if 65 \<le> c \<and> c < 71 then (c - 65) + 10
      else (c - 97) + 10)"

definition readingChunkSize :: "httpParser \<Rightarrow> char \<Rightarrow> httpOutcome" where
  "readingChunkSize p c =
     (if isHex c then
        (if chunkSize p > (MAX_HTTP_CHUNK - hexValue c) div 16 then refuse HTTP_STATUS_BAD_REQUEST p
         else Parsing (p\<lparr>chunkSize := chunkSize p * 16 + hexValue c\<rparr>))
      else if isCR c then Parsing (p\<lparr>hstate := HTTP_STATE_CHUNK_SIZE_CR_SEEN\<rparr>)
      else if c = CHR '';'' then Parsing (p\<lparr>hstate := HTTP_STATE_READING_CHUNK_EXTENSION\<rparr>)
      else refuse HTTP_STATUS_BAD_REQUEST p)"

definition readingChunkExtension :: "httpParser \<Rightarrow> char \<Rightarrow> httpOutcome" where
  "readingChunkExtension p c =
     (if isCR c then Parsing (p\<lparr>hstate := HTTP_STATE_CHUNK_SIZE_CR_SEEN\<rparr>) else Parsing p)"

text \<open>
  The sum of the sizes is an \<open>int\<close> and wraps; the storage for a wrapped size is empty, and then the
  chunks before it do not fit.
\<close>

definition chunkSizeCRSeen :: "httpParser \<Rightarrow> char \<Rightarrow> httpOutcome" where
  "chunkSizeCRSeen p c =
     (if isLF c then
        (if chunkSize p = 0 then Parsing (p\<lparr>hstate := HTTP_STATE_READING_CHUNK_TRAILER\<rparr>)
         else
           let total = sint (word_of_int (specifiedContentLength p + chunkSize p) :: cint);
               fresh = replicate (nat total) CHR 0x00
           in case (case content p of
                      None \<Rightarrow> Some fresh
                    | Some contentTmp \<Rightarrow>
                        if specifiedContentLength p \<le> int (length fresh)
                        then Some (take (nat (specifiedContentLength p)) contentTmp @
                                   drop (nat (specifiedContentLength p)) fresh)
                        else None) of
                None \<Rightarrow> Overrun
              | Some body \<Rightarrow>
                  Parsing (p\<lparr>content := Some body, specifiedContentLength := total,
                             remainingContentLength := chunkSize p,
                             hstate := HTTP_STATE_READING_CHUNK_DATA\<rparr>))
      else refuse HTTP_STATUS_BAD_REQUEST p)"

definition readingChunkData :: "httpParser \<Rightarrow> char \<Rightarrow> httpOutcome" where
  "readingChunkData p c =
     (if remainingContentLength p \<le> 0 then
        (if isCR c then Parsing (p\<lparr>hstate := HTTP_STATE_CHUNK_DATA_CR_SEEN\<rparr>)
         else refuse HTTP_STATUS_BAD_REQUEST p)
      else (case storeContent p c of None \<Rightarrow> Overrun | Some p1 \<Rightarrow> Parsing p1))"

definition chunkDataCRSeen :: "httpParser \<Rightarrow> char \<Rightarrow> httpOutcome" where
  "chunkDataCRSeen p c =
     (if isLF c then Parsing (p\<lparr>hstate := HTTP_STATE_READING_CHUNK_SIZE, chunkSize := 0\<rparr>)
      else refuse HTTP_STATUS_BAD_REQUEST p)"

definition readingChunkTrailer :: "httpParser \<Rightarrow> char \<Rightarrow> httpOutcome" where
  "readingChunkTrailer p c =
     (if isCR c then Parsing (p\<lparr>hstate := HTTP_STATE_CHUNK_TRAILER_CR_SEEN\<rparr>)
      else refuse HTTP_STATUS_BAD_REQUEST p)"

definition chunkTrailerCRSeen :: "httpParser \<Rightarrow> char \<Rightarrow> httpOutcome" where
  "chunkTrailerCRSeen p c =
     (if isLF c then Parsing (resetParserAndEnqueue p) else refuse HTTP_STATUS_BAD_REQUEST p)"

definition httpByte :: "httpParser \<Rightarrow> char \<Rightarrow> httpOutcome" where
  "httpByte p c =
     (case hstate p of
        HTTP_STATE_REQUEST_METHOD \<Rightarrow> requestMethod p c
      | HTTP_STATE_REQUEST_GAP1 \<Rightarrow> requestGap1 p c
      | HTTP_STATE_REQUEST_URI \<Rightarrow> requestURI p c
      | HTTP_STATE_REQUEST_GAP2 \<Rightarrow> requestGap2 p c
      | HTTP_STATE_REQUEST_VERSION \<Rightarrow> requestVersion p c
      | HTTP_STATE_REQUEST_CR_SEEN \<Rightarrow> requestCRSeen p c
      | HTTP_STATE_HEADER_FIELD_NAME \<Rightarrow> headerFieldName p c
      | HTTP_STATE_HEADER_GAP1 \<Rightarrow> headerGap1 p c
      | HTTP_STATE_HEADER_FIELD_CONTENT \<Rightarrow> headerFieldContent p c
      | HTTP_STATE_HEADER_GAP2 \<Rightarrow> Parsing p
      | HTTP_STATE_HEADER_CR_SEEN \<Rightarrow> headerCRSeen p c
      | HTTP_STATE_END_CR_SEEN \<Rightarrow> endCRSeen p c
      | HTTP_STATE_READING_FIXED_BODY \<Rightarrow> readingFixedBody p c
      | HTTP_STATE_READING_CHUNK_SIZE \<Rightarrow> readingChunkSize p c
      | HTTP_STATE_READING_CHUNK_EXTENSION \<Rightarrow> readingChunkExtension p c
      | HTTP_STATE_CHUNK_SIZE_CR_SEEN \<Rightarrow> chunkSizeCRSeen p c
      | HTTP_STATE_READING_CHUNK_DATA \<Rightarrow> readingChunkData p c
      | HTTP_STATE_CHUNK_DATA_CR_SEEN \<Rightarrow> chunkDataCRSeen p c
      | HTTP_STATE_READING_CHUNK_TRAILER \<Rightarrow> readingChunkTrailer p c
      | HTTP_STATE_CHUNK_TRAILER_CR_SEEN \<Rightarrow> chunkTrailerCRSeen p c)"

fun processHttpFragment :: "httpParser \<Rightarrow> string \<Rightarrow> httpOutcome" where
  "processHttpFragment p [] = Parsing p"
| "processHttpFragment p (c # cs) =
     (case httpByte p c of Parsing p1 \<Rightarrow> processHttpFragment p1 cs | out \<Rightarrow> out)"

text \<open>The fragments of a connection, as the service loops feed them until one is refused.\<close>

fun processFragments :: "httpParser \<Rightarrow> string list \<Rightarrow> httpOutcome" where
  "processFragments p [] = Parsing p"
| "processFragments p (f # fs) =
     (case processHttpFragment p f of Parsing p1 \<Rightarrow> processFragments p1 fs | out \<Rightarrow> out)"

end
