(* ===== verification/HttpRequests.thy ===== *)
theory HttpRequests
  imports HttpParser
begin

section \<open>Requests as text, and what the parser makes of them\<close>

text \<open>
  The text of well-formed requests, and the lemmas that follow the parser through it, one for each
  part of a request.
\<close>

subsection \<open>Stretches of input\<close>

definition steps :: "httpParser \<Rightarrow> string \<Rightarrow> httpParser \<Rightarrow> bool" where
  "steps p s q \<longleftrightarrow> processHttpFragment p s = Parsing q"

lemma processHttpFragment_append:
  "processHttpFragment p (s @ t) =
     (case processHttpFragment p s of Parsing q \<Rightarrow> processHttpFragment q t | out \<Rightarrow> out)"
  by (induction s arbitrary: p) (auto split: httpOutcome.splits)

lemma processFragments_concat: "processFragments p fs = processHttpFragment p (concat fs)"
  by (induction fs arbitrary: p) (auto simp: processHttpFragment_append split: httpOutcome.splits)

lemma steps_append: "steps p s q \<Longrightarrow> steps q t r \<Longrightarrow> steps p (s @ t) r"
  by (simp add: steps_def processHttpFragment_append)

lemma steps_Nil: "steps p [] p"
  by (simp add: steps_def)

lemma steps_Cons: "httpByte p c = Parsing q \<Longrightarrow> steps q s r \<Longrightarrow> steps p (c # s) r"
  by (simp add: steps_def)

lemma steps_one: "httpByte p c = Parsing q \<Longrightarrow> steps p [c] q"
  by (simp add: steps_def)

lemma steps_collect:
  assumes "\<And>xs c. c \<in> set s \<Longrightarrow> length xs < length xs0 + length s \<Longrightarrow> httpByte (g xs) c = Parsing (g (xs @ [c]))"
  shows "steps (g xs0) s (g (xs0 @ s))"
  using assms
proof (induction s arbitrary: xs0)
  case Nil
  show ?case by (simp add: steps_Nil)
next
  case (Cons c s)
  have "httpByte (g xs0) c = Parsing (g (xs0 @ [c]))" by (rule Cons.prems) simp_all
  moreover have "steps (g (xs0 @ [c])) s (g ((xs0 @ [c]) @ s))"
    by (rule Cons.IH) (rule Cons.prems, simp_all)
  ultimately show ?case using steps_Cons by simp
qed

subsection \<open>Characters\<close>

lemma class_codes [simp]:
  "char_code CHR 0x0D = 13" "char_code CHR 0x0A = 10" "char_code CHR '' '' = 32" "char_code CHR '':'' = 58"
  "char_code CHR '';'' = 59"
  by (simp_all add: char_code_def)

lemmas char_classes = isLF_def isCR_def isWhitespace_def isAsciiPrintable_def

lemma printable_not [simp]:
  "isAsciiPrintable c \<Longrightarrow> \<not> isCR c" "isAsciiPrintable c \<Longrightarrow> \<not> isLF c" "isAsciiPrintable c \<Longrightarrow> \<not> isWhitespace c"
  by (simp_all add: char_classes)

lemma crlf_classes [simp]:
  "isCR CHR 0x0D" "isLF CHR 0x0A" "\<not> isLF CHR 0x0D" "\<not> isCR CHR 0x0A" "isWhitespace CHR '' ''"
  "\<not> isWhitespace CHR 0x0D" "\<not> isWhitespace CHR 0x0A" "\<not> isCR CHR '' ''" "\<not> isLF CHR '' ''"
  "\<not> isAsciiPrintable CHR '' ''" "isAsciiPrintable CHR '':''" "\<not> isCR CHR '':''" "\<not> isHex CHR 0x0D"
  "\<not> isAsciiPrintable CHR 0x0D"
  by (simp_all add: char_classes isHex_def)

text \<open>A URI may hold any byte that does not end it.\<close>

definition uri_char :: "char \<Rightarrow> bool" where
  "uri_char c \<longleftrightarrow> \<not> isCR c \<and> \<not> isLF c \<and> \<not> isWhitespace c"

definition crlf :: string where
  "crlf = [CHR 0x0D, CHR 0x0A]"

subsection \<open>The request line\<close>

lemma method_loop:
  assumes "hstate p = HTTP_STATE_REQUEST_METHOD" "list_all isAsciiPrintable s"
    "methodNameLength p = 0" "length s \<le> 256" "length (methodName p) = 264"
  shows "steps p s (p\<lparr>methodName := s @ drop (length s) (methodName p), methodNameLength := length s\<rparr>)"
proof -
  let ?g = "\<lambda>xs :: string. p\<lparr>methodName := xs @ drop (length xs) (methodName p), methodNameLength := length xs\<rparr>"
  have "steps (?g []) s (?g ([] @ s))"
  proof (rule steps_collect)
    fix xs :: string and c
    assume c: "c \<in> set s" "length xs < length [] + length s"
    then have "drop (length xs) (methodName p) = methodName p ! length xs # drop (Suc (length xs)) (methodName p)"
      using assms by (simp add: Cons_nth_drop_Suc)
    with c assms show "httpByte (?g xs) c = Parsing (?g (xs @ [c]))"
      by (auto simp: httpByte_def requestMethod_def list_all_iff http_limits list_update_append)
  qed
  moreover have "?g [] = p" using assms(3) by (cases p) simp
  ultimately show ?thesis by simp
qed

lemma uri_loop:
  assumes "hstate p = HTTP_STATE_REQUEST_URI" "list_all uri_char s" "length (uri p) + length s \<le> 1032"
  shows "steps p s (p\<lparr>uri := uri p @ s\<rparr>)"
proof -
  have "steps (p\<lparr>uri := uri p\<rparr>) s (p\<lparr>uri := uri p @ s\<rparr>)"
    by (rule steps_collect) (use assms in
      \<open>auto simp: httpByte_def requestURI_def list_all_iff uri_char_def http_limits\<close>)
  then show ?thesis by simp
qed

lemma version_loop:
  assumes "hstate p = HTTP_STATE_REQUEST_VERSION" "list_all isAsciiPrintable s"
    "length (version p) + length s \<le> 264"
  shows "steps p s (p\<lparr>version := version p @ s\<rparr>)"
proof -
  have "steps (p\<lparr>version := version p\<rparr>) s (p\<lparr>version := version p @ s\<rparr>)"
    by (rule steps_collect) (use assms in
      \<open>auto simp: httpByte_def requestVersion_def list_all_iff http_limits\<close>)
  then show ?thesis by simp
qed

definition known_method :: "string \<Rightarrow> bool" where
  "known_method m \<longleftrightarrow> (\<exists>k\<in>set [''GET'', ''POST'', ''PUT'', ''HEAD'', ''DELETE'', ''TRACE'', ''OPTIONS'', ''CONNECT''].
     has_prefix m k)"

lemma cstr_append: "CHR 0x00 \<notin> set s \<Longrightarrow> cstr (s @ t) = s @ cstr t"
  by (induction s) (auto simp: cstr_def)

lemma has_prefix_append: "has_prefix s k \<Longrightarrow> has_prefix (s @ t) k"
proof -
  assume k: "has_prefix s k"
  then have "take (length k) s = k" by (simp only: has_prefix_def)
  from arg_cong [OF this, of length] have "length k \<le> length s" by simp
  with k show ?thesis by (simp add: has_prefix_def)
qed

lemma printable_no_zero: "list_all isAsciiPrintable s \<Longrightarrow> CHR 0x00 \<notin> set s"
  by (auto simp: list_all_iff isAsciiPrintable_def char_code_def)

lemma method_valid:
  assumes "known_method m" "list_all isAsciiPrintable m"
  shows "parserMethodIsValid (p\<lparr>methodName := m @ t, methodNameLength := n\<rparr>)"
  using assms has_prefix_append [of m _ "cstr t"]
  by (auto simp: parserMethodIsValid_def known_method_def cstr_append printable_no_zero Let_def)

definition request_line :: "string \<Rightarrow> string \<Rightarrow> string \<Rightarrow> string" where
  "request_line m u v = m @ '' '' @ u @ '' '' @ v @ crlf"

definition line_ok :: "string \<Rightarrow> string \<Rightarrow> string \<Rightarrow> bool" where
  "line_ok m u v \<longleftrightarrow> known_method m \<and> list_all isAsciiPrintable m \<and> length m \<le> 256 \<and>
     u \<noteq> [] \<and> list_all uri_char u \<and> length u \<le> 1032 \<and>
     v \<noteq> [] \<and> list_all isAsciiPrintable v \<and> length v \<le> 264"

lemma request_line_steps:
  assumes "hstate p = HTTP_STATE_REQUEST_METHOD" "methodNameLength p = 0" "length (methodName p) = 264"
    "line_ok m u v"
  shows "steps p (request_line m u v)
    (p\<lparr>methodName := m @ drop (length m) (methodName p), methodNameLength := length m, uri := u, version := v,
       headerName := [], hstate := HTTP_STATE_HEADER_FIELD_NAME\<rparr>)"
proof -
  from assms(4) have m: "known_method m" "list_all isAsciiPrintable m" "length m \<le> 256"
    and u: "u \<noteq> []" "list_all uri_char u" "length u \<le> 1032"
    and v: "v \<noteq> []" "list_all isAsciiPrintable v" "length v \<le> 264" by (auto simp: line_ok_def)
  obtain u1 us where us: "u = u1 # us" using u(1) by (cases u) auto
  obtain v1 vs where vs: "v = v1 # vs" using v(1) by (cases v) auto
  have "m \<noteq> []" using m(1) by (auto simp: known_method_def has_prefix_def)
  let ?p1 = "p\<lparr>methodName := m @ drop (length m) (methodName p), methodNameLength := length m\<rparr>"
  let ?p2 = "?p1\<lparr>hstate := HTTP_STATE_REQUEST_GAP1\<rparr>"
  let ?p3 = "?p2\<lparr>uri := [u1], hstate := HTTP_STATE_REQUEST_URI\<rparr>"
  let ?p4 = "?p3\<lparr>uri := uri ?p3 @ us\<rparr>"
  let ?p5 = "?p4\<lparr>hstate := HTTP_STATE_REQUEST_GAP2\<rparr>"
  let ?p6 = "?p5\<lparr>hstate := HTTP_STATE_REQUEST_VERSION, version := [v1]\<rparr>"
  let ?p7 = "?p6\<lparr>version := version ?p6 @ vs\<rparr>"
  have "steps p m ?p1" by (rule method_loop) (use assms m in auto)
  moreover have "steps ?p1 '' '' ?p2"
    by (rule steps_one) (use assms m method_valid [OF m(1,2)] \<open>m \<noteq> []\<close> in
      \<open>simp add: httpByte_def requestMethod_def\<close>)
  moreover have "steps ?p2 [u1] ?p3"
    by (rule steps_one) (use us u in \<open>simp add: httpByte_def requestGap1_def uri_char_def\<close>)
  moreover have "steps ?p3 us ?p4" by (rule uri_loop) (use us u in auto)
  moreover have "steps ?p4 '' '' ?p5"
    by (rule steps_one) (simp add: httpByte_def requestURI_def)
  moreover have "steps ?p5 [v1] ?p6"
    by (rule steps_one) (use vs v in \<open>simp add: httpByte_def requestGap2_def\<close>)
  moreover have "steps ?p6 vs ?p7" by (rule version_loop) (use vs v in auto)
  moreover have "steps ?p7 crlf (?p7\<lparr>headerName := [], hstate := HTTP_STATE_HEADER_FIELD_NAME\<rparr>)"
    unfolding crlf_def
    by (rule steps_Cons, simp add: httpByte_def requestVersion_def, rule steps_one)
      (simp add: httpByte_def requestCRSeen_def)
  ultimately have "steps p (m @ '' '' @ [u1] @ us @ '' '' @ [v1] @ vs @ crlf)
      (?p7\<lparr>headerName := [], hstate := HTTP_STATE_HEADER_FIELD_NAME\<rparr>)"
    by (meson steps_append)
  then show ?thesis using us vs by (simp add: request_line_def)
qed

subsection \<open>Headers\<close>

lemma upchar_ascii: "0 \<le> char_code c \<Longrightarrow> upchar c = char_code c"
proof -
  assume c: "0 \<le> char_code c"
  let ?b = "of_char c :: byte"
  have b7: "\<not> bit ?b 7" using c bit_last_iff [of ?b] by (simp add: char_code_def)
  have high: "?b AND 0xF0 \<noteq> h" if "bit h 7" for h :: byte
  proof
    assume "?b AND 0xF0 = h"
    then have "bit (?b AND 0xF0) 7" using that by simp
    with b7 show False by (simp add: bit_and_iff)
  qed
  have "bit (0x80 :: byte) 7" "bit (0x90 :: byte) 7" "bit (0xA0 :: byte) 7" by (simp_all add: bit_numeral_rec)
  from this [THEN high] have "upchar c = uint ?b" by (simp add: upchar_def Let_def)
  also have "\<dots> = int (unat ?b)" by simp
  also have "\<dots> = char_code c" using ascii_code(2) [OF c] by (simp add: unat_of_char)
  finally show ?thesis .
qed

lemma compare_ascii:
  "list_all isAsciiPrintable s \<Longrightarrow> list_all (\<lambda>c. 0 \<le> char_code c) t \<Longrightarrow>
     compareIgnoringCase s (t @ [CHR 0x00]) (length s) = 0 \<longleftrightarrow> take (length s) t = s"
proof (induction s arbitrary: t)
  case (Cons c s)
  have up: "upchar c = char_code c" "char_code c > 32"
    using Cons.prems(1) upchar_ascii [of c] by (auto simp: isAsciiPrintable_def)
  show ?case
  proof (cases t)
    case Nil
    have "upchar CHR 0x00 = 0" using upchar_ascii [of "CHR 0x00"] by (simp add: char_code_def)
    with Nil up show ?thesis by simp
  next
    case (Cons d t')
    have "upchar d = char_code d" using Cons Cons.prems(2) upchar_ascii by simp
    with Cons Cons.IH [of t'] Cons.prems up show ?thesis by (auto simp: Let_def)
  qed
qed simp

text \<open>A printable name counts as a known header when it is a prefix of that header's name.\<close>

lemma matches_prefix:
  "list_all isAsciiPrintable s \<Longrightarrow> list_all isAsciiPrintable t \<Longrightarrow> matches s t \<longleftrightarrow> has_prefix t s"
proof -
  assume s: "list_all isAsciiPrintable s" and t: "list_all isAsciiPrintable t"
  from t have "list_all (\<lambda>c. 0 \<le> char_code c) t" by (auto simp: list_all_iff isAsciiPrintable_def)
  from compare_ascii [OF s this] show ?thesis by (simp add: matches_def has_prefix_def)
qed

definition special_headers :: "string list" where
  "special_headers = [''Transfer-Encoding'', ''Content-Length'', ''Content-Type'', ''Upgrade'', ''Connection'']"

definition header_ok :: "string \<times> string \<Rightarrow> bool" where
  "header_ok h \<longleftrightarrow>
     fst h \<noteq> [] \<and> list_all (\<lambda>c. isAsciiPrintable c \<and> c \<noteq> CHR '':'') (fst h) \<and> length (fst h) \<le> 1032 \<and>
     snd h \<noteq> [] \<and> isAsciiPrintable (hd (snd h)) \<and> list_all (\<lambda>c. \<not> isCR c \<and> \<not> isLF c) (snd h) \<and>
     length (snd h) \<le> 16384"

definition plain_header :: "string \<times> string \<Rightarrow> bool" where
  "plain_header h \<longleftrightarrow> header_ok h \<and> (\<forall>k\<in>set special_headers. \<not> has_prefix k (fst h))"

definition header_line :: "string \<times> string \<Rightarrow> string" where
  "header_line h = fst h @ '': '' @ snd h @ crlf"

definition mk_header :: "string \<times> string \<Rightarrow> httpHeader" where
  "mk_header h = \<lparr>hname = fst h, hvalue = snd h\<rparr>"

text \<open>A parser at the start of a header line.\<close>

definition at_header :: "httpParser \<Rightarrow> bool" where
  "at_header p \<longleftrightarrow> hstate p = HTTP_STATE_HEADER_FIELD_NAME \<and> headerName p = [] \<and> headerValue p = []"

definition after_header :: "httpParser \<Rightarrow> string \<times> string \<Rightarrow> httpParser" where
  "after_header p h =
     (addRequestHeader (p\<lparr>headerName := fst h, headerValue := snd h\<rparr>))\<lparr>headerName := [], headerValue := []\<rparr>"

lemma header_name_loop:
  assumes "hstate p = HTTP_STATE_HEADER_FIELD_NAME"
    "list_all (\<lambda>c. isAsciiPrintable c \<and> c \<noteq> CHR '':'') s" "length (headerName p) + length s \<le> 1032"
  shows "steps p s (p\<lparr>headerName := headerName p @ s\<rparr>)"
proof -
  have "steps (p\<lparr>headerName := headerName p\<rparr>) s (p\<lparr>headerName := headerName p @ s\<rparr>)"
    by (rule steps_collect) (use assms in
      \<open>auto simp: httpByte_def headerFieldName_def list_all_iff http_limits\<close>)
  then show ?thesis by simp
qed

lemma header_value_loop:
  assumes "hstate p = HTTP_STATE_HEADER_FIELD_CONTENT"
    "list_all (\<lambda>c. \<not> isCR c \<and> \<not> isLF c) s" "length (headerValue p) + length s \<le> 16384"
  shows "steps p s (p\<lparr>headerValue := headerValue p @ s\<rparr>)"
proof -
  have "steps (p\<lparr>headerValue := headerValue p\<rparr>) s (p\<lparr>headerValue := headerValue p @ s\<rparr>)"
    by (rule steps_collect) (use assms in
      \<open>auto simp: httpByte_def headerFieldContent_def list_all_iff http_limits\<close>)
  then show ?thesis by simp
qed

lemma addRequestHeader_state: "addRequestHeader (p\<lparr>hstate := s\<rparr>) = (addRequestHeader p)\<lparr>hstate := s\<rparr>"
  by (simp add: addRequestHeader_def Let_def)

lemma header_steps:
  assumes "at_header p" "header_ok h"
  shows "steps p (header_line h) (after_header p h)" "at_header (after_header p h)"
proof -
  obtain n v1 vs where h: "h = (n, v1 # vs)" using assms(2) by (cases h; cases "snd h") (auto simp: header_ok_def)
  have n: "n \<noteq> []" "list_all (\<lambda>c. isAsciiPrintable c \<and> c \<noteq> CHR '':'') n" "length n \<le> 1032"
    and v: "isAsciiPrintable v1" "list_all (\<lambda>c. \<not> isCR c \<and> \<not> isLF c) vs" "length vs + 1 \<le> 16384"
    using assms(2) h by (auto simp: header_ok_def)
  have p: "hstate p = HTTP_STATE_HEADER_FIELD_NAME" "headerName p = []" "headerValue p = []"
    using assms(1) by (auto simp: at_header_def)
  let ?p1 = "p\<lparr>headerName := n\<rparr>"
  let ?p2 = "?p1\<lparr>hstate := HTTP_STATE_HEADER_GAP1\<rparr>"
  let ?p3 = "?p2\<lparr>headerValue := [v1], hstate := HTTP_STATE_HEADER_FIELD_CONTENT\<rparr>"
  let ?p4 = "?p3\<lparr>headerValue := v1 # vs\<rparr>"
  let ?p5 = "addRequestHeader (?p4\<lparr>hstate := HTTP_STATE_HEADER_CR_SEEN\<rparr>)"
  let ?p6 = "?p5\<lparr>hstate := HTTP_STATE_HEADER_FIELD_NAME, headerName := [], headerValue := []\<rparr>"
  have "steps p n ?p1" using header_name_loop [of p n] p n by simp
  moreover have "steps ?p1 '': '' ?p2"
    by (rule steps_Cons, use p n in \<open>simp add: httpByte_def headerFieldName_def\<close>, rule steps_one)
       (simp add: httpByte_def headerGap1_def)
  moreover have "steps ?p2 [v1] ?p3"
    by (rule steps_one) (use v in \<open>simp add: httpByte_def headerGap1_def\<close>)
  moreover have "steps ?p3 vs ?p4" using header_value_loop [of ?p3 vs] v by simp
  moreover have "steps ?p4 crlf ?p6" unfolding crlf_def
    by (rule steps_Cons, simp add: httpByte_def headerFieldContent_def, rule steps_one)
      (simp add: addRequestHeader_state httpByte_def headerCRSeen_def)
  ultimately have "steps p (n @ '': '' @ [v1] @ vs @ crlf) ?p6" by (meson steps_append)
  moreover have "?p6 = after_header p h"
    using p h by (simp add: after_header_def addRequestHeader_def Let_def)
  ultimately show "steps p (header_line h) (after_header p h)" using h by (simp add: header_line_def)
  show "at_header (after_header p h)"
    using p by (simp add: at_header_def after_header_def addRequestHeader_def Let_def)
qed

lemma special_printable: "k \<in> set special_headers \<Longrightarrow> list_all isAsciiPrintable k"
  by (auto simp: special_headers_def isAsciiPrintable_def char_code_def)

lemma special_matches:
  assumes "list_all isAsciiPrintable n"
  shows "matches n ''Transfer-Encoding'' = has_prefix ''Transfer-Encoding'' n"
    "matches n ''Content-Length'' = has_prefix ''Content-Length'' n"
    "matches n ''Content-Type'' = has_prefix ''Content-Type'' n"
    "matches n ''Upgrade'' = has_prefix ''Upgrade'' n"
    "matches n ''Connection'' = has_prefix ''Connection'' n"
  by (rule matches_prefix [OF assms special_printable]; simp add: special_headers_def)+

lemma header_ok_name: "header_ok h \<Longrightarrow> list_all isAsciiPrintable (fst h)"
  by (auto simp: header_ok_def list_all_iff)

lemma after_plain:
  assumes "plain_header h" "at_header p"
  shows "after_header p h = p\<lparr>headerChain := headerChain p @ [mk_header h]\<rparr>"
proof -
  from assms(1) have n: "list_all isAsciiPrintable (fst h)"
    and k: "\<And>k. k \<in> set special_headers \<Longrightarrow> \<not> has_prefix k (fst h)"
    using header_ok_name by (auto simp: plain_header_def)
  have "\<not> has_prefix ''Transfer-Encoding'' (fst h)" "\<not> has_prefix ''Content-Length'' (fst h)"
    "\<not> has_prefix ''Content-Type'' (fst h)" "\<not> has_prefix ''Upgrade'' (fst h)"
    "\<not> has_prefix ''Connection'' (fst h)"
    by (rule k, simp add: special_headers_def)+
  with assms(2) show ?thesis
    by (cases p) (simp add: after_header_def addRequestHeader_def special_matches [OF n] mk_header_def at_header_def)
qed

lemma after_length:
  "at_header p \<Longrightarrow> after_header p (''Content-Length'', v) =
     p\<lparr>specifiedContentLength := atoi_text v, headerChain := headerChain p @ [mk_header (''Content-Length'', v)]\<rparr>"
  and after_chunked:
  "at_header p \<Longrightarrow> after_header p (''Transfer-Encoding'', ''chunked'') =
     p\<lparr>isChunked := True, headerChain := headerChain p @ [mk_header (''Transfer-Encoding'', ''chunked'')]\<rparr>"
  and after_keep_alive:
  "at_header p \<Longrightarrow> after_header p (''Connection'', ''Keep-Alive'') =
     p\<lparr>keepAlive := True, headerChain := headerChain p @ [mk_header (''Connection'', ''Keep-Alive'')]\<rparr>"
proof -
  have printable: "list_all isAsciiPrintable ''Content-Length''" "list_all isAsciiPrintable ''Transfer-Encoding''"
    "list_all isAsciiPrintable ''Connection''" "list_all isAsciiPrintable ''chunked''"
    "list_all isAsciiPrintable ''Keep-Alive''"
    by (simp_all add: isAsciiPrintable_def char_code_def)
  have self: "matches ''chunked'' ''chunked''" "matches ''Keep-Alive'' ''Keep-Alive''"
    by (simp_all add: matches_prefix [OF printable(4,4)] matches_prefix [OF printable(5,5)] has_prefix_def)
  note defs = after_header_def addRequestHeader_def mk_header_def at_header_def has_prefix_def
  show "at_header p \<Longrightarrow> after_header p (''Content-Length'', v) =
     p\<lparr>specifiedContentLength := atoi_text v, headerChain := headerChain p @ [mk_header (''Content-Length'', v)]\<rparr>"
    by (cases p) (simp add: defs special_matches [OF printable(1)])
  show "at_header p \<Longrightarrow> after_header p (''Transfer-Encoding'', ''chunked'') =
     p\<lparr>isChunked := True, headerChain := headerChain p @ [mk_header (''Transfer-Encoding'', ''chunked'')]\<rparr>"
    by (cases p) (simp add: defs special_matches [OF printable(2)] self)
  show "at_header p \<Longrightarrow> after_header p (''Connection'', ''Keep-Alive'') =
     p\<lparr>keepAlive := True, headerChain := headerChain p @ [mk_header (''Connection'', ''Keep-Alive'')]\<rparr>"
    by (cases p) (simp add: defs special_matches [OF printable(3)] self)
qed

lemma plain_headers_steps:
  "at_header p \<Longrightarrow> list_all plain_header hs \<Longrightarrow>
     steps p (concat (map header_line hs)) (p\<lparr>headerChain := headerChain p @ map mk_header hs\<rparr>)"
proof (induction hs arbitrary: p)
  case Nil
  then show ?case by (simp add: steps_Nil)
next
  case (Cons h hs)
  let ?q = "p\<lparr>headerChain := headerChain p @ [mk_header h]\<rparr>"
  have h: "plain_header h" "header_ok h" using Cons.prems(2) by (auto simp: plain_header_def)
  have "steps p (header_line h) ?q"
    using header_steps(1) [OF Cons.prems(1) h(2)] after_plain [OF h(1) Cons.prems(1)] by simp
  moreover have "steps ?q (concat (map header_line hs)) (?q\<lparr>headerChain := headerChain ?q @ map mk_header hs\<rparr>)"
    by (rule Cons.IH) (use Cons.prems in \<open>auto simp: at_header_def\<close>)
  ultimately show ?case using steps_append by fastforce
qed

subsection \<open>Bodies\<close>

lemma storeContent_next:
  assumes "content p = Some (b @ xs @ replicate (Suc k) z)" "remainingContentLength p = int (Suc k)"
    "specifiedContentLength p = int (length b + length xs + Suc k)"
  shows "storeContent p c = Some (p\<lparr>content := Some (b @ (xs @ [c]) @ replicate k z), remainingContentLength := int k\<rparr>)"
  using assms by (simp add: storeContent_def Let_def list_update_append nat_int_add)

text \<open>The state while a body is read: \<open>b\<close> was there before, \<open>xs\<close> has come, \<open>n\<close> bytes are expected.\<close>

definition body_state :: "httpParser \<Rightarrow> string \<Rightarrow> nat \<Rightarrow> string \<Rightarrow> httpParser" where
  "body_state p b n xs =
     p\<lparr>content := Some (b @ xs @ replicate (n - length xs) CHR 0x00),
       remainingContentLength := int n - int (length xs)\<rparr>"

lemma body_step:
  assumes "specifiedContentLength p = int (length b + n)" "length xs < n"
  shows "storeContent (body_state p b n xs) c = Some (body_state p b n (xs @ [c]))"
proof -
  obtain k where k: "n - length xs = Suc k" using assms(2) by (metis Suc_diff_Suc)
  then have n: "n = length xs + Suc k" using assms(2) by simp
  show ?thesis
    using storeContent_next [of "body_state p b n xs" b xs k "CHR 0x00" c] assms(1)
    by (simp add: body_state_def n)
qed

lemma fixed_body_loop:
  assumes "hstate p = HTTP_STATE_READING_FIXED_BODY" "specifiedContentLength p = int n" "length s < n"
  shows "steps (body_state p [] n []) s (body_state p [] n s)"
proof -
  have "steps (body_state p [] n []) s (body_state p [] n ([] @ s))"
  proof (rule steps_collect)
    fix xs :: string and c
    assume c: "c \<in> set s" "length xs < length [] + length s"
    then have len: "length xs < n" using assms(3) by simp
    have "hstate (body_state p [] n xs) = HTTP_STATE_READING_FIXED_BODY"
      using assms(1) by (simp add: body_state_def)
    moreover have "\<not> remainingContentLength (body_state p [] n (xs @ [c])) \<le> 0"
      using c assms(3) by (simp add: body_state_def)
    ultimately show "httpByte (body_state p [] n xs) c = Parsing (body_state p [] n (xs @ [c]))"
      using body_step [of p "[]" n xs c] assms(2) len by (simp add: httpByte_def readingFixedBody_def)
  qed
  then show ?thesis by simp
qed

lemma fixed_body_steps:
  assumes "hstate p = HTTP_STATE_READING_FIXED_BODY" "specifiedContentLength p = int (length s)" "s \<noteq> []"
  shows "steps (body_state p [] (length s) []) s
    (resetParserAndEnqueue (p\<lparr>content := Some s, remainingContentLength := 0\<rparr>))"
proof -
  obtain t c where s: "s = t @ [c]" using assms(3) by (cases s rule: rev_cases) auto
  have "steps (body_state p [] (length s) []) t (body_state p [] (length s) t)"
    by (rule fixed_body_loop) (use assms s in auto)
  moreover have "steps (body_state p [] (length s) t) [c]
      (resetParserAndEnqueue (p\<lparr>content := Some s, remainingContentLength := 0\<rparr>))"
  proof (rule steps_one)
    have "hstate (body_state p [] (length s) t) = HTTP_STATE_READING_FIXED_BODY"
      using assms(1) by (simp add: body_state_def)
    then show "httpByte (body_state p [] (length s) t) c =
        Parsing (resetParserAndEnqueue (p\<lparr>content := Some s, remainingContentLength := 0\<rparr>))"
      using body_step [of p "[]" "length s" t c] assms(2) s
      by (simp add: httpByte_def readingFixedBody_def) (simp add: body_state_def)
  qed
  ultimately show ?thesis using s steps_append by blast
qed

fun hex_text :: "nat \<Rightarrow> string" where
  "hex_text n = (if n < 16 then [''0123456789abcdef'' ! n] else hex_text (n div 16) @ [''0123456789abcdef'' ! (n mod 16)])"

declare hex_text.simps [simp del]

lemma hex_digit: "d < 16 \<Longrightarrow> isHex (''0123456789abcdef'' ! d) \<and> hexValue (''0123456789abcdef'' ! d) = int d"
proof -
  have "list_all (\<lambda>d. isHex (''0123456789abcdef'' ! d) \<and> hexValue (''0123456789abcdef'' ! d) = int d) [0..<16]"
    by code_simp
  then show "d < 16 \<Longrightarrow> ?thesis" by (simp add: list_all_iff)
qed

lemma chunk_size_digit:
  assumes "hstate p = HTTP_STATE_READING_CHUNK_SIZE" "d < 16" "0 \<le> chunkSize p"
    "chunkSize p * 16 + int d \<le> 2147483647"
  shows "steps p [''0123456789abcdef'' ! d] (p\<lparr>chunkSize := chunkSize p * 16 + int d\<rparr>)"
proof -
  have "\<not> chunkSize p > (MAX_HTTP_CHUNK - int d) div 16" using assms(4) by (simp add: MAX_HTTP_CHUNK_def)
  then show ?thesis
    using assms hex_digit [OF assms(2)] by (intro steps_one) (simp add: httpByte_def readingChunkSize_def)
qed

lemma chunk_size_steps:
  "hstate p = HTTP_STATE_READING_CHUNK_SIZE \<Longrightarrow> chunkSize p = 0 \<Longrightarrow> n \<le> 2147483647 \<Longrightarrow>
     steps p (hex_text n) (p\<lparr>chunkSize := int n\<rparr>)"
proof (induction n rule: hex_text.induct)
  case (1 n)
  show ?case
  proof (cases "n < 16")
    case True
    with chunk_size_digit [of p n] 1 show ?thesis by (subst hex_text.simps) simp
  next
    case False
    let ?q = "p\<lparr>chunkSize := int (n div 16)\<rparr>"
    have "steps p (hex_text (n div 16)) ?q" using 1 False by simp
    moreover have "int (n div 16) * 16 + int (n mod 16) = int n" by presburger
    then have "steps ?q [''0123456789abcdef'' ! (n mod 16)] (p\<lparr>chunkSize := int n\<rparr>)"
      using chunk_size_digit [of ?q "n mod 16"] 1 by simp
    ultimately show ?thesis using False steps_append by (subst hex_text.simps) auto
  qed
qed

definition chunk_text :: "string \<Rightarrow> string" where
  "chunk_text s = hex_text (length s) @ crlf @ s @ crlf"

text \<open>A parser before a chunk, with the body \<open>b\<close> so far.\<close>

definition at_chunk :: "httpParser \<Rightarrow> string \<Rightarrow> bool" where
  "at_chunk p b \<longleftrightarrow> hstate p = HTTP_STATE_READING_CHUNK_SIZE \<and> chunkSize p = 0 \<and>
     content p = (if b = [] then None else Some b) \<and> specifiedContentLength p = int (length b)"

lemma chunk_data_loop:
  assumes "hstate p = HTTP_STATE_READING_CHUNK_DATA" "specifiedContentLength p = int (length b + length s)"
  shows "steps (body_state p b (length s) []) s (body_state p b (length s) s)"
proof -
  have "steps (body_state p b (length s) []) s (body_state p b (length s) ([] @ s))"
  proof (rule steps_collect)
    fix xs :: string and c
    assume "c \<in> set s" "length xs < length [] + length s"
    then have len: "length xs < length s" by simp
    have "hstate (body_state p b (length s) xs) = HTTP_STATE_READING_CHUNK_DATA"
      "\<not> remainingContentLength (body_state p b (length s) xs) \<le> 0"
      using assms(1) len by (simp_all add: body_state_def)
    then show "httpByte (body_state p b (length s) xs) c = Parsing (body_state p b (length s) (xs @ [c]))"
      using body_step [of p b "length s" xs c] assms(2) len by (simp add: httpByte_def readingChunkData_def)
  qed
  then show ?thesis by simp
qed

lemma cint_id: "0 \<le> i \<Longrightarrow> i \<le> 2147483647 \<Longrightarrow> sint (word_of_int i :: cint) = i"
  by (simp add: sint_sbintrunc' signed_take_bit_int_eq_self)

lemma chunk_steps:
  assumes "at_chunk p b" "s \<noteq> []" "length b + length s \<le> 2147483647"
  shows "\<exists>q. steps p (chunk_text s) q \<and> at_chunk q (b @ s) \<and>
    q = p\<lparr>content := Some (b @ s), specifiedContentLength := int (length (b @ s)), remainingContentLength := 0\<rparr>"
proof -
  have p: "hstate p = HTTP_STATE_READING_CHUNK_SIZE" "chunkSize p = 0"
      "content p = (if b = [] then None else Some b)" "specifiedContentLength p = int (length b)"
    using assms(1) by (auto simp: at_chunk_def)
  have total: "sint (word_of_int (int (length b) + int (length s)) :: cint) = int (length b) + int (length s)"
    by (rule cint_id) (use assms(3) in simp_all)
  let ?p1 = "p\<lparr>chunkSize := int (length s)\<rparr>"
  let ?p2 = "?p1\<lparr>hstate := HTTP_STATE_CHUNK_SIZE_CR_SEEN\<rparr>"
  let ?r = "p\<lparr>chunkSize := int (length s), specifiedContentLength := int (length b + length s),
              hstate := HTTP_STATE_READING_CHUNK_DATA\<rparr>"
  let ?p4 = "body_state ?r b (length s) s"
  let ?q = "p\<lparr>content := Some (b @ s), specifiedContentLength := int (length (b @ s)), remainingContentLength := 0\<rparr>"
  have "steps p (hex_text (length s)) ?p1" using chunk_size_steps [OF p(1,2), of "length s"] assms(3) by simp
  moreover have "steps ?p1 [CHR 0x0D] ?p2"
    using p(1) by (intro steps_one) (simp add: httpByte_def readingChunkSize_def)
  moreover have "steps ?p2 [CHR 0x0A] (body_state ?r b (length s) [])"
    using assms(2) p total by (intro steps_one)
      (auto simp: httpByte_def chunkSizeCRSeen_def Let_def body_state_def nat_int_add split: if_splits)
  moreover have "steps (body_state ?r b (length s) []) s ?p4"
    by (rule chunk_data_loop) simp_all
  moreover have "steps ?p4 crlf ?q" unfolding crlf_def
    by (rule steps_Cons, simp add: body_state_def httpByte_def readingChunkData_def, rule steps_one)
       (use p in \<open>cases p, simp add: httpByte_def chunkDataCRSeen_def\<close>)
  ultimately have "steps p (hex_text (length s) @ [CHR 0x0D] @ [CHR 0x0A] @ s @ crlf) ?q"
    by (meson steps_append)
  moreover have "at_chunk ?q (b @ s)" using p assms(2) by (simp add: at_chunk_def)
  ultimately show ?thesis by (auto simp: chunk_text_def crlf_def)
qed

lemma chunks_steps:
  "at_chunk p b \<Longrightarrow> list_all (\<lambda>s. s \<noteq> []) cs \<Longrightarrow> length b + length (concat cs) \<le> 2147483647 \<Longrightarrow>
     \<exists>q. steps p (concat (map chunk_text cs)) q \<and> at_chunk q (b @ concat cs) \<and>
       (\<exists>c n r. q = p\<lparr>content := c, specifiedContentLength := n, remainingContentLength := r\<rparr>)"
proof (induction cs arbitrary: p b)
  case Nil
  have "p = p\<lparr>content := content p, specifiedContentLength := specifiedContentLength p,
      remainingContentLength := remainingContentLength p\<rparr>" by simp
  then have "\<exists>c n r. p = p\<lparr>content := c, specifiedContentLength := n, remainingContentLength := r\<rparr>" by blast
  then show ?case using Nil.prems(1) steps_Nil [of p] by (intro exI [of _ p] conjI) simp_all
next
  case (Cons s cs)
  obtain q where q: "steps p (chunk_text s) q" "at_chunk q (b @ s)"
    "q = p\<lparr>content := Some (b @ s), specifiedContentLength := int (length (b @ s)), remainingContentLength := 0\<rparr>"
    using chunk_steps [OF Cons.prems(1), of s] Cons.prems by auto
  obtain q' where q': "steps q (concat (map chunk_text cs)) q'" "at_chunk q' ((b @ s) @ concat cs)"
    "\<exists>c n r. q' = q\<lparr>content := c, specifiedContentLength := n, remainingContentLength := r\<rparr>"
    using Cons.IH [OF q(2)] Cons.prems by auto
  have "steps p (concat (map chunk_text (s # cs))) q'" using steps_append [OF q(1) q'(1)] by simp
  with q' q(3) show ?case by auto
qed

definition last_chunk :: string where
  "last_chunk = ''0'' @ crlf @ crlf"

lemma last_chunk_steps:
  assumes "at_chunk p b"
  shows "steps p last_chunk (resetParserAndEnqueue p)"
proof -
  have p: "hstate p = HTTP_STATE_READING_CHUNK_SIZE" "chunkSize p = 0" using assms by (auto simp: at_chunk_def)
  have "isHex CHR ''0''" "hexValue CHR ''0'' = 0" by (simp_all add: isHex_def hexValue_def char_code_def)
  then have "steps p ''0'' p"
    using p by (intro steps_one) (cases p, simp add: httpByte_def readingChunkSize_def MAX_HTTP_CHUNK_def)
  moreover have "steps p (crlf @ crlf)
      (resetParserAndEnqueue (p\<lparr>hstate := HTTP_STATE_CHUNK_TRAILER_CR_SEEN\<rparr>))"
    unfolding crlf_def using p by (simp add: steps_def httpByte_def readingChunkSize_def chunkSizeCRSeen_def
        readingChunkTrailer_def chunkTrailerCRSeen_def)
  moreover have "resetParserAndEnqueue (p\<lparr>hstate := HTTP_STATE_CHUNK_TRAILER_CR_SEEN\<rparr>) = resetParserAndEnqueue p"
    by (simp add: resetParserAndEnqueue_def enqueueLastRequest_def Let_def)
  ultimately show ?thesis unfolding last_chunk_def using steps_append by fastforce
qed

subsection \<open>Whole requests\<close>

datatype http_body = NoBody | FixedBody string | ChunkedBody "string list"

record http_msg =
  m_method :: string
  m_uri :: string
  m_version :: string
  m_headers :: "(string \<times> string) list"
  m_keepAlive :: bool
  m_body :: http_body

fun body_headers :: "http_body \<Rightarrow> (string \<times> string) list" where
  "body_headers NoBody = []"
| "body_headers (FixedBody s) = [(''Content-Length'', show_nat (length s))]"
| "body_headers (ChunkedBody cs) = [(''Transfer-Encoding'', ''chunked'')]"

fun body_text :: "http_body \<Rightarrow> string" where
  "body_text NoBody = []"
| "body_text (FixedBody s) = s"
| "body_text (ChunkedBody cs) = concat (map chunk_text cs) @ last_chunk"

fun body_bytes :: "http_body \<Rightarrow> string" where
  "body_bytes NoBody = []"
| "body_bytes (FixedBody s) = s"
| "body_bytes (ChunkedBody cs) = concat cs"

definition all_headers :: "http_msg \<Rightarrow> (string \<times> string) list" where
  "all_headers m = m_headers m @ (if m_keepAlive m then [(''Connection'', ''Keep-Alive'')] else []) @
     body_headers (m_body m)"

definition message_text :: "http_msg \<Rightarrow> string" where
  "message_text m = request_line (m_method m) (m_uri m) (m_version m) @
     concat (map header_line (all_headers m)) @ crlf @ body_text (m_body m)"

definition message_ok :: "http_msg \<Rightarrow> bool" where
  "message_ok m \<longleftrightarrow> line_ok (m_method m) (m_uri m) (m_version m) \<and> list_all plain_header (m_headers m) \<and>
     length (body_bytes (m_body m)) < 2 ^ 31 \<and>
     (case m_body m of NoBody \<Rightarrow> True | FixedBody s \<Rightarrow> s \<noteq> [] | ChunkedBody cs \<Rightarrow> list_all (\<lambda>s. s \<noteq> []) cs)"

definition request_of :: "http_msg \<Rightarrow> httpRequest" where
  "request_of m =
     \<lparr>rq_method = m_method m, rq_uri = m_uri m, rq_headers = map mk_header (all_headers m),
      rq_contentLength = int (length (body_bytes (m_body m))),
      rq_contentBody = (if body_bytes (m_body m) = [] then None else Some (body_bytes (m_body m))),
      rq_isWebSocket = False, rq_keepAlive = m_keepAlive m\<rparr>"

text \<open>A parser between two requests.\<close>

definition idle :: "httpParser \<Rightarrow> bool" where
  "idle p \<longleftrightarrow> hstate p = HTTP_STATE_REQUEST_METHOD \<and> methodNameLength p = 0 \<and> length (methodName p) = 264 \<and>
     headerName p = [] \<and> headerValue p = [] \<and> headerChain p = [] \<and> \<not> isChunked p \<and> \<not> isWebSocket p \<and>
     specifiedContentLength p = -1 \<and> \<not> keepAlive p"

lemma idle_make: "idle makeHttpRequestParser"
  by (simp add: idle_def makeHttpRequestParser_def http_limits)

lemma digit_printable: "isdigit (char_code c) \<Longrightarrow> isAsciiPrintable c"
  by (simp add: isdigit_def isAsciiPrintable_def)

lemma show_nat_header:
  assumes "n < 2 ^ 31"
  shows "header_ok (''Content-Length'', show_nat n)"
proof -
  have dig: "isAsciiPrintable c" if "c \<in> set (show_nat n)" for c
    using show_nat_digits [OF that] by (rule digit_printable)
  have "length (show_nat n) \<le> 10" using assms by (intro show_nat_length) simp_all
  moreover have "isAsciiPrintable (hd (show_nat n))" by (simp add: dig)
  moreover have "list_all (\<lambda>c. \<not> isCR c \<and> \<not> isLF c) (show_nat n)" using dig by (auto simp: list_all_iff)
  moreover have "list_all (\<lambda>c. isAsciiPrintable c \<and> c \<noteq> CHR '':'') ''Content-Length''"
    by (simp add: isAsciiPrintable_def char_code_def)
  ultimately show ?thesis by (simp add: header_ok_def)
qed

lemma atoi_show_nat:
  assumes "n < 2 ^ 31"
  shows "atoi_text (show_nat n) = int n"
proof -
  obtain d ds where s: "show_nat n = d # ds" "isdigit (char_code d)" by (rule show_nat_split)
  have "\<not> isspace (char_code d)" "d \<noteq> CHR ''+''"
    using s(2) by (auto simp: isspace_def isdigit_def char_code_def)
  moreover have "cstr (show_nat n) = show_nat n"
    using show_nat_digits [of _ n] by (fastforce simp: cstr_def isdigit_def char_code_def)
  moreover have "strtoll (show_nat n) = int n" using strtoll_show_int [of "int n"] assms by (simp add: show_int_def)
  moreover have "sint (word_of_int (int n) :: cint) = int n" by (rule cint_id) (use assms in simp_all)
  ultimately show ?thesis using s by (simp add: atoi_text_def atoi_def)
qed

text \<open>
  The end of the header lines and the body: the request is queued from a parser \<open>q\<close> that has the same
  request line and headers.
\<close>

definition same_head :: "httpParser \<Rightarrow> httpParser \<Rightarrow> bool" where
  "same_head p q \<longleftrightarrow> methodName q = methodName p \<and> methodNameLength q = methodNameLength p \<and> uri q = uri p \<and>
     headerChain q = headerChain p \<and> requestQ q = requestQ p \<and> keepAlive q = keepAlive p \<and>
     isWebSocket q = isWebSocket p"

definition holds_body :: "httpParser \<Rightarrow> string \<Rightarrow> bool" where
  "holds_body q s \<longleftrightarrow> specifiedContentLength q = int (length s) \<and> (s = [] \<or> content q = Some s) \<or>
     specifiedContentLength q = -1 \<and> s = []"

lemma no_body_steps:
  assumes "at_header p" "\<not> isChunked p" "specifiedContentLength p = -1"
  shows "\<exists>q. steps p crlf (resetParserAndEnqueue q) \<and> same_head p q \<and> holds_body q []"
proof -
  have "steps p crlf (resetParserAndEnqueue (p\<lparr>hstate := HTTP_STATE_END_CR_SEEN\<rparr>))"
    using assms by (simp add: crlf_def steps_def httpByte_def headerFieldName_def endCRSeen_def at_header_def)
  then show ?thesis using assms(3)
    by (intro exI [of _ "p\<lparr>hstate := HTTP_STATE_END_CR_SEEN\<rparr>"]) (simp add: same_head_def holds_body_def)
qed

lemma fixed_message_steps:
  assumes "at_header p" "\<not> isChunked p" "specifiedContentLength p = int (length s)" "s \<noteq> []"
  shows "\<exists>q. steps p (crlf @ s) (resetParserAndEnqueue q) \<and> same_head p q \<and> holds_body q s"
proof -
  let ?q = "p\<lparr>hstate := HTTP_STATE_READING_FIXED_BODY\<rparr>"
  have "steps p crlf (body_state ?q [] (length s) [])"
    using assms by (simp add: crlf_def steps_def httpByte_def headerFieldName_def endCRSeen_def at_header_def
        body_state_def)
  moreover have "steps (body_state ?q [] (length s) []) s
      (resetParserAndEnqueue (?q\<lparr>content := Some s, remainingContentLength := 0\<rparr>))"
    by (rule fixed_body_steps) (use assms in simp_all)
  ultimately have "steps p (crlf @ s) (resetParserAndEnqueue (?q\<lparr>content := Some s, remainingContentLength := 0\<rparr>))"
    by (rule steps_append)
  then show ?thesis using assms(3)
    by (intro exI [of _ "?q\<lparr>content := Some s, remainingContentLength := 0\<rparr>"])
       (simp add: same_head_def holds_body_def)
qed

lemma chunked_message_steps:
  assumes "at_header p" "isChunked p" "list_all (\<lambda>s. s \<noteq> []) cs" "length (concat cs) \<le> 2147483647"
  shows "\<exists>q. steps p (crlf @ concat (map chunk_text cs) @ last_chunk) (resetParserAndEnqueue q) \<and>
    same_head p q \<and> holds_body q (concat cs)"
proof -
  let ?q = "p\<lparr>hstate := HTTP_STATE_READING_CHUNK_SIZE, chunkSize := 0, specifiedContentLength := 0, content := None\<rparr>"
  have 1: "steps p crlf ?q"
    using assms by (simp add: crlf_def steps_def httpByte_def headerFieldName_def endCRSeen_def at_header_def)
  have "at_chunk ?q []" by (simp add: at_chunk_def)
  from chunks_steps [OF this assms(3)] assms(4) obtain q c n r where
    q: "steps ?q (concat (map chunk_text cs)) q" "at_chunk q (concat cs)"
    "q = ?q\<lparr>content := c, specifiedContentLength := n, remainingContentLength := r\<rparr>" by auto
  have "steps p (crlf @ concat (map chunk_text cs) @ last_chunk) (resetParserAndEnqueue q)"
    using steps_append [OF 1 steps_append [OF q(1) last_chunk_steps [OF q(2)]]] .
  moreover have "same_head p q" using q(3) by (simp add: same_head_def)
  moreover have "holds_body q (concat cs)" using q(2) by (simp add: holds_body_def at_chunk_def)
  ultimately show ?thesis by blast
qed

lemma body_steps:
  assumes "at_header p" "length (body_bytes b) < 2 ^ 31" "isChunked p = (case b of ChunkedBody _ \<Rightarrow> True | _ \<Rightarrow> False)"
    "case b of NoBody \<Rightarrow> specifiedContentLength p = -1
     | FixedBody s \<Rightarrow> s \<noteq> [] \<and> specifiedContentLength p = int (length s)
     | ChunkedBody cs \<Rightarrow> list_all (\<lambda>s. s \<noteq> []) cs"
  shows "\<exists>q. steps p (crlf @ body_text b) (resetParserAndEnqueue q) \<and> same_head p q \<and> holds_body q (body_bytes b)"
proof (cases b)
  case NoBody
  with no_body_steps [of p] assms show ?thesis by simp
next
  case (FixedBody s)
  with fixed_message_steps [of p s] assms show ?thesis by simp
next
  case (ChunkedBody cs)
  with chunked_message_steps [of p cs] assms show ?thesis by simp
qed

lemma resetParser_idle: "length (methodName p) = 264 \<Longrightarrow> idle (resetParserAndEnqueue p)"
  by (simp add: idle_def resetParserAndEnqueue_def enqueueLastRequest_def Let_def)

text \<open>The header lines of a message, one optional kind after the other.\<close>

lemma keep_alive_step:
  assumes "at_header p" "\<not> keepAlive p"
  shows "steps p (concat (map header_line (if k then [(''Connection'', ''Keep-Alive'')] else [])))
    (p\<lparr>headerChain := headerChain p @ map mk_header (if k then [(''Connection'', ''Keep-Alive'')] else []),
       keepAlive := k\<rparr>)"
proof (cases k)
  case True
  have "header_ok (''Connection'', ''Keep-Alive'')"
    by (simp add: header_ok_def isAsciiPrintable_def isCR_def isLF_def char_code_def)
  then have "steps p (header_line (''Connection'', ''Keep-Alive''))
      (p\<lparr>keepAlive := True, headerChain := headerChain p @ [mk_header (''Connection'', ''Keep-Alive'')]\<rparr>)"
    using header_steps(1) [OF assms(1)] by (simp only: after_keep_alive [OF assms(1), symmetric])
  with True show ?thesis by (cases p) simp
next
  case False
  with assms(2) show ?thesis by (cases p) (simp add: steps_Nil)
qed

lemma body_header_step:
  assumes "at_header p" "\<not> isChunked p" "specifiedContentLength p = -1" "length (body_bytes b) < 2 ^ 31"
  shows "steps p (concat (map header_line (body_headers b)))
    (p\<lparr>headerChain := headerChain p @ map mk_header (body_headers b),
       isChunked := (case b of ChunkedBody _ \<Rightarrow> True | _ \<Rightarrow> False),
       specifiedContentLength := (case b of FixedBody s \<Rightarrow> int (length s) | _ \<Rightarrow> -1)\<rparr>)"
proof (cases b)
  case NoBody
  with assms(2,3) show ?thesis by (cases p) (simp add: steps_Nil)
next
  case (FixedBody s)
  then have n: "length s < 2 ^ 31" using assms(4) by simp
  let ?h = "(''Content-Length'', show_nat (length s))"
  have "steps p (header_line ?h)
      (p\<lparr>specifiedContentLength := int (length s), headerChain := headerChain p @ [mk_header ?h]\<rparr>)"
    using header_steps(1) [OF assms(1) show_nat_header [OF n]] by (simp only: after_length [OF assms(1)] atoi_show_nat [OF n])
  with FixedBody assms(2) show ?thesis by (cases p) simp
next
  case (ChunkedBody cs)
  have "header_ok (''Transfer-Encoding'', ''chunked'')"
    by (simp add: header_ok_def isAsciiPrintable_def isCR_def isLF_def char_code_def)
  then have "steps p (header_line (''Transfer-Encoding'', ''chunked''))
      (p\<lparr>isChunked := True, headerChain := headerChain p @ [mk_header (''Transfer-Encoding'', ''chunked'')]\<rparr>)"
    using header_steps(1) [OF assms(1)] by (simp only: after_chunked [OF assms(1), symmetric])
  with ChunkedBody assms(3) show ?thesis by (cases p) simp
qed

lemma all_headers_steps:
  assumes "at_header p" "\<not> isChunked p" "specifiedContentLength p = -1" "\<not> keepAlive p" "message_ok m"
  shows "steps p (concat (map header_line (all_headers m)))
    (p\<lparr>headerChain := headerChain p @ map mk_header (all_headers m), keepAlive := m_keepAlive m,
       isChunked := (case m_body m of ChunkedBody _ \<Rightarrow> True | _ \<Rightarrow> False),
       specifiedContentLength := (case m_body m of FixedBody s \<Rightarrow> int (length s) | _ \<Rightarrow> -1)\<rparr>)"
proof -
  let ?k = "if m_keepAlive m then [(''Connection'', ''Keep-Alive'')] else []"
  let ?p1 = "p\<lparr>headerChain := headerChain p @ map mk_header (m_headers m)\<rparr>"
  let ?p2 = "?p1\<lparr>headerChain := headerChain ?p1 @ map mk_header ?k, keepAlive := m_keepAlive m\<rparr>"
  have "list_all plain_header (m_headers m)" and n: "length (body_bytes (m_body m)) < 2 ^ 31"
    using assms(5) by (auto simp: message_ok_def)
  then have 1: "steps p (concat (map header_line (m_headers m))) ?p1" using plain_headers_steps assms(1) by blast
  have 2: "steps ?p1 (concat (map header_line ?k)) ?p2"
    by (rule keep_alive_step) (use assms in \<open>simp_all add: at_header_def\<close>)
  let ?p3 = "?p2\<lparr>headerChain := headerChain ?p2 @ map mk_header (body_headers (m_body m)),
         isChunked := (case m_body m of ChunkedBody _ \<Rightarrow> True | _ \<Rightarrow> False),
         specifiedContentLength := (case m_body m of FixedBody s \<Rightarrow> int (length s) | _ \<Rightarrow> -1)\<rparr>"
  have 3: "steps ?p2 (concat (map header_line (body_headers (m_body m)))) ?p3"
    by (rule body_header_step) (use assms n in \<open>simp_all add: at_header_def\<close>)
  have "?p3 = p\<lparr>headerChain := headerChain p @ map mk_header (all_headers m), keepAlive := m_keepAlive m,
       isChunked := (case m_body m of ChunkedBody _ \<Rightarrow> True | _ \<Rightarrow> False),
       specifiedContentLength := (case m_body m of FixedBody s \<Rightarrow> int (length s) | _ \<Rightarrow> -1)\<rparr>"
    by (cases p) (simp add: all_headers_def)
  with steps_append [OF 1 steps_append [OF 2 3]] show ?thesis
    by (simp only: all_headers_def map_append concat_append append_assoc)
qed

lemma message_steps:
  assumes "idle p" "message_ok m"
  shows "\<exists>q. steps p (message_text m) q \<and> idle q \<and> requestQ q = requestQ p @ [request_of m]"
proof -
  have p: "hstate p = HTTP_STATE_REQUEST_METHOD" "methodNameLength p = 0" "length (methodName p) = 264"
    using assms(1) by (simp_all add: idle_def)
  have line: "line_ok (m_method m) (m_uri m) (m_version m)" using assms(2) by (simp add: message_ok_def)
  then have len: "length (m_method m) \<le> 256" by (simp add: line_ok_def)
  let ?m = "m_method m @ drop (length (m_method m)) (methodName p)"
  let ?p1 = "p\<lparr>methodName := ?m, methodNameLength := length (m_method m), uri := m_uri m, version := m_version m,
      headerName := [], hstate := HTTP_STATE_HEADER_FIELD_NAME\<rparr>"
  let ?p2 = "?p1\<lparr>headerChain := headerChain ?p1 @ map mk_header (all_headers m), keepAlive := m_keepAlive m,
       isChunked := (case m_body m of ChunkedBody _ \<Rightarrow> True | _ \<Rightarrow> False),
       specifiedContentLength := (case m_body m of FixedBody s \<Rightarrow> int (length s) | _ \<Rightarrow> -1)\<rparr>"
  have 1: "steps p (request_line (m_method m) (m_uri m) (m_version m)) ?p1"
    by (rule request_line_steps [OF p line])
  have 2: "steps ?p1 (concat (map header_line (all_headers m))) ?p2"
    by (rule all_headers_steps) (use assms in \<open>simp_all add: idle_def at_header_def\<close>)
  have "at_header ?p2" using assms(1) by (simp add: at_header_def idle_def)
  then obtain q where q: "steps ?p2 (crlf @ body_text (m_body m)) (resetParserAndEnqueue q)" "same_head ?p2 q"
      "holds_body q (body_bytes (m_body m))"
    using body_steps [of ?p2 "m_body m"] assms(2) by (auto simp: message_ok_def split: http_body.splits)
  have "steps p (message_text m) (resetParserAndEnqueue q)"
    using steps_append [OF 1 steps_append [OF 2 q(1)]] by (simp add: message_text_def)
  moreover have "idle (resetParserAndEnqueue q)"
    using q(2) p(3) len by (intro resetParser_idle) (simp add: same_head_def)
  moreover have "requestQ (resetParserAndEnqueue q) = requestQ p @ [request_of m]"
    using q(2,3) assms(1) by (auto simp: resetParserAndEnqueue_def enqueueLastRequest_def Let_def same_head_def
        holds_body_def request_of_def idle_def)
  ultimately show ?thesis by blast
qed

lemma messages_steps:
  "idle p \<Longrightarrow> list_all message_ok ms \<Longrightarrow>
     \<exists>q. steps p (concat (map message_text ms)) q \<and> idle q \<and> requestQ q = requestQ p @ map request_of ms"
proof (induction ms arbitrary: p)
  case Nil
  then show ?case using steps_Nil [of p] by auto
next
  case (Cons m ms)
  obtain q where q: "steps p (message_text m) q" "idle q" "requestQ q = requestQ p @ [request_of m]"
    using message_steps [OF Cons.prems(1)] Cons.prems(2) by auto
  obtain r where "steps q (concat (map message_text ms)) r" "idle r" "requestQ r = requestQ q @ map request_of ms"
    using Cons.IH [OF q(2)] Cons.prems(2) by auto
  with q show ?case using steps_append [OF q(1)] by (intro exI [of _ r]) simp
qed

subsection \<open>What the parser makes of a connection\<close>

text \<open>
  C35. Pipelined requests arrive whole, in order and whatever the network does to them: for every list
  of well-formed requests, with no body, a body of announced length or a chunked body, and every
  division of their text into fragments, the parser ends between two requests, with exactly those
  requests in its queue: method, URI, headers, keep-alive mark and body as they were sent.
\<close>

theorem http_requests_roundtrip:
  assumes "list_all message_ok ms" "concat fs = concat (map message_text ms)"
  shows "\<exists>q. processFragments makeHttpRequestParser fs = Parsing q \<and> idle q \<and> requestQ q = map request_of ms"
proof -
  have "requestQ makeHttpRequestParser = []" by (simp add: makeHttpRequestParser_def)
  with messages_steps [OF idle_make assms(1)] assms(2) show ?thesis
    by (simp add: processFragments_concat steps_def)
qed

definition sample_messages :: "http_msg list" where
  "sample_messages =
     [\<lparr>m_method = ''GET'', m_uri = ''/a'', m_version = ''HTTP/1.1'', m_headers = [(''Host'', ''h'')],
       m_keepAlive = True, m_body = NoBody\<rparr>,
      \<lparr>m_method = ''PUT'', m_uri = ''/b'', m_version = ''HTTP/1.1'', m_headers = [],
       m_keepAlive = False, m_body = ChunkedBody [''xy'', ''z'']\<rparr>]"

lemma sample_ok: "list_all message_ok sample_messages"
  by (simp add: sample_messages_def message_ok_def line_ok_def known_method_def has_prefix_def plain_header_def
      header_ok_def special_headers_def isAsciiPrintable_def uri_char_def isCR_def isLF_def isWhitespace_def
      char_code_def)

lemma http_requests_roundtrip_witness:
  "\<exists>q. processFragments makeHttpRequestParser (map (\<lambda>c. [c]) (concat (map message_text sample_messages))) = Parsing q \<and>
     idle q \<and> map rq_contentBody (requestQ q) = [None, Some ''xyz'']"
proof -
  have "concat (map (\<lambda>c. [c]) (concat (map message_text sample_messages))) = concat (map message_text sample_messages)"
    by simp
  from http_requests_roundtrip [OF sample_ok this] obtain q where
    "processFragments makeHttpRequestParser (map (\<lambda>c. [c]) (concat (map message_text sample_messages))) = Parsing q"
    "idle q" "requestQ q = map request_of sample_messages" by blast
  then show ?thesis by (intro exI [of _ q]) (simp add: sample_messages_def request_of_def)
qed

text \<open>The URI as it comes in, up to the byte that no longer fits.\<close>

lemma uri_too_long:
  assumes "hstate p = HTTP_STATE_REQUEST_URI" "list_all uri_char s" "length (uri p) \<le> 1032"
    "1032 < length (uri p) + length s"
  shows "processHttpFragment p s = Overrun"
proof -
  define n where "n = 1032 - length (uri p)"
  obtain c r where s: "s = take n s @ c # r"
    using assms(3,4) id_take_nth_drop [of n s] unfolding n_def by (metis add.commute less_diff_conv2)
  have n: "length (uri p @ take n s) = 1032" using assms(3,4) by (simp add: n_def)
  have "list_all uri_char (take n s)" "uri_char c"
    using assms(2) by (subst (asm) s, simp)+
  then have "steps p (take n s) (p\<lparr>uri := uri p @ take n s\<rparr>)" "httpByte (p\<lparr>uri := uri p @ take n s\<rparr>) c = Overrun"
    using uri_loop [OF assms(1), of "take n s"] assms(1) n
    by (simp_all add: httpByte_def requestURI_def uri_char_def http_limits)
  then show ?thesis by (subst s) (simp add: steps_def processHttpFragment_append)
qed

lemma method_to_uri:
  assumes "known_method m" "list_all isAsciiPrintable m" "length m \<le> 256" "uri_char c"
  shows "\<exists>p. steps makeHttpRequestParser (m @ '' '' @ [c]) p \<and> hstate p = HTTP_STATE_REQUEST_URI \<and> uri p = [c]"
proof -
  let ?p0 = makeHttpRequestParser
  let ?p1 = "?p0\<lparr>methodName := m @ drop (length m) (methodName ?p0), methodNameLength := length m\<rparr>"
  let ?p2 = "?p1\<lparr>hstate := HTTP_STATE_REQUEST_GAP1\<rparr>"
  let ?p3 = "?p2\<lparr>uri := [c], hstate := HTTP_STATE_REQUEST_URI\<rparr>"
  have 0: "hstate ?p0 = HTTP_STATE_REQUEST_METHOD" "methodNameLength ?p0 = 0" "length (methodName ?p0) = 264"
    using idle_make by (simp_all add: idle_def)
  have "m \<noteq> []" using assms(1) by (auto simp: known_method_def has_prefix_def)
  have 1: "steps ?p0 m ?p1" by (rule method_loop) (use 0 assms in auto)
  have 2: "steps ?p1 '' '' ?p2"
    by (rule steps_one) (use 0 method_valid [OF assms(1,2)] \<open>m \<noteq> []\<close> in \<open>simp add: httpByte_def requestMethod_def\<close>)
  have 3: "steps ?p2 [c] ?p3"
    by (rule steps_one) (use assms(4) in \<open>simp add: httpByte_def requestGap1_def uri_char_def\<close>)
  from steps_append [OF 1 steps_append [OF 2 3]] show ?thesis by (intro exI [of _ ?p3] conjI) simp_all
qed

text \<open>
  C36. The URI buffer holds 1032 bytes and nothing checks it: a request whose URI is at most that long
  is parsed on, and one with a longer URI makes the parser write past its buffer, at the first byte
  too many and before anything else of the request is looked at.
\<close>

theorem http_uri_overruns:
  assumes "known_method m" "list_all isAsciiPrintable m" "length m \<le> 256" "list_all uri_char u"
  shows "processHttpFragment makeHttpRequestParser (m @ '' '' @ u) = Overrun \<longleftrightarrow> MAX_HTTP_URI + 8 < length u"
proof (cases u)
  case Nil
  have "processHttpFragment makeHttpRequestParser (m @ '' '') \<noteq> Overrun"
    using method_to_uri [OF assms(1-3), of "CHR ''/''"]
    by (auto simp: steps_def processHttpFragment_append uri_char_def isCR_def isLF_def isWhitespace_def
        char_code_def split: httpOutcome.splits)
  with Nil show ?thesis by (simp add: http_limits)
next
  case (Cons c s)
  then obtain p where p: "steps makeHttpRequestParser (m @ '' '' @ [c]) p" "hstate p = HTTP_STATE_REQUEST_URI"
      "uri p = [c]" using method_to_uri [OF assms(1-3)] assms(4) by auto
  have split: "processHttpFragment makeHttpRequestParser (m @ '' '' @ u) = processHttpFragment p s"
    using p(1) processHttpFragment_append [of makeHttpRequestParser "m @ '' '' @ [c]" s] Cons by (simp add: steps_def)
  have s: "list_all uri_char s" using assms(4) Cons by simp
  show ?thesis
  proof (cases "1032 < length u")
    case True
    with uri_too_long [OF p(2) s] p(3) Cons show ?thesis unfolding split by (simp add: http_limits)
  next
    case False
    with uri_loop [OF p(2) s] p(3) Cons show ?thesis unfolding split by (simp add: http_limits steps_def)
  qed
qed

lemma http_uri_overruns_witness:
  "processHttpFragment makeHttpRequestParser (''GET '' @ replicate 1033 CHR ''/'') = Overrun"
  using http_uri_overruns [of "''GET''" "replicate 1033 CHR ''/''"]
  by (simp add: known_method_def has_prefix_def isAsciiPrintable_def uri_char_def isCR_def isLF_def
      isWhitespace_def char_code_def http_limits list_all_iff)

text \<open>A header whose name is a non-empty prefix of \<open>Content-Length\<close>.\<close>

lemma length_prefix_name:
  assumes "n \<noteq> []" "has_prefix ''Content-Length'' n"
  shows "list_all (\<lambda>c. isAsciiPrintable c \<and> c \<noteq> CHR '':'') n" "length n \<le> 14" "hd n = CHR ''C''"
proof -
  have pre: "take (length n) ''Content-Length'' = n" using assms(2) by (simp add: has_prefix_def)
  from arg_cong [OF pre, of length] show "length n \<le> 14" by simp
  have "list_all (\<lambda>c. isAsciiPrintable c \<and> c \<noteq> CHR '':'') ''Content-Length''"
    by (simp add: isAsciiPrintable_def char_code_def)
  moreover have "set n \<subseteq> set ''Content-Length''" using set_take_subset pre by metis
  ultimately show "list_all (\<lambda>c. isAsciiPrintable c \<and> c \<noteq> CHR '':'') n" unfolding list_all_iff by blast
  show "hd n = CHR ''C''" using assms(1) arg_cong [OF pre, of hd] by (cases n) simp_all
qed

lemma after_length_prefix:
  assumes "n \<noteq> []" "has_prefix ''Content-Length'' n" "at_header p"
  shows "after_header p (n, v) = p\<lparr>specifiedContentLength := atoi_text v, headerChain := headerChain p @ [mk_header (n, v)]\<rparr>"
proof -
  have n: "list_all isAsciiPrintable n" using length_prefix_name(1) [OF assms(1,2)] by (simp add: list_all_iff)
  have "\<not> has_prefix ''Transfer-Encoding'' n"
    using assms(1) length_prefix_name(3) [OF assms(1,2)] by (cases n) (auto simp: has_prefix_def)
  with assms(2,3) show ?thesis
    by (cases p) (simp add: after_header_def addRequestHeader_def special_matches [OF n] mk_header_def at_header_def)
qed

lemma length_prefix_header_ok:
  assumes "n \<noteq> []" "has_prefix ''Content-Length'' n" "k < 2 ^ 31"
  shows "header_ok (n, show_nat k)"
  using assms(1) length_prefix_name(1,2) [OF assms(1,2)] show_nat_header [OF assms(3)] by (simp add: header_ok_def)

text \<open>
  C37. A header is recognised by as many bytes as were received of its name: any non-empty prefix of
  Content-Length, in that spelling, announces a body just as the whole name does, so the bytes after
  the blank line are taken for a body that the sender did not announce.
\<close>

theorem header_prefix_counts:
  assumes "n \<noteq> []" "has_prefix ''Content-Length'' n" "line_ok m u v" "s \<noteq> []" "length s < 2 ^ 31"
  shows "\<exists>q. processHttpFragment makeHttpRequestParser
      (request_line m u v @ header_line (n, show_nat (length s)) @ crlf @ s) = Parsing q \<and>
    map rq_contentBody (requestQ q) = [Some s]"
proof -
  let ?p = makeHttpRequestParser and ?h = "(n, show_nat (length s))"
  have i: "hstate ?p = HTTP_STATE_REQUEST_METHOD" "methodNameLength ?p = 0" "length (methodName ?p) = 264"
    "\<not> isChunked ?p" "requestQ ?p = []" "headerValue ?p = []"
    using idle_make by (simp_all add: idle_def makeHttpRequestParser_def)
  obtain p1 where 1: "steps ?p (request_line m u v) p1" "at_header p1" "\<not> isChunked p1" "requestQ p1 = []"
    using request_line_steps [OF i(1-3) assms(3)] i by (fastforce simp: at_header_def)
  let ?p2 = "p1\<lparr>specifiedContentLength := int (length s), headerChain := headerChain p1 @ [mk_header ?h]\<rparr>"
  have 2: "steps p1 (header_line ?h) ?p2"
    using header_steps(1) [OF 1(2) length_prefix_header_ok [OF assms(1,2,5)]]
    by (simp only: after_length_prefix [OF assms(1,2) 1(2)] atoi_show_nat [OF assms(5)])
  obtain q where q: "steps ?p2 (crlf @ s) (resetParserAndEnqueue q)" "same_head ?p2 q" "holds_body q s"
    using fixed_message_steps [of ?p2 s] 1(2,3) assms(4) by (auto simp: at_header_def)
  have "map rq_contentBody (requestQ (resetParserAndEnqueue q)) = [Some s]"
    using q(2,3) 1(4) assms(4)
    by (auto simp: resetParserAndEnqueue_def enqueueLastRequest_def Let_def same_head_def holds_body_def)
  with steps_append [OF 1(1) steps_append [OF 2 q(1)]] show ?thesis by (auto simp: steps_def)
qed

lemma header_prefix_counts_witness:
  "\<exists>q. processHttpFragment makeHttpRequestParser
      (request_line ''GET'' ''/'' ''HTTP/1.1'' @ header_line (''C'', show_nat (length ''body'')) @ crlf @ ''body'') = Parsing q \<and>
    map rq_contentBody (requestQ q) = [Some ''body'']"
  by (rule header_prefix_counts)
     (simp_all add: has_prefix_def line_ok_def known_method_def isAsciiPrintable_def uri_char_def isCR_def isLF_def
       isWhitespace_def char_code_def)

end
