(* ===== verification/JsonSchema.thy ===== *)
theory JsonSchema
  imports JsonBuilder
begin

section \<open>Schemas and how they are built from JSON\<close>

text \<open>
  The first half of the model of \<open>c/jsonschema.c\<close>: \<open>JSValueSpec\<close> and the functions from
  \<open>getStringOrFail\<close> to \<open>jsonBuildSchema\<close>. The specs of a schema refer to each other, to their
  parents and from tables, so they live in a store, a list whose indexes are the addresses. A
  hash table with string keys is the map of its entries. \<open>setjmp\<close> and \<open>longjmp\<close> are the error side
  of a sum. What a platform gives is a parameter: its floating point and its regular expressions.
  The builder's access path is only traced and is left out.
\<close>

subsection \<open>The platform\<close>

text \<open>
  \<open>regexComp\<close> gives 0 for a pattern that compiles, \<open>regexExec\<close> 0 and the bounds of the groups for
  a text that matches. A pattern is compiled when it is first needed and kept; since compiling has
  no other effect it is done again here.
\<close>

type_synonym regmatch = "int \<times> int"

record platform =
  fpo :: fp_ops
  fp_lt :: "double \<Rightarrow> double \<Rightarrow> bool"
  fp_le :: "double \<Rightarrow> double \<Rightarrow> bool"
  fp_eq :: "double \<Rightarrow> double \<Rightarrow> bool"
  regexComp :: "string \<Rightarrow> int"
  regexExec :: "string \<Rightarrow> string \<Rightarrow> int \<times> regmatch list"

definition regmatch_at :: "regmatch list \<Rightarrow> nat \<Rightarrow> regmatch" where
  "regmatch_at ms i = (if i < length ms then ms ! i else (-1, -1))"

definition matched_text :: "string \<Rightarrow> regmatch \<Rightarrow> string" where
  "matched_text s m = take (nat (snd m - fst m)) (drop (nat (fst m)) s)"

definition httpPattern :: string where
  "httpPattern = ''^(https?://[^/]+)/([^#]*)(#.*)?$''"

definition filePattern :: string where
  "filePattern = ''^/([^#]*)(#.*)?$''"

subsection \<open>Specifications of values\<close>

type_synonym sptr = nat

definition JSTYPE_NULL :: nat where "JSTYPE_NULL = 0"
definition JSTYPE_BOOLEAN :: nat where "JSTYPE_BOOLEAN = 1"
definition JSTYPE_OBJECT :: nat where "JSTYPE_OBJECT = 2"
definition JSTYPE_ARRAY :: nat where "JSTYPE_ARRAY = 3"
definition JSTYPE_STRING :: nat where "JSTYPE_STRING = 4"
definition JSTYPE_NUMBER :: nat where "JSTYPE_NUMBER = 5"
definition JSTYPE_INTEGER :: nat where "JSTYPE_INTEGER = 6"
definition JSTYPE_MAX :: nat where "JSTYPE_MAX = 6"

lemmas jstypes = JSTYPE_NULL_def JSTYPE_BOOLEAN_def JSTYPE_OBJECT_def JSTYPE_ARRAY_def JSTYPE_STRING_def
  JSTYPE_NUMBER_def JSTYPE_INTEGER_def JSTYPE_MAX_def

definition JS_VALIDATOR_MULTOF :: nat where "JS_VALIDATOR_MULTOF = 0x1"
definition JS_VALIDATOR_MAX :: nat where "JS_VALIDATOR_MAX = 0x2"
definition JS_VALIDATOR_MIN :: nat where "JS_VALIDATOR_MIN = 0x4"
definition JS_VALIDATOR_MAX_CONTAINS :: nat where "JS_VALIDATOR_MAX_CONTAINS = 0x8"
definition JS_VALIDATOR_MIN_CONTAINS :: nat where "JS_VALIDATOR_MIN_CONTAINS = 0x10"
definition JS_VALIDATOR_MAX_ITEMS :: nat where "JS_VALIDATOR_MAX_ITEMS = 0x20"
definition JS_VALIDATOR_MIN_ITEMS :: nat where "JS_VALIDATOR_MIN_ITEMS = 0x40"
definition JS_VALIDATOR_MAX_PROPS :: nat where "JS_VALIDATOR_MAX_PROPS = 0x80"
definition JS_VALIDATOR_MIN_PROPS :: nat where "JS_VALIDATOR_MIN_PROPS = 0x100"
definition JS_VALIDATOR_MAX_LENGTH :: nat where "JS_VALIDATOR_MAX_LENGTH = 0x200"
definition JS_VALIDATOR_MIN_LENGTH :: nat where "JS_VALIDATOR_MIN_LENGTH = 0x400"

lemmas js_validators = JS_VALIDATOR_MULTOF_def JS_VALIDATOR_MAX_def JS_VALIDATOR_MIN_def
  JS_VALIDATOR_MAX_CONTAINS_def JS_VALIDATOR_MIN_CONTAINS_def JS_VALIDATOR_MAX_ITEMS_def
  JS_VALIDATOR_MIN_ITEMS_def JS_VALIDATOR_MAX_PROPS_def JS_VALIDATOR_MIN_PROPS_def
  JS_VALIDATOR_MAX_LENGTH_def JS_VALIDATOR_MIN_LENGTH_def

text \<open>
  A null pointer is \<open>None\<close>, an array and its count a list. The fields \<open>deprecated\<close> and \<open>nullable\<close> are
  never used. \<open>patternProperties\<close> is the list from \<open>firstPatternProperty\<close> on.
\<close>

record jsValueSpec =
  typeMask :: nat
  stype :: nat
  enumeratedValues :: "json list option"
  constValue :: "json option"
  specId :: "string option"
  hostName :: "string option"
  fileName :: "string option"
  description :: "string option"
  title :: "string option"
  anchor :: "string option"
  ref :: "string option"
  definitions :: "(string \<rightharpoonup> sptr) option"
  allOf :: "sptr list option"
  anyOf :: "sptr list option"
  oneOf :: "sptr list option"
  notSpec :: "sptr option"
  validatorFlags :: nat
  anchorTable :: "(string \<rightharpoonup> sptr) option"
  idTable :: "(string \<rightharpoonup> sptr) option"
  minimum :: double
  maximum :: double
  minContains :: int
  maxContains :: int
  minItems :: int
  maxItems :: int
  minProperties :: int
  maxProperties :: int
  required :: "string list option"
  properties :: "(string \<rightharpoonup> sptr) option"
  dependentRequired :: "(string \<rightharpoonup> string list) option"
  additionalProperties :: bool
  unevaluatedProperties :: bool
  patternProperties :: "(string \<times> sptr) list"
  exclusiveMaximum :: bool
  exclusiveMinimum :: bool
  multipleOf :: double
  itemSpec :: "sptr option"
  uniqueItems :: bool
  minLength :: int
  maxLength :: int
  pattern :: "string option"
  parent :: "sptr option"

definition cleared_spec :: jsValueSpec where
  "cleared_spec =
     \<lparr>typeMask = 0, stype = 0, enumeratedValues = None, constValue = None, specId = None, hostName = None,
      fileName = None, description = None, title = None, anchor = None, ref = None, definitions = None,
      allOf = None, anyOf = None, oneOf = None, notSpec = None, validatorFlags = 0, anchorTable = None,
      idTable = None, minimum = 0, maximum = 0, minContains = 0, maxContains = 0, minItems = 0, maxItems = 0,
      minProperties = 0, maxProperties = 0, required = None, properties = None, dependentRequired = None,
      additionalProperties = False, unevaluatedProperties = False, patternProperties = [],
      exclusiveMaximum = False, exclusiveMinimum = False, multipleOf = 0, itemSpec = None,
      uniqueItems = False, minLength = 0, maxLength = 0, pattern = None, parent = None\<rparr>"

type_synonym specs = "jsValueSpec list"

text \<open>
  The walks along the parents are structural on a bound, the number of specs: a parent is older than its
  children, so that its address is smaller.
\<close>

fun ancestorLoop :: "nat \<Rightarrow> specs \<Rightarrow> bool \<Rightarrow> sptr \<Rightarrow> sptr" where
  "ancestorLoop 0 st stopAtId a = a"
| "ancestorLoop (Suc n) st stopAtId a =
     (case parent (st ! a) of
        None \<Rightarrow> a
      | Some p \<Rightarrow> if stopAtId \<and> specId (st ! a) \<noteq> None then a else ancestorLoop n st stopAtId p)"

definition getTopLevelAncestor :: "specs \<Rightarrow> sptr \<Rightarrow> sptr" where
  "getTopLevelAncestor st a = ancestorLoop (length st) st True a"

definition getOutermostAncestor :: "specs \<Rightarrow> sptr \<Rightarrow> sptr" where
  "getOutermostAncestor st a = ancestorLoop (length st) st False a"

subsection \<open>Building: errors and state\<close>

text \<open>
  The text of an error, \<open>None\<close> where the code formats a \<open>Json*\<close> as a string and the text is whatever
  lies there. The error code is always 12.
\<close>

datatype schemaError = SchemaError "string option"

type_synonym 'a builder = "specs \<Rightarrow> schemaError + 'a \<times> specs"

definition ERROR_MAX :: nat where "ERROR_MAX = 1024"

definition schemaThrow :: "string \<Rightarrow> 'a builder" where
  "schemaThrow text st = Inl (SchemaError (Some (take (ERROR_MAX - 1) text)))"

definition schemaThrowGarbled :: "'a builder" where
  "schemaThrowGarbled st = Inl (SchemaError None)"

definition yield :: "'a \<Rightarrow> 'a builder" where
  "yield x st = Inr (x, st)"

definition andThen :: "'a builder \<Rightarrow> ('a \<Rightarrow> 'b builder) \<Rightarrow> 'b builder" where
  "andThen m f st = (case m st of Inl e \<Rightarrow> Inl e | Inr (x, st1) \<Rightarrow> f x st1)"

definition modify :: "sptr \<Rightarrow> (jsValueSpec \<Rightarrow> jsValueSpec) \<Rightarrow> unit builder" where
  "modify a f st = Inr ((), st[a := f (st ! a)])"

definition look :: "(specs \<Rightarrow> 'a) \<Rightarrow> 'a builder" where
  "look f st = Inr (f st, st)"

fun mapS :: "('a \<Rightarrow> 'b builder) \<Rightarrow> 'a list \<Rightarrow> 'b list builder" where
  "mapS f [] = yield []"
| "mapS f (x # xs) = andThen (f x) (\<lambda>y. andThen (mapS f xs) (\<lambda>ys. yield (y # ys)))"

lemma andThen_cong [fundef_cong]:
  assumes "m = m'" "\<And>x st st1. m' st = Inr (x, st1) \<Longrightarrow> f x = f' x"
  shows "andThen m f = andThen m' f'"
  using assms by (auto simp: andThen_def fun_eq_iff split: sum.split prod.split)

lemma mapS_cong [fundef_cong]:
  assumes "xs = ys" "\<And>x. x \<in> set ys \<Longrightarrow> f x = g x"
  shows "mapS f xs = mapS g ys"
proof -
  have "(\<And>x. x \<in> set zs \<Longrightarrow> f x = g x) \<Longrightarrow> mapS f zs = mapS g zs" for zs
    by (induction zs) simp_all
  with assms show ?thesis by simp
qed

text \<open>A step that the code takes when a pointer is not null.\<close>

definition ifSome :: "'a option \<Rightarrow> ('a \<Rightarrow> unit builder) \<Rightarrow> unit builder" where
  "ifSome m f = (case m of None \<Rightarrow> yield () | Some x \<Rightarrow> f x)"

lemma ifSome_cong [fundef_cong]:
  "m = m' \<Longrightarrow> (\<And>x. m' = Some x \<Longrightarrow> f x = f' x) \<Longrightarrow> ifSome m f = ifSome m' f'"
  by (cases m') (simp_all add: ifSome_def)

subsection \<open>Building: the values of keywords\<close>

definition getStringOrFail :: "property list \<Rightarrow> string \<Rightarrow> string builder" where
  "getStringOrFail ps name =
     (case jsonObjectGetPropertyValue ps name of
        None \<Rightarrow> schemaThrow (''object must have property: '' @ name)
      | Some v \<Rightarrow> (case v of JString s \<Rightarrow> yield s | _ \<Rightarrow> schemaThrowGarbled))"

definition getString :: "property list \<Rightarrow> string \<Rightarrow> string option \<Rightarrow> string option builder" where
  "getString ps name defaultValue =
     (case jsonObjectGetPropertyValue ps name of
        None \<Rightarrow> yield defaultValue
      | Some v \<Rightarrow> (case v of JString s \<Rightarrow> yield (Some s) | _ \<Rightarrow> schemaThrowGarbled))"

definition getBooleanValue :: "property list \<Rightarrow> string \<Rightarrow> bool \<Rightarrow> bool builder" where
  "getBooleanValue ps name defaultValue =
     (case jsonObjectGetPropertyValue ps name of
        None \<Rightarrow> yield defaultValue
      | Some v \<Rightarrow> (case v of JBoolean b \<Rightarrow> yield (b \<noteq> 0) | _ \<Rightarrow> schemaThrowGarbled))"

definition getNumber :: "platform \<Rightarrow> property list \<Rightarrow> string \<Rightarrow> double \<Rightarrow> double builder" where
  "getNumber P ps name defaultValue =
     (case jsonObjectGetPropertyValue ps name of
        None \<Rightarrow> yield defaultValue
      | Some v \<Rightarrow> if jsonIsNumber v then yield (jsonAsDouble (fpo P) v) else schemaThrowGarbled)"

definition getIntegralValue :: "property list \<Rightarrow> string \<Rightarrow> int \<Rightarrow> int builder" where
  "getIntegralValue ps name defaultValue =
     (case jsonObjectGetPropertyValue ps name of
        None \<Rightarrow> yield defaultValue
      | Some v \<Rightarrow> (case v of JInt64 i \<Rightarrow> yield (sint i) | _ \<Rightarrow> schemaThrowGarbled))"

definition getArrayValue :: "property list \<Rightarrow> string \<Rightarrow> json list option builder" where
  "getArrayValue ps name =
     (case jsonObjectGetPropertyValue ps name of
        None \<Rightarrow> yield None
      | Some v \<Rightarrow> (case v of JArray js \<Rightarrow> yield (Some js) | _ \<Rightarrow> schemaThrowGarbled))"

definition getObjectValue :: "property list \<Rightarrow> string \<Rightarrow> property list option builder" where
  "getObjectValue ps name =
     (case jsonObjectGetPropertyValue ps name of
        None \<Rightarrow> yield None
      | Some v \<Rightarrow> (case v of JObject qs \<Rightarrow> yield (Some qs) | _ \<Rightarrow> schemaThrowGarbled))"

text \<open>Text between single quotes.\<close>

definition quoted :: "string \<Rightarrow> string" where
  "quoted s = CHR 0x27 # s @ [CHR 0x27]"

definition getJSTypeForName :: "string \<Rightarrow> nat builder" where
  "getJSTypeForName name =
     (if name = ''null'' then yield JSTYPE_NULL
      else if name = ''boolean'' then yield JSTYPE_BOOLEAN
      else if name = ''object'' then yield JSTYPE_OBJECT
      else if name = ''array'' then yield JSTYPE_ARRAY
      else if name = ''number'' then yield JSTYPE_NUMBER
      else if name = ''string'' then yield JSTYPE_STRING
      else if name = ''integer'' then yield JSTYPE_INTEGER
      else schemaThrow (quoted name @ '' is not valid JSON Schema type''))"

definition checkNonNegative :: "int \<Rightarrow> string \<Rightarrow> unit builder" where
  "checkNonNegative v name = (if v < 0 then schemaThrow (name @ '' must be non-negative'') else yield ())"

definition checkPositiveDouble :: "platform \<Rightarrow> double \<Rightarrow> string \<Rightarrow> unit builder" where
  "checkPositiveDouble P v name =
     (if fp_le P v (int_to_fp (fpo P) 0) then schemaThrow (name @ '' must be positive'') else yield ())"

definition getStringArrayOrFail :: "json list \<Rightarrow> string list builder" where
  "getStringArrayOrFail a =
     mapS (\<lambda>element. case element of JString s \<Rightarrow> yield s | _ \<Rightarrow> schemaThrowGarbled) a"

text \<open>\<open>htPut\<close> of one entry after the other into a new table.\<close>

definition puts :: "(string \<times> 'a) list \<Rightarrow> (string \<rightharpoonup> 'a)" where
  "puts kvs = foldl (\<lambda>m kv. m(fst kv \<mapsto> snd kv)) Map.empty kvs"

definition getStringToStringsMapOrFail :: "property list \<Rightarrow> (string \<rightharpoonup> string list) builder" where
  "getStringToStringsMapOrFail ps =
     andThen
       (mapS (\<lambda>kv. case snd kv of
                JArray js \<Rightarrow> andThen (getStringArrayOrFail js) (\<lambda>ss. yield (fst kv, ss))
              | _ \<Rightarrow> schemaThrowGarbled) ps)
       (\<lambda>kvs. yield (puts kvs))"

definition getID :: "property list \<Rightarrow> string option builder" where
  "getID ps =
     andThen (getString ps ''$id'' None) (\<lambda>i.
       if i = None then getString ps ''id'' None else yield i)"

subsection \<open>Building: one spec\<close>

definition indexByAnchor :: "sptr \<Rightarrow> string \<Rightarrow> unit builder" where
  "indexByAnchor a name =
     andThen (look (\<lambda>st. getTopLevelAncestor st a)) (\<lambda>top.
       modify top (\<lambda>s. s\<lparr>anchorTable :=
         Some ((case anchorTable s of None \<Rightarrow> Map.empty | Some m \<Rightarrow> m)(name \<mapsto> a))\<rparr>))"

definition indexByID :: "sptr \<Rightarrow> string \<Rightarrow> unit builder" where
  "indexByID a name =
     andThen (look (\<lambda>st. getOutermostAncestor st a)) (\<lambda>top.
       modify top (\<lambda>s. s\<lparr>idTable :=
         Some ((case idTable s of None \<Rightarrow> Map.empty | Some m \<Rightarrow> m)(name \<mapsto> a))\<rparr>))"

definition extractString :: "string \<Rightarrow> regmatch \<Rightarrow> string option" where
  "extractString s m = (if fst m \<noteq> -1 then Some (matched_text s m) else None)"

definition setHostAndFile :: "platform \<Rightarrow> sptr \<Rightarrow> string \<Rightarrow> unit builder" where
  "setHostAndFile P a i =
     (if regexComp P httpPattern \<noteq> 0 then yield ()
      else case regexExec P httpPattern i of
             (status, ms) \<Rightarrow>
               if status \<noteq> 0 then yield ()
               else modify a (\<lambda>s. s\<lparr>hostName := extractString i (regmatch_at ms 1),
                                    fileName := extractString i (regmatch_at ms 2)\<rparr>))"

definition addTypeName :: "sptr \<Rightarrow> string \<Rightarrow> unit builder" where
  "addTypeName a name =
     andThen (getJSTypeForName name) (\<lambda>t.
       modify a (\<lambda>s. s\<lparr>stype := t,
         typeMask := (typeMask s OR push_bit t 1) OR
           (if t = JSTYPE_NUMBER then push_bit JSTYPE_INTEGER 1 else 0)\<rparr>))"

definition newSpec :: "sptr option \<Rightarrow> string option \<Rightarrow> string option \<Rightarrow> string option \<Rightarrow> sptr builder" where
  "newSpec par i descr titl st =
     Inr (length st, st @ [cleared_spec\<lparr>specId := i, description := descr, title := titl, parent := par\<rparr>])"

definition makeValueSpec ::
  "platform \<Rightarrow> sptr option \<Rightarrow> string option \<Rightarrow> string option \<Rightarrow> string option \<Rightarrow> string list \<Rightarrow> sptr builder" where
  "makeValueSpec P par i descr titl typeNames =
     andThen (newSpec par i descr titl) (\<lambda>a.
     andThen (ifSome i (\<lambda>s. andThen (indexByID a s) (\<lambda>_. setHostAndFile P a s))) (\<lambda>_.
     andThen (mapS (addTypeName a) typeNames) (\<lambda>_.
     yield a)))"

definition allJSTypeNames :: "string list" where
  "allJSTypeNames = [''null'', ''boolean'', ''object'', ''array'', ''number'', ''string'', ''integer'']"

definition typeNames :: "property list \<Rightarrow> string list builder" where
  "typeNames ps =
     (case jsonObjectGetPropertyValue ps ''type'' of
        None \<Rightarrow> yield allJSTypeNames
      | Some v \<Rightarrow>
          if jsonIsString v then andThen (getStringOrFail ps ''type'') (\<lambda>s. yield [s])
          else (case v of
                  JArray js \<Rightarrow> getStringArrayOrFail js
                | _ \<Rightarrow> schemaThrow (quoted ''type'' @ '' must be either a single string or an array of string, not type='' @
                         show_nat (json_type v))))"

subsection \<open>Building: sub-schemas\<close>

text \<open>
  The functions that call \<open>build\<close> take it as their argument \<open>bld\<close>; \<open>build\<close> ties the knot below.
\<close>

type_synonym build_fun = "sptr option \<Rightarrow> json \<Rightarrow> sptr builder"

definition buildMember :: "build_fun \<Rightarrow> sptr \<Rightarrow> property \<Rightarrow> (string \<times> sptr) builder" where
  "buildMember bld a kv = andThen (bld (Some a) (snd kv)) (\<lambda>b. yield (fst kv, b))"

definition getDefinitions :: "build_fun \<Rightarrow> sptr \<Rightarrow> property list \<Rightarrow> (string \<rightharpoonup> sptr) option builder" where
  "getDefinitions bld a ps =
     andThen (getObjectValue ps ''$defs'') (\<lambda>defs.
       case defs of
         None \<Rightarrow> yield None
       | Some qs \<Rightarrow> andThen (mapS (buildMember bld a) qs) (\<lambda>kvs. yield (Some (puts kvs))))"

definition addPatternProperties :: "build_fun \<Rightarrow> sptr \<Rightarrow> property list \<Rightarrow> unit builder" where
  "addPatternProperties bld a ps =
     andThen (getObjectValue ps ''patternProperties'') (\<lambda>pats.
       ifSome pats (\<lambda>qs.
         andThen (mapS (buildMember bld a) qs) (\<lambda>kvs.
         modify a (\<lambda>s. s\<lparr>patternProperties := kvs\<rparr>))))"

definition getComposite :: "build_fun \<Rightarrow> sptr \<Rightarrow> property list \<Rightarrow> string \<Rightarrow> sptr list option builder" where
  "getComposite bld a ps key =
     (case jsonObjectGetArray ps key of
        None \<Rightarrow> yield None
      | Some js \<Rightarrow> andThen (mapS (bld (Some a)) js) (\<lambda>bs. yield (Some bs)))"

definition buildNot :: "build_fun \<Rightarrow> sptr \<Rightarrow> property list \<Rightarrow> unit builder" where
  "buildNot bld a ps =
     ifSome (jsonObjectGetPropertyValue ps ''not'') (\<lambda>v.
       andThen (bld (Some a) v) (\<lambda>b. modify a (\<lambda>s. s\<lparr>notSpec := Some b\<rparr>)))"

text \<open>\<open>jsonCopy\<close> gives the copy that \<open>copied\<close> describes.\<close>

definition buildConstAndEnum :: "sptr \<Rightarrow> property list \<Rightarrow> unit builder" where
  "buildConstAndEnum a ps =
     (let c = jsonObjectGetPropertyValue ps ''const'' in
      andThen (getArrayValue ps ''enum'') (\<lambda>e.
      andThen (if c \<noteq> None \<and> e \<noteq> None
               then schemaThrow (''cannot specify both '' @ quoted ''const'' @ '' and '' @ quoted ''enum'' @
                      '' for the same schema'')
               else yield ()) (\<lambda>_.
      andThen (ifSome c (\<lambda>v. modify a (\<lambda>s. s\<lparr>constValue := Some (copied v)\<rparr>))) (\<lambda>_.
      ifSome e (\<lambda>vs. modify a (\<lambda>s. s\<lparr>enumeratedValues := Some (map copied vs)\<rparr>))))))"

definition MISSING_VALIDATOR :: int where
  "MISSING_VALIDATOR = -7815551212"

definition MISSING_FLOAT_VALIDATOR :: "platform \<Rightarrow> double" where
  "MISSING_FLOAT_VALIDATOR P = strtod (fpo P) ''-644212.639183''"

text \<open>A limit that was given must not be negative and switches its test on.\<close>

definition useLimit :: "sptr \<Rightarrow> int \<Rightarrow> string \<Rightarrow> nat \<Rightarrow> unit builder" where
  "useLimit a v name flag =
     (if v \<noteq> MISSING_VALIDATOR
      then andThen (checkNonNegative v name) (\<lambda>_.
           modify a (\<lambda>s. s\<lparr>validatorFlags := validatorFlags s OR flag\<rparr>))
      else yield ())"

text \<open>Both tests of the limits of an object ask whether \<open>maxProperties\<close> was given.\<close>

definition buildPropertyLimits :: "sptr \<Rightarrow> property list \<Rightarrow> unit builder" where
  "buildPropertyLimits a ps =
     andThen (getIntegralValue ps ''maxProperties'' MISSING_VALIDATOR) (\<lambda>maxP.
     andThen (getIntegralValue ps ''minProperties'' MISSING_VALIDATOR) (\<lambda>minP.
     andThen (modify a (\<lambda>s. s\<lparr>maxProperties := maxP, minProperties := minP\<rparr>)) (\<lambda>_.
     andThen (useLimit a maxP ''maxProperties'' JS_VALIDATOR_MAX_PROPS) (\<lambda>_.
     if maxP \<noteq> MISSING_VALIDATOR
     then andThen (checkNonNegative minP ''minProperties'') (\<lambda>_.
          modify a (\<lambda>s. s\<lparr>validatorFlags := validatorFlags s OR JS_VALIDATOR_MIN_PROPS\<rparr>))
     else yield ()))))"

definition buildProperties :: "build_fun \<Rightarrow> sptr \<Rightarrow> property list \<Rightarrow> unit builder" where
  "buildProperties bld a ps =
     ifSome (jsonObjectGetPropertyValue ps ''properties'') (\<lambda>v.
       case v of
         JObject qs \<Rightarrow>
           andThen (mapS (buildMember bld a) qs) (\<lambda>kvs.
           modify a (\<lambda>s. s\<lparr>properties := (if kvs = [] then None else Some (puts kvs))\<rparr>))
       | _ \<Rightarrow> schemaThrow (''properties is filled by JSON value that is not object with type='' @
                show_nat (json_type v) @ [CHR 0x0A]))"

definition buildObjectType :: "build_fun \<Rightarrow> sptr \<Rightarrow> property list \<Rightarrow> unit builder" where
  "buildObjectType bld a ps =
     andThen (buildPropertyLimits a ps) (\<lambda>_.
     andThen (getArrayValue ps ''required'') (\<lambda>req.
     andThen (ifSome req (\<lambda>js. andThen (getStringArrayOrFail js) (\<lambda>ss.
                modify a (\<lambda>s. s\<lparr>required := Some ss\<rparr>)))) (\<lambda>_.
     andThen (buildProperties bld a ps) (\<lambda>_.
     andThen (getObjectValue ps ''dependentRequired'') (\<lambda>dep.
     ifSome dep (\<lambda>qs. andThen (getStringToStringsMapOrFail qs) (\<lambda>m.
       modify a (\<lambda>s. s\<lparr>dependentRequired := Some m\<rparr>))))))))"

definition buildArrayType :: "build_fun \<Rightarrow> sptr \<Rightarrow> property list \<Rightarrow> unit builder" where
  "buildArrayType bld a ps =
     andThen (getIntegralValue ps ''maxItems'' MISSING_VALIDATOR) (\<lambda>maxI.
     andThen (getIntegralValue ps ''minItems'' MISSING_VALIDATOR) (\<lambda>minI.
     andThen (getBooleanValue ps ''uniqueItems'' False) (\<lambda>uniq.
     andThen (getIntegralValue ps ''maxContains'' MISSING_VALIDATOR) (\<lambda>maxC.
     andThen (getIntegralValue ps ''minContains'' MISSING_VALIDATOR) (\<lambda>minC.
     andThen (modify a (\<lambda>s. s\<lparr>maxItems := maxI, minItems := minI, uniqueItems := uniq,
                             maxContains := maxC, minContains := minC\<rparr>)) (\<lambda>_.
     andThen (useLimit a maxI ''maxItems'' JS_VALIDATOR_MAX_ITEMS) (\<lambda>_.
     andThen (useLimit a minI ''minItems'' JS_VALIDATOR_MIN_ITEMS) (\<lambda>_.
     andThen (useLimit a maxC ''maxContains'' JS_VALIDATOR_MAX_CONTAINS) (\<lambda>_.
     andThen (useLimit a minC ''minContains'' JS_VALIDATOR_MIN_CONTAINS) (\<lambda>_.
     ifSome (jsonObjectGetPropertyValue ps ''items'') (\<lambda>v.
       andThen (bld (Some a) v) (\<lambda>b. modify a (\<lambda>s. s\<lparr>itemSpec := Some b\<rparr>)))))))))))))"

definition buildStringType :: "sptr \<Rightarrow> property list \<Rightarrow> unit builder" where
  "buildStringType a ps =
     andThen (getIntegralValue ps ''maxLength'' MISSING_VALIDATOR) (\<lambda>maxL.
     andThen (getIntegralValue ps ''minLength'' MISSING_VALIDATOR) (\<lambda>minL.
     andThen (modify a (\<lambda>s. s\<lparr>maxLength := maxL, minLength := minL\<rparr>)) (\<lambda>_.
     andThen (useLimit a maxL ''maxLength'' JS_VALIDATOR_MAX_LENGTH) (\<lambda>_.
     andThen (useLimit a minL ''maxLength'' JS_VALIDATOR_MIN_LENGTH) (\<lambda>_.
     andThen (getString ps ''pattern'' None) (\<lambda>pat.
     modify a (\<lambda>s. s\<lparr>pattern := pat\<rparr>)))))))"

definition useFloat :: "platform \<Rightarrow> sptr \<Rightarrow> double \<Rightarrow> nat \<Rightarrow> unit builder" where
  "useFloat P a v flag =
     (if \<not> fp_eq P v (MISSING_FLOAT_VALIDATOR P)
      then modify a (\<lambda>s. s\<lparr>validatorFlags := validatorFlags s OR flag\<rparr>)
      else yield ())"

definition buildNumberType :: "platform \<Rightarrow> sptr \<Rightarrow> property list \<Rightarrow> unit builder" where
  "buildNumberType P a ps =
     andThen (getNumber P ps ''multipleOf'' (MISSING_FLOAT_VALIDATOR P)) (\<lambda>mult.
     andThen (getNumber P ps ''maximum'' (MISSING_FLOAT_VALIDATOR P)) (\<lambda>maxN.
     andThen (getBooleanValue ps ''exclusiveMaximum'' False) (\<lambda>exMax.
     andThen (getNumber P ps ''minimum'' (MISSING_FLOAT_VALIDATOR P)) (\<lambda>minN.
     andThen (getBooleanValue ps ''exclusiveMinimum'' False) (\<lambda>exMin.
     andThen (modify a (\<lambda>s. s\<lparr>multipleOf := mult, maximum := maxN, exclusiveMaximum := exMax,
                             minimum := minN, exclusiveMinimum := exMin\<rparr>)) (\<lambda>_.
     andThen (useFloat P a maxN JS_VALIDATOR_MAX) (\<lambda>_.
     andThen (useFloat P a minN JS_VALIDATOR_MIN) (\<lambda>_.
     if \<not> fp_eq P mult (MISSING_FLOAT_VALIDATOR P)
     then andThen (checkPositiveDouble P mult ''multipleOf'') (\<lambda>_.
          modify a (\<lambda>s. s\<lparr>validatorFlags := validatorFlags s OR JS_VALIDATOR_MULTOF\<rparr>))
     else yield ()))))))))"

text \<open>The keywords of the types in the mask, those of numbers once.\<close>

definition buildTypeCode ::
  "platform \<Rightarrow> build_fun \<Rightarrow> sptr \<Rightarrow> property list \<Rightarrow> bool \<Rightarrow> nat \<Rightarrow> bool builder" where
  "buildTypeCode P bld a ps handledNumeric typeCode =
     andThen (look (\<lambda>st. push_bit typeCode 1 AND typeMask (st ! a))) (\<lambda>on.
       if on = 0 then yield handledNumeric
       else if typeCode = JSTYPE_OBJECT then andThen (buildObjectType bld a ps) (\<lambda>_. yield handledNumeric)
       else if typeCode = JSTYPE_ARRAY then andThen (buildArrayType bld a ps) (\<lambda>_. yield handledNumeric)
       else if typeCode = JSTYPE_STRING then andThen (buildStringType a ps) (\<lambda>_. yield handledNumeric)
       else if typeCode = JSTYPE_NUMBER \<or> typeCode = JSTYPE_INTEGER then
         (if handledNumeric then yield handledNumeric
          else andThen (buildNumberType P a ps) (\<lambda>_. yield True))
       else yield handledNumeric)"

fun buildTypesLoop ::
  "platform \<Rightarrow> build_fun \<Rightarrow> sptr \<Rightarrow> property list \<Rightarrow> bool \<Rightarrow> nat list \<Rightarrow> unit builder" where
  "buildTypesLoop P bld a ps handledNumeric [] = yield ()"
| "buildTypesLoop P bld a ps handledNumeric (t # ts) =
     andThen (buildTypeCode P bld a ps handledNumeric t) (\<lambda>h. buildTypesLoop P bld a ps h ts)"

definition buildKeywords :: "platform \<Rightarrow> build_fun \<Rightarrow> sptr \<Rightarrow> property list \<Rightarrow> unit builder" where
  "buildKeywords P bld a ps =
     andThen (getDefinitions bld a ps) (\<lambda>defs.
     andThen (modify a (\<lambda>s. s\<lparr>definitions := defs\<rparr>)) (\<lambda>_.
     andThen (getBooleanValue ps ''additionalProperties'' True) (\<lambda>addl.
     andThen (getBooleanValue ps ''unevaluatedProperties'' True) (\<lambda>uneval.
     andThen (modify a (\<lambda>s. s\<lparr>additionalProperties := addl, unevaluatedProperties := uneval\<rparr>)) (\<lambda>_.
     andThen (addPatternProperties bld a ps) (\<lambda>_.
     andThen (getComposite bld a ps ''allOf'') (\<lambda>allSpecs.
     andThen (modify a (\<lambda>s. s\<lparr>allOf := allSpecs\<rparr>)) (\<lambda>_.
     andThen (getComposite bld a ps ''anyOf'') (\<lambda>anySpecs.
     andThen (modify a (\<lambda>s. s\<lparr>anyOf := anySpecs\<rparr>)) (\<lambda>_.
     andThen (getComposite bld a ps ''oneOf'') (\<lambda>oneSpecs.
     andThen (modify a (\<lambda>s. s\<lparr>oneOf := oneSpecs\<rparr>)) (\<lambda>_.
     andThen (buildNot bld a ps) (\<lambda>_.
     andThen (buildConstAndEnum a ps) (\<lambda>_.
     buildTypesLoop P bld a ps False [0..<JSTYPE_MAX + 1]))))))))))))))"

definition buildObject :: "platform \<Rightarrow> build_fun \<Rightarrow> sptr option \<Rightarrow> property list \<Rightarrow> sptr builder" where
  "buildObject P bld par ps =
     andThen (typeNames ps) (\<lambda>names.
     andThen (getString ps ''description'' None) (\<lambda>descr.
     andThen (getString ps ''title'' None) (\<lambda>titl.
     andThen (getID ps) (\<lambda>i.
     andThen (makeValueSpec P par i descr titl names) (\<lambda>a.
     andThen (getString ps ''$ref'' None) (\<lambda>r.
     andThen (getString ps ''$anchor'' None) (\<lambda>anch.
     andThen (modify a (\<lambda>s. s\<lparr>ref := r, anchor := anch\<rparr>)) (\<lambda>_.
     andThen (ifSome anch (indexByAnchor a)) (\<lambda>_.
     if r \<noteq> None then yield a
     else andThen (buildKeywords P bld a ps) (\<lambda>_. yield a))))))))))"

text \<open>\<open>build\<close> is only called on values inside the one it works on.\<close>

lemma property_value_size: "jsonObjectGetPropertyValue ps k = Some v \<Longrightarrow> size v < size (JObject ps)"
  by (induction ps) (auto split: if_splits)

definition same_below :: "property list \<Rightarrow> build_fun \<Rightarrow> build_fun \<Rightarrow> bool" where
  "same_below ps f g \<longleftrightarrow> (\<forall>par v. size v < size (JObject ps) \<longrightarrow> f par v = g par v)"

lemma member_size:
  assumes "jsonObjectGetPropertyValue ps k = Some (JObject qs)" "kv \<in> set qs"
  shows "size (snd kv) < size (JObject ps)"
proof -
  have "size (snd kv) < size (JObject qs)" using assms(2)
    by (induction qs) (auto simp: size_prod_def less_Suc_eq_le trans_le_add1 trans_le_add2)
  with property_value_size [OF assms(1)] show ?thesis by simp
qed

lemma element_size:
  assumes "jsonObjectGetPropertyValue ps k = Some (JArray js)" "v \<in> set js"
  shows "size v < size (JObject ps)"
proof -
  have "size v < size (JArray js)" using assms(2) by (induction js) auto
  with property_value_size [OF assms(1)] show ?thesis by simp
qed

lemma getObjectValue_Some:
  "getObjectValue ps k st = Inr (Some qs, st1) \<Longrightarrow> jsonObjectGetPropertyValue ps k = Some (JObject qs)"
  by (auto simp: getObjectValue_def yield_def schemaThrowGarbled_def split: option.splits json.splits)

lemma jsonObjectGetArray_Some:
  "jsonObjectGetArray ps k = Some js \<Longrightarrow> jsonObjectGetPropertyValue ps k = Some (JArray js)"
  by (auto simp: jsonObjectGetArray_def split: option.splits if_splits elim: jsonAsArray.elims)

lemma buildMember_cong: "same_below ps f g \<Longrightarrow> size (snd kv) < size (JObject ps) \<Longrightarrow>
    buildMember f a kv = buildMember g a kv"
  by (simp add: buildMember_def same_below_def)

lemma members_cong:
  "same_below ps f g \<Longrightarrow> jsonObjectGetPropertyValue ps k = Some (JObject qs) \<Longrightarrow>
     mapS (buildMember f a) qs = mapS (buildMember g a) qs"
  by (intro mapS_cong refl buildMember_cong member_size)

lemma value_cong:
  "same_below ps f g \<Longrightarrow> jsonObjectGetPropertyValue ps k = Some v \<Longrightarrow> f par v = g par v"
  using property_value_size by (simp add: same_below_def)

lemma getDefinitions_cong: "same_below ps f g \<Longrightarrow> getDefinitions f a ps = getDefinitions g a ps"
  unfolding getDefinitions_def
  by (rule andThen_cong [OF refl])
     (auto split: option.split intro!: andThen_cong [OF _ refl] members_cong dest: getObjectValue_Some)

lemma addPatternProperties_cong: "same_below ps f g \<Longrightarrow> addPatternProperties f a ps = addPatternProperties g a ps"
  unfolding addPatternProperties_def
  by (rule andThen_cong [OF refl], rule ifSome_cong [OF refl])
     (auto intro!: andThen_cong [OF _ refl] members_cong dest: getObjectValue_Some)

lemma getComposite_cong: "same_below ps f g \<Longrightarrow> getComposite f a ps k = getComposite g a ps k"
proof -
  assume s: "same_below ps f g"
  have "mapS (f (Some a)) js = mapS (g (Some a)) js" if "jsonObjectGetArray ps k = Some js" for js
    using s element_size [OF jsonObjectGetArray_Some [OF that]]
    by (intro mapS_cong refl) (simp add: same_below_def)
  then show ?thesis by (simp add: getComposite_def split: option.split)
qed

lemma buildNot_cong: "same_below ps f g \<Longrightarrow> buildNot f a ps = buildNot g a ps"
  unfolding buildNot_def by (rule ifSome_cong [OF refl]) (simp add: value_cong)

lemma buildProperties_cong: "same_below ps f g \<Longrightarrow> buildProperties f a ps = buildProperties g a ps"
  unfolding buildProperties_def
  by (rule ifSome_cong [OF refl]) (auto split: json.split intro!: andThen_cong [OF _ refl] members_cong)

lemma buildArrayType_cong: "same_below ps f g \<Longrightarrow> buildArrayType f a ps = buildArrayType g a ps"
proof -
  assume s: "same_below ps f g"
  have "ifSome (jsonObjectGetPropertyValue ps ''items'') (\<lambda>v.
       andThen (f (Some a) v) (\<lambda>b. modify a (\<lambda>s. s\<lparr>itemSpec := Some b\<rparr>))) =
     ifSome (jsonObjectGetPropertyValue ps ''items'') (\<lambda>v.
       andThen (g (Some a) v) (\<lambda>b. modify a (\<lambda>s. s\<lparr>itemSpec := Some b\<rparr>)))"
    by (rule ifSome_cong [OF refl]) (simp add: value_cong [OF s])
  then show ?thesis by (simp add: buildArrayType_def)
qed

lemma buildTypeCode_cong: "same_below ps f g \<Longrightarrow> buildTypeCode P f a ps h t = buildTypeCode P g a ps h t"
  by (simp add: buildTypeCode_def buildObjectType_def buildProperties_cong buildArrayType_cong cong: if_cong)

lemma buildTypesLoop_cong: "same_below ps f g \<Longrightarrow> buildTypesLoop P f a ps h ts = buildTypesLoop P g a ps h ts"
  by (induction ts arbitrary: h) (simp_all add: buildTypeCode_cong)

lemma buildKeywords_cong: "same_below ps f g \<Longrightarrow> buildKeywords P f a ps = buildKeywords P g a ps"
  by (simp only: buildKeywords_def getDefinitions_cong addPatternProperties_cong getComposite_cong buildNot_cong
      buildTypesLoop_cong)

lemma buildObject_cong [fundef_cong]:
  assumes "ps = ps'" "\<And>par v. size v < size (JObject ps') \<Longrightarrow> f par v = g par v"
  shows "buildObject P f par ps = buildObject P g par ps'"
proof -
  have "same_below ps' f g" using assms(2) by (simp add: same_below_def)
  then show ?thesis by (simp only: assms(1) buildObject_def buildKeywords_cong)
qed

function build :: "platform \<Rightarrow> sptr option \<Rightarrow> json \<Rightarrow> sptr builder" where
  "build P par jsValue =
     (case jsValue of
        JObject ps \<Rightarrow> buildObject P (build P) par ps
      | _ \<Rightarrow> schemaThrow ''top level schema must be an object'')"
  by pat_completeness auto
termination
  by (relation "measure (\<lambda>(P, par, v). size v)") auto

declare build.simps [simp del]

subsection \<open>Schemas\<close>

record jsonSchema =
  topValueSpec :: sptr
  schemaVersion :: int

text \<open>
  The store \<open>st\<close> holds the specs of the schemas built before. A builder has built a schema, or keeps the
  error and gives a null pointer.
\<close>

definition jsonBuildSchema :: "platform \<Rightarrow> int \<Rightarrow> json \<Rightarrow> jsonSchema builder" where
  "jsonBuildSchema P builderVersion schemaJson st =
     (case build P None schemaJson st of
        Inl e \<Rightarrow> Inl e
      | Inr (a, st1) \<Rightarrow> Inr (\<lparr>topValueSpec = a, schemaVersion = builderVersion\<rparr>, st1))"

end
