(* ===== verification/SchemaValidator.thy ===== *)
theory SchemaValidator
  imports JsonSchema
begin

section \<open>Validating values against schemas\<close>

text \<open>
  The second half of the model of \<open>c/jsonschema.c\<close>, from \<open>accessPathPushIndex\<close> to
  \<open>jsonValidateSchema\<close>. A value is known by its position, the indexes that lead to it from the value
  that is validated: the position stands for the \<open>JsonObject*\<close> that the code compares. The functions
  that call \<open>validateJSON\<close> take it as their argument \<open>vj\<close>. References may lead in circles, so the
  recursion has fuel: \<open>None\<close> is a run that has not ended.

  \<open>broken\<close> is set once the code has left defined behaviour: a write outside a buffer, a call of a
  formatting function whose arguments do not fit, a null pointer taken for a string. What it does
  from then on is not modelled. The heap of the validator is taken to have room, and to be cleared,
  so that \<open>memcmp\<close> of two scalars compares their types and values. Traces are left out, and so is
  \<open>validationThrow\<close>, which nothing calls.
\<close>

subsection \<open>Results\<close>

datatype vStatus = InvalidStop | ValidStop | InvalidContinue | ValidContinue

fun vStatusCode :: "vStatus \<Rightarrow> nat" where
  "vStatusCode InvalidStop = 0"
| "vStatusCode ValidStop = 1"
| "vStatusCode InvalidContinue = 2"
| "vStatusCode ValidContinue = 3"

definition vStatusOf :: "nat \<Rightarrow> vStatus" where
  "vStatusOf n = (if n = 0 then InvalidStop else if n = 1 then ValidStop
                  else if n = 2 then InvalidContinue else ValidContinue)"

definition vStatusValid :: "vStatus \<Rightarrow> bool" where
  "vStatusValid r \<longleftrightarrow> r = ValidStop \<or> r = ValidContinue"

definition vStatusMin :: "vStatus \<Rightarrow> vStatus \<Rightarrow> vStatus" where
  "vStatusMin a b =
     (let aNum = vStatusCode a; bNum = vStatusCode b;
          minValid = min (aNum AND 1) (bNum AND 1);
          minContinue = min (aNum AND 2) (bNum AND 2)
      in vStatusOf (minContinue OR minValid))"

datatype validityException = ValidityException (emessage: "string option") (echildren: "validityException list")

record vResult =
  status :: vStatus
  vexception :: "validityException option"

definition failureWithException :: "validityException \<Rightarrow> vResult" where
  "failureWithException e = \<lparr>status = InvalidStop, vexception = Some e\<rparr>"

definition simpleSuccess :: vResult where
  "simpleSuccess = \<lparr>status = ValidContinue, vexception = None\<rparr>"

text \<open>What \<open>addValidityChild\<close> appends to the children of a pending exception.\<close>

definition failed_child :: "vResult \<Rightarrow> validityException list" where
  "failed_child r =
     (if vStatusValid (status r) then [] else (case vexception r of None \<Rightarrow> [] | Some e \<Rightarrow> [e]))"

subsection \<open>The state of a validation\<close>

datatype pathStep = PathName string | PathIndex nat

type_synonym position = "nat list"
type_synonym evalSet = "(position \<times> string list) list"

record vstate =
  accessPath :: "pathStep list"
  evalSets :: "evalSet list"
  broken :: bool

definition MAX_SCHEMA_DEPTH :: nat where "MAX_SCHEMA_DEPTH = 100"
definition MAX_ACCESS_PATH :: nat where "MAX_ACCESS_PATH = 1024"
definition MAX_VALIDITY_EXCEPTION_MSG :: nat where "MAX_VALIDITY_EXCEPTION_MSG = 1024"

text \<open>A push beyond the limit is ignored; a pop is not.\<close>

definition accessPathPush :: "pathStep \<Rightarrow> vstate \<Rightarrow> vstate" where
  "accessPathPush step s =
     (if length (accessPath s) < MAX_SCHEMA_DEPTH then s\<lparr>accessPath := accessPath s @ [step]\<rparr> else s)"

definition accessPathPop :: "vstate \<Rightarrow> vstate" where
  "accessPathPop s = (if 0 < length (accessPath s) then s\<lparr>accessPath := butlast (accessPath s)\<rparr> else s)"

fun step_text :: "pathStep \<Rightarrow> string" where
  "step_text (PathName name) = ''/'' @ name"
| "step_text (PathIndex i) = ''/'' @ show_nat i"

text \<open>The text of a path, and whether it went past its buffer.\<close>

fun fillAccessPathString :: "string \<Rightarrow> bool \<Rightarrow> pathStep list \<Rightarrow> string \<times> bool" where
  "fillAccessPathString buffer past [] = (buffer, past)"
| "fillAccessPathString buffer past (e # es) =
     (if length buffer + 100 \<ge> MAX_ACCESS_PATH
      then (buffer @ ''...'', past \<or> length buffer + 4 > MAX_ACCESS_PATH)
      else let buffer1 = buffer @ step_text e
           in fillAccessPathString buffer1 (past \<or> length buffer1 + 1 > MAX_ACCESS_PATH) es)"

definition validatorAccessPath :: "vstate \<Rightarrow> string \<times> vstate" where
  "validatorAccessPath s =
     (case fillAccessPathString [] False (accessPath s) of
        (buffer, past) \<Rightarrow> (buffer, s\<lparr>broken := broken s \<or> past\<rparr>))"

definition validityMessage :: "string \<Rightarrow> string" where
  "validityMessage text = take (MAX_VALIDITY_EXCEPTION_MSG - 1) text"

text \<open>An exception whose message names the place in the value.\<close>

definition pathException :: "(string \<Rightarrow> string) \<Rightarrow> vstate \<Rightarrow> validityException \<times> vstate" where
  "pathException f s =
     (case validatorAccessPath s of
        (p, s1) \<Rightarrow> (ValidityException (Some (validityMessage (f p))) [], s1))"

definition simpleFailure :: "(string \<Rightarrow> string) \<Rightarrow> vstate \<Rightarrow> vResult \<times> vstate" where
  "simpleFailure f s = (case pathException f s of (e, s1) \<Rightarrow> (failureWithException e, s1))"

text \<open>How each check of a value ends: with the exceptions it has collected, or with none.\<close>

definition finish :: "string \<Rightarrow> validityException list \<Rightarrow> vstate \<Rightarrow> vResult \<times> vstate" where
  "finish what pending s =
     (if pending \<noteq> []
      then (case pathException (\<lambda>p. ''Validity Exceptions(s) with '' @ what @ '' at '' @ p) s of
              (e, s1) \<Rightarrow> (failureWithException (ValidityException (emessage e) pending), s1))
      else (simpleSuccess, s))"

text \<open>Adds an exception to those collected when a test fails.\<close>

definition check :: "bool \<Rightarrow> (string \<Rightarrow> string) \<Rightarrow> validityException list \<times> vstate \<Rightarrow>
    validityException list \<times> vstate" where
  "check bad f ps =
     (case ps of (pending, s) \<Rightarrow>
        if bad then (case pathException f s of (e, s1) \<Rightarrow> (pending @ [e], s1)) else (pending, s))"

record jsonValidator =
  vplat :: platform
  vspecs :: specs
  topSchema :: jsonSchema
  otherSchemas :: "jsonSchema list"
  allowStringToBeNull :: bool
  addressOf :: "position \<Rightarrow> 64 word"

definition spec_at :: "jsonValidator \<Rightarrow> sptr \<Rightarrow> jsValueSpec" where
  "spec_at V a = vspecs V ! a"

type_synonym validate_fun = "position \<Rightarrow> json \<Rightarrow> sptr \<Rightarrow> vstate \<Rightarrow> (vResult \<times> vstate) option"

subsection \<open>Evaluated properties\<close>

definition addPropertyToObjectRecord :: "string \<Rightarrow> string list \<Rightarrow> string list" where
  "addPropertyToObjectRecord name names = (if name \<in> set names then names else name # names)"

fun noteInSet :: "position \<Rightarrow> string \<Rightarrow> evalSet \<Rightarrow> evalSet option" where
  "noteInSet pos name [] = None"
| "noteInSet pos name ((q, names) # rs) =
     (if q = pos then Some ((q, addPropertyToObjectRecord name names) # rs)
      else map_option ((#) (q, names)) (noteInSet pos name rs))"

definition notePropertyEvaluation :: "position \<Rightarrow> string \<Rightarrow> vstate \<Rightarrow> vstate" where
  "notePropertyEvaluation pos name s =
     s\<lparr>evalSets := map (\<lambda>es. case noteInSet pos name es of
                                Some es1 \<Rightarrow> es1 | None \<Rightarrow> (pos, [name]) # es) (evalSets s)\<rparr>"

fun hasBeenEvaluated :: "evalSet \<Rightarrow> position \<Rightarrow> string \<Rightarrow> bool" where
  "hasBeenEvaluated [] pos name = False"
| "hasBeenEvaluated ((q, names) # rs) pos name =
     (if q = pos \<and> name \<in> set names then True else hasBeenEvaluated rs pos name)"

definition extendEvalSets :: "vstate \<Rightarrow> vstate" where
  "extendEvalSets s = s\<lparr>evalSets := [] # evalSets s\<rparr>"

subsection \<open>Types, strings and numbers\<close>

definition getJSTypeName :: "nat \<Rightarrow> string" where
  "getJSTypeName t =
     (if t = JSTYPE_NULL then ''null'' else if t = JSTYPE_BOOLEAN then ''boolean''
      else if t = JSTYPE_OBJECT then ''object'' else if t = JSTYPE_ARRAY then ''array''
      else if t = JSTYPE_STRING then ''string'' else if t = JSTYPE_NUMBER then ''number''
      else if t = JSTYPE_INTEGER then ''integer'' else ''unknown'')"

definition type_permitted :: "nat \<Rightarrow> jsValueSpec \<Rightarrow> bool" where
  "type_permitted typeCode spec \<longleftrightarrow> push_bit typeCode 1 AND typeMask spec \<noteq> 0"

definition validateType :: "nat \<Rightarrow> jsValueSpec \<Rightarrow> vstate \<Rightarrow> vResult \<times> vstate" where
  "validateType typeCode spec s =
     (if \<not> type_permitted typeCode spec
      then simpleFailure (\<lambda>p. ''type '' @ quoted (getJSTypeName typeCode) @ '' not permitted at '' @ p @
             ''; expecting type '' @ quoted (getJSTypeName (stype spec))) s
      else (simpleSuccess, s))"

text \<open>\<open>%d\<close> of a 64-bit integer prints its low 32 bits.\<close>

definition show_d :: "int \<Rightarrow> string" where
  "show_d i = show_int (sint (word_of_int i :: cint))"

definition flag_set :: "nat \<Rightarrow> jsValueSpec \<Rightarrow> bool" where
  "flag_set flag spec \<longleftrightarrow> validatorFlags spec AND flag \<noteq> 0"

definition patternFails :: "platform \<Rightarrow> jsValueSpec \<Rightarrow> string \<Rightarrow> bool" where
  "patternFails P spec text =
     (case pattern spec of
        None \<Rightarrow> False
      | Some pat \<Rightarrow> regexComp P pat = 0 \<and> fst (regexExec P pat text) \<noteq> 0)"

definition validateJSONString :: "jsonValidator \<Rightarrow> string \<Rightarrow> jsValueSpec \<Rightarrow> vstate \<Rightarrow> vResult \<times> vstate" where
  "validateJSONString V text spec s =
     (let len = int (length text);
          lengths = '' (len='' @ show_int len @ '') '' @ quoted text @ '' '' @ show_int len;
          r1 = check (flag_set JS_VALIDATOR_MAX_LENGTH spec \<and> len > maxLength spec)
                 (\<lambda>p. ''string too long'' @ lengths @ '' > MAX='' @ show_d (maxLength spec) @ '' at '' @ p) ([], s);
          r2 = check (flag_set JS_VALIDATOR_MIN_LENGTH spec \<and> len < minLength spec)
                 (\<lambda>p. ''string too short'' @ lengths @ '' < MIN='' @ show_d (minLength spec) @ '' at '' @ p) r1;
          r3 = check (patternFails (vplat V) spec text)
                 (\<lambda>p. ''string pattern match fail s='' @ quoted text @ '', pat='' @
                       quoted (the (pattern spec)) @ '', at '' @ p) r2
      in finish ''string'' (fst r3) (snd r3))"

definition validateJSONNumber :: "jsonValidator \<Rightarrow> json \<Rightarrow> jsValueSpec \<Rightarrow> vstate \<Rightarrow> vResult \<times> vstate" where
  "validateJSONNumber V doubleOrLegacyInt spec s =
     (let P = vplat V; fp = fpo P; d = jsonAsDouble fp doubleOrLegacyInt;
          lt = (\<lambda>ex a b. if ex then fp_le P a b else fp_lt P a b);
          r1 = check (flag_set JS_VALIDATOR_MAX spec \<and> lt (exclusiveMaximum spec) (maximum spec) d)
                 (\<lambda>p. ''value too large, '' @ fmt_f fp d @ (if exclusiveMaximum spec then '' >= '' else '' > '') @
                       ''MAX='' @ fmt_f fp (maximum spec) @ '' at '' @ p) ([], s);
          r2 = check (flag_set JS_VALIDATOR_MIN spec \<and> lt (exclusiveMinimum spec) d (minimum spec))
                 (\<lambda>p. ''value too small, '' @ fmt_f fp d @ (if exclusiveMinimum spec then '' <= '' else '' < '') @
                       ''MIN='' @ fmt_f fp (minimum spec) @ '' at '' @ p) r1
      in finish ''number'' (fst r2) (snd r2))"

text \<open>The limits are turned into integers before an integer is compared with them.\<close>

definition validateJSONInteger :: "jsonValidator \<Rightarrow> json \<Rightarrow> jsValueSpec \<Rightarrow> vstate \<Rightarrow> vResult \<times> vstate" where
  "validateJSONInteger V value64 spec s =
     (let fp = fpo (vplat V); i = sint (jsonAsInt64 fp value64);
          hi = sint (fp_to_int64 fp (maximum spec)); lo = sint (fp_to_int64 fp (minimum spec));
          r1 = check (flag_set JS_VALIDATOR_MAX spec \<and> (if exclusiveMaximum spec then i \<ge> hi else i > hi))
                 (\<lambda>p. ''value too large, '' @ show_int i @ (if exclusiveMaximum spec then '' >= '' else '' > '') @
                       ''MAX='' @ show_int hi @ '' at '' @ p) ([], s);
          r2 = check (flag_set JS_VALIDATOR_MIN spec \<and> (if exclusiveMinimum spec then i \<le> lo else i < lo))
                 (\<lambda>p. ''value too small, '' @ show_int i @ (if exclusiveMinimum spec then '' <= '' else '' < '') @
                       ''MIN='' @ show_int lo @ '' at '' @ p) r1
      in finish ''integer'' (fst r2) (snd r2))"

subsection \<open>Objects and arrays\<close>

fun patternLoop :: "platform \<Rightarrow> (string \<times> sptr) list \<Rightarrow> string \<Rightarrow> sptr option" where
  "patternLoop P [] name = None"
| "patternLoop P ((pat, a) # pats) name =
     (if regexComp P pat = 0 \<and> fst (regexExec P pat name) = 0 then Some a else patternLoop P pats name)"

definition getPropertyValueSpec :: "platform \<Rightarrow> jsValueSpec \<Rightarrow> string \<Rightarrow> sptr option" where
  "getPropertyValueSpec P spec name =
     (case properties spec of
        None \<Rightarrow> patternLoop P (patternProperties spec) name
      | Some m \<Rightarrow> (case m name of None \<Rightarrow> patternLoop P (patternProperties spec) name | Some a \<Rightarrow> Some a))"

fun requiredLoop :: "property list \<Rightarrow> string list \<Rightarrow> validityException list \<times> vstate \<Rightarrow>
    validityException list \<times> vstate" where
  "requiredLoop ps [] r = r"
| "requiredLoop ps (name # names) r =
     requiredLoop ps names
       (check (jsonObjectGetPropertyValue ps name = None)
          (\<lambda>p. ''missing required property '' @ quoted name @ '' at '' @ quoted p) r)"

text \<open>A property that no spec is found for.\<close>

definition unspecifiedProperty ::
  "position \<Rightarrow> jsValueSpec \<Rightarrow> string \<Rightarrow> validityException list \<times> vstate \<Rightarrow> validityException list \<times> vstate" where
  "unspecifiedProperty pos spec name r =
     (if \<not> additionalProperties spec
      then check True (\<lambda>p. ''unspecified additional property not allowed: '' @ quoted name @ '' at '' @ quoted p) r
      else if \<not> unevaluatedProperties spec
      then check (\<not> hasBeenEvaluated (hd (evalSets (snd r))) pos name)
             (\<lambda>p. ''unevaluated property not allowed: '' @ quoted name @ '' at '' @ quoted p) r
      else r)"

fun propertiesLoop :: "jsonValidator \<Rightarrow> validate_fun \<Rightarrow> position \<Rightarrow> jsValueSpec \<Rightarrow> nat \<Rightarrow> property list \<Rightarrow>
    validityException list \<times> vstate \<Rightarrow> (validityException list \<times> vstate) option" where
  "propertiesLoop V vj pos spec i [] r = Some r"
| "propertiesLoop V vj pos spec i ((name, v) # ps) (pending, s) =
     do {
       let s1 = accessPathPush (PathName name) s;
       (pending2, s2) \<leftarrow>
         (case getPropertyValueSpec (vplat V) spec name of
            Some a \<Rightarrow> do {
              (r, s2) \<leftarrow> vj (pos @ [i]) v a s1;
              Some (pending @ failed_child r, notePropertyEvaluation pos name s2) }
          | None \<Rightarrow> Some (unspecifiedProperty pos spec name (pending, s1)));
       propertiesLoop V vj pos spec (i + 1) ps (pending2, accessPathPop s2)
     }"

text \<open>The largest number of properties is compared with the smallest one.\<close>

definition validateJSONObject :: "jsonValidator \<Rightarrow> validate_fun \<Rightarrow> position \<Rightarrow> property list \<Rightarrow> jsValueSpec \<Rightarrow>
    vstate \<Rightarrow> (vResult \<times> vstate) option" where
  "validateJSONObject V vj pos ps spec s =
     do {
       let r1 = requiredLoop ps (case required spec of None \<Rightarrow> [] | Some names \<Rightarrow> names) ([], s);
       r2 \<leftarrow> propertiesLoop V vj pos spec 0 ps r1;
       let n = int (length ps);
       let lim = minProperties spec;
       let r3 = check (flag_set JS_VALIDATOR_MAX_PROPS spec \<and> n > lim)
                  (\<lambda>p. ''too many properties, '' @ show_d n @ '' > MAX='' @ show_d lim @ '' at '' @ p) r2;
       let r4 = check (flag_set JS_VALIDATOR_MIN_PROPS spec \<and> n < lim)
                  (\<lambda>p. ''too few properties, '' @ show_d n @ '' < MIN='' @ show_d lim @ '' at '' @ p) r3;
       Some (finish ''object'' (fst r4) (snd r4))
     }"

text \<open>\<open>seen\<close> are the keys in the table of hashes.\<close>

fun itemsLoop :: "jsonValidator \<Rightarrow> validate_fun \<Rightarrow> position \<Rightarrow> jsValueSpec \<Rightarrow> nat \<Rightarrow> json list \<Rightarrow> 64 word list \<Rightarrow>
    validityException list \<times> vstate \<Rightarrow> (validityException list \<times> vstate) option" where
  "itemsLoop V vj pos spec i [] seen r = Some r"
| "itemsLoop V vj pos spec i (v # vs) seen (pending, s) =
     do {
       let s1 = accessPathPush (PathIndex i) s;
       (pending2, s2) \<leftarrow>
         (case itemSpec spec of
            Some a \<Rightarrow> do { (r, s2) \<leftarrow> vj (pos @ [i]) v a s1; Some (pending @ failed_child r, s2) }
          | None \<Rightarrow> Some (pending, s1));
       let longHash = jsonLongHash (fpo (vplat V)) (addressOf V (pos @ [i])) v AND 0x7FFFFFFFFFFFFFFF;
       let (pending3, s3) = check (uniqueItems spec \<and> longHash \<in> set seen)
             (\<lambda>p. ''array uniqueItems violation, duplicate at '' @ p) (pending2, s2);
       itemsLoop V vj pos spec (i + 1) vs (longHash # seen) (pending3, accessPathPop s3)
     }"

definition validateJSONArray :: "jsonValidator \<Rightarrow> validate_fun \<Rightarrow> position \<Rightarrow> json list \<Rightarrow> jsValueSpec \<Rightarrow>
    vstate \<Rightarrow> (vResult \<times> vstate) option" where
  "validateJSONArray V vj pos vs spec s =
     do {
       let n = int (length vs);
       let r1 = check (flag_set JS_VALIDATOR_MAX_ITEMS spec \<and> n > maxItems spec)
                  (\<lambda>p. ''too many array items, '' @ show_d n @ '' > MAX='' @ show_d (maxItems spec) @ '' at '' @ p) ([], s);
       let r2 = check (flag_set JS_VALIDATOR_MIN_ITEMS spec \<and> n < minItems spec)
                  (\<lambda>p. ''too few array items, '' @ show_d n @ '' < MIN='' @ show_d (minItems spec) @ '' at '' @ p) r1;
       r3 \<leftarrow> itemsLoop V vj pos spec 0 vs [] r2;
       Some (finish ''array'' (fst r3) (snd r3))
     }"

subsection \<open>References\<close>

definition httpMatch :: "platform \<Rightarrow> string \<Rightarrow> regmatch list option" where
  "httpMatch P s =
     (if regexComp P httpPattern \<noteq> 0 then None
      else case regexExec P httpPattern s of (st, ms) \<Rightarrow> if st = 0 then Some ms else None)"

definition fileMatch :: "platform \<Rightarrow> string \<Rightarrow> regmatch list option" where
  "fileMatch P s =
     (if regexComp P filePattern \<noteq> 0 then None
      else case regexExec P filePattern s of (st, ms) \<Rightarrow> if st = 0 then Some ms else None)"

fun schemaById :: "jsonValidator \<Rightarrow> string \<Rightarrow> jsonSchema list \<Rightarrow> sptr option" where
  "schemaById V key [] = None"
| "schemaById V key (sch # schs) =
     (if specId (spec_at V (topValueSpec sch)) = Some key then Some (topValueSpec sch)
      else schemaById V key schs)"

definition getTopSchemaByName :: "jsonValidator \<Rightarrow> string \<Rightarrow> string \<Rightarrow> sptr option" where
  "getTopSchemaByName V host fname =
     (let key = host @ ''/'' @ fname in
      case (case definitions (spec_at V (topValueSpec (topSchema V))) of None \<Rightarrow> None | Some m \<Rightarrow> m key) of
        Some a \<Rightarrow> Some a
      | None \<Rightarrow> schemaById V key (otherSchemas V))"

definition nameOf :: "jsValueSpec \<Rightarrow> string" where
  "nameOf spec = (case specId spec of Some i \<Rightarrow> i | None \<Rightarrow> ''<anonymous>'')"

definition resolveCrossSchemaRef :: "jsonValidator \<Rightarrow> sptr \<Rightarrow> string \<Rightarrow> regmatch \<Rightarrow> string + sptr" where
  "resolveCrossSchemaRef V referred r anchorMatch =
     (if fst anchorMatch = -1 then Inr referred
      else case anchorTable (spec_at V referred) of
             None \<Rightarrow> Inl (validityMessage (''schema '' @ quoted (nameOf (spec_at V referred)) @
                       '' does not define any anchors for ref '' @ quoted r))
           | Some m \<Rightarrow>
               (case m (drop (nat (fst anchorMatch + 1)) r) of
                  None \<Rightarrow> Inl (validityMessage (''anchor schema ref '' @ quoted r @
                            '' does not resolve in referred schema''))
                | Some a \<Rightarrow> Inr a))"

text \<open>
  A reference to a file needs the host of the containing schema; where that has no identifier, its null
  pointer is measured as a string.
\<close>

definition resolveRef :: "jsonValidator \<Rightarrow> string \<Rightarrow> sptr \<Rightarrow> vstate \<Rightarrow> (string + sptr) \<times> vstate" where
  "resolveRef V r a s =
     (let P = vplat V; c = getTopLevelAncestor (vspecs V) a; containing = spec_at V c in
      if length r \<ge> 8 \<and> take 8 r = ''#/$defs/'' then
        (case definitions containing of
           None \<Rightarrow> (Inl (validityMessage (''schema '' @ quoted (nameOf containing) @ '' does not define shared '' @
                      quoted ''$defs'')), s)
         | Some m \<Rightarrow>
             (case m (drop 8 r) of
                None \<Rightarrow> (Inl (validityMessage (''path schema ref '' @ quoted r @ '' does not resolve against '' @
                           quoted ''$defs'')), s)
              | Some b \<Rightarrow> (Inr b, s)))
      else if length r \<ge> 10 \<and> httpMatch P r \<noteq> None then
        (let ms = the (httpMatch P r) in
         case getTopSchemaByName V (matched_text r (regmatch_at ms 1)) (matched_text r (regmatch_at ms 2)) of
           None \<Rightarrow> (Inl (validityMessage (''cross-domain schema not found for ref '' @ quoted r)), s)
         | Some t \<Rightarrow> (resolveCrossSchemaRef V t r (regmatch_at ms 3), s))
      else if length r \<ge> 1 \<and> fileMatch P r \<noteq> None then
        (let ms = the (fileMatch P r) in
         case hostName containing of
           None \<Rightarrow> (Inl [], s\<lparr>broken := True\<rparr>)
         | Some host \<Rightarrow>
             (case getTopSchemaByName V host (matched_text r (regmatch_at ms 1)) of
                None \<Rightarrow> (Inl (validityMessage (''same-domain schema not found for ref '' @ quoted r)), s)
              | Some t \<Rightarrow> (resolveCrossSchemaRef V t r (regmatch_at ms 2), s)))
      else if length r \<ge> 1 \<and> hd r = CHR ''#'' then
        (case anchorTable containing of
           None \<Rightarrow> (Inl (validityMessage (''schema '' @ quoted (nameOf containing) @
                      '' does not define any anchors for ref '' @ quoted r)), s)
         | Some m \<Rightarrow>
             (case m (tl r) of
                None \<Rightarrow> (Inl (validityMessage (''anchor schema ref '' @ quoted r @
                           '' does not resolve in containing schema'')), s)
              | Some b \<Rightarrow> (Inr b, s)))
      else (case validatorAccessPath s of
              (p, s1) \<Rightarrow> (Inl (validityMessage (''bad or unimplemented ref at '' @ quoted r @ '' at '' @ p)), s1)))"

text \<open>\<open>while (valueSpec->ref)\<close>, which need not end.\<close>

fun refLoop :: "nat \<Rightarrow> jsonValidator \<Rightarrow> sptr \<Rightarrow> vstate \<Rightarrow> ((string + sptr) \<times> vstate) option" where
  "refLoop n V a s =
     (case ref (spec_at V a) of
        None \<Rightarrow> Some (Inr a, s)
      | Some r \<Rightarrow>
          (case n of
             0 \<Rightarrow> None
           | Suc m \<Rightarrow>
               (case resolveRef V r a s of
                  (Inl text, s1) \<Rightarrow> Some (Inl text, s1)
                | (Inr b, s1) \<Rightarrow> refLoop m V b s1)))"

subsection \<open>Constants and enumerations\<close>

definition jsonEquals :: "json \<Rightarrow> json \<Rightarrow> bool" where
  "jsonEquals a b =
     (if jsonIsArray a \<or> jsonIsArray b then False
      else if jsonIsObject a \<or> jsonIsObject b then False
      else case a of
             JString s \<Rightarrow> (case b of JString t \<Rightarrow> s = t | _ \<Rightarrow> False)
           | _ \<Rightarrow> a = b)"

definition validateConst :: "json \<Rightarrow> jsValueSpec \<Rightarrow> json \<Rightarrow> vstate \<Rightarrow> vResult \<times> vstate" where
  "validateConst c spec v s =
     (if \<not> jsonEquals v c
      then simpleFailure (\<lambda>p. ''unequal constant value at '' @ p @
             (case c of
                JString t \<Rightarrow> ''; expecting value '' @ quoted t @ '' of type '' @ quoted (getJSTypeName (stype spec))
              | _ \<Rightarrow> if jsonIsNumber c
                     then ''; expecting value '' @ quoted (show_int (sint (jsonAsNumber c))) @ '' of type '' @
                          quoted (getJSTypeName (stype spec))
                     else [])) s
      else (simpleSuccess, s))"

text \<open>
  \<open>validValues\<close> has room for eleven characters a value, and the texts of the values that do not match are
  appended to it.
\<close>

fun enumLoop :: "nat \<Rightarrow> json \<Rightarrow> json list \<Rightarrow> string \<Rightarrow> bool \<Rightarrow> bool \<times> string \<times> bool" where
  "enumLoop room v [] validValues past = (False, validValues, past)"
| "enumLoop room v (e # es) validValues past =
     (if jsonEquals v e then (True, validValues, past)
      else let text1 = validValues @
                 (case e of JString t \<Rightarrow> t
                  | _ \<Rightarrow> if jsonIsNumber e then show_int (sint (jsonAsNumber e)) else []);
               text2 = (if text1 \<noteq> [] \<and> es \<noteq> [] then text1 @ '', '' else text1)
           in enumLoop room v es text2 (past \<or> length text2 + 1 > room))"

definition enum_room :: "nat \<Rightarrow> nat" where
  "enum_room n = (n * (8 + 3) + 1 + 7) div 8 * 8"

definition validateEnum :: "jsonValidator \<Rightarrow> json list \<Rightarrow> jsValueSpec \<Rightarrow> json \<Rightarrow> vstate \<Rightarrow> vResult \<times> vstate" where
  "validateEnum V es spec v s =
     (let (nullToString, s1) =
            (if jsonIsNull v
             then (case validateType JSTYPE_NULL spec s of
                     (r, s1) \<Rightarrow> (\<not> vStatusValid (status r) \<and> allowStringToBeNull V \<and>
                                type_permitted JSTYPE_STRING spec, s1))
             else (False, s));
          (matched, validValues, past) =
            enumLoop (enum_room (length es)) (if nullToString then JString [] else v) es [] False;
          s2 = s1\<lparr>broken := broken s1 \<or> past\<rparr>
      in if \<not> matched
         then simpleFailure (\<lambda>p. ''no matching enum value at '' @ p @
                (if validValues \<noteq> []
                 then ''; expecting one of values '' @ quoted (''['' @ validValues @ '']'') @ '' of type '' @
                      quoted (getJSTypeName (stype spec))
                 else [])) s2
         else (simpleSuccess, s2))"

subsection \<open>One value against one spec\<close>

definition validateJSONSimple :: "jsonValidator \<Rightarrow> validate_fun \<Rightarrow> position \<Rightarrow> json \<Rightarrow> jsValueSpec \<Rightarrow> vstate \<Rightarrow>
    (vResult \<times> vstate) option" where
  "validateJSONSimple V vj pos v spec s =
     (let typed = (\<lambda>t k. case validateType t spec s of
                      (r, s1) \<Rightarrow> if vStatusValid (status r) then k s1 else Some (r, s1)) in
      case v of
        JNull \<Rightarrow>
          (case validateType JSTYPE_NULL spec s of
             (r, s1) \<Rightarrow>
               if vStatusValid (status r) then Some (r, s1)
               else if allowStringToBeNull V
               then (if type_permitted JSTYPE_STRING spec then Some (validateJSONString V [] spec s1)
                     else Some (simpleFailure (\<lambda>p. ''string cannot be null for '' @ p @ [CHR 0x0A]) s1))
               else Some (r, s1))
      | JBoolean _ \<Rightarrow> Some (validateType JSTYPE_BOOLEAN spec s)
      | JObject ps \<Rightarrow> typed JSTYPE_OBJECT (\<lambda>s1. validateJSONObject V vj pos ps spec s1)
      | JArray vs \<Rightarrow> typed JSTYPE_ARRAY (\<lambda>s1. validateJSONArray V vj pos vs spec s1)
      | JString t \<Rightarrow> typed JSTYPE_STRING (\<lambda>s1. Some (validateJSONString V t spec s1))
      | JNumber _ \<Rightarrow> typed JSTYPE_NUMBER (\<lambda>s1. Some (validateJSONNumber V v spec s1))
      | JDouble _ \<Rightarrow> typed JSTYPE_NUMBER (\<lambda>s1. Some (validateJSONNumber V v spec s1))
      | JInt64 _ \<Rightarrow> typed JSTYPE_INTEGER (\<lambda>s1. Some (validateJSONInteger V v spec s1))
      | JError _ \<Rightarrow> Some (failureWithException (ValidityException
            (Some (validityMessage (''*** PANIC *** unhandled JS Value with type = '' @
                     show_nat (json_type v) @ [CHR 0x0A]))) []), s))"

datatype quantType = QUANT_ALL | QUANT_ANY | QUANT_ONE

text \<open>The message for two matches of \<open>oneOf\<close> formats an \<open>int\<close> as a string.\<close>

fun quantifiedLoop :: "validate_fun \<Rightarrow> position \<Rightarrow> json \<Rightarrow> quantType \<Rightarrow> sptr list \<Rightarrow> nat \<Rightarrow>
    validityException list \<Rightarrow> vstate \<Rightarrow> (vResult \<times> vstate) option" where
  "quantifiedLoop vj pos v q [] validCount pending s =
     (case q of
        QUANT_ALL \<Rightarrow> Some (simpleSuccess, s)
      | QUANT_ANY \<Rightarrow>
          (case pathException (\<lambda>p. ''not anyOf schemas at '' @ quoted p @ '' are valid'') s of
             (e, s1) \<Rightarrow> Some (failureWithException (ValidityException (emessage e) pending), s1))
      | QUANT_ONE \<Rightarrow>
          if validCount = 0
          then (case pathException (\<lambda>p. ''not oneOf schemas at '' @ quoted p @ '' are valid, 0 are'') s of
                  (e, s1) \<Rightarrow> Some (failureWithException (ValidityException (emessage e) pending), s1))
          else Some (simpleSuccess, s))"
| "quantifiedLoop vj pos v q (a # as) validCount pending s =
     do {
       (r, s1) \<leftarrow> vj pos v a s;
       let ok = vStatusValid (status r);
       let validCount1 = (if ok then validCount + 1 else validCount);
       let pending1 = pending @ failed_child r;
       (if q = QUANT_ALL \<and> \<not> ok
        then (case pathException (\<lambda>p. ''not allOf schemas at '' @ quoted p @ '' are valid'') s1 of
                (e, s2) \<Rightarrow> Some (failureWithException (ValidityException (emessage e) pending1), s2))
        else if q = QUANT_ANY \<and> validCount1 > 0 then Some (simpleSuccess, s1)
        else if q \<noteq> QUANT_ALL \<and> validCount1 > 1
        then Some (failureWithException (ValidityException None []), s1\<lparr>broken := True\<rparr>)
        else quantifiedLoop vj pos v q as validCount1 pending1 s1)
     }"

definition validateQuantifiedSpecs :: "validate_fun \<Rightarrow> position \<Rightarrow> json \<Rightarrow> quantType \<Rightarrow> sptr list option \<Rightarrow>
    vstate \<Rightarrow> (vResult \<times> vstate) option" where
  "validateQuantifiedSpecs vj pos v q specs s =
     (case specs of None \<Rightarrow> Some (simpleSuccess, s) | Some as \<Rightarrow> quantifiedLoop vj pos v q as 0 [] s)"

definition validateNot :: "validate_fun \<Rightarrow> position \<Rightarrow> json \<Rightarrow> sptr option \<Rightarrow> vstate \<Rightarrow>
    (vResult \<times> vstate) option" where
  "validateNot vj pos v spec s =
     (case spec of
        None \<Rightarrow> Some (simpleSuccess, s)
      | Some a \<Rightarrow> do {
          (r, s1) \<leftarrow> vj pos v a s;
          Some (if vStatusValid (status r)
                then simpleFailure (\<lambda>p. ''negated schema at '' @ p @ '' is valid'') s1
                else (simpleSuccess, s1)) })"

text \<open>The failure of a composite level: its own message is used as a format.\<close>

definition compositeFailure :: "vResult list \<Rightarrow> vstate \<Rightarrow> vResult \<times> vstate" where
  "compositeFailure parts s =
     (case pathException (\<lambda>p. ''Schema at '' @ quoted p @ '' invalid'') s of
        (e, s1) \<Rightarrow>
          (failureWithException (ValidityException (emessage e) (concat (map failed_child parts))),
           s1\<lparr>broken := broken s1 \<or> CHR ''%'' \<in> set (the (emessage e))\<rparr>))"

definition validateComposite :: "jsonValidator \<Rightarrow> validate_fun \<Rightarrow> position \<Rightarrow> json \<Rightarrow> jsValueSpec \<Rightarrow> vstate \<Rightarrow>
    (vResult \<times> vstate) option" where
  "validateComposite V vj pos v spec s =
     do {
       (allOfValidity, s1) \<leftarrow> validateQuantifiedSpecs vj pos v QUANT_ALL (allOf spec) s;
       (anyOfValidity, s2) \<leftarrow> validateQuantifiedSpecs vj pos v QUANT_ANY (anyOf spec) s1;
       (oneOfValidity, s3) \<leftarrow> validateQuantifiedSpecs vj pos v QUANT_ONE (oneOf spec) s2;
       (notValidity, s4) \<leftarrow> validateNot vj pos v (notSpec spec) s3;
       (simpleValidity, s5) \<leftarrow> validateJSONSimple V vj pos v spec s4;
       let totalValidity =
         vStatusMin (status allOfValidity)
           (vStatusMin (status anyOfValidity)
             (vStatusMin (status oneOfValidity)
               (vStatusMin (status notValidity) (status simpleValidity))));
       Some (if totalValidity = ValidContinue then (simpleSuccess, s5)
             else if allOf spec = None \<and> anyOf spec = None \<and> oneOf spec = None \<and> notSpec spec = None
             then (simpleValidity, s5)
             else compositeFailure [allOfValidity, anyOfValidity, oneOfValidity, notValidity, simpleValidity] s5)
     }"

definition validateResolved :: "jsonValidator \<Rightarrow> validate_fun \<Rightarrow> position \<Rightarrow> json \<Rightarrow> jsValueSpec \<Rightarrow> vstate \<Rightarrow>
    (vResult \<times> vstate) option" where
  "validateResolved V vj pos v spec s =
     (case constValue spec of
        Some c \<Rightarrow> Some (validateConst c spec v s)
      | None \<Rightarrow>
          (case enumeratedValues spec of
             Some es \<Rightarrow> Some (validateEnum V es spec v s)
           | None \<Rightarrow> validateComposite V vj pos v spec s))"

text \<open>The set of this level is the first one; the callers' sets are behind it.\<close>

definition dropEvalSet :: "vResult \<times> vstate \<Rightarrow> vResult \<times> vstate" where
  "dropEvalSet rs = (fst rs, (snd rs)\<lparr>evalSets := tl (evalSets (snd rs))\<rparr>)"

fun validateJSON :: "jsonValidator \<Rightarrow> nat \<Rightarrow> validate_fun" where
  "validateJSON V 0 pos v a s = None"
| "validateJSON V (Suc n) pos v a s =
     (case refLoop n V a (extendEvalSets s) of
        None \<Rightarrow> None
      | Some (Inl text, s1) \<Rightarrow>
          Some (dropEvalSet (failureWithException (ValidityException (Some text) []), s1))
      | Some (Inr b, s1) \<Rightarrow>
          map_option dropEvalSet (validateResolved V (validateJSON V n) pos v (spec_at V b) s1))"

declare validateJSON.simps [simp del]

definition JSON_VALIDATOR_NO_EXCEPTIONS :: int where "JSON_VALIDATOR_NO_EXCEPTIONS = 0"
definition JSON_VALIDATOR_HAS_EXCEPTIONS :: int where "JSON_VALIDATOR_HAS_EXCEPTIONS = 4"

definition initial_vstate :: vstate where
  "initial_vstate = \<lparr>accessPath = [], evalSets = [], broken = False\<rparr>"

text \<open>The result code, the top exception and the state at the end.\<close>

definition jsonValidateSchema :: "platform \<Rightarrow> specs \<Rightarrow> (position \<Rightarrow> 64 word) \<Rightarrow> nat \<Rightarrow> json \<Rightarrow> jsonSchema \<Rightarrow>
    jsonSchema list \<Rightarrow> (int \<times> validityException option \<times> vstate) option" where
  "jsonValidateSchema P st addr fuel v top1 others =
     (let V = \<lparr>vplat = P, vspecs = st, topSchema = top1, otherSchemas = others,
               allowStringToBeNull = True, addressOf = addr\<rparr> in
      case validateJSON V fuel [] v (topValueSpec top1) initial_vstate of
        None \<Rightarrow> None
      | Some (r, s) \<Rightarrow>
          if vStatusValid (status r) then Some (JSON_VALIDATOR_NO_EXCEPTIONS, None, s)
          else Some (JSON_VALIDATOR_HAS_EXCEPTIONS, vexception r, s))"

end
