(* ===== verification/SchemaMeaning.thy ===== *)
theory SchemaMeaning
  imports SchemaValidator
begin

section \<open>What a schema means\<close>

text \<open>
  A reference for the validator: the values that a schema admits, read off the JSON of the schema by the
  rules of JSON Schema, for the keywords that the code supports. The one rule that is the code's own is
  that a null stands for the empty string where strings are admitted and nulls are not.
\<close>

subsection \<open>The keywords of a schema\<close>

abbreviation kw :: "property list \<Rightarrow> string \<Rightarrow> json option" where
  "kw ps name \<equiv> jsonObjectGetPropertyValue ps name"

definition int_limit :: "property list \<Rightarrow> string \<Rightarrow> int option" where
  "int_limit ps name = (case kw ps name of Some (JInt64 i) \<Rightarrow> Some (sint i) | _ \<Rightarrow> None)"

definition flag_kw :: "property list \<Rightarrow> string \<Rightarrow> bool \<Rightarrow> bool" where
  "flag_kw ps name d = (case kw ps name of Some (JBoolean b) \<Rightarrow> b \<noteq> 0 | _ \<Rightarrow> d)"

definition strings_of :: "json list \<Rightarrow> string list" where
  "strings_of js = concat (map (\<lambda>j. case j of JString s \<Rightarrow> [s] | _ \<Rightarrow> []) js)"

definition list_kw :: "property list \<Rightarrow> string \<Rightarrow> json list" where
  "list_kw ps name = (case kw ps name of Some (JArray js) \<Rightarrow> js | _ \<Rightarrow> [])"

definition members_kw :: "property list \<Rightarrow> string \<Rightarrow> property list" where
  "members_kw ps name = (case kw ps name of Some (JObject qs) \<Rightarrow> qs | _ \<Rightarrow> [])"

definition schema_types :: "property list \<Rightarrow> string list" where
  "schema_types ps =
     (case kw ps ''type'' of
        None \<Rightarrow> allJSTypeNames
      | Some v \<Rightarrow> (case v of JString s \<Rightarrow> [s] | JArray js \<Rightarrow> strings_of js | _ \<Rightarrow> []))"

definition permits :: "property list \<Rightarrow> string \<Rightarrow> bool" where
  "permits ps t \<longleftrightarrow> t \<in> set (schema_types ps) \<or> t = ''integer'' \<and> ''number'' \<in> set (schema_types ps)"

fun value_type :: "json \<Rightarrow> string" where
  "value_type JNull = ''null''"
| "value_type (JBoolean _) = ''boolean''"
| "value_type (JObject _) = ''object''"
| "value_type (JArray _) = ''array''"
| "value_type (JString _) = ''string''"
| "value_type (JNumber _) = ''number''"
| "value_type (JDouble _) = ''number''"
| "value_type (JInt64 _) = ''integer''"
| "value_type (JError _) = ''error''"

definition effective :: "property list \<Rightarrow> json \<Rightarrow> json" where
  "effective ps v = (if v = JNull \<and> \<not> permits ps ''null'' \<and> permits ps ''string'' then JString [] else v)"

subsection \<open>The tests for each type\<close>

definition within :: "property list \<Rightarrow> string \<Rightarrow> string \<Rightarrow> int \<Rightarrow> bool" where
  "within ps lo hi n \<longleftrightarrow> list_all (\<lambda>m. m \<le> n) (case int_limit ps lo of None \<Rightarrow> [] | Some m \<Rightarrow> [m]) \<and>
     list_all (\<lambda>m. n \<le> m) (case int_limit ps hi of None \<Rightarrow> [] | Some m \<Rightarrow> [m])"

definition conforms_string :: "platform \<Rightarrow> property list \<Rightarrow> string \<Rightarrow> bool" where
  "conforms_string P ps s \<longleftrightarrow>
     within ps ''minLength'' ''maxLength'' (int (length s)) \<and>
     (case kw ps ''pattern'' of
        Some (JString pat) \<Rightarrow> \<not> (regexComp P pat = 0 \<and> fst (regexExec P pat s) \<noteq> 0)
      | _ \<Rightarrow> True)"

definition conforms_integer :: "property list \<Rightarrow> int \<Rightarrow> bool" where
  "conforms_integer ps i \<longleftrightarrow>
     (case int_limit ps ''minimum'' of
        None \<Rightarrow> True
      | Some m \<Rightarrow> if flag_kw ps ''exclusiveMinimum'' False then m < i else m \<le> i) \<and>
     (case int_limit ps ''maximum'' of
        None \<Rightarrow> True
      | Some m \<Rightarrow> if flag_kw ps ''exclusiveMaximum'' False then i < m else i \<le> m)"

definition beyond :: "platform \<Rightarrow> bool \<Rightarrow> double \<Rightarrow> double \<Rightarrow> bool" where
  "beyond P excl a b \<longleftrightarrow> (if excl then fp_le P a b else fp_lt P a b)"

definition conforms_number :: "platform \<Rightarrow> property list \<Rightarrow> double \<Rightarrow> bool" where
  "conforms_number P ps d \<longleftrightarrow>
     (case kw ps ''minimum'' of
        None \<Rightarrow> True
      | Some m \<Rightarrow> \<not> beyond P (flag_kw ps ''exclusiveMinimum'' False) d (jsonAsDouble (fpo P) m)) \<and>
     (case kw ps ''maximum'' of
        None \<Rightarrow> True
      | Some m \<Rightarrow> \<not> beyond P (flag_kw ps ''exclusiveMaximum'' False) (jsonAsDouble (fpo P) m) d)"

type_synonym meaning = "json \<Rightarrow> json \<Rightarrow> bool"

definition conforms_array :: "meaning \<Rightarrow> property list \<Rightarrow> json list \<Rightarrow> bool" where
  "conforms_array c ps vs \<longleftrightarrow>
     within ps ''minItems'' ''maxItems'' (int (length vs)) \<and>
     (case kw ps ''items'' of None \<Rightarrow> True | Some S \<Rightarrow> list_all (c S) vs)"

text \<open>The schema of a property: the last one given for its name, else that of the first pattern that matches.\<close>

definition property_schema :: "platform \<Rightarrow> property list \<Rightarrow> string \<Rightarrow> json option" where
  "property_schema P ps name =
     (case map_of (rev (members_kw ps ''properties'')) name of
        Some S \<Rightarrow> Some S
      | None \<Rightarrow> map_option snd
          (find (\<lambda>m. regexComp P (fst m) = 0 \<and> fst (regexExec P (fst m) name) = 0)
             (members_kw ps ''patternProperties'')))"

definition conforms_object :: "meaning \<Rightarrow> platform \<Rightarrow> property list \<Rightarrow> property list \<Rightarrow> bool" where
  "conforms_object c P ps qs \<longleftrightarrow>
     list_all (\<lambda>name. jsonObjectHasKey qs name) (strings_of (list_kw ps ''required'')) \<and>
     list_all (\<lambda>m. case property_schema P ps (fst m) of
                     Some S \<Rightarrow> c S (snd m)
                   | None \<Rightarrow> flag_kw ps ''additionalProperties'' True) qs"

definition conforms_value :: "meaning \<Rightarrow> platform \<Rightarrow> property list \<Rightarrow> json \<Rightarrow> bool" where
  "conforms_value c P ps v \<longleftrightarrow>
     (case v of
        JString s \<Rightarrow> conforms_string P ps s
      | JInt64 i \<Rightarrow> conforms_integer ps (sint i)
      | JNumber _ \<Rightarrow> conforms_number P ps (jsonAsDouble (fpo P) v)
      | JDouble _ \<Rightarrow> conforms_number P ps (jsonAsDouble (fpo P) v)
      | JArray vs \<Rightarrow> conforms_array c ps vs
      | JObject qs \<Rightarrow> conforms_object c P ps qs
      | _ \<Rightarrow> True)"

subsection \<open>A whole schema\<close>

definition conforms_composites :: "meaning \<Rightarrow> property list \<Rightarrow> json \<Rightarrow> bool" where
  "conforms_composites c ps v \<longleftrightarrow>
     (case jsonObjectGetArray ps ''allOf'' of None \<Rightarrow> True | Some Ss \<Rightarrow> list_all (\<lambda>S. c S v) Ss) \<and>
     (case jsonObjectGetArray ps ''anyOf'' of None \<Rightarrow> True | Some Ss \<Rightarrow> list_ex (\<lambda>S. c S v) Ss) \<and>
     (case jsonObjectGetArray ps ''oneOf'' of None \<Rightarrow> True | Some Ss \<Rightarrow> length (filter (\<lambda>S. c S v) Ss) = 1) \<and>
     (case kw ps ''not'' of None \<Rightarrow> True | Some S \<Rightarrow> \<not> c S v)"

definition conforms_schema :: "meaning \<Rightarrow> platform \<Rightarrow> property list \<Rightarrow> json \<Rightarrow> bool" where
  "conforms_schema c P ps v \<longleftrightarrow>
     (let w = effective ps v in
      permits ps (value_type w) \<and>
      (case kw ps ''const'' of None \<Rightarrow> True | Some k \<Rightarrow> v = copied k) \<and>
      (case kw ps ''enum'' of Some (JArray es) \<Rightarrow> list_ex (\<lambda>e. w = copied e) es | _ \<Rightarrow> True) \<and>
      conforms_composites c ps v \<and>
      conforms_value c P ps w)"

lemma list_all_cong_set: "(\<And>x. x \<in> set xs \<Longrightarrow> f x = g x) \<Longrightarrow> list_all f xs = list_all g xs"
  by (simp add: list_all_iff)

lemma list_ex_cong_set: "(\<And>x. x \<in> set xs \<Longrightarrow> f x = g x) \<Longrightarrow> list_ex f xs = list_ex g xs"
  by (simp add: list_ex_iff)

definition meaning_below :: "property list \<Rightarrow> meaning \<Rightarrow> meaning \<Rightarrow> bool" where
  "meaning_below ps c d \<longleftrightarrow> (\<forall>S v. size S < size (JObject ps) \<longrightarrow> c S v = d S v)"

lemma find_member: "find f xs = Some x \<Longrightarrow> x \<in> set xs"
  by (induction xs) (auto split: if_splits)

lemma property_schema_size:
  assumes "property_schema P ps name = Some S"
  shows "size S < size (JObject ps)"
proof -
  have member: "size (snd m) < size (JObject ps)" if "m \<in> set (members_kw ps k)" for m k
  proof -
    from that have "kw ps k = Some (JObject (members_kw ps k))"
      by (cases "kw ps k") (auto simp: members_kw_def split: json.splits)
    from member_size [OF this that] show ?thesis .
  qed
  show ?thesis
  proof (cases "map_of (rev (members_kw ps ''properties'')) name")
    case None
    let ?f = "\<lambda>m. regexComp P (fst m) = 0 \<and> fst (regexExec P (fst m) name) = 0"
    from None assms obtain m where m: "find ?f (members_kw ps ''patternProperties'') = Some m" "snd m = S"
      by (auto simp: property_schema_def)
    from find_member [OF m(1)] have "m \<in> set (members_kw ps ''patternProperties'')" .
    with m(2) member show ?thesis by blast
  next
    case (Some S')
    then have "(name, S') \<in> set (members_kw ps ''properties'')" by (auto dest: map_of_SomeD)
    with member Some assms show ?thesis by (fastforce simp: property_schema_def)
  qed
qed

lemma conforms_value_cong: "meaning_below ps c d \<Longrightarrow> conforms_value c P ps v = conforms_value d P ps v"
proof -
  assume m: "meaning_below ps c d"
  have "conforms_array c ps vs = conforms_array d ps vs" for vs
    using m property_value_size [of ps "''items''"]
    by (auto simp: conforms_array_def meaning_below_def list_all_iff split: option.split)
  moreover have "conforms_object c P ps qs = conforms_object d P ps qs" for qs
    using m property_schema_size [of P ps]
    by (auto simp: conforms_object_def meaning_below_def list_all_iff split: option.split)
  ultimately show ?thesis by (simp add: conforms_value_def split: json.split)
qed

lemma conforms_composites_cong: "meaning_below ps c d \<Longrightarrow> conforms_composites c ps v = conforms_composites d ps v"
proof -
  assume m: "meaning_below ps c d"
  have "c S v = d S v" if "jsonObjectGetArray ps k = Some Ss" "S \<in> set Ss" for k S Ss
    using m element_size [OF jsonObjectGetArray_Some [OF that(1)] that(2)] by (simp add: meaning_below_def)
  moreover have "c S v = d S v" if "kw ps ''not'' = Some S" for S
    using m property_value_size [OF that] by (simp add: meaning_below_def)
  ultimately show ?thesis
    unfolding conforms_composites_def
    by (auto simp: list_all_iff list_ex_iff split: option.split cong: filter_cong)
qed

lemma conforms_schema_cong [fundef_cong]:
  assumes "ps = ps'" "v = v'" "\<And>S w. size S < size (JObject ps') \<Longrightarrow> c S w = d S w"
  shows "conforms_schema c P ps v = conforms_schema d P ps' v'"
proof -
  have "meaning_below ps' c d" using assms(3) by (simp add: meaning_below_def)
  then show ?thesis
    by (simp only: assms(1,2) conforms_schema_def conforms_value_cong conforms_composites_cong)
qed

function conforms :: "platform \<Rightarrow> json \<Rightarrow> json \<Rightarrow> bool" where
  "conforms P S v = (case S of JObject ps \<Rightarrow> conforms_schema (conforms P) P ps v | _ \<Rightarrow> False)"
  by pat_completeness auto
termination
  by (relation "measure (\<lambda>(P, S, v). size S)") auto

declare conforms.simps [simp del]

end
