(* ===== verification/SchemaBuild.thy ===== *)
theory SchemaBuild
  imports SchemaMeaning
begin

section \<open>A built schema describes its JSON\<close>

text \<open>
  What \<open>build\<close> leaves in the store: older specs keep everything but their tables of anchors and
  identifiers, and the new spec has the fields that its JSON asks for, over sub-specs that are right
  in the same sense.
\<close>

subsection \<open>Runs of a builder\<close>

lemma run_andThen:
  "andThen m f st = Inr (y, st2) \<longleftrightarrow> (\<exists>x st1. m st = Inr (x, st1) \<and> f x st1 = Inr (y, st2))"
  by (auto simp: andThen_def split: sum.split)

lemma run_yield [simp]: "yield x st = Inr (y, st1) \<longleftrightarrow> y = x \<and> st1 = st"
  by (auto simp: yield_def)

lemma run_throw [simp]:
  "schemaThrow text st = Inr r \<longleftrightarrow> False" "schemaThrowGarbled st = Inr r \<longleftrightarrow> False"
  by (simp_all add: schemaThrow_def schemaThrowGarbled_def)

lemma run_modify: "modify a f st = Inr (x, st1) \<longleftrightarrow> st1 = st[a := f (st ! a)]"
  by (auto simp: modify_def)

lemma run_look [simp]: "look f st = Inr (x, st1) \<longleftrightarrow> x = f st \<and> st1 = st"
  by (auto simp: look_def)

subsection \<open>What a builder keeps\<close>

definition clean :: "jsValueSpec \<Rightarrow> jsValueSpec" where
  "clean s = s\<lparr>anchorTable := None, idTable := None\<rparr>"

lemma clean_fields [simp]:
  "typeMask (clean s) = typeMask s" "ref (clean s) = ref s" "parent (clean s) = parent s"
  "specId (clean s) = specId s" "clean (clean s) = clean s"
  by (simp_all add: clean_def)

definition keeps :: "'a builder \<Rightarrow> sptr set \<Rightarrow> bool" where
  "keeps m A \<longleftrightarrow> (\<forall>st x st1. m st = Inr (x, st1) \<longrightarrow>
     length st \<le> length st1 \<and> (\<forall>i<length st. i \<notin> A \<longrightarrow> clean (st1 ! i) = clean (st ! i)))"

lemma keeps_mono: "keeps m A \<Longrightarrow> A \<subseteq> B \<Longrightarrow> keeps m B"
  unfolding keeps_def by blast

lemma keeps_andThen_run:
  assumes "keeps m A" "\<And>x st st1. m st = Inr (x, st1) \<Longrightarrow> keeps (f x) A"
  shows "keeps (andThen m f) A"
  unfolding keeps_def
proof (intro allI impI)
  fix st y st2
  assume "andThen m f st = Inr (y, st2)"
  then obtain x st1 where m: "m st = Inr (x, st1)" and f: "f x st1 = Inr (y, st2)" by (auto simp: run_andThen)
  from assms(1) m have 1: "length st \<le> length st1" "\<And>i. i < length st \<Longrightarrow> i \<notin> A \<Longrightarrow> clean (st1 ! i) = clean (st ! i)"
    unfolding keeps_def by blast+
  from assms(2) [OF m] f have 2: "length st1 \<le> length st2" "\<And>i. i < length st1 \<Longrightarrow> i \<notin> A \<Longrightarrow> clean (st2 ! i) = clean (st1 ! i)"
    unfolding keeps_def by blast+
  show "length st \<le> length st2 \<and> (\<forall>i<length st. i \<notin> A \<longrightarrow> clean (st2 ! i) = clean (st ! i))"
    using 1 2 by auto
qed

lemma keeps_andThen: "keeps m A \<Longrightarrow> (\<And>x. keeps (f x) A) \<Longrightarrow> keeps (andThen m f) A"
  by (rule keeps_andThen_run)

lemma keeps_yield: "keeps (yield x) A"
  by (simp add: keeps_def)

lemma keeps_look: "keeps (look f) A"
  by (simp add: keeps_def)

lemma keeps_throw: "keeps (schemaThrow text) A" "keeps schemaThrowGarbled A"
  by (simp_all add: keeps_def)

lemma updated_nth: "i < length st \<Longrightarrow> st[a := y] ! i = (if i = a then y else st ! i)"
  by (cases "a < length st") auto

lemma keeps_modify: "a \<in> A \<Longrightarrow> keeps (modify a f) A"
  by (auto simp: keeps_def run_modify updated_nth)

lemma keeps_tables: "(\<And>s. clean (f s) = clean s) \<Longrightarrow> keeps (modify a f) A"
  by (auto simp: keeps_def run_modify updated_nth)

lemma keeps_mapS: "(\<And>x. x \<in> set xs \<Longrightarrow> keeps (f x) A) \<Longrightarrow> keeps (mapS f xs) A"
  by (induction xs) (simp_all add: keeps_yield keeps_andThen)

lemma keeps_ifSome: "(\<And>x. m = Some x \<Longrightarrow> keeps (f x) A) \<Longrightarrow> keeps (ifSome m f) A"
  by (cases m) (simp_all add: ifSome_def keeps_yield)

lemmas keeps_rules = keeps_andThen keeps_yield keeps_look keeps_throw keeps_mapS keeps_ifSome keeps_modify

lemma keeps_getters:
  "keeps (getStringOrFail ps k) A" "keeps (getString ps k ds) A" "keeps (getBooleanValue ps k db) A"
  "keeps (getNumber P ps k dn) A" "keeps (getIntegralValue ps k di) A" "keeps (getArrayValue ps k) A"
  "keeps (getObjectValue ps k) A" "keeps (getJSTypeForName name) A" "keeps (checkNonNegative i name) A"
  "keeps (checkPositiveDouble P d name) A"
  by (simp_all add: getStringOrFail_def getString_def getBooleanValue_def getNumber_def getIntegralValue_def
      getArrayValue_def getObjectValue_def getJSTypeForName_def checkNonNegative_def checkPositiveDouble_def
      keeps_yield keeps_throw split: option.split json.split)

lemma keeps_getStringArray: "keeps (getStringArrayOrFail js) A"
  by (auto simp: getStringArrayOrFail_def keeps_yield keeps_throw intro!: keeps_mapS split: json.split)

lemma keeps_getStringMap: "keeps (getStringToStringsMapOrFail qs) A"
  unfolding getStringToStringsMapOrFail_def
  by (auto intro!: keeps_rules keeps_getStringArray split: json.split)

lemma keeps_getID: "keeps (getID ps) A"
  unfolding getID_def by (auto intro!: keeps_rules keeps_getters)

lemma keeps_typeNames: "keeps (typeNames ps) A"
  unfolding typeNames_def
  by (auto intro!: keeps_rules keeps_getters keeps_getStringArray split: option.split json.split)

lemma keeps_index: "keeps (indexByAnchor a name) A" "keeps (indexByID a name) A"
  unfolding indexByAnchor_def indexByID_def
  by (auto intro!: keeps_andThen keeps_look keeps_tables simp: clean_def)

lemma keeps_useLimit: "a \<in> A \<Longrightarrow> keeps (useLimit a v name flag) A"
  unfolding useLimit_def by (auto intro!: keeps_rules keeps_getters)

subsection \<open>The frame of \<open>build\<close>\<close>

lemma keeps_buildMember: "keeps (bld (Some a) (snd kv)) A \<Longrightarrow> keeps (buildMember bld a kv) A"
  unfolding buildMember_def by (intro keeps_rules)

definition below_keeps :: "property list \<Rightarrow> build_fun \<Rightarrow> bool" where
  "below_keeps ps bld \<longleftrightarrow> (\<forall>par v. size v < size (JObject ps) \<longrightarrow> keeps (bld par v) {})"

lemma below_keepsD: "below_keeps ps bld \<Longrightarrow> size v < size (JObject ps) \<Longrightarrow> keeps (bld par v) A"
  unfolding below_keeps_def using keeps_mono by blast

lemma keeps_members:
  "below_keeps ps bld \<Longrightarrow> kw ps k = Some (JObject qs) \<Longrightarrow> keeps (mapS (buildMember bld a) qs) A"
  by (intro keeps_mapS keeps_buildMember) (metis below_keepsD member_size)

lemma keeps_value:
  "below_keeps ps bld \<Longrightarrow> kw ps k = Some v \<Longrightarrow> keeps (bld par v) A"
  using below_keepsD property_value_size by blast

lemma keeps_getComposite: "below_keeps ps bld \<Longrightarrow> keeps (getComposite bld a ps k) A"
  unfolding getComposite_def
  by (auto intro!: keeps_rules split: option.split)
     (metis below_keepsD element_size jsonObjectGetArray_Some)

lemma keeps_getDefinitions: "below_keeps ps bld \<Longrightarrow> keeps (getDefinitions bld a ps) A"
  unfolding getDefinitions_def
  by (rule keeps_andThen_run [OF keeps_getters(7)])
     (auto intro!: keeps_andThen keeps_yield keeps_members dest: getObjectValue_Some split: option.split)

lemma keeps_addPatternProperties: "below_keeps ps bld \<Longrightarrow> a \<in> A \<Longrightarrow> keeps (addPatternProperties bld a ps) A"
  unfolding addPatternProperties_def
  by (rule keeps_andThen_run [OF keeps_getters(7)])
     (auto intro!: keeps_ifSome keeps_andThen keeps_modify keeps_members dest: getObjectValue_Some)

lemma keeps_buildNot: "below_keeps ps bld \<Longrightarrow> a \<in> A \<Longrightarrow> keeps (buildNot bld a ps) A"
  unfolding buildNot_def by (auto intro!: keeps_rules keeps_value)

lemma keeps_buildConstAndEnum: "a \<in> A \<Longrightarrow> keeps (buildConstAndEnum a ps) A"
  unfolding buildConstAndEnum_def Let_def by (auto intro!: keeps_rules keeps_getters)

lemma keeps_buildObjectType: "below_keeps ps bld \<Longrightarrow> a \<in> A \<Longrightarrow> keeps (buildObjectType bld a ps) A"
  unfolding buildObjectType_def buildPropertyLimits_def buildProperties_def
  by (auto intro!: keeps_andThen keeps_ifSome keeps_yield keeps_throw keeps_modify keeps_getters
      keeps_useLimit keeps_getStringArray keeps_getStringMap keeps_members split: json.split)

lemma keeps_buildArrayType: "below_keeps ps bld \<Longrightarrow> a \<in> A \<Longrightarrow> keeps (buildArrayType bld a ps) A"
  unfolding buildArrayType_def
  by (intro keeps_andThen keeps_ifSome keeps_modify keeps_getters keeps_useLimit keeps_value)

lemma keeps_buildStringType: "a \<in> A \<Longrightarrow> keeps (buildStringType a ps) A"
  unfolding buildStringType_def by (intro keeps_andThen keeps_modify keeps_getters keeps_useLimit)

lemma keeps_buildNumberType: "a \<in> A \<Longrightarrow> keeps (buildNumberType P a ps) A"
  unfolding buildNumberType_def useFloat_def
  by (auto intro!: keeps_andThen keeps_modify keeps_yield keeps_getters)

lemma keeps_buildTypesLoop:
  assumes "below_keeps ps bld" "a \<in> A"
  shows "keeps (buildTypesLoop P bld a ps h ts) A"
proof (induction ts arbitrary: h)
  case (Cons t ts)
  have "keeps (buildTypeCode P bld a ps h t) A" unfolding buildTypeCode_def
    by (auto intro!: keeps_andThen keeps_look keeps_yield keeps_buildObjectType keeps_buildArrayType
        keeps_buildStringType keeps_buildNumberType assms)
  with Cons show ?case by (simp add: keeps_andThen)
qed (simp add: keeps_yield)

lemma keeps_buildKeywords: "below_keeps ps bld \<Longrightarrow> a \<in> A \<Longrightarrow> keeps (buildKeywords P bld a ps) A"
  unfolding buildKeywords_def
  by (intro keeps_andThen keeps_modify keeps_getters keeps_getDefinitions keeps_addPatternProperties
      keeps_getComposite keeps_buildNot keeps_buildConstAndEnum keeps_buildTypesLoop)

lemma keeps_setHostAndFile: "a \<in> A \<Longrightarrow> keeps (setHostAndFile P a i) A"
  unfolding setHostAndFile_def by (auto intro!: keeps_rules split: prod.split)

lemma keeps_addTypeName: "a \<in> A \<Longrightarrow> keeps (addTypeName a name) A"
  unfolding addTypeName_def by (intro keeps_andThen keeps_modify keeps_getters)

text \<open>What follows the creation of the new spec.\<close>

definition fillSpec :: "platform \<Rightarrow> sptr \<Rightarrow> string option \<Rightarrow> string list \<Rightarrow> sptr builder" where
  "fillSpec P a i names =
     andThen (ifSome i (\<lambda>s. andThen (indexByID a s) (\<lambda>_. setHostAndFile P a s))) (\<lambda>_.
     andThen (mapS (addTypeName a) names) (\<lambda>_. yield a))"

lemma makeValueSpec_fill:
  "makeValueSpec P par i descr titl names st =
     fillSpec P (length st) i names
       (st @ [cleared_spec\<lparr>specId := i, description := descr, title := titl, parent := par\<rparr>])"
  by (simp add: makeValueSpec_def fillSpec_def newSpec_def andThen_def)

lemma keeps_fillSpec: "a \<in> A \<Longrightarrow> keeps (fillSpec P a i names) A"
  unfolding fillSpec_def
  by (intro keeps_andThen keeps_ifSome keeps_mapS keeps_yield keeps_index keeps_setHostAndFile keeps_addTypeName)

lemma fillSpec_result: "fillSpec P a i names st = Inr (b, st1) \<Longrightarrow> b = a"
  by (auto simp: fillSpec_def run_andThen)

definition afterSpec :: "platform \<Rightarrow> build_fun \<Rightarrow> sptr \<Rightarrow> property list \<Rightarrow> sptr builder" where
  "afterSpec P bld a ps =
     andThen (getString ps ''$ref'' None) (\<lambda>r.
     andThen (getString ps ''$anchor'' None) (\<lambda>anch.
     andThen (modify a (\<lambda>s. s\<lparr>ref := r, anchor := anch\<rparr>)) (\<lambda>_.
     andThen (ifSome anch (indexByAnchor a)) (\<lambda>_.
     if r \<noteq> None then yield a
     else andThen (buildKeywords P bld a ps) (\<lambda>_. yield a)))))"

lemma keeps_afterSpec: "below_keeps ps bld \<Longrightarrow> a \<in> A \<Longrightarrow> keeps (afterSpec P bld a ps) A"
  unfolding afterSpec_def
  by (auto intro!: keeps_andThen keeps_ifSome keeps_modify keeps_yield keeps_getters keeps_index keeps_buildKeywords)

lemma afterSpec_result: "afterSpec P bld a ps st = Inr (b, st1) \<Longrightarrow> b = a"
  by (auto simp: afterSpec_def run_andThen split: if_splits)

lemma getString_state: "getString ps k d st = Inr (x, st1) \<Longrightarrow> st1 = st"
  by (auto simp: getString_def split: option.splits json.splits)

lemma getStringArray_run: "getStringArrayOrFail js st = Inr (x, st1) \<Longrightarrow> st1 = st \<and> x = strings_of js"
proof (induction js arbitrary: x)
  case (Cons j js)
  from Cons.prems obtain s ss where "j = JString s" "getStringArrayOrFail js st = Inr (ss, st1)" "x = s # ss"
    by (auto simp: getStringArrayOrFail_def run_andThen split: json.splits)
  with Cons.IH show ?case by (simp add: strings_of_def)
qed (simp add: getStringArrayOrFail_def strings_of_def)

lemma typeNames_run: "typeNames ps st = Inr (names, st1) \<Longrightarrow> st1 = st \<and> names = schema_types ps"
proof -
  assume run: "typeNames ps st = Inr (names, st1)"
  show ?thesis
  proof (cases "kw ps ''type''")
    case None
    with run show ?thesis by (simp add: typeNames_def schema_types_def)
  next
    case (Some v)
    with run show ?thesis
      by (cases v) (auto simp: typeNames_def schema_types_def jsonIsString_def json_type_codes run_andThen
          getStringOrFail_def dest: getStringArray_run)
  qed
qed

lemma getID_state: "getID ps st = Inr (x, st1) \<Longrightarrow> st1 = st"
  by (auto simp: getID_def run_andThen dest!: getString_state split: if_splits)

lemma buildObject_after:
  "buildObject P bld par ps =
     andThen (typeNames ps) (\<lambda>names.
     andThen (getString ps ''description'' None) (\<lambda>descr.
     andThen (getString ps ''title'' None) (\<lambda>titl.
     andThen (getID ps) (\<lambda>i.
     andThen (makeValueSpec P par i descr titl names) (\<lambda>a. afterSpec P bld a ps)))))"
  by (simp only: buildObject_def afterSpec_def)

lemma buildObject_run:
  assumes "buildObject P bld par ps st = Inr (b, st2)"
  obtains i descr titl st1 where
    "fillSpec P (length st) i (schema_types ps)
       (st @ [cleared_spec\<lparr>specId := i, description := descr, title := titl, parent := par\<rparr>]) = Inr (length st, st1)"
    "afterSpec P bld (length st) ps st1 = Inr (b, st2)" "b = length st"
proof -
  from assms obtain i descr titl a st1 where
    m: "makeValueSpec P par i descr titl (schema_types ps) st = Inr (a, st1)" and
    r: "afterSpec P bld a ps st1 = Inr (b, st2)"
    unfolding buildObject_after by (auto simp: run_andThen dest!: typeNames_run getString_state getID_state)
  from m have f: "fillSpec P (length st) i (schema_types ps)
      (st @ [cleared_spec\<lparr>specId := i, description := descr, title := titl, parent := par\<rparr>]) = Inr (a, st1)"
    by (simp add: makeValueSpec_fill)
  from fillSpec_result [OF f] have a: "a = length st" .
  with f r afterSpec_result [OF r] that show ?thesis by blast
qed

lemma below_fresh:
  assumes "keeps m {length st}" "m (st @ [s]) = Inr (x, st1)"
  shows "length st < length st1" "\<And>i. i < length st \<Longrightarrow> clean (st1 ! i) = clean (st ! i)"
proof -
  from assms have k: "length (st @ [s]) \<le> length st1"
    "\<And>i. i < length (st @ [s]) \<Longrightarrow> i \<notin> {length st} \<Longrightarrow> clean (st1 ! i) = clean ((st @ [s]) ! i)"
    unfolding keeps_def by blast+
  then show "length st < length st1" by simp
  show "clean (st1 ! i) = clean (st ! i)" if "i < length st" for i
    using k(2) [of i] that by (simp add: nth_append)
qed

lemma build_frame: "build P par v st = Inr (b, st1) \<Longrightarrow> b = length st \<and> length st < length st1"
  and build_keeps: "keeps (build P par v) A"
proof -
  have "(\<forall>par st b st1. build P par v st = Inr (b, st1) \<longrightarrow> b = length st \<and> length st < length st1) \<and>
    (\<forall>par. keeps (build P par v) {})"
  proof (induction v rule: measure_induct_rule [of size])
    case (less v)
    show ?case
    proof (cases "\<exists>ps. v = JObject ps")
      case False
      then have "build P par v = schemaThrow ''top level schema must be an object''" for par
        by (auto simp: build.simps split: json.split)
      then show ?thesis by (simp add: keeps_throw)
    next
      case True
      then obtain ps where v: "v = JObject ps" by blast
      have b: "build P par v = buildObject P (build P) par ps" for par
        by (subst build.simps) (simp add: v)
      have bk: "below_keeps ps (build P)" unfolding below_keeps_def using less v by blast
      have run: "b = length st \<and> length st < length st1 \<and> (\<forall>i<length st. clean (st1 ! i) = clean (st ! i))"
        if r: "build P par v st = Inr (b, st1)" for par st b st1
      proof -
        from r have "buildObject P (build P) par ps st = Inr (b, st1)" by (simp add: b)
        then obtain i descr titl st0 where f: "fillSpec P (length st) i (schema_types ps)
              (st @ [cleared_spec\<lparr>specId := i, description := descr, title := titl, parent := par\<rparr>]) = Inr (length st, st0)"
          and g: "afterSpec P (build P) (length st) ps st0 = Inr (b, st1)" and "b = length st"
          by (rule buildObject_run)
        have 1: "length st < length st0" "\<And>i. i < length st \<Longrightarrow> clean (st0 ! i) = clean (st ! i)"
          using below_fresh [OF keeps_fillSpec f] by auto
        have "length st0 \<le> length st1 \<and> (\<forall>i<length st0. i \<notin> {length st} \<longrightarrow> clean (st1 ! i) = clean (st0 ! i))"
          using keeps_afterSpec [OF bk, of "length st" "{length st}" P] g unfolding keeps_def by blast
        with 1 \<open>b = length st\<close> show ?thesis by auto
      qed
      then show ?thesis unfolding keeps_def by fastforce
    qed
  qed
  then show "build P par v st = Inr (b, st1) \<Longrightarrow> b = length st \<and> length st < length st1" "keeps (build P par v) A"
    using keeps_mono by blast+
qed

lemma below_keeps_build: "below_keeps ps (build P)"
  by (simp add: below_keeps_def build_keeps)

subsection \<open>The right spec for a schema\<close>

type_synonym describes = "json \<Rightarrow> sptr \<Rightarrow> bool"

definition members_rel :: "describes \<Rightarrow> property list \<Rightarrow> (string \<times> sptr) list \<Rightarrow> bool" where
  "members_rel R qs kvs \<longleftrightarrow> list_all2 (\<lambda>m kv. fst m = fst kv \<and> R (snd m) (snd kv)) qs kvs"

definition limit_described :: "property list \<Rightarrow> string \<Rightarrow> nat \<Rightarrow> (jsValueSpec \<Rightarrow> int) \<Rightarrow> jsValueSpec \<Rightarrow> bool" where
  "limit_described ps k flag fld s \<longleftrightarrow>
     (case int_limit ps k of None \<Rightarrow> \<not> flag_set flag s | Some i \<Rightarrow> flag_set flag s \<and> fld s = i)"

definition float_described :: "platform \<Rightarrow> property list \<Rightarrow> string \<Rightarrow> nat \<Rightarrow> (jsValueSpec \<Rightarrow> double) \<Rightarrow> jsValueSpec \<Rightarrow> bool" where
  "float_described P ps k flag fld s \<longleftrightarrow>
     (case kw ps k of
        None \<Rightarrow> \<not> flag_set flag s
      | Some v \<Rightarrow> flag_set flag s \<and> fld s = jsonAsDouble (fpo P) v)"

definition object_described :: "describes \<Rightarrow> property list \<Rightarrow> jsValueSpec \<Rightarrow> bool" where
  "object_described R ps s \<longleftrightarrow>
     \<not> flag_set JS_VALIDATOR_MAX_PROPS s \<and> \<not> flag_set JS_VALIDATOR_MIN_PROPS s \<and>
     (case required s of None \<Rightarrow> [] | Some names \<Rightarrow> names) = strings_of (list_kw ps ''required'') \<and>
     (\<exists>kvs. members_rel R (members_kw ps ''properties'') kvs \<and>
            properties s = (if kvs = [] then None else Some (puts kvs)))"

definition array_described :: "describes \<Rightarrow> property list \<Rightarrow> jsValueSpec \<Rightarrow> bool" where
  "array_described R ps s \<longleftrightarrow>
     limit_described ps ''maxItems'' JS_VALIDATOR_MAX_ITEMS maxItems s \<and>
     limit_described ps ''minItems'' JS_VALIDATOR_MIN_ITEMS minItems s \<and>
     \<not> uniqueItems s \<and> rel_option R (kw ps ''items'') (itemSpec s)"

definition string_described :: "property list \<Rightarrow> jsValueSpec \<Rightarrow> bool" where
  "string_described ps s \<longleftrightarrow>
     limit_described ps ''maxLength'' JS_VALIDATOR_MAX_LENGTH maxLength s \<and>
     limit_described ps ''minLength'' JS_VALIDATOR_MIN_LENGTH minLength s \<and>
     pattern s = (case kw ps ''pattern'' of Some (JString pat) \<Rightarrow> Some pat | _ \<Rightarrow> None)"

definition number_described :: "platform \<Rightarrow> property list \<Rightarrow> jsValueSpec \<Rightarrow> bool" where
  "number_described P ps s \<longleftrightarrow>
     float_described P ps ''maximum'' JS_VALIDATOR_MAX maximum s \<and>
     float_described P ps ''minimum'' JS_VALIDATOR_MIN minimum s \<and>
     exclusiveMaximum s = flag_kw ps ''exclusiveMaximum'' False \<and>
     exclusiveMinimum s = flag_kw ps ''exclusiveMinimum'' False"

definition type_codes :: "(nat \<times> string) list" where
  "type_codes = [(JSTYPE_NULL, ''null''), (JSTYPE_BOOLEAN, ''boolean''), (JSTYPE_OBJECT, ''object''),
     (JSTYPE_ARRAY, ''array''), (JSTYPE_STRING, ''string''), (JSTYPE_NUMBER, ''number''),
     (JSTYPE_INTEGER, ''integer'')]"

definition types_described :: "property list \<Rightarrow> jsValueSpec \<Rightarrow> bool" where
  "types_described ps s \<longleftrightarrow> (\<forall>tn\<in>set type_codes. type_permitted (fst tn) s = permits ps (snd tn))"

definition composites_described :: "describes \<Rightarrow> property list \<Rightarrow> jsValueSpec \<Rightarrow> bool" where
  "composites_described R ps s \<longleftrightarrow>
     rel_option (list_all2 R) (jsonObjectGetArray ps ''allOf'') (allOf s) \<and>
     rel_option (list_all2 R) (jsonObjectGetArray ps ''anyOf'') (anyOf s) \<and>
     rel_option (list_all2 R) (jsonObjectGetArray ps ''oneOf'') (oneOf s) \<and>
     rel_option R (kw ps ''not'') (notSpec s)"

definition described :: "platform \<Rightarrow> describes \<Rightarrow> property list \<Rightarrow> jsValueSpec \<Rightarrow> bool" where
  "described P R ps s \<longleftrightarrow>
     ref s = None \<and> types_described ps s \<and>
     constValue s = map_option copied (kw ps ''const'') \<and>
     enumeratedValues s = (case kw ps ''enum'' of Some (JArray es) \<Rightarrow> Some (map copied es) | _ \<Rightarrow> None) \<and>
     unevaluatedProperties s \<and> additionalProperties s = flag_kw ps ''additionalProperties'' True \<and>
     members_rel R (members_kw ps ''patternProperties'') (patternProperties s) \<and>
     composites_described R ps s \<and>
     (permits ps ''object'' \<longrightarrow> object_described R ps s) \<and>
     (permits ps ''array'' \<longrightarrow> array_described R ps s) \<and>
     (permits ps ''string'' \<longrightarrow> string_described ps s) \<and>
     (permits ps ''integer'' \<longrightarrow> number_described P ps s)"

lemma members_rel_mono: "(\<And>v b. R v b \<longrightarrow> R' v b) \<Longrightarrow> members_rel R qs kvs \<longrightarrow> members_rel R' qs kvs"
  unfolding members_rel_def by (auto elim: list_all2_mono)

lemma described_mono [mono]: "(\<And>v b. R v b \<longrightarrow> R' v b) \<Longrightarrow> described P R ps s \<longrightarrow> described P R' ps s"
proof
  assume R: "\<And>v b. R v b \<longrightarrow> R' v b" and d: "described P R ps s"
  have le: "R \<le> R'" using R by auto
  have m: "members_rel R qs kvs \<Longrightarrow> members_rel R' qs kvs" for qs kvs using members_rel_mono [of R R'] R by blast
  have o: "rel_option R x y \<Longrightarrow> rel_option R' x y" for x y using option.rel_mono [OF le] by blast
  have l: "rel_option (list_all2 R) x y \<Longrightarrow> rel_option (list_all2 R') x y" for x y
    using option.rel_mono [OF list.rel_mono [OF le]] by blast
  show "described P R' ps s"
    using d m o l unfolding described_def composites_described_def object_described_def array_described_def by blast
qed

inductive represents :: "platform \<Rightarrow> specs \<Rightarrow> json \<Rightarrow> sptr \<Rightarrow> bool" for P st where
  represents_object: "a < length st \<Longrightarrow> described P (\<lambda>v b. a < b \<and> represents P st v b) ps (clean (st ! a)) \<Longrightarrow>
     represents P st (JObject ps) a"

inductive_cases represents_cases: "represents P st S a"

text \<open>Changes to older specs and to tables do not matter.\<close>

lemma represents_later:
  assumes "represents P st S b" "length st \<le> length st'"
    "\<And>i. b \<le> i \<Longrightarrow> i < length st \<Longrightarrow> clean (st' ! i) = clean (st ! i)"
  shows "represents P st' S b"
  using assms(1,3)
proof (induction rule: represents.induct)
  case (represents_object a ps)
  have "described P (\<lambda>v b. a < b \<and> represents P st' v b) ps (clean (st ! a))"
    by (rule described_mono [THEN mp, OF _ represents_object.IH]) (use represents_object.prems in auto)
  with represents_object assms(2) show ?case by (auto intro!: represents.intros)
qed

subsection \<open>Schemas of supported keywords\<close>

definition annotations :: "string list" where
  "annotations = [''title'', ''description'', ''$id'', ''id'', ''$anchor'', ''$defs'', ''type'', ''const'', ''enum'']"

definition assertions :: "string list" where
  "assertions = [''allOf'', ''anyOf'', ''oneOf'', ''not'', ''properties'', ''patternProperties'',
     ''additionalProperties'', ''required'', ''items'', ''minItems'', ''maxItems'', ''minLength'', ''maxLength'',
     ''pattern'', ''minimum'', ''maximum'', ''exclusiveMinimum'', ''exclusiveMaximum'']"

definition listed_ok :: "property list \<Rightarrow> json \<Rightarrow> bool" where
  "listed_ok ps e \<longleftrightarrow> json_scalar e \<and> permits ps (value_type e)"

definition has_values :: "property list \<Rightarrow> bool" where
  "has_values ps \<longleftrightarrow> jsonObjectHasKey ps ''const'' \<or> jsonObjectHasKey ps ''enum''"

definition plain_here :: "property list \<Rightarrow> bool" where
  "plain_here ps \<longleftrightarrow>
     list_all (\<lambda>m. fst m \<in> set (annotations @ assertions)) ps \<and>
     list_all (\<lambda>t. t \<in> set allJSTypeNames) (schema_types ps) \<and>
     \<not> (jsonObjectHasKey ps ''const'' \<and> jsonObjectHasKey ps ''enum'') \<and>
     (has_values ps \<longrightarrow> list_all (\<lambda>m. fst m \<in> set annotations) ps) \<and>
     list_all (\<lambda>e. listed_ok ps e) (list_kw ps ''enum'') \<and>
     (case kw ps ''const'' of None \<Rightarrow> True | Some e \<Rightarrow> listed_ok ps e) \<and>
     list_all (\<lambda>k. int_limit ps k \<noteq> Some MISSING_VALIDATOR) [''minItems'', ''maxItems'', ''minLength'', ''maxLength''] \<and>
     list_all (\<lambda>k. case kw ps k of
                     None \<Rightarrow> True
                   | Some v \<Rightarrow> (case v of JInt64 m \<Rightarrow> \<bar>sint m\<bar> \<le> 2 ^ 53 | _ \<Rightarrow> False)) [''minimum'', ''maximum'']"

definition subschemas :: "property list \<Rightarrow> json list" where
  "subschemas ps =
     map snd (members_kw ps ''properties'') @ map snd (members_kw ps ''patternProperties'') @
     concat (map (list_kw ps) [''allOf'', ''anyOf'', ''oneOf'']) @
     concat (map (\<lambda>k. case kw ps k of None \<Rightarrow> [] | Some v \<Rightarrow> [v]) [''not'', ''items''])"

lemma members_kw_size: "m \<in> set (members_kw ps k) \<Longrightarrow> size (snd m) < size (JObject ps)"
proof -
  assume m: "m \<in> set (members_kw ps k)"
  then have "kw ps k = Some (JObject (members_kw ps k))"
    by (cases "kw ps k") (auto simp: members_kw_def split: json.splits)
  from member_size [OF this m] show ?thesis .
qed

lemma list_kw_size: "v \<in> set (list_kw ps k) \<Longrightarrow> size v < size (JObject ps)"
proof -
  assume v: "v \<in> set (list_kw ps k)"
  then have "kw ps k = Some (JArray (list_kw ps k))"
    by (cases "kw ps k") (auto simp: list_kw_def split: json.splits)
  from element_size [OF this v] show ?thesis .
qed

lemma subschemas_size: "v \<in> set (subschemas ps) \<Longrightarrow> size v < size (JObject ps)"
  unfolding subschemas_def using members_kw_size [of _ ps] list_kw_size [of _ ps] property_value_size [of ps]
  by (auto split: option.splits)

definition all_sub :: "(json \<Rightarrow> bool) \<Rightarrow> property list \<Rightarrow> bool" where
  "all_sub f ps \<longleftrightarrow> list_all f (subschemas ps)"

lemma all_sub_cong [fundef_cong]:
  "ps = ps' \<Longrightarrow> (\<And>v. size v < size (JObject ps') \<Longrightarrow> f v = g v) \<Longrightarrow> all_sub f ps = all_sub g ps'"
  using subschemas_size by (auto simp: all_sub_def list_all_iff)

function plain_schema :: "json \<Rightarrow> bool" where
  "plain_schema S = (case S of JObject ps \<Rightarrow> plain_here ps \<and> all_sub plain_schema ps | _ \<Rightarrow> False)"
  by pat_completeness auto
termination
  by (relation "measure size") auto

declare plain_schema.simps [simp del]

lemma plain_object: "plain_schema (JObject ps) \<longleftrightarrow> plain_here ps \<and> (\<forall>v\<in>set (subschemas ps). plain_schema v)"
  by (subst plain_schema.simps) (simp add: all_sub_def list_all_iff)

lemma kw_in: "kw ps k = Some v \<Longrightarrow> (k, v) \<in> set ps"
  by (induction ps) (auto split: if_splits)

lemma has_key: "jsonObjectHasKey ps k \<longleftrightarrow> kw ps k \<noteq> None"
  by (induction ps) auto

lemma plain_supported: "plain_here ps \<Longrightarrow> k \<notin> set (annotations @ assertions) \<Longrightarrow> kw ps k = None"
  using kw_in [of ps k] by (cases "kw ps k") (force simp: plain_here_def list_all_iff)+

lemma plain_values: "plain_here ps \<Longrightarrow> has_values ps \<Longrightarrow> k \<notin> set annotations \<Longrightarrow> kw ps k = None"
  using kw_in [of ps k] by (cases "kw ps k") (force simp: plain_here_def list_all_iff)+

lemma plain_absent:
  assumes "plain_here ps"
  shows "kw ps ''$ref'' = None" "kw ps ''unevaluatedProperties'' = None" "kw ps ''minProperties'' = None"
    "kw ps ''maxProperties'' = None" "kw ps ''uniqueItems'' = None" "kw ps ''multipleOf'' = None"
    "kw ps ''dependentRequired'' = None" "kw ps ''minContains'' = None" "kw ps ''maxContains'' = None"
  by (rule plain_supported [OF assms], simp add: annotations_def assertions_def)+

definition exact_integers :: "platform \<Rightarrow> bool" where
  "exact_integers P \<longleftrightarrow> fp_eq P (MISSING_FLOAT_VALIDATOR P) (MISSING_FLOAT_VALIDATOR P) \<and>
     (\<forall>m. \<bar>m\<bar> \<le> 2 ^ 53 \<longrightarrow> sint (fp_to_int64 (fpo P) (int_to_fp (fpo P) m)) = m \<and>
          \<not> fp_eq P (int_to_fp (fpo P) m) (MISSING_FLOAT_VALIDATOR P))"

end
