(* ===== verification/SchemaDescribed.thy ===== *)
theory SchemaDescribed
  imports SchemaBuild
begin

section \<open>Building a schema of supported keywords\<close>

text \<open>
  The new spec followed through its phases: each changes the spec at its own address by a known update and
  leaves the others alone, so that the sub-specs built on the way stay right.
\<close>

subsection \<open>Steps at one address\<close>

definition step :: "sptr \<Rightarrow> (jsValueSpec \<Rightarrow> jsValueSpec) \<Rightarrow> specs \<Rightarrow> specs \<Rightarrow> bool" where
  "step a g st st' \<longleftrightarrow> a < length st \<and> length st \<le> length st' \<and>
     (\<forall>i<length st. i \<noteq> a \<longrightarrow> clean (st' ! i) = clean (st ! i)) \<and> clean (st' ! a) = g (clean (st ! a))"

lemma step_refl: "a < length st \<Longrightarrow> step a (\<lambda>s. s) st st"
  by (simp add: step_def)

lemma step_same: "a < length st \<Longrightarrow> (\<And>s. g s = s) \<Longrightarrow> step a g st st"
  by (simp add: step_def)

lemma step_eq: "step a g st st1 \<Longrightarrow> (\<And>s. g s = h s) \<Longrightarrow> step a h st st1"
  by (simp add: step_def)

lemma step_trans: "step a g st st1 \<Longrightarrow> step a h st1 st2 \<Longrightarrow> step a (\<lambda>s. h (g s)) st st2"
  unfolding step_def by auto

lemma step_keeps: "keeps m {} \<Longrightarrow> m st = Inr (x, st1) \<Longrightarrow> a < length st \<Longrightarrow> step a (\<lambda>s. s) st st1"
  unfolding keeps_def step_def by blast

lemma step_modify:
  "modify a f st = Inr (x, st1) \<Longrightarrow> a < length st \<Longrightarrow> (\<And>s. clean (f s) = f (clean s)) \<Longrightarrow> step a f st st1"
  by (simp add: run_modify step_def)

lemma step_length: "step a g st st1 \<Longrightarrow> a < length st1"
  by (simp add: step_def)

lemma step_mask: "step a g st st1 \<Longrightarrow> typeMask (st1 ! a) = typeMask (g (clean (st ! a)))"
  by (metis clean_fields(1) step_def)

definition kid :: "platform \<Rightarrow> specs \<Rightarrow> sptr \<Rightarrow> describes" where
  "kid P st a v b \<longleftrightarrow> a < b \<and> represents P st v b"

lemma kid_step: "kid P st a v b \<Longrightarrow> step a g st st1 \<Longrightarrow> kid P st1 a v b"
  unfolding kid_def step_def by (auto intro: represents_later)

lemma kids_step: "list_all2 (kid P st a) vs bs \<Longrightarrow> step a g st st1 \<Longrightarrow> list_all2 (kid P st1 a) vs bs"
  by (erule list_all2_mono) (rule kid_step)

lemma members_step: "members_rel (kid P st a) qs kvs \<Longrightarrow> step a g st st1 \<Longrightarrow> members_rel (kid P st1 a) qs kvs"
  unfolding members_rel_def by (erule list_all2_mono) (auto intro: kid_step)

definition builds :: "platform \<Rightarrow> json \<Rightarrow> bool" where
  "builds P v \<longleftrightarrow> (\<forall>par st b st1. build P par v st = Inr (b, st1) \<longrightarrow> represents P st1 v b)"

subsection \<open>Sub-schemas\<close>

lemma build_kid:
  assumes "build P par v st = Inr (b, st1)" "a < length st" "builds P v"
  shows "step a (\<lambda>s. s) st st1" "kid P st1 a v b"
  using assms build_frame [OF assms(1)] step_keeps [OF build_keeps assms(1,2)] by (auto simp: kid_def builds_def)

lemma mapS_kids:
  "mapS (build P par) vs st = Inr (bs, st1) \<Longrightarrow> a < length st \<Longrightarrow> \<forall>v\<in>set vs. builds P v \<Longrightarrow>
     step a (\<lambda>s. s) st st1 \<and> list_all2 (kid P st1 a) vs bs"
proof (induction vs arbitrary: st bs)
  case Nil
  then show ?case by (simp add: step_refl)
next
  case (Cons v vs)
  from Cons.prems(1) obtain b bs' st0 where b: "build P par v st = Inr (b, st0)"
    and bs: "mapS (build P par) vs st0 = Inr (bs', st1)" "bs = b # bs'" by (auto simp: run_andThen)
  have 1: "step a (\<lambda>s. s) st st0" "kid P st0 a v b" using build_kid [OF b Cons.prems(2)] Cons.prems(3) by simp_all
  have 2: "step a (\<lambda>s. s) st0 st1" "list_all2 (kid P st1 a) vs bs'"
    using Cons.IH [OF bs(1) step_length [OF 1(1)]] Cons.prems(3) by simp_all
  show ?case using step_trans [OF 1(1) 2(1)] kid_step [OF 1(2) 2(1)] 2(2) bs(2) by simp
qed

lemma buildMember_run:
  "buildMember bld a kv st = Inr (y, st1) \<longleftrightarrow> (\<exists>b. bld (Some a) (snd kv) st = Inr (b, st1) \<and> y = (fst kv, b))"
  by (auto simp: buildMember_def run_andThen)

lemma mapS_members:
  "mapS (buildMember (build P) a) qs st = Inr (kvs, st1) \<Longrightarrow> a < length st \<Longrightarrow> \<forall>m\<in>set qs. builds P (snd m) \<Longrightarrow>
     step a (\<lambda>s. s) st st1 \<and> members_rel (kid P st1 a) qs kvs"
proof (induction qs arbitrary: st kvs)
  case Nil
  then show ?case by (simp add: step_refl members_rel_def)
next
  case (Cons m qs)
  from Cons.prems(1) obtain b kvs' st0 where b: "build P (Some a) (snd m) st = Inr (b, st0)"
    and kvs: "mapS (buildMember (build P) a) qs st0 = Inr (kvs', st1)" "kvs = (fst m, b) # kvs'"
    by (auto simp: run_andThen buildMember_run)
  have 1: "step a (\<lambda>s. s) st st0" "kid P st0 a (snd m) b"
    using build_kid [OF b Cons.prems(2)] Cons.prems(3) by simp_all
  have 2: "step a (\<lambda>s. s) st0 st1" "members_rel (kid P st1 a) qs kvs'"
    using Cons.IH [OF kvs(1) step_length [OF 1(1)]] Cons.prems(3) by simp_all
  show ?case using step_trans [OF 1(1) 2(1)] kid_step [OF 1(2) 2(1)] 2(2) kvs(2) by (simp add: members_rel_def)
qed

lemma getObject_run:
  "getObjectValue ps k st = Inr (x, st1) \<Longrightarrow> st1 = st \<and>
     (x = None \<and> kw ps k = None \<and> members_kw ps k = [] \<or> x = Some (members_kw ps k) \<and> kw ps k = Some (JObject (members_kw ps k)))"
  by (auto simp: getObjectValue_def members_kw_def split: option.splits json.splits)

lemma getArray_run:
  "getArrayValue ps k st = Inr (x, st1) \<Longrightarrow> st1 = st \<and>
     (x = None \<and> kw ps k = None \<and> list_kw ps k = [] \<or> x = Some (list_kw ps k) \<and> kw ps k = Some (JArray (list_kw ps k)))"
  by (auto simp: getArrayValue_def list_kw_def split: option.splits json.splits)

lemma getBoolean_run: "getBooleanValue ps k d st = Inr (x, st1) \<Longrightarrow> st1 = st \<and> x = flag_kw ps k d"
  by (auto simp: getBooleanValue_def flag_kw_def split: option.splits json.splits)

lemma getIntegral_run:
  "getIntegralValue ps k d st = Inr (x, st1) \<Longrightarrow> st1 = st \<and> x = (case int_limit ps k of None \<Rightarrow> d | Some i \<Rightarrow> i)"
  by (auto simp: getIntegralValue_def int_limit_def split: option.splits json.splits)

lemma getString_run:
  "getString ps k None st = Inr (x, st1) \<Longrightarrow> st1 = st \<and> x = (case kw ps k of Some (JString s) \<Rightarrow> Some s | _ \<Rightarrow> None)"
  by (auto simp: getString_def split: option.splits json.splits)

lemma getNumber_run:
  "getNumber P ps k d st = Inr (x, st1) \<Longrightarrow> st1 = st \<and> x = (case kw ps k of None \<Rightarrow> d | Some v \<Rightarrow> jsonAsDouble (fpo P) v)"
  by (auto simp: getNumber_def split: option.splits if_splits)

lemma check_run:
  "checkNonNegative v name st = Inr (x, st1) \<Longrightarrow> st1 = st" "checkPositiveDouble P d name st = Inr (x, st1) \<Longrightarrow> st1 = st"
  by (auto simp: checkNonNegative_def checkPositiveDouble_def split: if_splits)

subsection \<open>The phases\<close>

lemma patterns_run:
  assumes "addPatternProperties (build P) a ps st = Inr (u, st1)" "a < length st"
    "\<forall>m\<in>set (members_kw ps ''patternProperties''). builds P (snd m)"
  shows "\<exists>kvs. step a (patternProperties_update (\<lambda>old. if kw ps ''patternProperties'' = None then old else kvs)) st st1 \<and>
    members_rel (kid P st1 a) (members_kw ps ''patternProperties'') kvs"
proof -
  from assms(1) obtain x st0 where x: "getObjectValue ps ''patternProperties'' st = Inr (x, st0)"
    and r: "ifSome x (\<lambda>qs. andThen (mapS (buildMember (build P) a) qs) (\<lambda>kvs.
         modify a (\<lambda>s. s\<lparr>patternProperties := kvs\<rparr>))) st0 = Inr (u, st1)"
    by (auto simp: addPatternProperties_def run_andThen)
  from getObject_run [OF x] consider
    (none) "st0 = st" "x = None" "kw ps ''patternProperties'' = None" "members_kw ps ''patternProperties'' = []" |
    (some) "st0 = st" "x = Some (members_kw ps ''patternProperties'')" "kw ps ''patternProperties'' \<noteq> None" by auto
  then show ?thesis
  proof cases
    case none
    with r assms(2) show ?thesis by (intro exI [of _ "[]"]) (auto simp: ifSome_def members_rel_def intro!: step_same)
  next
    case some
    with r obtain kvs st2 where m: "mapS (buildMember (build P) a) (members_kw ps ''patternProperties'') st = Inr (kvs, st2)"
      and u: "modify a (\<lambda>s. s\<lparr>patternProperties := kvs\<rparr>) st2 = Inr (u, st1)" by (auto simp: ifSome_def run_andThen)
    from mapS_members [OF m assms(2,3)] have 1: "step a (\<lambda>s. s) st st2"
      "members_rel (kid P st2 a) (members_kw ps ''patternProperties'') kvs" by auto
    have 2: "step a (\<lambda>s. s\<lparr>patternProperties := kvs\<rparr>) st2 st1"
      by (rule step_modify [OF u step_length [OF 1(1)]]) (simp add: clean_def)
    have "step a (patternProperties_update (\<lambda>old. if kw ps ''patternProperties'' = None then old else kvs)) st st1"
      by (rule step_eq [OF step_trans [OF 1(1) 2]]) (use some(3) in auto)
    with members_step [OF 1(2) 2] show ?thesis by blast
  qed
qed

lemma jsonObjectGetArray_list: "jsonObjectGetArray ps k = Some js \<Longrightarrow> list_kw ps k = js"
  by (auto dest!: jsonObjectGetArray_Some simp: list_kw_def)

lemma composite_run:
  assumes "getComposite (build P) a ps k st = Inr (x, st1)" "a < length st" "\<forall>v\<in>set (list_kw ps k). builds P v"
  shows "step a (\<lambda>s. s) st st1 \<and> rel_option (list_all2 (kid P st1 a)) (jsonObjectGetArray ps k) x"
proof (cases "jsonObjectGetArray ps k")
  case None
  with assms(1,2) show ?thesis by (simp add: getComposite_def step_refl)
next
  case (Some js)
  with assms(1) obtain bs where m: "mapS (build P (Some a)) js st = Inr (bs, st1)" and x: "x = Some bs"
    by (auto simp: getComposite_def run_andThen)
  from mapS_kids [OF m assms(2)] assms(3) jsonObjectGetArray_list [OF Some]
  have "step a (\<lambda>s. s) st st1 \<and> list_all2 (kid P st1 a) js bs" by blast
  with Some x show ?thesis by simp
qed

lemma value_run:
  assumes "ifSome (kw ps k) (\<lambda>v. andThen (build P (Some a) v) (\<lambda>b. modify a (f b))) st = Inr (u, st1)"
    "a < length st" "\<forall>v. kw ps k = Some v \<longrightarrow> builds P v" "\<And>b s. clean (f b s) = f b (clean s)"
  shows "\<exists>x. step a (case x of None \<Rightarrow> \<lambda>s. s | Some b \<Rightarrow> f b) st st1 \<and> rel_option (kid P st1 a) (kw ps k) x"
proof (cases "kw ps k")
  case None
  with assms(1,2) show ?thesis by (intro exI [of _ None]) (simp add: ifSome_def step_refl)
next
  case (Some v)
  with assms(1) obtain b st0 where b: "build P (Some a) v st = Inr (b, st0)" and u: "modify a (f b) st0 = Inr (u, st1)"
    by (auto simp: ifSome_def run_andThen)
  have 1: "step a (\<lambda>s. s) st st0" "kid P st0 a v b" using build_kid [OF b assms(2)] assms(3) Some by simp_all
  have 2: "step a (f b) st0 st1" by (rule step_modify [OF u step_length [OF 1(1)] assms(4)])
  from step_trans [OF 1(1) 2] kid_step [OF 1(2) 2] Some show ?thesis by (intro exI [of _ "Some b"]) simp
qed

lemma values_run:
  assumes "buildConstAndEnum a ps st = Inr (u, st1)" "a < length st"
  shows "step a (\<lambda>s. s\<lparr>constValue := (case kw ps ''const'' of None \<Rightarrow> constValue s | Some v \<Rightarrow> Some (copied v)),
      enumeratedValues := (case kw ps ''enum'' of Some (JArray es) \<Rightarrow> Some (map copied es) | _ \<Rightarrow> enumeratedValues s)\<rparr>) st st1"
proof -
  let ?f1 = "\<lambda>s. case kw ps ''const'' of None \<Rightarrow> s | Some v \<Rightarrow> s\<lparr>constValue := Some (copied v)\<rparr>"
  let ?f2 = "\<lambda>s. case kw ps ''enum'' of Some (JArray es) \<Rightarrow> s\<lparr>enumeratedValues := Some (map copied es)\<rparr> | _ \<Rightarrow> s"
  from assms(1) obtain e st' where e: "getArrayValue ps ''enum'' st = Inr (e, st')"
    and rest: "andThen (if kw ps ''const'' \<noteq> None \<and> e \<noteq> None
               then schemaThrow (''cannot specify both '' @ quoted ''const'' @ '' and '' @ quoted ''enum'' @
                      '' for the same schema'')
               else yield ()) (\<lambda>_.
      andThen (ifSome (kw ps ''const'') (\<lambda>v. modify a (\<lambda>s. s\<lparr>constValue := Some (copied v)\<rparr>))) (\<lambda>_.
      ifSome e (\<lambda>vs. modify a (\<lambda>s. s\<lparr>enumeratedValues := Some (map copied vs)\<rparr>)))) st' = Inr (u, st1)"
    by (auto simp: buildConstAndEnum_def Let_def run_andThen [of "getArrayValue ps ''enum''"])
  have "st' = st" using getArray_run [OF e] by simp
  with rest obtain st0 where
    c: "ifSome (kw ps ''const'') (\<lambda>v. modify a (\<lambda>s. s\<lparr>constValue := Some (copied v)\<rparr>)) st = Inr ((), st0)"
    and m: "ifSome e (\<lambda>vs. modify a (\<lambda>s. s\<lparr>enumeratedValues := Some (map copied vs)\<rparr>)) st0 = Inr (u, st1)"
    by (auto simp: run_andThen split: if_splits)
  have 1: "step a ?f1 st st0"
    using c assms(2) by (cases "kw ps ''const''") (auto simp: ifSome_def step_refl clean_def intro: step_modify)
  have 2: "step a ?f2 st0 st1"
    using m getArray_run [OF e] step_length [OF 1]
    by (auto simp: ifSome_def step_refl clean_def intro: step_modify)
  show ?thesis by (rule step_eq [OF step_trans [OF 1 2]]) (simp split: option.split json.split)
qed

subsection \<open>The keywords of each type\<close>

definition does :: "'a builder \<Rightarrow> sptr \<Rightarrow> (jsValueSpec \<Rightarrow> jsValueSpec) \<Rightarrow> bool" where
  "does m a g \<longleftrightarrow> (\<forall>st x st1. m st = Inr (x, st1) \<longrightarrow> a < length st \<longrightarrow> step a g st st1)"

lemma does_eq: "does m a g \<Longrightarrow> (\<And>s. g s = h s) \<Longrightarrow> does m a h"
  unfolding does_def by (blast intro: step_eq)

lemma does_yield: "does (yield x) a (\<lambda>s. s)"
  by (simp add: does_def step_refl)

lemma does_andThen: "does m a g \<Longrightarrow> (\<And>x. does (f x) a h) \<Longrightarrow> does (andThen m f) a (\<lambda>s. h (g s))"
proof -
  assume m: "does m a g" and f: "\<And>x. does (f x) a h"
  show ?thesis unfolding does_def
  proof (intro allI impI)
    fix st y st2
    assume "andThen m f st = Inr (y, st2)" and len: "a < length st"
    then obtain x st1 where 1: "m st = Inr (x, st1)" and 2: "f x st1 = Inr (y, st2)" by (auto simp: run_andThen)
    from m 1 len have 3: "step a g st st1" unfolding does_def by blast
    from f 2 step_length [OF 3] have "step a h st1 st2" unfolding does_def by blast
    with 3 show "step a (\<lambda>s. h (g s)) st st2" by (rule step_trans)
  qed
qed

lemma does_modify: "(\<And>s. clean (f s) = f (clean s)) \<Longrightarrow> does (modify a f) a f"
  unfolding does_def by (blast intro: step_modify)

lemma does_getters:
  "does (fi (case int_limit ps k of None \<Rightarrow> di | Some i \<Rightarrow> i)) a g \<Longrightarrow> does (andThen (getIntegralValue ps k di) fi) a g"
  "does (fb (flag_kw ps k db)) a g \<Longrightarrow> does (andThen (getBooleanValue ps k db) fb) a g"
  "does (fn (case kw ps k of None \<Rightarrow> dn | Some v \<Rightarrow> jsonAsDouble (fpo P) v)) a g \<Longrightarrow>
     does (andThen (getNumber P ps k dn) fn) a g"
  "does (fs (case kw ps k of Some (JString s) \<Rightarrow> Some s | _ \<Rightarrow> None)) a g \<Longrightarrow> does (andThen (getString ps k None) fs) a g"
  unfolding does_def
  by (auto simp: run_andThen dest!: getIntegral_run getBoolean_run getNumber_run getString_run)

lemma does_check:
  "does (f ()) a g \<Longrightarrow> does (andThen (checkNonNegative v name) f) a g"
  "does (f ()) a g \<Longrightarrow> does (andThen (checkPositiveDouble P d name) f) a g"
  unfolding does_def by (auto simp: run_andThen dest!: check_run)

definition limit_kw :: "property list \<Rightarrow> string \<Rightarrow> int" where
  "limit_kw ps k = (case int_limit ps k of None \<Rightarrow> MISSING_VALIDATOR | Some i \<Rightarrow> i)"

definition add_flag :: "bool \<Rightarrow> nat \<Rightarrow> jsValueSpec \<Rightarrow> jsValueSpec" where
  "add_flag c flag s = s\<lparr>validatorFlags := validatorFlags s OR (if c then flag else 0)\<rparr>"

lemma does_flag: "does (modify a (\<lambda>s. s\<lparr>validatorFlags := validatorFlags s OR flag\<rparr>)) a (add_flag True flag)"
  by (rule does_eq [OF does_modify]) (simp_all add: add_flag_def clean_def)

lemma add_flag_False: "add_flag False flag s = s"
  by (simp add: add_flag_def)

lemma does_useLimit: "does (useLimit a v name flag) a (add_flag (v \<noteq> MISSING_VALIDATOR) flag)"
proof (cases "v = MISSING_VALIDATOR")
  case True
  then show ?thesis by (auto simp: useLimit_def add_flag_False intro: does_eq [OF does_yield])
next
  case False
  then show ?thesis by (simp add: useLimit_def does_check does_flag)
qed

lemma does_useFloat: "does (useFloat P a v flag) a (add_flag (\<not> fp_eq P v (MISSING_FLOAT_VALIDATOR P)) flag)"
  by (auto simp: useFloat_def add_flag_False intro: does_flag does_eq [OF does_yield])

lemmas does_rules = does_getters does_andThen [OF does_useLimit] does_andThen [OF does_useFloat]

definition string_update :: "property list \<Rightarrow> jsValueSpec \<Rightarrow> jsValueSpec" where
  "string_update ps s =
     (add_flag (limit_kw ps ''minLength'' \<noteq> MISSING_VALIDATOR) JS_VALIDATOR_MIN_LENGTH
       (add_flag (limit_kw ps ''maxLength'' \<noteq> MISSING_VALIDATOR) JS_VALIDATOR_MAX_LENGTH
         (s\<lparr>maxLength := limit_kw ps ''maxLength'', minLength := limit_kw ps ''minLength''\<rparr>)))
      \<lparr>pattern := (case kw ps ''pattern'' of Some (JString pat) \<Rightarrow> Some pat | _ \<Rightarrow> None)\<rparr>"

lemma string_does: "does (buildStringType a ps) a (string_update ps)"
  unfolding buildStringType_def
  by (rule does_eq, (rule does_rules does_andThen [OF does_modify] does_modify | simp add: clean_def; fail)+)
     (simp add: string_update_def limit_kw_def)

definition float_kw :: "platform \<Rightarrow> property list \<Rightarrow> string \<Rightarrow> double" where
  "float_kw P ps k = (case kw ps k of None \<Rightarrow> MISSING_FLOAT_VALIDATOR P | Some v \<Rightarrow> jsonAsDouble (fpo P) v)"

definition number_update :: "platform \<Rightarrow> property list \<Rightarrow> jsValueSpec \<Rightarrow> jsValueSpec" where
  "number_update P ps s =
     add_flag (\<not> fp_eq P (float_kw P ps ''multipleOf'') (MISSING_FLOAT_VALIDATOR P)) JS_VALIDATOR_MULTOF
      (add_flag (\<not> fp_eq P (float_kw P ps ''minimum'') (MISSING_FLOAT_VALIDATOR P)) JS_VALIDATOR_MIN
       (add_flag (\<not> fp_eq P (float_kw P ps ''maximum'') (MISSING_FLOAT_VALIDATOR P)) JS_VALIDATOR_MAX
         (s\<lparr>multipleOf := float_kw P ps ''multipleOf'', maximum := float_kw P ps ''maximum'',
            exclusiveMaximum := flag_kw ps ''exclusiveMaximum'' False, minimum := float_kw P ps ''minimum'',
            exclusiveMinimum := flag_kw ps ''exclusiveMinimum'' False\<rparr>)))"

lemma does_ifFloat:
  "does (if \<not> c then andThen (checkPositiveDouble P d name) (\<lambda>_.
          modify a (\<lambda>s. s\<lparr>validatorFlags := validatorFlags s OR flag\<rparr>)) else yield ()) a (add_flag (\<not> c) flag)"
  by (auto simp: add_flag_False intro!: does_check does_flag intro: does_eq [OF does_yield])

lemma number_does: "does (buildNumberType P a ps) a (number_update P ps)"
  unfolding buildNumberType_def
  by (rule does_eq, (rule does_rules does_andThen [OF does_modify] does_ifFloat | simp add: clean_def; fail)+)
     (simp add: number_update_def float_kw_def)

lemma andThen_assoc: "andThen (andThen m f) g = andThen m (\<lambda>x. andThen (f x) g)"
  by (auto simp: andThen_def fun_eq_iff split: sum.split)

lemma andThen_does:
  assumes "andThen m f st = Inr (y, st2)" "does m a g" "a < length st"
  obtains x st1 where "step a g st st1" "f x st1 = Inr (y, st2)"
proof -
  from assms(1) obtain x st1 where 1: "m st = Inr (x, st1)" "f x st1 = Inr (y, st2)" by (auto simp: run_andThen)
  with assms(2,3) have "step a g st st1" unfolding does_def by blast
  with 1(2) that show ?thesis by blast
qed

definition arrayLimits :: "sptr \<Rightarrow> property list \<Rightarrow> unit builder" where
  "arrayLimits a ps =
     andThen (getIntegralValue ps ''maxItems'' MISSING_VALIDATOR) (\<lambda>maxI.
     andThen (getIntegralValue ps ''minItems'' MISSING_VALIDATOR) (\<lambda>minI.
     andThen (getBooleanValue ps ''uniqueItems'' False) (\<lambda>uniq.
     andThen (getIntegralValue ps ''maxContains'' MISSING_VALIDATOR) (\<lambda>maxC.
     andThen (getIntegralValue ps ''minContains'' MISSING_VALIDATOR) (\<lambda>minC.
     andThen (modify a (\<lambda>s. s\<lparr>maxItems := maxI, minItems := minI, uniqueItems := uniq,
                             maxContains := maxC, minContains := minC\<rparr>)) (\<lambda>_.
     andThen (useLimit a maxI ''maxItems'' JS_VALIDATOR_MAX_ITEMS) (\<lambda>_.
     andThen (useLimit a minI ''minItems'' JS_VALIDATOR_MIN_ITEMS) (\<lambda>_.
     andThen (useLimit a maxC ''maxContains'' JS_VALIDATOR_MAX_CONTAINS) (\<lambda>_.
     useLimit a minC ''minContains'' JS_VALIDATOR_MIN_CONTAINS)))))))))"

lemma buildArrayType_split:
  "buildArrayType bld a ps = andThen (arrayLimits a ps) (\<lambda>_.
     ifSome (kw ps ''items'') (\<lambda>v. andThen (bld (Some a) v) (\<lambda>b. modify a (\<lambda>s. s\<lparr>itemSpec := Some b\<rparr>))))"
  by (simp only: buildArrayType_def arrayLimits_def andThen_assoc)

definition array_update :: "property list \<Rightarrow> jsValueSpec \<Rightarrow> jsValueSpec" where
  "array_update ps s =
     add_flag (limit_kw ps ''minContains'' \<noteq> MISSING_VALIDATOR) JS_VALIDATOR_MIN_CONTAINS
      (add_flag (limit_kw ps ''maxContains'' \<noteq> MISSING_VALIDATOR) JS_VALIDATOR_MAX_CONTAINS
       (add_flag (limit_kw ps ''minItems'' \<noteq> MISSING_VALIDATOR) JS_VALIDATOR_MIN_ITEMS
        (add_flag (limit_kw ps ''maxItems'' \<noteq> MISSING_VALIDATOR) JS_VALIDATOR_MAX_ITEMS
          (s\<lparr>maxItems := limit_kw ps ''maxItems'', minItems := limit_kw ps ''minItems'',
             uniqueItems := flag_kw ps ''uniqueItems'' False,
             maxContains := limit_kw ps ''maxContains'', minContains := limit_kw ps ''minContains''\<rparr>))))"

lemma array_does: "does (arrayLimits a ps) a (array_update ps)"
  unfolding arrayLimits_def
  by (rule does_eq, (rule does_rules does_andThen [OF does_modify] does_useLimit | simp add: clean_def; fail)+)
     (simp add: array_update_def limit_kw_def)

lemma array_run:
  assumes "buildArrayType (build P) a ps st = Inr (u, st1)" "a < length st" "\<forall>v. kw ps ''items'' = Some v \<longrightarrow> builds P v"
  shows "\<exists>x. step a (\<lambda>s. (array_update ps s)\<lparr>itemSpec := (case x of None \<Rightarrow> itemSpec s | Some b \<Rightarrow> Some b)\<rparr>) st st1 \<and>
    rel_option (kid P st1 a) (kw ps ''items'') x"
proof -
  from assms(1) obtain u' s1 where 1: "step a (array_update ps) st s1"
    and r: "ifSome (kw ps ''items'') (\<lambda>v. andThen (build P (Some a) v) (\<lambda>b. modify a (\<lambda>s. s\<lparr>itemSpec := Some b\<rparr>))) s1 = Inr (u, st1)"
    unfolding buildArrayType_split by (rule andThen_does [OF _ array_does assms(2)])
  from value_run [OF r step_length [OF 1] assms(3)] obtain x where
    2: "step a (case x of None \<Rightarrow> \<lambda>s. s | Some b \<Rightarrow> \<lambda>s. s\<lparr>itemSpec := Some b\<rparr>) s1 st1" "rel_option (kid P st1 a) (kw ps ''items'') x"
    by (auto simp: clean_def)
  have "step a (\<lambda>s. (array_update ps s)\<lparr>itemSpec := (case x of None \<Rightarrow> itemSpec s | Some b \<Rightarrow> Some b)\<rparr>) st st1"
    by (rule step_eq [OF step_trans [OF 1 2(1)]]) (simp add: array_update_def add_flag_def split: option.split)
  with 2(2) show ?thesis by blast
qed

lemma properties_run:
  assumes "buildProperties (build P) a ps st = Inr (u, st1)" "a < length st"
    "\<forall>m\<in>set (members_kw ps ''properties''). builds P (snd m)"
  shows "\<exists>kvs. step a (properties_update (\<lambda>old. if kw ps ''properties'' = None then old
        else if kvs = [] then None else Some (puts kvs))) st st1 \<and>
    members_rel (kid P st1 a) (members_kw ps ''properties'') kvs"
proof (cases "kw ps ''properties''")
  case None
  with assms(1,2) show ?thesis
    by (intro exI [of _ "[]"]) (auto simp: buildProperties_def ifSome_def members_kw_def members_rel_def intro!: step_same)
next
  case (Some v)
  with assms(1) obtain qs where v: "v = JObject qs" by (auto simp: buildProperties_def ifSome_def split: json.splits)
  with Some have qs: "members_kw ps ''properties'' = qs" by (simp add: members_kw_def)
  from assms(1) Some v obtain kvs st0 where m: "mapS (buildMember (build P) a) qs st = Inr (kvs, st0)"
    and u: "modify a (\<lambda>s. s\<lparr>properties := (if kvs = [] then None else Some (puts kvs))\<rparr>) st0 = Inr (u, st1)"
    by (auto simp: buildProperties_def ifSome_def run_andThen)
  from mapS_members [OF m assms(2)] assms(3) qs have 1: "step a (\<lambda>s. s) st st0" "members_rel (kid P st0 a) qs kvs" by auto
  have 2: "step a (\<lambda>s. s\<lparr>properties := (if kvs = [] then None else Some (puts kvs))\<rparr>) st0 st1"
    by (rule step_modify [OF u step_length [OF 1(1)]]) (simp add: clean_def)
  have "step a (properties_update (\<lambda>old. if kw ps ''properties'' = None then old
      else if kvs = [] then None else Some (puts kvs))) st st1"
    by (rule step_eq [OF step_trans [OF 1(1) 2]]) (simp add: Some)
  with members_step [OF 1(2) 2] qs show ?thesis by blast
qed

lemma limits_run:
  assumes "buildPropertyLimits a ps st = Inr (u, st1)" "a < length st" "kw ps ''minProperties'' = None" "kw ps ''maxProperties'' = None"
  shows "step a (\<lambda>s. s\<lparr>maxProperties := MISSING_VALIDATOR, minProperties := MISSING_VALIDATOR\<rparr>) st st1"
  using assms by (auto simp: buildPropertyLimits_def getIntegralValue_def andThen_def [of "yield _"] yield_def
      useLimit_def run_andThen clean_def intro!: step_modify)

definition object_update :: "property list \<Rightarrow> (string \<times> sptr) list \<Rightarrow> jsValueSpec \<Rightarrow> jsValueSpec" where
  "object_update ps kvs s =
     s\<lparr>maxProperties := MISSING_VALIDATOR, minProperties := MISSING_VALIDATOR,
       required := (if kw ps ''required'' = None then required s else Some (strings_of (list_kw ps ''required''))),
       properties := (if kw ps ''properties'' = None then properties s else if kvs = [] then None else Some (puts kvs))\<rparr>"

lemma required_run:
  assumes "getArrayValue ps ''required'' st0 = Inr (req, st)"
    "ifSome req (\<lambda>js. andThen (getStringArrayOrFail js) (\<lambda>ss. modify a (\<lambda>s. s\<lparr>required := Some ss\<rparr>))) st = Inr (u, st1)"
    "a < length st0"
  shows "step a (\<lambda>s. s\<lparr>required := (if kw ps ''required'' = None then required s
      else Some (strings_of (list_kw ps ''required'')))\<rparr>) st0 st1"
proof (cases req)
  case None
  with getArray_run [OF assms(1)] assms(2,3) show ?thesis by (auto simp: ifSome_def intro!: step_same)
next
  case (Some js)
  with getArray_run [OF assms(1)] have k: "st = st0" "kw ps ''required'' \<noteq> None" "list_kw ps ''required'' = js" by auto
  from assms(2) Some obtain ss st' where "getStringArrayOrFail js st = Inr (ss, st')"
    "modify a (\<lambda>s. s\<lparr>required := Some ss\<rparr>) st' = Inr (u, st1)" by (auto simp: ifSome_def run_andThen)
  with getStringArray_run have m: "modify a (\<lambda>s. s\<lparr>required := Some (strings_of js)\<rparr>) st = Inr (u, st1)" by blast
  have "step a (\<lambda>s. s\<lparr>required := Some (strings_of js)\<rparr>) st st1"
    by (rule step_modify [OF m]) (use k assms(3) in \<open>simp_all add: clean_def\<close>)
  then show ?thesis unfolding k(1) by (rule step_eq) (use k(2,3) in auto)
qed

lemma object_run:
  assumes "buildObjectType (build P) a ps st = Inr (u, st1)" "a < length st" "plain_here ps"
    "\<forall>m\<in>set (members_kw ps ''properties''). builds P (snd m)"
  shows "\<exists>kvs. step a (object_update ps kvs) st st1 \<and> members_rel (kid P st1 a) (members_kw ps ''properties'') kvs"
proof -
  note absent = plain_absent [OF assms(3)]
  from assms(1) absent(7) obtain u1 s1 req s1' u2 s2 u3 where
    1: "buildPropertyLimits a ps st = Inr (u1, s1)" and q: "getArrayValue ps ''required'' s1 = Inr (req, s1')"
    and 2: "ifSome req (\<lambda>js. andThen (getStringArrayOrFail js) (\<lambda>ss. modify a (\<lambda>s. s\<lparr>required := Some ss\<rparr>))) s1' = Inr (u2, s2)"
    and 3: "buildProperties (build P) a ps s2 = Inr (u3, st1)"
    by (auto simp: buildObjectType_def run_andThen getObjectValue_def ifSome_def [of None])
  have s1: "step a (\<lambda>s. s\<lparr>maxProperties := MISSING_VALIDATOR, minProperties := MISSING_VALIDATOR\<rparr>) st s1"
    by (rule limits_run [OF 1 assms(2) absent(3,4)])
  have s2: "step a (\<lambda>s. s\<lparr>required := (if kw ps ''required'' = None then required s
      else Some (strings_of (list_kw ps ''required'')))\<rparr>) s1 s2"
    by (rule required_run [OF q 2 step_length [OF s1]])
  from properties_run [OF 3 step_length [OF s2] assms(4)] obtain kvs where
    s3: "step a (properties_update (\<lambda>old. if kw ps ''properties'' = None then old
        else if kvs = [] then None else Some (puts kvs))) s2 st1"
    "members_rel (kid P st1 a) (members_kw ps ''properties'') kvs" by blast
  have "step a (object_update ps kvs) st st1"
    by (rule step_eq [OF step_trans [OF s1 step_trans [OF s2 s3(1)]]]) (simp add: object_update_def)
  with s3(2) show ?thesis by blast
qed

text \<open>The loop over the types, for a mask \<open>on\<close>.\<close>

definition mask_has :: "nat \<Rightarrow> nat \<Rightarrow> bool" where
  "mask_has m t \<longleftrightarrow> push_bit t 1 AND m \<noteq> 0"

definition types_update :: "platform \<Rightarrow> property list \<Rightarrow> (string \<times> sptr) list \<Rightarrow> sptr option \<Rightarrow> nat \<Rightarrow> jsValueSpec \<Rightarrow> jsValueSpec" where
  "types_update P ps kvs x m s =
     (let s1 = (if mask_has m JSTYPE_OBJECT then object_update ps kvs s else s);
          s2 = (if mask_has m JSTYPE_ARRAY
                then (array_update ps s1)\<lparr>itemSpec := (case x of None \<Rightarrow> itemSpec s1 | Some b \<Rightarrow> Some b)\<rparr> else s1);
          s3 = (if mask_has m JSTYPE_STRING then string_update ps s2 else s2)
      in if mask_has m JSTYPE_NUMBER \<or> mask_has m JSTYPE_INTEGER then number_update P ps s3 else s3)"

lemma typeCode_run:
  "buildTypeCode P bld a ps h t st = Inr (h', st1) \<Longrightarrow> mask_has (typeMask (st ! a)) t \<Longrightarrow>
     (t = JSTYPE_OBJECT \<longrightarrow> h' = h \<and> buildObjectType bld a ps st = Inr ((), st1)) \<and>
     (t = JSTYPE_ARRAY \<longrightarrow> h' = h \<and> buildArrayType bld a ps st = Inr ((), st1)) \<and>
     (t = JSTYPE_STRING \<longrightarrow> h' = h \<and> buildStringType a ps st = Inr ((), st1)) \<and>
     (t = JSTYPE_NUMBER \<or> t = JSTYPE_INTEGER \<longrightarrow> h' \<and>
        (if h then st1 = st else buildNumberType P a ps st = Inr ((), st1))) \<and>
     (t = JSTYPE_NULL \<or> t = JSTYPE_BOOLEAN \<longrightarrow> h' = h \<and> st1 = st)"
  "buildTypeCode P bld a ps h t st = Inr (h', st1) \<Longrightarrow> \<not> mask_has (typeMask (st ! a)) t \<Longrightarrow> h' = h \<and> st1 = st"
  by (auto simp: buildTypeCode_def run_andThen mask_has_def jstypes split: if_splits)

lemma typeCode_simple:
  "buildTypeCode P bld a ps h t st = Inr (h', st1) \<Longrightarrow> t = JSTYPE_NULL \<or> t = JSTYPE_BOOLEAN \<Longrightarrow> h' = h \<and> st1 = st"
  by (auto simp: buildTypeCode_def run_andThen jstypes split: if_splits)

lemma typesLoop_Cons:
  assumes "buildTypesLoop P bld a ps h (t # ts) st = Inr (u, st1)"
  obtains h' s where "buildTypeCode P bld a ps h t st = Inr (h', s)" "buildTypesLoop P bld a ps h' ts s = Inr (u, st1)"
proof -
  from assms have "andThen (buildTypeCode P bld a ps h t) (\<lambda>h. buildTypesLoop P bld a ps h ts) st = Inr (u, st1)" by simp
  then obtain h' s where "buildTypeCode P bld a ps h t st = Inr (h', s)" "buildTypesLoop P bld a ps h' ts s = Inr (u, st1)"
    unfolding run_andThen by (elim exE conjE)
  with that show ?thesis .
qed

lemma numbers_run:
  assumes "buildTypesLoop P bld a ps False [JSTYPE_NUMBER, JSTYPE_INTEGER] st = Inr (u, st1)" "a < length st"
    "typeMask (st ! a) = m"
  shows "step a (\<lambda>s. if mask_has m JSTYPE_NUMBER \<or> mask_has m JSTYPE_INTEGER then number_update P ps s else s) st st1"
proof -
  from typesLoop_Cons [OF assms(1)] obtain h t where r: "buildTypeCode P bld a ps False JSTYPE_NUMBER st = Inr (h, t)"
    and l: "buildTypesLoop P bld a ps h [JSTYPE_INTEGER] t = Inr (u, st1)" .
  from typesLoop_Cons [OF l] obtain h' where r': "buildTypeCode P bld a ps h JSTYPE_INTEGER t = Inr (h', st1)" by auto
  have num: "step a (number_update P ps) s s'" if "buildNumberType P a ps s = Inr ((), s')" "a < length s" for s s'
    using number_does that unfolding does_def by blast
  show ?thesis
  proof (cases "mask_has m JSTYPE_NUMBER")
    case True
    with typeCode_run(1) [OF r] assms(3) have h: "h" "buildNumberType P a ps st = Inr ((), t)" by auto
    from num [OF h(2) assms(2)] have s: "step a (number_update P ps) st t" .
    have "st1 = t" using typeCode_run [OF r'] h(1) by (cases "mask_has (typeMask (t ! a)) JSTYPE_INTEGER") auto
    with s True show ?thesis by (auto intro: step_eq)
  next
    case False
    with typeCode_run(2) [OF r] assms(3) have h: "\<not> h" "t = st" by auto
    show ?thesis
    proof (cases "mask_has m JSTYPE_INTEGER")
      case True
      with typeCode_run(1) [OF r'] h assms(3) have "buildNumberType P a ps st = Inr ((), st1)" by auto
      from num [OF this assms(2)] True show ?thesis by (auto intro: step_eq)
    next
      case False
      with typeCode_run(2) [OF r'] h assms(3) \<open>\<not> mask_has m JSTYPE_NUMBER\<close> assms(2) show ?thesis by (auto intro: step_refl)
    qed
  qed
qed

lemma types_run:
  assumes "buildTypesLoop P (build P) a ps False [0..<JSTYPE_MAX + 1] st = Inr (u, st1)" "a < length st" "plain_here ps"
    "\<forall>m\<in>set (members_kw ps ''properties''). builds P (snd m)" "\<forall>v. kw ps ''items'' = Some v \<longrightarrow> builds P v"
    "typeMask (st ! a) = m"
  shows "\<exists>kvs x. step a (types_update P ps kvs x m) st st1 \<and>
    (mask_has m JSTYPE_OBJECT \<longrightarrow> members_rel (kid P st1 a) (members_kw ps ''properties'') kvs) \<and>
    (mask_has m JSTYPE_ARRAY \<longrightarrow> rel_option (kid P st1 a) (kw ps ''items'') x)"
proof -
  have codes: "[0..<JSTYPE_MAX + 1] = [JSTYPE_NULL, JSTYPE_BOOLEAN, JSTYPE_OBJECT, JSTYPE_ARRAY, JSTYPE_STRING, JSTYPE_NUMBER, JSTYPE_INTEGER]"
    by (simp add: jstypes upt_conv_Cons)
  from typesLoop_Cons [OF assms(1)[unfolded codes]] obtain h0 t0 where
    r0: "buildTypeCode P (build P) a ps False JSTYPE_NULL st = Inr (h0, t0)" and
    l0: "buildTypesLoop P (build P) a ps h0 [JSTYPE_BOOLEAN, JSTYPE_OBJECT, JSTYPE_ARRAY, JSTYPE_STRING, JSTYPE_NUMBER, JSTYPE_INTEGER] t0 = Inr (u, st1)" .
  from typesLoop_Cons [OF l0] obtain h1 t1 where
    r1: "buildTypeCode P (build P) a ps h0 JSTYPE_BOOLEAN t0 = Inr (h1, t1)" and
    l1: "buildTypesLoop P (build P) a ps h1 [JSTYPE_OBJECT, JSTYPE_ARRAY, JSTYPE_STRING, JSTYPE_NUMBER, JSTYPE_INTEGER] t1 = Inr (u, st1)" .
  have 0: "h0 = False" "t0 = st" using typeCode_simple [OF r0] by simp_all
  have 1: "h1 = False" "t1 = st" using typeCode_simple [OF r1] 0 by simp_all
  from typesLoop_Cons [OF l1] obtain h2 t2 where
    r2: "buildTypeCode P (build P) a ps h1 JSTYPE_OBJECT t1 = Inr (h2, t2)" and
    l2: "buildTypesLoop P (build P) a ps h2 [JSTYPE_ARRAY, JSTYPE_STRING, JSTYPE_NUMBER, JSTYPE_INTEGER] t2 = Inr (u, st1)" .
  obtain kvs where 2: "step a (\<lambda>s. if mask_has m JSTYPE_OBJECT then object_update ps kvs s else s) st t2" "h2 = False"
    "mask_has m JSTYPE_OBJECT \<longrightarrow> members_rel (kid P t2 a) (members_kw ps ''properties'') kvs"
  proof (cases "mask_has m JSTYPE_OBJECT")
    case True
    with typeCode_run(1) [OF r2] 1 assms(6) have "buildObjectType (build P) a ps st = Inr ((), t2)" "h2 = False" by auto
    with object_run [OF _ assms(2-4)] True that show ?thesis by auto
  next
    case False
    with typeCode_run(2) [OF r2] 1 assms(2,6) that [of "[]"] show ?thesis by (simp add: step_refl)
  qed
  have m2: "typeMask (t2 ! a) = m" using step_mask [OF 2(1)] assms(6) by (simp add: object_update_def)
  from typesLoop_Cons [OF l2] obtain h3 t3 where
    r3: "buildTypeCode P (build P) a ps h2 JSTYPE_ARRAY t2 = Inr (h3, t3)" and
    l3: "buildTypesLoop P (build P) a ps h3 [JSTYPE_STRING, JSTYPE_NUMBER, JSTYPE_INTEGER] t3 = Inr (u, st1)" .
  obtain x where 3: "step a (\<lambda>s. if mask_has m JSTYPE_ARRAY
        then (array_update ps s)\<lparr>itemSpec := (case x of None \<Rightarrow> itemSpec s | Some b \<Rightarrow> Some b)\<rparr> else s) t2 t3" "h3 = False"
    "mask_has m JSTYPE_ARRAY \<longrightarrow> rel_option (kid P t3 a) (kw ps ''items'') x"
  proof (cases "mask_has m JSTYPE_ARRAY")
    case True
    with typeCode_run(1) [OF r3] 2(2) m2 have "buildArrayType (build P) a ps t2 = Inr ((), t3)" "h3 = False" by (auto simp: jstypes)
    with array_run [OF _ step_length [OF 2(1)] assms(5)] True that show ?thesis by auto
  next
    case False
    with typeCode_run(2) [OF r3] 2(2) m2 step_length [OF 2(1)] that [of None] show ?thesis by (simp add: step_refl)
  qed
  have m3: "typeMask (t3 ! a) = m" using step_mask [OF 3(1)] m2 by (simp add: array_update_def add_flag_def)
  from typesLoop_Cons [OF l3] obtain h4 t4 where
    r4: "buildTypeCode P (build P) a ps h3 JSTYPE_STRING t3 = Inr (h4, t4)" and
    l4: "buildTypesLoop P (build P) a ps h4 [JSTYPE_NUMBER, JSTYPE_INTEGER] t4 = Inr (u, st1)" .
  have 4: "step a (\<lambda>s. if mask_has m JSTYPE_STRING then string_update ps s else s) t3 t4 \<and> h4 = False"
  proof (cases "mask_has m JSTYPE_STRING")
    case True
    with typeCode_run(1) [OF r4] 3(2) m3 have "buildStringType a ps t3 = Inr ((), t4)" "h4 = False" by (auto simp: jstypes)
    with string_does step_length [OF 3(1)] True show ?thesis by (auto simp: does_def)
  next
    case False
    with typeCode_run(2) [OF r4] 3(2) m3 step_length [OF 3(1)] show ?thesis by (simp add: step_refl)
  qed
  then have s4: "step a (\<lambda>s. if mask_has m JSTYPE_STRING then string_update ps s else s) t3 t4" and h4: "h4 = False" by auto
  have m4: "typeMask (t4 ! a) = m" using step_mask [OF s4] m3 by (simp add: string_update_def add_flag_def)
  have 5: "step a (\<lambda>s. if mask_has m JSTYPE_NUMBER \<or> mask_has m JSTYPE_INTEGER then number_update P ps s else s) t4 st1"
    by (rule numbers_run [OF l4 [unfolded h4] step_length [OF s4] m4])
  have "step a (types_update P ps kvs x m) st st1"
    by (rule step_eq [OF step_trans [OF 2(1) step_trans [OF 3(1) step_trans [OF s4 5]]]]) (simp add: types_update_def Let_def)
  moreover have "step a (\<lambda>s. (if mask_has m JSTYPE_NUMBER \<or> mask_has m JSTYPE_INTEGER then number_update P ps else id)
      ((if mask_has m JSTYPE_STRING then string_update ps else id) s)) t3 st1"
    by (rule step_eq [OF step_trans [OF s4 5]]) simp
  ultimately show ?thesis
    using 2(3) 3(3) members_step [OF _ 3(1)] members_step [of P t3] kid_step [of P t3]
    by (blast intro: option.rel_mono_strong)
qed

subsection \<open>All keywords\<close>

lemma andThen_elim:
  assumes "andThen m f st = Inr (y, st2)"
  obtains x st1 where "m st = Inr (x, st1)" "f x st1 = Inr (y, st2)"
  using assms unfolding run_andThen by (elim exE conjE)

definition composites_update ::
  "property list \<Rightarrow> (string \<rightharpoonup> sptr) option \<Rightarrow> (string \<times> sptr) list \<Rightarrow> sptr list option \<Rightarrow> sptr list option \<Rightarrow>
   sptr list option \<Rightarrow> sptr option \<Rightarrow> jsValueSpec \<Rightarrow> jsValueSpec" where
  "composites_update ps defs pats alls anys ones nots s =
     s\<lparr>definitions := defs, additionalProperties := flag_kw ps ''additionalProperties'' True,
       unevaluatedProperties := flag_kw ps ''unevaluatedProperties'' True,
       patternProperties := (if kw ps ''patternProperties'' = None then patternProperties s else pats),
       allOf := alls, anyOf := anys, oneOf := ones, notSpec := (case nots of None \<Rightarrow> notSpec s | Some b \<Rightarrow> Some b),
       constValue := (case kw ps ''const'' of None \<Rightarrow> constValue s | Some v \<Rightarrow> Some (copied v)),
       enumeratedValues := (case kw ps ''enum'' of Some (JArray es) \<Rightarrow> Some (map copied es) | _ \<Rightarrow> enumeratedValues s)\<rparr>"

definition composite_kids :: "platform \<Rightarrow> property list \<Rightarrow> specs \<Rightarrow> sptr \<Rightarrow> (string \<times> sptr) list \<Rightarrow> sptr list option \<Rightarrow>
    sptr list option \<Rightarrow> sptr list option \<Rightarrow> sptr option \<Rightarrow> bool" where
  "composite_kids P ps st a pats alls anys ones nots \<longleftrightarrow>
     members_rel (kid P st a) (members_kw ps ''patternProperties'') pats \<and>
     rel_option (list_all2 (kid P st a)) (jsonObjectGetArray ps ''allOf'') alls \<and>
     rel_option (list_all2 (kid P st a)) (jsonObjectGetArray ps ''anyOf'') anys \<and>
     rel_option (list_all2 (kid P st a)) (jsonObjectGetArray ps ''oneOf'') ones \<and>
     rel_option (kid P st a) (kw ps ''not'') nots"

lemma opt_kids_step:
  "rel_option (list_all2 (kid P st a)) x y \<Longrightarrow> step a g st st1 \<Longrightarrow> rel_option (list_all2 (kid P st1 a)) x y"
  "rel_option (kid P st a) v b \<Longrightarrow> step a g st st1 \<Longrightarrow> rel_option (kid P st1 a) v b"
  by (erule option.rel_mono_strong; blast intro: kids_step kid_step)+

lemma composite_kids_step:
  "composite_kids P ps st a pats alls anys ones nots \<Longrightarrow> step a g st st1 \<Longrightarrow>
     composite_kids P ps st1 a pats alls anys ones nots"
  unfolding composite_kids_def by (blast intro: members_step opt_kids_step)

lemma subschemas_parts:
  assumes "\<forall>v\<in>set (subschemas ps). f v"
  shows "\<forall>m\<in>set (members_kw ps ''properties''). f (snd m)" "\<forall>m\<in>set (members_kw ps ''patternProperties''). f (snd m)"
    "\<forall>v\<in>set (list_kw ps ''allOf''). f v" "\<forall>v\<in>set (list_kw ps ''anyOf''). f v" "\<forall>v\<in>set (list_kw ps ''oneOf''). f v"
    "\<forall>v. kw ps ''not'' = Some v \<longrightarrow> f v" "\<forall>v. kw ps ''items'' = Some v \<longrightarrow> f v"
  using assms by (auto simp: subschemas_def)

definition buildComposites :: "build_fun \<Rightarrow> sptr \<Rightarrow> property list \<Rightarrow> unit builder" where
  "buildComposites bld a ps =
     andThen (getDefinitions bld a ps) (\<lambda>defs.
     andThen (modify a (\<lambda>s. s\<lparr>definitions := defs\<rparr>)) (\<lambda>_.
     andThen (getBooleanValue ps ''additionalProperties'' True) (\<lambda>addl.
     andThen (getBooleanValue ps ''unevaluatedProperties'' True) (\<lambda>uneval.
     andThen (modify a (\<lambda>s. s\<lparr>additionalProperties := addl, unevaluatedProperties := uneval\<rparr>)) (\<lambda>_.
     andThen (addPatternProperties bld a ps) (\<lambda>_.
     andThen (getComposite bld a ps ''allOf'') (\<lambda>allSpecs.
     andThen (modify a (\<lambda>s. s\<lparr>allOf := allSpecs\<rparr>)) (\<lambda>_.
     andThen (getComposite bld a ps ''anyOf'') (\<lambda>anySpecs.
     andThen (modify a (\<lambda>s. s\<lparr>anyOf := anySpecs\<rparr>)) (\<lambda>_.
     andThen (getComposite bld a ps ''oneOf'') (\<lambda>oneSpecs.
     andThen (modify a (\<lambda>s. s\<lparr>oneOf := oneSpecs\<rparr>)) (\<lambda>_.
     andThen (buildNot bld a ps) (\<lambda>_.
     buildConstAndEnum a ps)))))))))))))"

lemma buildKeywords_split:
  "buildKeywords P bld a ps =
     andThen (buildComposites bld a ps) (\<lambda>_. buildTypesLoop P bld a ps False [0..<JSTYPE_MAX + 1])"
  by (simp only: buildKeywords_def buildComposites_def andThen_assoc)

lemma composites_run:
  assumes "buildComposites (build P) a ps st = Inr (u, st1)" "a < length st" "\<forall>v\<in>set (subschemas ps). builds P v"
  shows "\<exists>defs pats alls anys ones nots. step a (composites_update ps defs pats alls anys ones nots) st st1 \<and>
    composite_kids P ps st1 a pats alls anys ones nots"
  using assms(1) unfolding buildComposites_def
proof (elim andThen_elim, goal_cases)
  case (1 defs t1 u2 t2 addl t3 uneval t4 u5 t5 u6 t6 alls t7 u8 t8 anys t9 u10 t10 ones t11 u12 t12 u13 t13)
  note parts = subschemas_parts [OF assms(3)]
  have "t3 = t2" "t4 = t3" and fl: "addl = flag_kw ps ''additionalProperties'' True" "uneval = flag_kw ps ''unevaluatedProperties'' True"
    using getBoolean_run [OF 1(3)] getBoolean_run [OF 1(4)] by auto
  have s1: "step a (\<lambda>s. s) st t1" by (rule step_keeps [OF keeps_getDefinitions [OF below_keeps_build] 1(1) assms(2)])
  have s2: "step a (\<lambda>s. s\<lparr>definitions := defs\<rparr>) t1 t2"
    by (rule step_modify [OF 1(2) step_length [OF s1]]) (simp add: clean_def)
  have s5: "step a (\<lambda>s. s\<lparr>additionalProperties := addl, unevaluatedProperties := uneval\<rparr>) t2 t5"
    by (rule step_modify [OF 1(5)[unfolded \<open>t4 = t3\<close> \<open>t3 = t2\<close>] step_length [OF s2]]) (simp add: clean_def)
  from patterns_run [OF 1(6) step_length [OF s5] parts(2)] obtain pats where
    s6: "step a (patternProperties_update (\<lambda>old. if kw ps ''patternProperties'' = None then old else pats)) t5 t6"
    and k6: "members_rel (kid P t6 a) (members_kw ps ''patternProperties'') pats" by blast
  from composite_run [OF 1(7) step_length [OF s6] parts(3)] have
    s7: "step a (\<lambda>s. s) t6 t7" and k7: "rel_option (list_all2 (kid P t7 a)) (jsonObjectGetArray ps ''allOf'') alls" by auto
  have s8: "step a (\<lambda>s. s\<lparr>allOf := alls\<rparr>) t7 t8"
    by (rule step_modify [OF 1(8) step_length [OF s7]]) (simp add: clean_def)
  from composite_run [OF 1(9) step_length [OF s8] parts(4)] have
    s9: "step a (\<lambda>s. s) t8 t9" and k9: "rel_option (list_all2 (kid P t9 a)) (jsonObjectGetArray ps ''anyOf'') anys" by auto
  have s10: "step a (\<lambda>s. s\<lparr>anyOf := anys\<rparr>) t9 t10"
    by (rule step_modify [OF 1(10) step_length [OF s9]]) (simp add: clean_def)
  from composite_run [OF 1(11) step_length [OF s10] parts(5)] have
    s11: "step a (\<lambda>s. s) t10 t11" and k11: "rel_option (list_all2 (kid P t11 a)) (jsonObjectGetArray ps ''oneOf'') ones" by auto
  have s12: "step a (\<lambda>s. s\<lparr>oneOf := ones\<rparr>) t11 t12"
    by (rule step_modify [OF 1(12) step_length [OF s11]]) (simp add: clean_def)
  from value_run [OF 1(13)[unfolded buildNot_def] step_length [OF s12] parts(6)] obtain nots where
    s13: "step a (case nots of None \<Rightarrow> \<lambda>s. s | Some b \<Rightarrow> \<lambda>s. s\<lparr>notSpec := Some b\<rparr>) t12 t13"
    and k13: "rel_option (kid P t13 a) (kw ps ''not'') nots" by (auto simp: clean_def)
  note s14 = values_run [OF 1(14) step_length [OF s13]]
  note r13 = step_trans [OF s13 s14] note r12 = step_trans [OF s12 r13] note r11 = step_trans [OF s11 r12]
  note r10 = step_trans [OF s10 r11] note r9 = step_trans [OF s9 r10] note r8 = step_trans [OF s8 r9]
  note r7 = step_trans [OF s7 r8] note r6 = step_trans [OF s6 r7] note r5 = step_trans [OF s5 r6]
  note r2 = step_trans [OF s2 r5]
  have "step a (composites_update ps defs pats alls anys ones nots) st st1"
    by (rule step_eq [OF step_trans [OF s1 r2]], rule jsValueSpec.equality)
      (auto simp: composites_update_def fl split: option.splits json.splits)
  moreover have "composite_kids P ps st1 a pats alls anys ones nots" unfolding composite_kids_def
    by (intro conjI members_step [OF k6 r7] opt_kids_step(1) [OF k7 r8] opt_kids_step(1) [OF k9 r10]
        opt_kids_step(1) [OF k11 r12] opt_kids_step(2) [OF k13 s14])
  ultimately show ?case by blast
qed

end
