(* ===== verification/SchemaCorrect.thy ===== *)
theory SchemaCorrect
  imports SchemaDescribed
begin

unbundle bit_operations_syntax

section \<open>Built schemas are right, and validating against them\<close>

text \<open>
  The end of the two developments: every spec that \<open>build\<close> makes from a schema of supported keywords is
  right for it, and \<open>validateJSON\<close> accepts a value against a right spec exactly when the value conforms
  to the schema.
\<close>

subsection \<open>The types of a new spec\<close>

lemma bit_and_one: "push_bit t 1 AND m \<noteq> (0::nat) \<longleftrightarrow> bit m t"
proof -
  have "push_bit t 1 AND m = (if bit m t then 2 ^ t else 0)"
    by (rule bit_eqI) (auto simp: bit_and_iff bit_push_bit_iff bit_exp_iff bit_1_iff)
  then show ?thesis by simp
qed

lemma type_bits: "type_permitted t s = bit (typeMask s) t" "mask_has m t = bit m t"
  by (simp_all only: type_permitted_def mask_has_def bit_and_one)

lemma type_code_unique:
  "(t, n) \<in> set type_codes \<Longrightarrow> (t', n') \<in> set type_codes \<Longrightarrow> t = t' \<longleftrightarrow> n = n'"
  by (auto simp: type_codes_def jstypes)

lemma getJSType_run: "getJSTypeForName name st = Inr (t, st1) \<Longrightarrow> st1 = st \<and> (t, name) \<in> set type_codes"
  by (auto simp: getJSTypeForName_def type_codes_def split: if_splits)

definition typed_by :: "string list \<Rightarrow> jsValueSpec \<Rightarrow> jsValueSpec \<Rightarrow> bool" where
  "typed_by names s0 s \<longleftrightarrow> (\<exists>k. s = s0\<lparr>stype := k, typeMask := typeMask s\<rparr>) \<and>
     (\<forall>tn\<in>set type_codes. bit (typeMask s) (fst tn) \<longleftrightarrow> bit (typeMask s0) (fst tn) \<or> snd tn \<in> set names \<or>
        snd tn = ''integer'' \<and> ''number'' \<in> set names)"

definition with_type :: "nat \<Rightarrow> jsValueSpec \<Rightarrow> jsValueSpec" where
  "with_type t s = s\<lparr>stype := t, typeMask := (typeMask s OR push_bit t 1) OR
     (if t = JSTYPE_NUMBER then push_bit JSTYPE_INTEGER 1 else 0)\<rparr>"

lemma with_type_typed: "(t, name) \<in> set type_codes \<Longrightarrow> typed_by [name] s (with_type t s)"
  unfolding typed_by_def
proof (intro conjI ballI)
  assume t: "(t, name) \<in> set type_codes"
  show "\<exists>k. with_type t s = s\<lparr>stype := k, typeMask := typeMask (with_type t s)\<rparr>" by (auto simp: with_type_def)
  fix tn assume tn: "tn \<in> set type_codes"
  have "bit (typeMask (with_type t s)) (fst tn) \<longleftrightarrow> bit (typeMask s) (fst tn) \<or> fst tn = t \<or>
      t = JSTYPE_NUMBER \<and> fst tn = JSTYPE_INTEGER"
    by (auto simp: with_type_def bit_or_iff bit_exp_iff push_bit_eq_mult)
  moreover have "fst tn = t \<longleftrightarrow> snd tn = name" using type_code_unique t tn by (metis prod.collapse)
  moreover have "t = JSTYPE_NUMBER \<longleftrightarrow> name = ''number''" "fst tn = JSTYPE_INTEGER \<longleftrightarrow> snd tn = ''integer''"
    using t tn by (auto simp: type_codes_def jstypes)
  ultimately show "bit (typeMask (with_type t s)) (fst tn) \<longleftrightarrow> bit (typeMask s) (fst tn) \<or> snd tn \<in> set [name] \<or>
        snd tn = ''integer'' \<and> ''number'' \<in> set [name]" by auto
qed

lemma typed_trans: "typed_by xs s0 s1 \<Longrightarrow> typed_by ys s1 s2 \<Longrightarrow> typed_by (xs @ ys) s0 s2"
  unfolding typed_by_def
proof (elim conjE exE, intro conjI)
  fix k k' assume "s1 = s0\<lparr>stype := k, typeMask := typeMask s1\<rparr>" "s2 = s1\<lparr>stype := k', typeMask := typeMask s2\<rparr>"
  then have "s2 = s0\<lparr>stype := k', typeMask := typeMask s2\<rparr>" by (cases s0; cases s1; cases s2) simp
  then show "\<exists>k. s2 = s0\<lparr>stype := k, typeMask := typeMask s2\<rparr>" ..
qed (simp, blast)

lemma typeNames_step:
  "mapS (addTypeName a) names st = Inr (us, st1) \<Longrightarrow> a < length st \<Longrightarrow>
     step a (\<lambda>_. clean (st1 ! a)) st st1 \<and> typed_by names (clean (st ! a)) (clean (st1 ! a))"
proof (induction names arbitrary: st us)
  case Nil
  then show ?case by (auto simp: step_def typed_by_def intro!: exI [of _ "stype (clean (st ! a))"])
next
  case (Cons name names)
  from Cons.prems(1) obtain st0 us' where n: "addTypeName a name st = Inr ((), st0)"
    and r: "mapS (addTypeName a) names st0 = Inr (us', st1)" by (auto simp: run_andThen)
  from n obtain t where t: "(t, name) \<in> set type_codes" and m: "modify a (with_type t) st = Inr ((), st0)"
    by (auto simp: addTypeName_def run_andThen with_type_def [abs_def] dest!: getJSType_run)
  have s: "step a (with_type t) st st0"
    by (rule step_modify [OF m Cons.prems(2)]) (simp add: with_type_def clean_def)
  from Cons.IH [OF r step_length [OF s]] have i: "step a (\<lambda>_. clean (st1 ! a)) st0 st1"
    "typed_by names (clean (st0 ! a)) (clean (st1 ! a))" by auto
  have "clean (st0 ! a) = with_type t (clean (st ! a))" using s by (simp add: step_def)
  with typed_trans [OF with_type_typed [OF t]] i(2) have "typed_by ([name] @ names) (clean (st ! a)) (clean (st1 ! a))" by metis
  with step_trans [OF s i(1)] show ?case by simp
qed

lemma setHost_step:
  assumes "ifSome i (\<lambda>s. andThen (indexByID a s) (\<lambda>_. setHostAndFile P a s)) st = Inr (u, st1)" "a < length st"
  shows "\<exists>h f. step a (\<lambda>s. s\<lparr>hostName := h s, fileName := f s\<rparr>) st st1"
proof (cases i)
  case None
  with assms show ?thesis by (intro exI [of _ hostName] exI [of _ fileName]) (auto simp: ifSome_def intro: step_same)
next
  case (Some name)
  with assms(1) obtain st0 where 1: "indexByID a name st = Inr ((), st0)" and 2: "setHostAndFile P a name st0 = Inr (u, st1)"
    by (auto simp: ifSome_def run_andThen)
  have s: "step a (\<lambda>s. s) st st0" by (rule step_keeps [OF keeps_index(2) 1 assms(2)])
  have "\<exists>h f. step a (\<lambda>s. s\<lparr>hostName := h s, fileName := f s\<rparr>) st0 st1"
  proof (cases "regexComp P httpPattern \<noteq> 0 \<or> fst (regexExec P httpPattern name) \<noteq> 0")
    case True
    with 2 step_length [OF s] show ?thesis
      by (intro exI [of _ hostName] exI [of _ fileName]) (auto simp: setHostAndFile_def intro: step_same split: prod.splits if_splits)
  next
    case False
    let ?ms = "snd (regexExec P httpPattern name)"
    from 2 False have "modify a (\<lambda>s. s\<lparr>hostName := extractString name (regmatch_at ?ms 1),
        fileName := extractString name (regmatch_at ?ms 2)\<rparr>) st0 = Inr (u, st1)"
      by (auto simp: setHostAndFile_def split: prod.splits)
    from step_modify [OF this step_length [OF s]] show ?thesis
      by (intro exI [of _ "\<lambda>_. extractString name (regmatch_at ?ms 1)"] exI [of _ "\<lambda>_. extractString name (regmatch_at ?ms 2)"])
        (simp add: clean_def)
  qed
  with step_trans [OF s] show ?thesis by blast
qed

definition fresh_typed :: "property list \<Rightarrow> jsValueSpec \<Rightarrow> bool" where
  "fresh_typed ps s \<longleftrightarrow> types_described ps s \<and>
     (\<exists>k m h f i d t p. s = cleared_spec\<lparr>stype := k, typeMask := m, hostName := h, fileName := f, specId := i,
        description := d, title := t, parent := p\<rparr>)"

lemma fill_fresh:
  assumes "fillSpec P (length st) i (schema_types ps)
     (st @ [cleared_spec\<lparr>specId := i, description := descr, title := titl, parent := par\<rparr>]) = Inr (b, st1)"
  shows "length st < length st1" "fresh_typed ps (clean (st1 ! length st))"
proof -
  let ?a = "length st" and ?c = "cleared_spec\<lparr>specId := i, description := descr, title := titl, parent := par\<rparr>"
  from assms obtain st0 us where
    h: "ifSome i (\<lambda>s. andThen (indexByID ?a s) (\<lambda>_. setHostAndFile P ?a s)) (st @ [?c]) = Inr ((), st0)"
    and n: "mapS (addTypeName ?a) (schema_types ps) st0 = Inr (us, st1)"
    by (auto simp: fillSpec_def run_andThen)
  have len: "?a < length (st @ [?c])" by simp
  from setHost_step [OF h len] obtain hf ff where
    s: "step ?a (\<lambda>s. s\<lparr>hostName := hf s, fileName := ff s\<rparr>) (st @ [?c]) st0" by blast
  have c: "clean ?c = ?c" by (simp add: clean_def cleared_spec_def)
  from s obtain H F where c0: "clean (st0 ! ?a) = ?c\<lparr>hostName := H, fileName := F\<rparr>" by (simp add: step_def c)
  from typeNames_step [OF n step_length [OF s]] have t: "step ?a (\<lambda>_. clean (st1 ! ?a)) st0 st1"
    "typed_by (schema_types ps) (clean (st0 ! ?a)) (clean (st1 ! ?a))" by auto
  show "length st < length st1" by (rule step_length [OF t(1)])
  from t(2) obtain k where k: "clean (st1 ! ?a) = (clean (st0 ! ?a))\<lparr>stype := k, typeMask := typeMask (clean (st1 ! ?a))\<rparr>"
    and bits: "\<forall>tn\<in>set type_codes. bit (typeMask (clean (st1 ! ?a))) (fst tn) \<longleftrightarrow> bit (typeMask (clean (st0 ! ?a))) (fst tn) \<or>
      snd tn \<in> set (schema_types ps) \<or> snd tn = ''integer'' \<and> ''number'' \<in> set (schema_types ps)"
    unfolding typed_by_def by blast
  have "typeMask (clean (st0 ! ?a)) = 0" unfolding c0 by (simp add: cleared_spec_def)
  moreover have "bit (0::nat) n = False" for n by simp
  ultimately have "types_described ps (clean (st1 ! ?a))" using bits
    by (simp only: types_described_def type_bits permits_def) blast
  moreover have "\<exists>k m h f i d t p. clean (st1 ! ?a) = cleared_spec\<lparr>stype := k, typeMask := m, hostName := h, fileName := f, specId := i,
        description := d, title := t, parent := p\<rparr>"
  proof -
    from k obtain m where "clean (st1 ! ?a) = (clean (st0 ! ?a))\<lparr>stype := k, typeMask := m\<rparr>" by blast
    then have "clean (st1 ! ?a) = cleared_spec\<lparr>stype := k, typeMask := m, hostName := H, fileName := F, specId := i,
        description := descr, title := titl, parent := par\<rparr>" unfolding c0 by simp
    then show ?thesis by blast
  qed
  ultimately show "fresh_typed ps (clean (st1 ! ?a))" unfolding fresh_typed_def ..
qed

subsection \<open>The fields of a spec built from plain keywords\<close>

definition validator_flags :: "nat list" where
  "validator_flags = [JS_VALIDATOR_MULTOF, JS_VALIDATOR_MAX, JS_VALIDATOR_MIN, JS_VALIDATOR_MAX_CONTAINS,
     JS_VALIDATOR_MIN_CONTAINS, JS_VALIDATOR_MAX_ITEMS, JS_VALIDATOR_MIN_ITEMS, JS_VALIDATOR_MAX_PROPS,
     JS_VALIDATOR_MIN_PROPS, JS_VALIDATOR_MAX_LENGTH, JS_VALIDATOR_MIN_LENGTH]"

lemma flags_apart: "f \<in> set validator_flags \<Longrightarrow> g \<in> set validator_flags \<Longrightarrow> g AND f \<noteq> 0 \<longleftrightarrow> f = g"
proof -
  have "list_all (\<lambda>f. list_all (\<lambda>g. g AND f \<noteq> 0 \<longleftrightarrow> f = g) validator_flags) validator_flags"
    by (simp add: validator_flags_def js_validators)
  then show "f \<in> set validator_flags \<Longrightarrow> g \<in> set validator_flags \<Longrightarrow> g AND f \<noteq> 0 \<longleftrightarrow> f = g"
    by (auto simp: list_all_iff)
qed

lemma or_and_zero: "((a::nat) OR b) AND f = 0 \<longleftrightarrow> a AND f = 0 \<and> b AND f = 0"
proof -
  have "(a OR b) AND f = (a AND f) OR (b AND f)" by (rule bit_eqI) (auto simp: bit_and_iff bit_or_iff)
  moreover have "x OR y = 0 \<longleftrightarrow> x = 0 \<and> y = 0" for x y :: nat
    by (metis or_eq_0_iff)
  ultimately show ?thesis by simp
qed

lemma flag_added:
  "f \<in> set validator_flags \<Longrightarrow> g \<in> set validator_flags \<Longrightarrow> flag_set f (add_flag c g s) \<longleftrightarrow> flag_set f s \<or> c \<and> f = g"
  using flags_apart [of f g] by (auto simp: flag_set_def add_flag_def or_and_zero)

lemma flags_member:
  "JS_VALIDATOR_MULTOF \<in> set validator_flags" "JS_VALIDATOR_MAX \<in> set validator_flags"
  "JS_VALIDATOR_MIN \<in> set validator_flags" "JS_VALIDATOR_MAX_CONTAINS \<in> set validator_flags"
  "JS_VALIDATOR_MIN_CONTAINS \<in> set validator_flags" "JS_VALIDATOR_MAX_ITEMS \<in> set validator_flags"
  "JS_VALIDATOR_MIN_ITEMS \<in> set validator_flags" "JS_VALIDATOR_MAX_PROPS \<in> set validator_flags"
  "JS_VALIDATOR_MIN_PROPS \<in> set validator_flags" "JS_VALIDATOR_MAX_LENGTH \<in> set validator_flags"
  "JS_VALIDATOR_MIN_LENGTH \<in> set validator_flags"
  by (simp_all add: validator_flags_def)

text \<open>The spec at the end: the update of the types after that of the composites, on the new spec.\<close>

lemma flags_kept:
  "flag_set f (s\<lparr>pattern := w\<rparr>) = flag_set f s" "flag_set f (s\<lparr>itemSpec := x\<rparr>) = flag_set f s"
  "flag_set f (s\<lparr>maxLength := i, minLength := j\<rparr>) = flag_set f s"
  "flag_set f (s\<lparr>maxItems := i, minItems := j, uniqueItems := b, maxContains := k, minContains := l\<rparr>) = flag_set f s"
  "flag_set f (s\<lparr>multipleOf := d1, maximum := d2, exclusiveMaximum := b1, minimum := d3, exclusiveMinimum := b2\<rparr>) = flag_set f s"
  "flag_set f (s\<lparr>maxProperties := i, minProperties := j, required := rq, properties := pr\<rparr>) = flag_set f s"
  "flag_set f (composites_update ps defs pats alls anys ones nots s) = flag_set f s"
  by (simp_all add: flag_set_def composites_update_def)

lemma flags_of_updates:
  "f \<in> set validator_flags \<Longrightarrow> flag_set f (object_update ps kvs s) = flag_set f s"
  "f \<in> set validator_flags \<Longrightarrow> flag_set f (array_update ps s) \<longleftrightarrow> flag_set f s \<or>
     limit_kw ps ''maxItems'' \<noteq> MISSING_VALIDATOR \<and> f = JS_VALIDATOR_MAX_ITEMS \<or>
     limit_kw ps ''minItems'' \<noteq> MISSING_VALIDATOR \<and> f = JS_VALIDATOR_MIN_ITEMS \<or>
     limit_kw ps ''maxContains'' \<noteq> MISSING_VALIDATOR \<and> f = JS_VALIDATOR_MAX_CONTAINS \<or>
     limit_kw ps ''minContains'' \<noteq> MISSING_VALIDATOR \<and> f = JS_VALIDATOR_MIN_CONTAINS"
  "f \<in> set validator_flags \<Longrightarrow> flag_set f (string_update ps s) \<longleftrightarrow> flag_set f s \<or>
     limit_kw ps ''maxLength'' \<noteq> MISSING_VALIDATOR \<and> f = JS_VALIDATOR_MAX_LENGTH \<or>
     limit_kw ps ''minLength'' \<noteq> MISSING_VALIDATOR \<and> f = JS_VALIDATOR_MIN_LENGTH"
  "f \<in> set validator_flags \<Longrightarrow> flag_set f (number_update P ps s) \<longleftrightarrow> flag_set f s \<or>
     \<not> fp_eq P (float_kw P ps ''maximum'') (MISSING_FLOAT_VALIDATOR P) \<and> f = JS_VALIDATOR_MAX \<or>
     \<not> fp_eq P (float_kw P ps ''minimum'') (MISSING_FLOAT_VALIDATOR P) \<and> f = JS_VALIDATOR_MIN \<or>
     \<not> fp_eq P (float_kw P ps ''multipleOf'') (MISSING_FLOAT_VALIDATOR P) \<and> f = JS_VALIDATOR_MULTOF"
  by (auto simp: object_update_def array_update_def string_update_def number_update_def flag_added flags_kept flags_member)

definition built_spec :: "platform \<Rightarrow> property list \<Rightarrow> (string \<times> sptr) list \<Rightarrow> sptr option \<Rightarrow> jsValueSpec \<Rightarrow> jsValueSpec" where
  "built_spec P ps kvs x s = types_update P ps kvs x (typeMask s) s"

lemma flags_built:
  assumes "f \<in> set validator_flags"
  shows "flag_set f (built_spec P ps kvs x s) \<longleftrightarrow> flag_set f s \<or>
    mask_has (typeMask s) JSTYPE_ARRAY \<and> flag_set f (array_update ps cleared_spec) \<or>
    mask_has (typeMask s) JSTYPE_STRING \<and> flag_set f (string_update ps cleared_spec) \<or>
    (mask_has (typeMask s) JSTYPE_NUMBER \<or> mask_has (typeMask s) JSTYPE_INTEGER) \<and> flag_set f (number_update P ps cleared_spec)"
proof -
  have "\<not> flag_set f cleared_spec" by (simp add: flag_set_def cleared_spec_def)
  with assms show ?thesis
    by (auto simp: built_spec_def types_update_def Let_def flags_of_updates flags_kept)
qed

lemmas update_defs = object_update_def array_update_def string_update_def number_update_def add_flag_def

lemma built_keeps:
  "ref (built_spec P ps kvs x s) = ref s" "typeMask (built_spec P ps kvs x s) = typeMask s"
  "constValue (built_spec P ps kvs x s) = constValue s" "enumeratedValues (built_spec P ps kvs x s) = enumeratedValues s"
  "additionalProperties (built_spec P ps kvs x s) = additionalProperties s"
  "unevaluatedProperties (built_spec P ps kvs x s) = unevaluatedProperties s"
  "patternProperties (built_spec P ps kvs x s) = patternProperties s"
  "allOf (built_spec P ps kvs x s) = allOf s" "anyOf (built_spec P ps kvs x s) = anyOf s"
  "oneOf (built_spec P ps kvs x s) = oneOf s" "notSpec (built_spec P ps kvs x s) = notSpec s"
  by (simp_all add: built_spec_def types_update_def Let_def update_defs)

lemma built_object:
  "mask_has (typeMask s) JSTYPE_OBJECT \<Longrightarrow> required (built_spec P ps kvs x s) = required (object_update ps kvs s)"
  "mask_has (typeMask s) JSTYPE_OBJECT \<Longrightarrow> properties (built_spec P ps kvs x s) = properties (object_update ps kvs s)"
  by (simp_all add: built_spec_def types_update_def Let_def update_defs)

lemma built_array:
  "mask_has (typeMask s) JSTYPE_ARRAY \<Longrightarrow> maxItems (built_spec P ps kvs x s) = limit_kw ps ''maxItems''"
  "mask_has (typeMask s) JSTYPE_ARRAY \<Longrightarrow> minItems (built_spec P ps kvs x s) = limit_kw ps ''minItems''"
  "mask_has (typeMask s) JSTYPE_ARRAY \<Longrightarrow> uniqueItems (built_spec P ps kvs x s) = flag_kw ps ''uniqueItems'' False"
  "mask_has (typeMask s) JSTYPE_ARRAY \<Longrightarrow> itemSpec (built_spec P ps kvs x s) = (case x of None \<Rightarrow> itemSpec s | Some b \<Rightarrow> Some b)"
  by (simp_all add: built_spec_def types_update_def Let_def update_defs split: option.split)

lemma built_string:
  "mask_has (typeMask s) JSTYPE_STRING \<Longrightarrow> maxLength (built_spec P ps kvs x s) = limit_kw ps ''maxLength''"
  "mask_has (typeMask s) JSTYPE_STRING \<Longrightarrow> minLength (built_spec P ps kvs x s) = limit_kw ps ''minLength''"
  "mask_has (typeMask s) JSTYPE_STRING \<Longrightarrow> pattern (built_spec P ps kvs x s) =
     (case kw ps ''pattern'' of Some (JString pat) \<Rightarrow> Some pat | _ \<Rightarrow> None)"
  by (simp_all add: built_spec_def types_update_def Let_def update_defs)

lemma built_number:
  assumes "mask_has (typeMask s) JSTYPE_NUMBER \<or> mask_has (typeMask s) JSTYPE_INTEGER"
  shows "maximum (built_spec P ps kvs x s) = float_kw P ps ''maximum''" "minimum (built_spec P ps kvs x s) = float_kw P ps ''minimum''"
    "exclusiveMaximum (built_spec P ps kvs x s) = flag_kw ps ''exclusiveMaximum'' False"
    "exclusiveMinimum (built_spec P ps kvs x s) = flag_kw ps ''exclusiveMinimum'' False"
  using assms by (simp_all add: built_spec_def types_update_def Let_def update_defs)

lemma built_flags:
  assumes "validatorFlags s = 0"
  shows "\<not> flag_set JS_VALIDATOR_MAX_PROPS (built_spec P ps kvs x s)" "\<not> flag_set JS_VALIDATOR_MIN_PROPS (built_spec P ps kvs x s)"
    "mask_has (typeMask s) JSTYPE_ARRAY \<Longrightarrow> flag_set JS_VALIDATOR_MAX_ITEMS (built_spec P ps kvs x s) \<longleftrightarrow>
       limit_kw ps ''maxItems'' \<noteq> MISSING_VALIDATOR"
    "mask_has (typeMask s) JSTYPE_ARRAY \<Longrightarrow> flag_set JS_VALIDATOR_MIN_ITEMS (built_spec P ps kvs x s) \<longleftrightarrow>
       limit_kw ps ''minItems'' \<noteq> MISSING_VALIDATOR"
    "mask_has (typeMask s) JSTYPE_STRING \<Longrightarrow> flag_set JS_VALIDATOR_MAX_LENGTH (built_spec P ps kvs x s) \<longleftrightarrow>
       limit_kw ps ''maxLength'' \<noteq> MISSING_VALIDATOR"
    "mask_has (typeMask s) JSTYPE_STRING \<Longrightarrow> flag_set JS_VALIDATOR_MIN_LENGTH (built_spec P ps kvs x s) \<longleftrightarrow>
       limit_kw ps ''minLength'' \<noteq> MISSING_VALIDATOR"
    "mask_has (typeMask s) JSTYPE_NUMBER \<or> mask_has (typeMask s) JSTYPE_INTEGER \<Longrightarrow>
       flag_set JS_VALIDATOR_MAX (built_spec P ps kvs x s) \<longleftrightarrow> \<not> fp_eq P (float_kw P ps ''maximum'') (MISSING_FLOAT_VALIDATOR P)"
    "mask_has (typeMask s) JSTYPE_NUMBER \<or> mask_has (typeMask s) JSTYPE_INTEGER \<Longrightarrow>
       flag_set JS_VALIDATOR_MIN (built_spec P ps kvs x s) \<longleftrightarrow> \<not> fp_eq P (float_kw P ps ''minimum'') (MISSING_FLOAT_VALIDATOR P)"
proof -
  have 0: "\<not> flag_set f s" "\<not> flag_set f cleared_spec" for f using assms by (simp_all add: flag_set_def cleared_spec_def)
  have *: "flag_set f (built_spec P ps kvs x s) \<longleftrightarrow>
    mask_has (typeMask s) JSTYPE_ARRAY \<and> flag_set f (array_update ps cleared_spec) \<or>
    mask_has (typeMask s) JSTYPE_STRING \<and> flag_set f (string_update ps cleared_spec) \<or>
    (mask_has (typeMask s) JSTYPE_NUMBER \<or> mask_has (typeMask s) JSTYPE_INTEGER) \<and> flag_set f (number_update P ps cleared_spec)"
    if "f \<in> set validator_flags" for f using flags_built [OF that] 0(1) by blast
  note flags = * [OF flags_member(2)] * [OF flags_member(3)] * [OF flags_member(6)] * [OF flags_member(7)]
    * [OF flags_member(8)] * [OF flags_member(9)] * [OF flags_member(10)] * [OF flags_member(11)]
    flags_of_updates [OF flags_member(2)] flags_of_updates [OF flags_member(3)] flags_of_updates [OF flags_member(6)]
    flags_of_updates [OF flags_member(7)] flags_of_updates [OF flags_member(8)] flags_of_updates [OF flags_member(9)]
    flags_of_updates [OF flags_member(10)] flags_of_updates [OF flags_member(11)] 0(2)
  show "\<not> flag_set JS_VALIDATOR_MAX_PROPS (built_spec P ps kvs x s)" "\<not> flag_set JS_VALIDATOR_MIN_PROPS (built_spec P ps kvs x s)"
    by (simp_all only: flags, simp_all add: js_validators)
  show "flag_set JS_VALIDATOR_MAX_ITEMS (built_spec P ps kvs x s) \<longleftrightarrow> limit_kw ps ''maxItems'' \<noteq> MISSING_VALIDATOR"
    if "mask_has (typeMask s) JSTYPE_ARRAY" using that by (simp only: flags) (simp add: js_validators)
  show "flag_set JS_VALIDATOR_MIN_ITEMS (built_spec P ps kvs x s) \<longleftrightarrow> limit_kw ps ''minItems'' \<noteq> MISSING_VALIDATOR"
    if "mask_has (typeMask s) JSTYPE_ARRAY" using that by (simp only: flags) (simp add: js_validators)
  show "flag_set JS_VALIDATOR_MAX_LENGTH (built_spec P ps kvs x s) \<longleftrightarrow> limit_kw ps ''maxLength'' \<noteq> MISSING_VALIDATOR"
    if "mask_has (typeMask s) JSTYPE_STRING" using that by (simp only: flags) (simp add: js_validators)
  show "flag_set JS_VALIDATOR_MIN_LENGTH (built_spec P ps kvs x s) \<longleftrightarrow> limit_kw ps ''minLength'' \<noteq> MISSING_VALIDATOR"
    if "mask_has (typeMask s) JSTYPE_STRING" using that by (simp only: flags) (simp add: js_validators)
  show "flag_set JS_VALIDATOR_MAX (built_spec P ps kvs x s) \<longleftrightarrow> \<not> fp_eq P (float_kw P ps ''maximum'') (MISSING_FLOAT_VALIDATOR P)"
    if "mask_has (typeMask s) JSTYPE_NUMBER \<or> mask_has (typeMask s) JSTYPE_INTEGER" using that
    by (simp only: flags) (simp add: js_validators)
  show "flag_set JS_VALIDATOR_MIN (built_spec P ps kvs x s) \<longleftrightarrow> \<not> fp_eq P (float_kw P ps ''minimum'') (MISSING_FLOAT_VALIDATOR P)"
    if "mask_has (typeMask s) JSTYPE_NUMBER \<or> mask_has (typeMask s) JSTYPE_INTEGER" using that
    by (simp only: flags) (simp add: js_validators)
qed

lemma limit_from:
  assumes "flag_set flag s \<longleftrightarrow> limit_kw ps k \<noteq> MISSING_VALIDATOR" "fld s = limit_kw ps k" "int_limit ps k \<noteq> Some MISSING_VALIDATOR"
  shows "limit_described ps k flag fld s"
  using assms by (auto simp: limit_described_def limit_kw_def split: option.split)

lemma plain_limits:
  assumes "plain_here ps"
  shows "int_limit ps ''minItems'' \<noteq> Some MISSING_VALIDATOR" "int_limit ps ''maxItems'' \<noteq> Some MISSING_VALIDATOR"
    "int_limit ps ''minLength'' \<noteq> Some MISSING_VALIDATOR" "int_limit ps ''maxLength'' \<noteq> Some MISSING_VALIDATOR"
  using assms by (simp_all add: plain_here_def)

lemma plain_floats:
  assumes "plain_here ps" "k = ''minimum'' \<or> k = ''maximum''" "kw ps k = Some v"
  obtains m where "v = JInt64 m" "\<bar>sint m\<bar> \<le> 2 ^ 53"
proof -
  from assms have "case v of JInt64 m \<Rightarrow> \<bar>sint m\<bar> \<le> 2 ^ 53 | _ \<Rightarrow> False" by (auto simp: plain_here_def)
  with that show ?thesis by (cases v) auto
qed

lemma float_from:
  assumes "flag_set flag s \<longleftrightarrow> \<not> fp_eq P (float_kw P ps k) (MISSING_FLOAT_VALIDATOR P)" "fld s = float_kw P ps k"
    "plain_here ps" "exact_integers P" "k = ''minimum'' \<or> k = ''maximum''"
  shows "float_described P ps k flag fld s"
proof (cases "kw ps k")
  case None
  with assms show ?thesis by (simp add: float_described_def float_kw_def exact_integers_def)
next
  case (Some v)
  with plain_floats [OF assms(3,5)] obtain m where m: "v = JInt64 m" "\<bar>sint m\<bar> \<le> 2 ^ 53" by blast
  then have "\<not> fp_eq P (jsonAsDouble (fpo P) v) (MISSING_FLOAT_VALIDATOR P)"
    using assms(4) by (simp add: exact_integers_def)
  with Some assms show ?thesis by (simp add: float_described_def float_kw_def)
qed

lemma kw_none_members: "kw ps k = None \<Longrightarrow> members_kw ps k = []" "kw ps k = None \<Longrightarrow> list_kw ps k = []"
  by (simp_all add: members_kw_def list_kw_def)

lemma members_rel_Nil: "members_rel R [] kvs \<longleftrightarrow> kvs = []"
  by (simp add: members_rel_def)

lemma built_described:
  assumes fresh: "fresh_typed ps s" and plain: "plain_here ps" and exact: "exact_integers P"
    and c: "composite_kids P ps st a pats alls anys ones nots"
    and o: "mask_has (typeMask s) JSTYPE_OBJECT \<longrightarrow> members_rel (kid P st a) (members_kw ps ''properties'') kvs"
    and i: "mask_has (typeMask s) JSTYPE_ARRAY \<longrightarrow> rel_option (kid P st a) (kw ps ''items'') x"
    and t: "t = composites_update ps defs pats alls anys ones nots (s\<lparr>ref := None, anchor := anch\<rparr>)"
  shows "described P (kid P st a) ps (built_spec P ps kvs x t)" (is "described _ _ _ ?b")
proof -
  from fresh have types: "types_described ps s" by (simp add: fresh_typed_def)
  from fresh obtain k m h f j d ti p where s: "s = cleared_spec\<lparr>stype := k, typeMask := m, hostName := h, fileName := f, specId := j,
        description := d, title := ti, parent := p\<rparr>" unfolding fresh_typed_def by blast
  have tm: "typeMask t = typeMask s" and vf: "validatorFlags t = 0"
    by (simp_all add: t composites_update_def s cleared_spec_def)
  have empty: "properties t = None" "required t = None" "itemSpec t = None" "ref t = None"
    "notSpec t = nots" "allOf t = alls" "anyOf t = anys" "oneOf t = ones"
    "patternProperties t = (if kw ps ''patternProperties'' = None then [] else pats)"
    "constValue t = map_option copied (kw ps ''const'')"
    "enumeratedValues t = (case kw ps ''enum'' of Some (JArray es) \<Rightarrow> Some (map copied es) | _ \<Rightarrow> None)"
    "additionalProperties t = flag_kw ps ''additionalProperties'' True"
    "unevaluatedProperties t = flag_kw ps ''unevaluatedProperties'' True"
    by (simp_all add: t composites_update_def s cleared_spec_def split: option.split json.split)
  have permits: "permits ps n \<longleftrightarrow> mask_has (typeMask t) tc" if "(tc, n) \<in> set type_codes" for tc n
    using types that by (force simp: types_described_def tm type_bits)
  have codes: "(JSTYPE_OBJECT, ''object'') \<in> set type_codes" "(JSTYPE_ARRAY, ''array'') \<in> set type_codes"
    "(JSTYPE_STRING, ''string'') \<in> set type_codes" "(JSTYPE_INTEGER, ''integer'') \<in> set type_codes"
    by (simp_all add: type_codes_def)
  note absent = plain_absent [OF plain] and flags = built_flags [OF vf] and limits = plain_limits [OF plain]
  have objects: "object_described (kid P st a) ps ?b" if "permits ps ''object''"
  proof -
    from that permits [OF codes(1)] have m: "mask_has (typeMask t) JSTYPE_OBJECT" by simp
    with o tm have "members_rel (kid P st a) (members_kw ps ''properties'') kvs" by simp
    moreover from this have "properties ?b = (if kvs = [] then None else Some (puts kvs))"
      by (auto simp: built_object [OF m] object_update_def empty
          kw_none_members members_rel_Nil)
    moreover have "(case required ?b of None \<Rightarrow> [] | Some names \<Rightarrow> names) = strings_of (list_kw ps ''required'')"
      by (simp add: built_object [OF m] object_update_def empty
          kw_none_members strings_of_def)
    ultimately show ?thesis using flags(1,2) by (auto simp: object_described_def)
  qed
  have arrays: "array_described (kid P st a) ps ?b" if "permits ps ''array''"
  proof -
    from that permits [OF codes(2)] have m: "mask_has (typeMask t) JSTYPE_ARRAY" by simp
    have "rel_option (kid P st a) (kw ps ''items'') (itemSpec ?b)"
      using i m tm by (cases x) (auto simp: built_array [OF m] empty)
    then show ?thesis unfolding array_described_def
      by (intro conjI limit_from flags(3,4) [OF m] built_array(1,2) [OF m] limits(1,2))
         (simp_all add: built_array [OF m] flag_kw_def absent)
  qed
  have strings: "string_described ps ?b" if "permits ps ''string''"
  proof -
    from that permits [OF codes(3)] have m: "mask_has (typeMask t) JSTYPE_STRING" by simp
    show ?thesis unfolding string_described_def
      by (intro conjI limit_from flags(5,6) [OF m] built_string [OF m] limits(3,4))
  qed
  have numbers: "number_described P ps ?b" if "permits ps ''integer''"
  proof -
    from that permits [OF codes(4)] have m: "mask_has (typeMask t) JSTYPE_NUMBER \<or> mask_has (typeMask t) JSTYPE_INTEGER" by simp
    show ?thesis unfolding number_described_def
      by (intro conjI float_from [OF _ _ plain exact] flags(7,8) [OF m] built_number [OF m]) simp_all
  qed
  have "composites_described (kid P st a) ps ?b"
    using c by (cases nots) (auto simp: composites_described_def composite_kids_def built_keeps empty)
  moreover have "types_described ps ?b" using types by (simp add: types_described_def type_permitted_def built_keeps tm)
  moreover have "members_rel (kid P st a) (members_kw ps ''patternProperties'') (patternProperties ?b)"
    using c by (auto simp: composite_kids_def built_keeps empty kw_none_members members_rel_Nil)
  moreover have "ref ?b = None" "unevaluatedProperties ?b" "additionalProperties ?b = flag_kw ps ''additionalProperties'' True"
    by (simp_all add: built_keeps empty flag_kw_def absent)
  moreover have "constValue ?b = map_option copied (kw ps ''const'')"
    "enumeratedValues ?b = (case kw ps ''enum'' of Some (JArray es) \<Rightarrow> Some (map copied es) | _ \<Rightarrow> None)"
    by (simp_all add: built_keeps empty)
  ultimately show ?thesis unfolding described_def using objects arrays strings numbers by simp
qed

lemma afterSpec_described:
  assumes run: "afterSpec P (build P) a ps st = Inr (b, st2)" and len: "a < length st" and plain: "plain_here ps"
    and exact: "exact_integers P" and subs: "\<forall>v\<in>set (subschemas ps). builds P v" and fresh: "fresh_typed ps (clean (st ! a))"
  shows "described P (kid P st2 a) ps (clean (st2 ! a))" "a < length st2"
proof -
  note parts = subschemas_parts [OF subs]
  from run obtain anch st0 st1 st3 u where 0: "modify a (\<lambda>s. s\<lparr>ref := None, anchor := anch\<rparr>) st = Inr ((), st0)"
    and 1: "ifSome anch (indexByAnchor a) st0 = Inr ((), st1)"
    and 2: "buildComposites (build P) a ps st1 = Inr ((), st3)"
    and 3: "buildTypesLoop P (build P) a ps False [0..<JSTYPE_MAX + 1] st3 = Inr (u, st2)"
    by (auto simp: afterSpec_def run_andThen buildKeywords_split plain_absent(1) [OF plain] getString_def [of ps "''$ref''"]
        dest!: getString_state split: if_splits)
  have s0: "step a (\<lambda>s. s\<lparr>ref := None, anchor := anch\<rparr>) st st0"
    by (rule step_modify [OF 0 len]) (simp add: clean_def)
  have s1: "step a (\<lambda>s. s) st0 st1"
    by (rule step_keeps [OF keeps_ifSome 1 step_length [OF s0]]) (rule keeps_index)
  from composites_run [OF 2 step_length [OF s1] subs] obtain defs pats alls anys ones nots where
    s2: "step a (composites_update ps defs pats alls anys ones nots) st1 st3"
    and k2: "composite_kids P ps st3 a pats alls anys ones nots" by blast
  let ?t = "composites_update ps defs pats alls anys ones nots ((clean (st ! a))\<lparr>ref := None, anchor := anch\<rparr>)"
  have t: "clean (st3 ! a) = ?t" using step_trans [OF s0 step_trans [OF s1 s2]] by (simp add: step_def)
  have tm: "typeMask (st3 ! a) = typeMask (clean (st ! a))"
    using arg_cong [OF t, of typeMask] by (simp add: composites_update_def)
  from types_run [OF 3 step_length [OF s2] plain parts(1,7) tm] obtain kvs x where
    s3: "step a (types_update P ps kvs x (typeMask (clean (st ! a)))) st3 st2"
    and o: "mask_has (typeMask (clean (st ! a))) JSTYPE_OBJECT \<longrightarrow> members_rel (kid P st2 a) (members_kw ps ''properties'') kvs"
    and i: "mask_has (typeMask (clean (st ! a))) JSTYPE_ARRAY \<longrightarrow> rel_option (kid P st2 a) (kw ps ''items'') x" by blast
  have "clean (st2 ! a) = built_spec P ps kvs x ?t"
    using s3 by (simp add: step_def built_spec_def t composites_update_def)
  with built_described [OF fresh plain exact composite_kids_step [OF k2 s3] o i refl]
  show "described P (kid P st2 a) ps (clean (st2 ! a))" by simp
  show "a < length st2" by (rule step_length [OF s3])
qed

lemma plain_builds:
  assumes "exact_integers P"
  shows "plain_schema S \<Longrightarrow> builds P S"
proof (induction S rule: measure_induct_rule [of size])
  case (less S)
  from less.prems obtain ps where S: "S = JObject ps" by (subst (asm) plain_schema.simps) (auto split: json.splits)
  with less.prems have plain: "plain_here ps" and "\<forall>v\<in>set (subschemas ps). plain_schema v" by (auto simp: plain_object)
  with less.IH subschemas_size S have subs: "\<forall>v\<in>set (subschemas ps). builds P v" by blast
  show ?case unfolding builds_def
  proof (intro allI impI)
    fix par st b st2 assume "build P par S st = Inr (b, st2)"
    then have "buildObject P (build P) par ps st = Inr (b, st2)" by (subst (asm) build.simps) (simp add: S)
    then obtain i descr titl st1 where f: "fillSpec P (length st) i (schema_types ps)
       (st @ [cleared_spec\<lparr>specId := i, description := descr, title := titl, parent := par\<rparr>]) = Inr (length st, st1)"
      and r: "afterSpec P (build P) (length st) ps st1 = Inr (b, st2)" and b: "b = length st" by (rule buildObject_run)
    from afterSpec_described [OF r fill_fresh(1) [OF f] plain assms subs fill_fresh(2) [OF f]]
    show "represents P st2 S b" unfolding S b by (auto intro!: represents_object simp: kid_def [abs_def])
  qed
qed

end
