(* ===== verification/SchemaVerdict.thy ===== *)
theory SchemaVerdict
  imports SchemaCorrect
begin

section \<open>What the validator decides\<close>

text \<open>
  Each check of the validator decides the test of the reference, whatever the state it starts in and whatever
  the messages. At the end stands the agreement of \<open>jsonValidateSchema\<close> with \<open>conforms\<close>.
\<close>

subsection \<open>Verdicts\<close>

definition verdict :: "vResult \<Rightarrow> bool \<Rightarrow> bool" where
  "verdict r c \<longleftrightarrow> (if c then status r = ValidContinue else status r = InvalidStop \<and> vexception r \<noteq> None)"

definition judges :: "(vResult \<times> vstate) option \<Rightarrow> bool \<Rightarrow> bool" where
  "judges m c \<longleftrightarrow> (\<exists>r s. m = Some (r, s) \<and> verdict r c)"

lemma judges_Some: "judges (Some rs) c \<longleftrightarrow> verdict (fst rs) c"
  by (cases rs) (simp add: judges_def)

lemma verdict_valid: "verdict r c \<Longrightarrow> vStatusValid (status r) = c"
  by (auto simp: verdict_def vStatusValid_def split: if_splits)

lemma verdict_child: "verdict r c \<Longrightarrow> failed_child r = [] \<longleftrightarrow> c"
  by (auto simp: failed_child_def verdict_valid verdict_def split: if_splits)

lemma verdict_failure: "verdict (failureWithException e) False" "verdict simpleSuccess True"
  by (simp_all add: verdict_def failureWithException_def simpleSuccess_def)

lemma simpleFailure_verdict: "verdict (fst (simpleFailure f s)) False"
  by (simp add: simpleFailure_def verdict_failure split: prod.split)

lemma check_pending: "fst (check bad f r) = [] \<longleftrightarrow> fst r = [] \<and> \<not> bad"
  by (auto simp: check_def split: prod.splits)

lemma finish_verdict: "verdict (fst (finish what pending s)) (pending = [])"
  by (auto simp: finish_def verdict_failure split: prod.splits)

lemma validateType_verdict: "verdict (fst (validateType t spec s)) (type_permitted t spec)"
  by (auto simp: validateType_def verdict_failure simpleFailure_verdict)

subsection \<open>Scalars\<close>

lemma validateJSONString_verdict:
  "verdict (fst (validateJSONString V w spec s))
     (\<not> (flag_set JS_VALIDATOR_MAX_LENGTH spec \<and> int (length w) > maxLength spec) \<and>
      \<not> (flag_set JS_VALIDATOR_MIN_LENGTH spec \<and> int (length w) < minLength spec) \<and>
      \<not> patternFails (vplat V) spec w)"
  unfolding validateJSONString_def Let_def
  by (rule back_subst [where P = "verdict _", OF finish_verdict]) (simp add: check_pending)

lemma validateJSONNumber_verdict:
  "verdict (fst (validateJSONNumber V v spec s))
     (\<not> (flag_set JS_VALIDATOR_MAX spec \<and>
           beyond (vplat V) (exclusiveMaximum spec) (maximum spec) (jsonAsDouble (fpo (vplat V)) v)) \<and>
      \<not> (flag_set JS_VALIDATOR_MIN spec \<and>
           beyond (vplat V) (exclusiveMinimum spec) (jsonAsDouble (fpo (vplat V)) v) (minimum spec)))"
  unfolding validateJSONNumber_def Let_def
  by (rule back_subst [where P = "verdict _", OF finish_verdict]) (simp add: check_pending beyond_def)

lemma validateJSONInteger_verdict:
  "verdict (fst (validateJSONInteger V (JInt64 i) spec s))
     (\<not> (flag_set JS_VALIDATOR_MAX spec \<and>
           (if exclusiveMaximum spec then sint i \<ge> sint (fp_to_int64 (fpo (vplat V)) (maximum spec))
            else sint i > sint (fp_to_int64 (fpo (vplat V)) (maximum spec)))) \<and>
      \<not> (flag_set JS_VALIDATOR_MIN spec \<and>
           (if exclusiveMinimum spec then sint i \<le> sint (fp_to_int64 (fpo (vplat V)) (minimum spec))
            else sint i < sint (fp_to_int64 (fpo (vplat V)) (minimum spec)))))"
  unfolding validateJSONInteger_def Let_def
  by (rule back_subst [where P = "verdict _", OF finish_verdict]) (simp add: check_pending)

lemma limit_test:
  assumes "limit_described ps k flag fld s"
  shows "flag_set flag s \<and> t (fld s) \<longleftrightarrow> (case int_limit ps k of None \<Rightarrow> False | Some i \<Rightarrow> t i)"
  using assms by (auto simp: limit_described_def split: option.splits)

lemma within_limits:
  assumes "limit_described ps lo fl fldl s" "limit_described ps hi fh fldh s"
  shows "within ps lo hi n \<longleftrightarrow> \<not> (flag_set fh s \<and> n > fldh s) \<and> \<not> (flag_set fl s \<and> n < fldl s)"
  unfolding limit_test [OF assms(1), where t = "\<lambda>m. n < m"] limit_test [OF assms(2), where t = "\<lambda>m. n > m"]
  by (auto simp: within_def split: option.split)

lemma string_judged:
  assumes "string_described ps spec"
  shows "verdict (fst (validateJSONString V w spec s)) (conforms_string (vplat V) ps w)"
proof -
  have l: "limit_described ps ''maxLength'' JS_VALIDATOR_MAX_LENGTH maxLength spec"
    "limit_described ps ''minLength'' JS_VALIDATOR_MIN_LENGTH minLength spec"
    "pattern spec = (case kw ps ''pattern'' of Some (JString pat) \<Rightarrow> Some pat | _ \<Rightarrow> None)"
    using assms by (simp_all add: string_described_def)
  have "(case kw ps ''pattern'' of Some (JString pat) \<Rightarrow> \<not> (regexComp (vplat V) pat = 0 \<and> fst (regexExec (vplat V) pat w) \<noteq> 0)
      | _ \<Rightarrow> True) \<longleftrightarrow> \<not> patternFails (vplat V) spec w"
    by (simp add: patternFails_def l(3) split: option.split json.split)
  then show ?thesis
    using validateJSONString_verdict [of V w spec s] within_limits [OF l(2,1), of "int (length w)"]
    by (simp add: conforms_string_def)
qed

lemma float_test:
  assumes "float_described P ps k flag fld s"
  shows "flag_set flag s \<and> t (fld s) \<longleftrightarrow> (case kw ps k of None \<Rightarrow> False | Some v \<Rightarrow> t (jsonAsDouble (fpo P) v))"
  using assms by (auto simp: float_described_def split: option.splits)

lemma number_judged:
  assumes "number_described (vplat V) ps spec"
  shows "verdict (fst (validateJSONNumber V v spec s)) (conforms_number (vplat V) ps (jsonAsDouble (fpo (vplat V)) v))"
proof -
  let ?d = "jsonAsDouble (fpo (vplat V)) v"
  have l: "float_described (vplat V) ps ''maximum'' JS_VALIDATOR_MAX maximum spec"
    "float_described (vplat V) ps ''minimum'' JS_VALIDATOR_MIN minimum spec"
    "exclusiveMaximum spec = flag_kw ps ''exclusiveMaximum'' False" "exclusiveMinimum spec = flag_kw ps ''exclusiveMinimum'' False"
    using assms by (simp_all add: number_described_def)
  show ?thesis
    using validateJSONNumber_verdict [of V v spec s]
    unfolding float_test [OF l(1), where t = "\<lambda>m. beyond (vplat V) (exclusiveMaximum spec) m ?d"]
      float_test [OF l(2), where t = "\<lambda>m. beyond (vplat V) (exclusiveMinimum spec) ?d m"]
    by (rule back_subst [where P = "verdict _"]) (auto simp: conforms_number_def l split: option.split)
qed

lemma exact_limit:
  assumes "float_described P ps k flag fld s" "plain_here ps" "exact_integers P" "k = ''minimum'' \<or> k = ''maximum''"
  shows "flag_set flag s \<and> t (sint (fp_to_int64 (fpo P) (fld s))) \<longleftrightarrow>
    (case int_limit ps k of None \<Rightarrow> False | Some i \<Rightarrow> t i)"
proof (cases "kw ps k")
  case None
  with assms(1) show ?thesis by (simp add: float_described_def int_limit_def)
next
  case (Some v)
  with plain_floats [OF assms(2,4)] obtain m where m: "v = JInt64 m" "\<bar>sint m\<bar> \<le> 2 ^ 53" by blast
  then have "sint (fp_to_int64 (fpo P) (int_to_fp (fpo P) (sint m))) = sint m" using assms(3) by (simp add: exact_integers_def)
  with Some m assms(1) show ?thesis by (simp add: float_described_def int_limit_def)
qed

lemma integer_judged:
  assumes "number_described (vplat V) ps spec" "plain_here ps" "exact_integers (vplat V)"
  shows "verdict (fst (validateJSONInteger V (JInt64 i) spec s)) (conforms_integer ps (sint i))"
proof -
  have l: "float_described (vplat V) ps ''maximum'' JS_VALIDATOR_MAX maximum spec"
    "float_described (vplat V) ps ''minimum'' JS_VALIDATOR_MIN minimum spec"
    "exclusiveMaximum spec = flag_kw ps ''exclusiveMaximum'' False" "exclusiveMinimum spec = flag_kw ps ''exclusiveMinimum'' False"
    using assms(1) by (simp_all add: number_described_def)
  show ?thesis
    using validateJSONInteger_verdict [of V i spec s]
    unfolding exact_limit [OF l(1) assms(2,3), simplified, where t = "\<lambda>m. if exclusiveMaximum spec then sint i \<ge> m else sint i > m"]
      exact_limit [OF l(2) assms(2,3), simplified, where t = "\<lambda>m. if exclusiveMinimum spec then sint i \<le> m else sint i < m"]
    by (rule back_subst [where P = "verdict _"]) (auto simp: conforms_integer_def l split: option.split)
qed

subsection \<open>Objects\<close>

definition judge :: "validate_fun \<Rightarrow> meaning \<Rightarrow> json \<Rightarrow> sptr \<Rightarrow> bool" where
  "judge vj c S a \<longleftrightarrow> (\<forall>pos v s. judges (vj pos v a s) (c S v))"

lemma judgeE:
  assumes "judge vj c S a"
  obtains r s' where "vj pos v a s = Some (r, s')" "verdict r (c S v)"
  using assms unfolding judge_def judges_def by blast

lemma requiredLoop_pending:
  "fst (requiredLoop qs names r) = [] \<longleftrightarrow> fst r = [] \<and> list_all (\<lambda>name. jsonObjectHasKey qs name) names"
  by (induction names arbitrary: r) (auto simp: check_pending has_key)

lemma puts_rev: "puts kvs = map_of (rev kvs)"
proof -
  have "foldl (\<lambda>m kv. m(fst kv \<mapsto> snd kv)) m kvs = m ++ map_of (rev kvs)" for m
    by (induction kvs arbitrary: m) (auto simp: map_add_def fun_eq_iff split: option.split)
  then show ?thesis by (simp add: puts_def)
qed

lemma members_lookup:
  assumes "members_rel R qs kvs"
  shows "rel_option R (map_of (rev qs) name) (map_of (rev kvs) name)"
proof -
  have "members_rel R (rev qs) (rev kvs)" using assms by (simp add: members_rel_def)
  then have "list_all2 (\<lambda>m kv. fst m = fst kv \<and> R (snd m) (snd kv)) (rev qs) (rev kvs)" by (simp add: members_rel_def)
  then show ?thesis by (induction rule: list_all2_induct) auto
qed

lemma patterns_lookup:
  assumes "members_rel R qs kvs"
  shows "rel_option R (map_option snd (find (\<lambda>m. regexComp P (fst m) = 0 \<and> fst (regexExec P (fst m) name) = 0) qs))
    (patternLoop P kvs name)"
  using assms unfolding members_rel_def by (induction rule: list_all2_induct) auto

lemma property_spec:
  assumes "object_described R ps spec" "members_rel R (members_kw ps ''patternProperties'') (patternProperties spec)"
  shows "rel_option R (property_schema P ps name) (getPropertyValueSpec P spec name)"
proof -
  from assms(1) obtain kvs where kvs: "members_rel R (members_kw ps ''properties'') kvs"
    "properties spec = (if kvs = [] then None else Some (puts kvs))" by (auto simp: object_described_def)
  have "getPropertyValueSpec P spec name =
      (case map_of (rev kvs) name of None \<Rightarrow> patternLoop P (patternProperties spec) name | Some a \<Rightarrow> Some a)"
    by (simp add: getPropertyValueSpec_def kvs(2) puts_rev)
  with members_lookup [OF kvs(1), of name] patterns_lookup [OF assms(2), of P name] show ?thesis
    by (auto simp: property_schema_def option_rel_Some1 option_rel_Some2 split: option.split elim: option.rel_cases)
qed

lemma propertiesLoop_judged:
  assumes "\<And>name. rel_option (judge vj c) (property_schema (vplat V) ps name) (getPropertyValueSpec (vplat V) spec name)"
    "additionalProperties spec = flag_kw ps ''additionalProperties'' True" "unevaluatedProperties spec"
  shows "\<exists>r'. propertiesLoop V vj pos spec i qs r = Some r' \<and> (fst r' = [] \<longleftrightarrow> fst r = [] \<and>
    list_all (\<lambda>m. case property_schema (vplat V) ps (fst m) of
                     Some S \<Rightarrow> c S (snd m)
                   | None \<Rightarrow> flag_kw ps ''additionalProperties'' True) qs)"
proof (induction qs arbitrary: i r)
  case (Cons m qs)
  obtain name v pending s where ms: "m = (name, v)" "r = (pending, s)" by (cases m, cases r)
  let ?s1 = "accessPathPush (PathName name) s"
  show ?case
  proof (cases "property_schema (vplat V) ps name")
    case None
    with assms(1) [of name] have g: "getPropertyValueSpec (vplat V) spec name = None" by simp
    let ?u = "unspecifiedProperty pos spec name (pending, ?s1)"
    have "fst ?u = [] \<longleftrightarrow> pending = [] \<and> flag_kw ps ''additionalProperties'' True"
      using assms(2,3) by (auto simp: unspecifiedProperty_def check_pending)
    with Cons.IH [of "i + 1" "(fst ?u, accessPathPop (snd ?u))"] show ?thesis
      by (cases ?u) (auto simp: ms g None)
  next
    case (Some S)
    with assms(1) [of name] obtain a where g: "getPropertyValueSpec (vplat V) spec name = Some a" and j: "judge vj c S a"
      by (auto simp: option_rel_Some1)
    from judgeE [OF j] obtain rr s2 where v: "vj (pos @ [i]) v a ?s1 = Some (rr, s2)" "verdict rr (c S v)" .
    from Cons.IH [of "i + 1" "(pending @ failed_child rr, accessPathPop (notePropertyEvaluation pos name s2))"]
    show ?thesis using verdict_child [OF v(2)] by (auto simp: ms g Some v(1))
  qed
qed simp

lemma object_judged:
  assumes "object_described (judge vj c) ps spec" "members_rel (judge vj c) (members_kw ps ''patternProperties'') (patternProperties spec)"
    "additionalProperties spec = flag_kw ps ''additionalProperties'' True" "unevaluatedProperties spec"
  shows "judges (validateJSONObject V vj pos qs spec s) (conforms_object c (vplat V) ps qs)"
proof -
  let ?r1 = "requiredLoop qs (case required spec of None \<Rightarrow> [] | Some names \<Rightarrow> names) ([], s)"
  from propertiesLoop_judged [OF property_spec [OF assms(1,2)] assms(3,4), where V = V and pos = pos and i = 0 and qs = qs and r = ?r1]
  obtain r' where r': "propertiesLoop V vj pos spec 0 qs ?r1 = Some r'"
    "fst r' = [] \<longleftrightarrow> fst ?r1 = [] \<and> list_all (\<lambda>m. case property_schema (vplat V) ps (fst m) of
                     Some S \<Rightarrow> c S (snd m)
                   | None \<Rightarrow> flag_kw ps ''additionalProperties'' True) qs" by blast
  have flags: "\<not> flag_set JS_VALIDATOR_MAX_PROPS spec" "\<not> flag_set JS_VALIDATOR_MIN_PROPS spec"
    and req: "(case required spec of None \<Rightarrow> [] | Some names \<Rightarrow> names) = strings_of (list_kw ps ''required'')"
    using assms(1) by (simp_all add: object_described_def)
  have "fst r' = [] \<longleftrightarrow> conforms_object c (vplat V) ps qs"
    using r'(2) by (simp add: requiredLoop_pending req conforms_object_def)
  then show ?thesis
    using finish_verdict [of "''object''" "fst r'" "snd r'"]
    by (simp add: validateJSONObject_def Let_def r'(1) judges_Some check_def flags)
qed

subsection \<open>Arrays\<close>

lemma itemsLoop_judged:
  assumes "rel_option (judge vj c) (kw ps ''items'') (itemSpec spec)" "\<not> uniqueItems spec"
  shows "\<exists>r'. itemsLoop V vj pos spec i vs seen r = Some r' \<and> (fst r' = [] \<longleftrightarrow> fst r = [] \<and>
    (case kw ps ''items'' of None \<Rightarrow> True | Some S \<Rightarrow> list_all (c S) vs))"
proof (induction vs arbitrary: i seen r)
  case Nil
  then show ?case by (auto split: option.split)
next
  case (Cons v vs)
  obtain pending s where r: "r = (pending, s)" by (cases r)
  let ?s1 = "accessPathPush (PathIndex i) s"
  let ?h = "jsonLongHash (fpo (vplat V)) (addressOf V (pos @ [i])) v AND 0x7FFFFFFFFFFFFFFF"
  show ?case
  proof (cases "kw ps ''items''")
    case None
    with assms(1) have g: "itemSpec spec = None" by simp
    from Cons.IH [of "i + 1" "?h # seen" "(pending, accessPathPop ?s1)"] show ?thesis
      by (auto simp: r g None check_def assms(2))
  next
    case (Some S)
    with assms(1) obtain a where g: "itemSpec spec = Some a" and j: "judge vj c S a" by (auto simp: option_rel_Some1)
    from judgeE [OF j] obtain rr s2 where v: "vj (pos @ [i]) v a ?s1 = Some (rr, s2)" "verdict rr (c S v)" .
    from Cons.IH [of "i + 1" "?h # seen" "(pending @ failed_child rr, accessPathPop s2)"]
    show ?thesis using verdict_child [OF v(2)] by (auto simp: r g Some v(1) check_def assms(2))
  qed
qed

lemma array_judged:
  assumes "array_described (judge vj c) ps spec"
  shows "judges (validateJSONArray V vj pos vs spec s) (conforms_array c ps vs)"
proof -
  let ?n = "int (length vs)"
  let ?r2 = "check (flag_set JS_VALIDATOR_MIN_ITEMS spec \<and> ?n < minItems spec)
                  (\<lambda>p. ''too few array items, '' @ show_d ?n @ '' < MIN='' @ show_d (minItems spec) @ '' at '' @ p)
              (check (flag_set JS_VALIDATOR_MAX_ITEMS spec \<and> ?n > maxItems spec)
                  (\<lambda>p. ''too many array items, '' @ show_d ?n @ '' > MAX='' @ show_d (maxItems spec) @ '' at '' @ p) ([], s))"
  have l: "limit_described ps ''maxItems'' JS_VALIDATOR_MAX_ITEMS maxItems spec"
    "limit_described ps ''minItems'' JS_VALIDATOR_MIN_ITEMS minItems spec"
    "\<not> uniqueItems spec" "rel_option (judge vj c) (kw ps ''items'') (itemSpec spec)"
    using assms by (simp_all add: array_described_def)
  from itemsLoop_judged [OF l(4,3), where V = V and pos = pos and i = 0 and vs = vs and seen = "[]" and r = ?r2]
  obtain r' where r': "itemsLoop V vj pos spec 0 vs [] ?r2 = Some r'" "fst r' = [] \<longleftrightarrow> fst ?r2 = [] \<and>
    (case kw ps ''items'' of None \<Rightarrow> True | Some S \<Rightarrow> list_all (c S) vs)" by blast
  have "fst r' = [] \<longleftrightarrow> conforms_array c ps vs"
    using r'(2) by (auto simp: check_pending within_limits [OF l(2,1)] conforms_array_def)
  moreover have "validateJSONArray V vj pos vs spec s = Some (finish ''array'' (fst r') (snd r'))"
    by (simp only: validateJSONArray_def Let_def r'(1) bind.bind_lunit)
  ultimately show ?thesis using finish_verdict [of "''array''" "fst r'" "snd r'"] by (simp only: judges_Some)
qed

subsection \<open>One value\<close>

lemma types_permit:
  assumes "types_described ps spec" "(t, n) \<in> set type_codes"
  shows "type_permitted t spec = permits ps n"
  using assms by (force simp: types_described_def)

lemma typed_judged:
  assumes "type_permitted t spec \<Longrightarrow> (\<And>s. judges (k s) c)"
  shows "judges (case validateType t spec s of (r, s1) \<Rightarrow> if vStatusValid (status r) then k s1 else Some (r, s1))
    (type_permitted t spec \<and> c)"
proof -
  obtain r s1 where rs: "validateType t spec s = (r, s1)" by (cases "validateType t spec s")
  have v: "verdict r (type_permitted t spec)" using validateType_verdict [of t spec s] by (simp add: rs)
  show ?thesis
  proof (cases "type_permitted t spec")
    case True
    with verdict_valid [OF v] assms show ?thesis by (simp add: rs)
  next
    case False
    with v verdict_valid [OF v] show ?thesis by (simp add: rs judges_Some)
  qed
qed

lemma simple_judged:
  assumes d: "described (vplat V) (judge vj c) ps spec" and plain: "plain_here ps" and exact: "exact_integers (vplat V)"
    and null: "allowStringToBeNull V"
  shows "judges (validateJSONSimple V vj pos v spec s)
    (permits ps (value_type (effective ps v)) \<and> conforms_value c (vplat V) ps (effective ps v))"
proof -
  from d have td: "types_described ps spec" by (simp add: described_def)
  have p: "type_permitted JSTYPE_NULL spec = permits ps ''null''" "type_permitted JSTYPE_BOOLEAN spec = permits ps ''boolean''"
    "type_permitted JSTYPE_OBJECT spec = permits ps ''object''" "type_permitted JSTYPE_ARRAY spec = permits ps ''array''"
    "type_permitted JSTYPE_STRING spec = permits ps ''string''" "type_permitted JSTYPE_NUMBER spec = permits ps ''number''"
    "type_permitted JSTYPE_INTEGER spec = permits ps ''integer''"
    by (rule types_permit [OF td], simp add: type_codes_def)+
  have num: "permits ps ''number'' \<Longrightarrow> permits ps ''integer''" unfolding permits_def by blast
  have "''error'' \<notin> set allJSTypeNames" by (simp add: allJSTypeNames_def)
  moreover have "\<forall>t\<in>set (schema_types ps). t \<in> set allJSTypeNames" using plain by (simp add: plain_here_def list_all_iff)
  ultimately have err: "\<not> permits ps ''error''" by (auto simp: permits_def)
  note typed = typed_judged [where spec = spec and s = s, unfolded p]
  show ?thesis
  proof (cases v)
    case JNull
    have vt: "verdict (fst (validateType JSTYPE_NULL spec s)) (permits ps ''null'')"
      using validateType_verdict [of JSTYPE_NULL spec s] p by simp
    obtain r s1 where rs: "validateType JSTYPE_NULL spec s = (r, s1)" by (cases "validateType JSTYPE_NULL spec s")
    consider (null) "permits ps ''null''" | (string) "\<not> permits ps ''null''" "permits ps ''string''" |
      (none) "\<not> permits ps ''null''" "\<not> permits ps ''string''" by blast
    then show ?thesis
    proof cases
      case null
      with vt rs verdict_valid [of r True] show ?thesis
        by (simp add: JNull validateJSONSimple_def effective_def conforms_value_def judges_Some)
    next
      case string
      have "verdict (fst (validateJSONString V [] spec s1)) (conforms_string (vplat V) ps [])"
        by (rule string_judged) (use d string in \<open>simp add: described_def\<close>)
      with string vt rs verdict_valid [of r False] null p show ?thesis
        by (simp add: JNull validateJSONSimple_def effective_def conforms_value_def judges_Some)
    next
      case none
      with vt rs verdict_valid [of r False] null p show ?thesis
        by (simp add: JNull validateJSONSimple_def effective_def conforms_value_def judges_Some simpleFailure_verdict)
    qed
  next
    case (JBoolean b)
    with validateType_verdict [of JSTYPE_BOOLEAN spec s] p show ?thesis
      by (simp add: validateJSONSimple_def effective_def conforms_value_def judges_Some)
  next
    case (JObject qs)
    have "judges (validateJSONObject V vj pos qs spec s1) (conforms_object c (vplat V) ps qs)" if "permits ps ''object''" for s1
      by (rule object_judged) (use d that in \<open>simp_all add: described_def\<close>)
    from typed [of JSTYPE_OBJECT, unfolded p, OF this] show ?thesis
      by (simp add: JObject validateJSONSimple_def effective_def conforms_value_def)
  next
    case (JArray vs)
    have "judges (validateJSONArray V vj pos vs spec s1) (conforms_array c ps vs)" if "permits ps ''array''" for s1
      by (rule array_judged) (use d that in \<open>simp add: described_def\<close>)
    from typed [of JSTYPE_ARRAY, unfolded p, OF this] show ?thesis
      by (simp add: JArray validateJSONSimple_def effective_def conforms_value_def)
  next
    case (JString w)
    have "judges (Some (validateJSONString V w spec s1)) (conforms_string (vplat V) ps w)" if "permits ps ''string''" for s1
      unfolding judges_Some by (rule string_judged) (use d that in \<open>simp add: described_def\<close>)
    from typed [of JSTYPE_STRING, unfolded p, OF this] show ?thesis
      by (simp add: JString validateJSONSimple_def effective_def conforms_value_def)
  next
    case (JNumber n)
    have "judges (Some (validateJSONNumber V v spec s1)) (conforms_number (vplat V) ps (jsonAsDouble (fpo (vplat V)) v))"
      if "permits ps ''number''" for s1
      unfolding judges_Some by (rule number_judged) (use d num that in \<open>simp add: described_def\<close>)
    from typed [where t = JSTYPE_NUMBER and k = "\<lambda>s1. Some (validateJSONNumber V v spec s1)", unfolded p, OF this] show ?thesis
      unfolding JNumber by (simp add: validateJSONSimple_def effective_def conforms_value_def)
  next
    case (JDouble n)
    have "judges (Some (validateJSONNumber V v spec s1)) (conforms_number (vplat V) ps (jsonAsDouble (fpo (vplat V)) v))"
      if "permits ps ''number''" for s1
      unfolding judges_Some by (rule number_judged) (use d num that in \<open>simp add: described_def\<close>)
    from typed [where t = JSTYPE_NUMBER and k = "\<lambda>s1. Some (validateJSONNumber V v spec s1)", unfolded p, OF this] show ?thesis
      unfolding JDouble by (simp add: validateJSONSimple_def effective_def conforms_value_def)
  next
    case (JInt64 n)
    have "judges (Some (validateJSONInteger V v spec s1)) (conforms_integer ps (sint n))" if "permits ps ''integer''" for s1
      unfolding judges_Some JInt64 by (rule integer_judged [OF _ plain exact]) (use d that in \<open>simp add: described_def\<close>)
    from typed [where t = JSTYPE_INTEGER and k = "\<lambda>s1. Some (validateJSONInteger V v spec s1)", unfolded p, OF this] show ?thesis
      unfolding JInt64 by (simp add: validateJSONSimple_def effective_def conforms_value_def)
  next
    case (JError e)
    with err show ?thesis by (simp add: validateJSONSimple_def effective_def judges_Some verdict_failure)
  qed
qed

subsection \<open>Composites\<close>

definition quant :: "quantType \<Rightarrow> nat \<Rightarrow> bool list \<Rightarrow> bool" where
  "quant q n bs = (case q of QUANT_ALL \<Rightarrow> list_all id bs | QUANT_ANY \<Rightarrow> list_ex id bs | QUANT_ONE \<Rightarrow> n + length (filter id bs) = 1)"

lemma quantified_judged:
  assumes "list_all2 (judge vj c) Ss as" "q = QUANT_ONE \<longrightarrow> n \<le> 1" "q = QUANT_ANY \<longrightarrow> n = 0"
  shows "judges (quantifiedLoop vj pos v q as n pending s) (quant q n (map (\<lambda>S. c S v) Ss))"
  using assms
proof (induction arbitrary: n pending s rule: list_all2_induct)
  case Nil
  then show ?case
    by (cases q) (auto simp: quant_def judges_Some verdict_failure le_Suc_eq split: prod.split)
next
  case (Cons S Ss a as)
  from judgeE [OF Cons.hyps(1)] obtain r s1 where v: "vj pos v a s = Some (r, s1)" "verdict r (c S v)" .
  note ok = verdict_valid [OF v(2)]
  show ?case
  proof (cases q)
    case QUANT_ALL
    with Cons.IH [of "if c S v then n + 1 else n" "pending @ failed_child r" s1] Cons.prems show ?thesis
      by (auto simp: v(1) Let_def ok quant_def judges_Some verdict_failure split: prod.split)
  next
    case QUANT_ANY
    with Cons.IH [of 0 "pending @ failed_child r" s1] Cons.prems show ?thesis
      by (auto simp: v(1) Let_def ok quant_def judges_Some verdict_failure)
  next
    case QUANT_ONE
    with Cons.IH [of "if c S v then n + 1 else n" "pending @ failed_child r" s1] Cons.prems show ?thesis
      by (auto simp: v(1) Let_def ok quant_def judges_Some verdict_failure)
  qed
qed

lemma quantifiedSpecs_judged:
  assumes "rel_option (list_all2 (judge vj c)) Ss specs"
  shows "judges (validateQuantifiedSpecs vj pos v q specs s)
    (case Ss of None \<Rightarrow> True | Some Ss \<Rightarrow> quant q 0 (map (\<lambda>S. c S v) Ss))"
  using assms quantified_judged [of vj c _ _ q 0 pos v "[]" s]
  by (cases rule: option.rel_cases)
     (auto simp: validateQuantifiedSpecs_def judges_Some verdict_failure)

lemma not_judged:
  assumes "rel_option (judge vj c) S spec"
  shows "judges (validateNot vj pos v spec s) (case S of None \<Rightarrow> True | Some S \<Rightarrow> \<not> c S v)"
  using assms
proof (cases rule: option.rel_cases)
  case None
  then show ?thesis by (simp add: validateNot_def judges_Some verdict_failure)
next
  case (Some S' a)
  from judgeE [OF Some(3)] obtain r s1 where v: "vj pos v a s = Some (r, s1)" "verdict r (c S' v)" .
  with Some verdict_valid [OF v(2)] show ?thesis
    by (auto simp: validateNot_def judges_Some verdict_failure simpleFailure_verdict)
qed

lemma quant_all: "quant QUANT_ALL 0 (map f xs) = list_all f xs"
  and quant_any: "quant QUANT_ANY 0 (map f xs) = list_ex f xs"
  and quant_one: "quant QUANT_ONE 0 (map f xs) \<longleftrightarrow> length (filter f xs) = 1"
  by (auto simp: quant_def list_all_iff list_ex_iff filter_map o_def)

lemma status_min:
  "verdict r c \<Longrightarrow> m = ValidContinue \<or> m = InvalidStop \<Longrightarrow>
     vStatusMin (status r) m = (if c then m else InvalidStop)"
  by (auto simp: verdict_def vStatusMin_def Let_def vStatusOf_def split: if_splits)

lemma verdict_status: "verdict r c \<Longrightarrow> status r = (if c then ValidContinue else InvalidStop)"
  by (auto simp: verdict_def split: if_splits)

lemma composite_judged:
  assumes d: "described (vplat V) (judge vj c) ps spec" and plain: "plain_here ps" and exact: "exact_integers (vplat V)"
    and null: "allowStringToBeNull V"
  shows "judges (validateComposite V vj pos v spec s)
    (permits ps (value_type (effective ps v)) \<and> conforms_composites c ps v \<and> conforms_value c (vplat V) ps (effective ps v))"
proof -
  from d have k: "rel_option (list_all2 (judge vj c)) (jsonObjectGetArray ps ''allOf'') (allOf spec)"
    "rel_option (list_all2 (judge vj c)) (jsonObjectGetArray ps ''anyOf'') (anyOf spec)"
    "rel_option (list_all2 (judge vj c)) (jsonObjectGetArray ps ''oneOf'') (oneOf spec)"
    "rel_option (judge vj c) (kw ps ''not'') (notSpec spec)"
    by (simp_all add: described_def composites_described_def)
  let ?all = "case jsonObjectGetArray ps ''allOf'' of None \<Rightarrow> True | Some Ss \<Rightarrow> list_all (\<lambda>S. c S v) Ss"
  let ?any = "case jsonObjectGetArray ps ''anyOf'' of None \<Rightarrow> True | Some Ss \<Rightarrow> list_ex (\<lambda>S. c S v) Ss"
  let ?one = "case jsonObjectGetArray ps ''oneOf'' of None \<Rightarrow> True | Some Ss \<Rightarrow> length (filter (\<lambda>S. c S v) Ss) = 1"
  let ?not = "case kw ps ''not'' of None \<Rightarrow> True | Some S \<Rightarrow> \<not> c S v"
  let ?simple = "permits ps (value_type (effective ps v)) \<and> conforms_value c (vplat V) ps (effective ps v)"
  from quantifiedSpecs_judged [OF k(1), of pos v QUANT_ALL s] obtain r1 s1 where
    1: "validateQuantifiedSpecs vj pos v QUANT_ALL (allOf spec) s = Some (r1, s1)" "verdict r1 ?all"
    unfolding judges_def quant_all by blast
  from quantifiedSpecs_judged [OF k(2), of pos v QUANT_ANY s1] obtain r2 s2 where
    2: "validateQuantifiedSpecs vj pos v QUANT_ANY (anyOf spec) s1 = Some (r2, s2)" "verdict r2 ?any"
    unfolding judges_def quant_any by blast
  from quantifiedSpecs_judged [OF k(3), of pos v QUANT_ONE s2] obtain r3 s3 where
    3: "validateQuantifiedSpecs vj pos v QUANT_ONE (oneOf spec) s2 = Some (r3, s3)" "verdict r3 ?one"
    unfolding judges_def quant_one by blast
  from not_judged [OF k(4), of pos v s3] obtain r4 s4 where
    4: "validateNot vj pos v (notSpec spec) s3 = Some (r4, s4)" "verdict r4 ?not" unfolding judges_def by blast
  from simple_judged [OF d plain exact null, of pos v s4] obtain r5 s5 where
    5: "validateJSONSimple V vj pos v spec s4 = Some (r5, s5)" "verdict r5 ?simple" unfolding judges_def by blast
  let ?c = "?all \<and> ?any \<and> ?one \<and> ?not \<and> ?simple"
  let ?t = "vStatusMin (status r1) (vStatusMin (status r2) (vStatusMin (status r3) (vStatusMin (status r4) (status r5))))"
  have t: "?t = (if ?c then ValidContinue else InvalidStop)"
    by (simp add: status_min [OF 1(2)] status_min [OF 2(2)] status_min [OF 3(2)] status_min [OF 4(2)] verdict_status [OF 5(2)])
  have none: "?all \<and> ?any \<and> ?one \<and> ?not"
    if "allOf spec = None" "anyOf spec = None" "oneOf spec = None" "notSpec spec = None"
    using k that by simp
  have fail: "verdict (fst (compositeFailure rs s5)) False" for rs
    by (simp add: compositeFailure_def verdict_failure split: prod.split)
  have run: "validateComposite V vj pos v spec s =
      Some (if ?c then (simpleSuccess, s5)
            else if allOf spec = None \<and> anyOf spec = None \<and> oneOf spec = None \<and> notSpec spec = None
            then (r5, s5) else compositeFailure [r1, r2, r3, r4, r5] s5)"
    by (simp only: validateComposite_def 1(1) 2(1) 3(1) 4(1) 5(1) bind.bind_lunit prod.case Let_def t) simp
  have "judges (validateComposite V vj pos v spec s) ?c"
  proof (cases ?c)
    case True
    then show ?thesis unfolding run judges_Some by (simp add: verdict_failure)
  next
    case False
    show ?thesis
    proof (cases "allOf spec = None \<and> anyOf spec = None \<and> oneOf spec = None \<and> notSpec spec = None")
      case True
      then have "?all" "?any" "?one" "?not" using none by simp_all
      then have "?c = ?simple" by (simp only: simp_thms)
      with 5(2) False True show ?thesis unfolding run judges_Some by (simp add: verdict_failure)
    next
      case no: False
      with False fail show ?thesis unfolding run judges_Some by (simp only: if_False)
    qed
  qed
  then show ?thesis by (rule back_subst [where P = "judges _"]) (auto simp: conforms_composites_def)
qed

subsection \<open>Constants and enumerations\<close>

lemma jsonEquals_scalar: "json_scalar e \<Longrightarrow> jsonEquals v e \<longleftrightarrow> v = e"
  by (cases v; cases e) (auto simp: jsonEquals_def json_scalar_def jsonIsArray_def jsonIsObject_def jsonIsError_def json_type_codes)

lemma copied_scalar: "json_scalar e \<Longrightarrow> json_scalar (copied e)" "value_type (copied e) = value_type e"
  by (cases e; simp add: json_scalar_def jsonIsArray_def jsonIsObject_def jsonIsError_def json_type_codes)+

lemma listed_permitted: "listed_ok ps e \<Longrightarrow> permits ps (value_type (copied e)) \<and> json_scalar (copied e)"
  by (simp add: listed_ok_def copied_scalar)

lemma values_alone:
  assumes "plain_here ps" "has_values ps"
  shows "conforms_composites c ps v" "json_scalar w \<Longrightarrow> conforms_value c P ps w"
proof -
  have none: "kw ps k = None" if "k \<notin> set annotations" for k by (rule plain_values [OF assms that])
  have k: "kw ps ''allOf'' = None" "kw ps ''anyOf'' = None" "kw ps ''oneOf'' = None" "kw ps ''not'' = None"
    "kw ps ''minLength'' = None" "kw ps ''maxLength'' = None" "kw ps ''pattern'' = None" "kw ps ''minimum'' = None"
    "kw ps ''maximum'' = None" by (rule none, simp add: annotations_def)+
  show "conforms_composites c ps v" by (simp add: conforms_composites_def jsonObjectGetArray_def k)
  show "json_scalar w \<Longrightarrow> conforms_value c P ps w"
    by (cases w) (simp_all add: conforms_value_def conforms_string_def within_def int_limit_def k conforms_integer_def
        conforms_number_def json_scalar_def jsonIsArray_def jsonIsObject_def jsonIsError_def json_type_codes)
qed

lemma const_judged:
  assumes "plain_here ps" "kw ps ''const'' = Some k"
  shows "verdict (fst (validateConst (copied k) spec v s)) (conforms_schema c P ps v)"
proof -
  have hv: "has_values ps" using assms(2) by (simp add: has_values_def has_key)
  have l: "listed_ok ps k" and e: "kw ps ''enum'' = None" using assms by (simp_all add: plain_here_def has_key)
  have eff: "effective ps v = v" if "v = copied k"
    using listed_permitted [OF l] that by (auto simp: effective_def)
  have "conforms_schema c P ps v \<longleftrightarrow> v = copied k"
    using listed_permitted [OF l] eff values_alone [OF assms(1) hv]
    by (auto simp: conforms_schema_def Let_def assms(2) e)
  moreover have "jsonEquals v (copied k) \<longleftrightarrow> v = copied k" using jsonEquals_scalar listed_permitted [OF l] by blast
  ultimately show ?thesis by (simp add: validateConst_def verdict_failure simpleFailure_verdict)
qed

lemma enumLoop_matched: "fst (enumLoop room v es t past) \<longleftrightarrow> list_ex (jsonEquals v) es"
  by (induction es arbitrary: t past) (auto simp: Let_def)

lemma enum_judged:
  assumes "plain_here ps" "kw ps ''enum'' = Some (JArray es)" "types_described ps spec" "allowStringToBeNull V"
  shows "verdict (fst (validateEnum V (map copied es) spec v s)) (conforms_schema c P ps v)"
proof -
  have hv: "has_values ps" using assms(2) by (simp add: has_values_def has_key)
  have l: "\<forall>e\<in>set es. listed_ok ps e" and k: "kw ps ''const'' = None"
    using assms(1,2) by (simp_all add: plain_here_def has_key list_kw_def list_all_iff)
  let ?w = "effective ps v"
  obtain r s1 where rs: "validateType JSTYPE_NULL spec s = (r, s1)" by (cases "validateType JSTYPE_NULL spec s")
  have p: "type_permitted JSTYPE_NULL spec = permits ps ''null''" "type_permitted JSTYPE_STRING spec = permits ps ''string''"
    by (rule types_permit [OF assms(3)], simp add: type_codes_def)+
  have "verdict r (permits ps ''null'')" using validateType_verdict [of JSTYPE_NULL spec s] by (simp add: rs p)
  note vr = verdict_valid [OF this]
  have eq: "jsonEquals ?w (copied e) \<longleftrightarrow> ?w = copied e" if "e \<in> set es" for e
    using jsonEquals_scalar listed_permitted l that by blast
  have "list_ex (jsonEquals ?w) (map copied es) \<longleftrightarrow> list_ex (\<lambda>e. ?w = copied e) es"
    using eq by (auto simp: list_ex_iff)
  moreover have "verdict (fst (validateEnum V (map copied es) spec v s)) (list_ex (jsonEquals ?w) (map copied es))"
  proof (cases "v = JNull")
    case True
    then have "validateEnum V (map copied es) spec v s =
      (let (matched, validValues, past) = enumLoop (enum_room (length (map copied es))) ?w (map copied es) [] False;
          s2 = s1\<lparr>broken := broken s1 \<or> past\<rparr>
      in if \<not> matched
         then simpleFailure (\<lambda>p. ''no matching enum value at '' @ p @
                (if validValues \<noteq> []
                 then ''; expecting one of values '' @ quoted (''['' @ validValues @ '']'') @ '' of type '' @
                      quoted (getJSTypeName (stype spec))
                 else [])) s2
         else (simpleSuccess, s2))"
      using rs vr assms(4) p by (simp add: validateEnum_def effective_def jsonIsNull_def json_type_codes)
    then show ?thesis using enumLoop_matched [of "enum_room (length (map copied es))" ?w "map copied es" "[]" False]
      by (auto simp: Let_def simpleFailure_verdict verdict_failure split: prod.splits)
  next
    case False
    then have w: "?w = v" "\<not> jsonIsNull v" by (auto simp: effective_def jsonIsNull_def json_type_codes elim: json_type.elims)
    show ?thesis using enumLoop_matched [of "enum_room (length (map copied es))" ?w "map copied es" "[]" False]
      by (auto simp: validateEnum_def w Let_def simpleFailure_verdict verdict_failure split: prod.splits)
  qed
  moreover have "conforms_schema c P ps v \<longleftrightarrow> list_ex (\<lambda>e. ?w = copied e) es"
    using l listed_permitted values_alone [OF assms(1) hv]
    by (auto simp: conforms_schema_def Let_def assms(2) k list_ex_iff)
  ultimately show ?thesis by simp
qed

subsection \<open>A whole schema\<close>

lemma resolved_judged:
  assumes d: "described (vplat V) (judge vj c) ps spec" and plain: "plain_here ps" and exact: "exact_integers (vplat V)"
    and null: "allowStringToBeNull V"
  shows "judges (validateResolved V vj pos v spec s) (conforms_schema c (vplat V) ps v)"
proof -
  from d have f: "constValue spec = map_option copied (kw ps ''const'')"
    "enumeratedValues spec = (case kw ps ''enum'' of Some (JArray es) \<Rightarrow> Some (map copied es) | _ \<Rightarrow> None)"
    "types_described ps spec" by (simp_all add: described_def)
  show ?thesis
  proof (cases "kw ps ''const''")
    case (Some k)
    with const_judged [OF plain Some] f show ?thesis by (simp add: validateResolved_def judges_Some)
  next
    case None
    show ?thesis
    proof (cases "\<exists>es. kw ps ''enum'' = Some (JArray es)")
      case True
      then obtain es where "kw ps ''enum'' = Some (JArray es)" by blast
      with enum_judged [OF plain this f(3) null] f None show ?thesis by (simp add: validateResolved_def judges_Some)
    next
      case False
      then have "enumeratedValues spec = None" and e: "(case kw ps ''enum'' of Some (JArray es) \<Rightarrow> P es | _ \<Rightarrow> True)" for P
        unfolding f(2) by (auto split: option.split json.split)
      with None f(1) composite_judged [OF d plain exact null] show ?thesis
        by (simp add: validateResolved_def conforms_schema_def Let_def e conj_ac)
    qed
  qed
qed

lemma described_clean: "described P R ps (clean s) = described P R ps s"
  by (simp add: described_def types_described_def composites_described_def object_described_def array_described_def
      string_described_def number_described_def limit_described_def float_described_def flag_set_def
      type_permitted_def clean_def cong: option.case_cong)

lemma described_on_subschemas:
  assumes d: "described P R ps s" and R: "\<And>S b. R S b \<Longrightarrow> S \<in> set (subschemas ps) \<Longrightarrow> R' S b"
  shows "described P R' ps s"
proof -
  have "\<forall>S\<in>set (subschemas ps). S \<in> set (subschemas ps)" by blast
  note sub = subschemas_parts [OF this]
  have m: "members_rel R' (members_kw ps k) kvs"
    if "members_rel R (members_kw ps k) kvs" "k = ''properties'' \<or> k = ''patternProperties''" for k kvs
    using that(1) unfolding members_rel_def
    by (rule list.rel_mono_strong) (use that(2) sub(1,2) R in auto)
  have l: "rel_option (list_all2 R') (jsonObjectGetArray ps k) x"
    if "rel_option (list_all2 R) (jsonObjectGetArray ps k) x" "k = ''allOf'' \<or> k = ''anyOf'' \<or> k = ''oneOf''" for k x
    using that(1)
  proof (cases rule: option.rel_cases)
    case (Some Ss bs)
    have "list_all2 R' Ss bs" using Some(3)
      by (rule list.rel_mono_strong) (use that(2) sub(3-5) R jsonObjectGetArray_list [OF Some(1)] in auto)
    with Some show ?thesis by simp
  qed simp
  have o: "rel_option R' (kw ps k) x" if "rel_option R (kw ps k) x" "k = ''not'' \<or> k = ''items''" for k x
    using that sub(6,7) R by (cases rule: option.rel_cases) auto
  have "object_described R' ps s" if "object_described R ps s" using that m unfolding object_described_def by blast
  moreover have "array_described R' ps s" if "array_described R ps s" using that o unfolding array_described_def by blast
  moreover have "composites_described R' ps s" if "composites_described R ps s"
    using that l o unfolding composites_described_def by blast
  ultimately show ?thesis using d m unfolding described_def by blast
qed

lemma validateJSON_judged:
  assumes exact: "exact_integers (vplat V)" and null: "allowStringToBeNull V"
  shows "represents (vplat V) (vspecs V) S a \<Longrightarrow> plain_schema S \<Longrightarrow> size S < n \<Longrightarrow>
    judge (validateJSON V n) (conforms (vplat V)) S a"
proof (induction n arbitrary: S a)
  case 0
  then show ?case by simp
next
  case (Suc n)
  from Suc.prems(1) obtain ps where S: "S = JObject ps" and len: "a < length (vspecs V)"
    and d: "described (vplat V) (\<lambda>v b. a < b \<and> represents (vplat V) (vspecs V) v b) ps (clean (vspecs V ! a))"
    by (cases rule: represents_cases) blast
  from Suc.prems(2) S have plain: "plain_here ps" and subs: "\<forall>v\<in>set (subschemas ps). plain_schema v" by (simp_all add: plain_object)
  have "described (vplat V) (judge (validateJSON V n) (conforms (vplat V))) ps (clean (vspecs V ! a))"
  proof (rule described_on_subschemas [OF d])
    fix S' b assume "a < b \<and> represents (vplat V) (vspecs V) S' b" "S' \<in> set (subschemas ps)"
    with Suc.IH [of S' b] subs subschemas_size Suc.prems(3) S
    show "judge (validateJSON V n) (conforms (vplat V)) S' b" by fastforce
  qed
  then have d': "described (vplat V) (judge (validateJSON V n) (conforms (vplat V))) ps (spec_at V a)"
    by (simp add: described_clean spec_at_def)
  then have ref: "ref (spec_at V a) = None" by (simp add: described_def)
  show ?case unfolding judge_def
  proof (intro allI)
    fix pos v s
    from resolved_judged [OF d' plain exact null, of pos v "extendEvalSets s"] obtain r s1 where
      "validateResolved V (validateJSON V n) pos v (spec_at V a) (extendEvalSets s) = Some (r, s1)"
      "verdict r (conforms_schema (conforms (vplat V)) (vplat V) ps v)" unfolding judges_def by blast
    moreover have "refLoop n V a (extendEvalSets s) = Some (Inr a, extendEvalSets s)"
      by (subst refLoop.simps) (simp add: ref)
    moreover have "conforms (vplat V) S v = conforms_schema (conforms (vplat V)) (vplat V) ps v"
      by (subst conforms.simps) (simp add: S)
    ultimately show "judges (validateJSON V (Suc n) pos v a s) (conforms (vplat V) S v)"
      by (simp add: validateJSON.simps dropEvalSet_def judges_Some)
  qed
qed

lemma validation_run:
  assumes "jsonBuildSchema P ver S st0 = Inr (sch, st)" "plain_schema S" "exact_integers P" "size S < fuel"
  obtains r s where "validateJSON \<lparr>vplat = P, vspecs = st, topSchema = sch, otherSchemas = others,
      allowStringToBeNull = True, addressOf = addr\<rparr> fuel [] v (topValueSpec sch) initial_vstate = Some (r, s)"
    "verdict r (conforms P S v)"
proof -
  let ?V = "\<lparr>vplat = P, vspecs = st, topSchema = sch, otherSchemas = others, allowStringToBeNull = True, addressOf = addr\<rparr>"
  from assms(1) have b: "build P None S st0 = Inr (topValueSpec sch, st)"
    by (auto simp: jsonBuildSchema_def split: sum.splits)
  with plain_builds [OF assms(3,2)] have "represents P st S (topValueSpec sch)" unfolding builds_def by blast
  with validateJSON_judged [of ?V S "topValueSpec sch" fuel] assms(2-4)
  have "judge (validateJSON ?V fuel) (conforms P) S (topValueSpec sch)" by simp
  from judgeE [OF this] that show ?thesis by blast
qed

text \<open>
  C38. A schema of the supported keywords that has been built validates values by its meaning: on every value
  the validation ends within the size of the schema, and gives result code 0 exactly when the value
  conforms to the schema and 4, with a top exception, exactly when it does not. The keywords are those of
  \<open>plain_schema\<close>: types, constants or enumerations of scalars, lengths, patterns, integer limits, items,
  properties, pattern and additional properties, required names, and the four composites; the
  hypotheses on the platform are that integers of at most 53 bits survive the conversion to a double and
  back and differ from the double that marks a missing limit. (Runs that leave the buffers of the
  code are the subject of C39.)
\<close>

theorem schema_validation:
  assumes "jsonBuildSchema P ver S st0 = Inr (sch, st)" "plain_schema S" "exact_integers P" "size S < fuel"
  shows "\<exists>code e s. jsonValidateSchema P st addr fuel v sch others = Some (code, e, s) \<and>
    code = (if conforms P S v then JSON_VALIDATOR_NO_EXCEPTIONS else JSON_VALIDATOR_HAS_EXCEPTIONS) \<and>
    (e = None \<longleftrightarrow> conforms P S v)"
proof -
  from validation_run [OF assms] obtain r s where "validateJSON \<lparr>vplat = P, vspecs = st, topSchema = sch,
      otherSchemas = others, allowStringToBeNull = True, addressOf = addr\<rparr> fuel [] v (topValueSpec sch) initial_vstate = Some (r, s)"
    "verdict r (conforms P S v)" .
  then show ?thesis
    by (auto simp: jsonValidateSchema_def verdict_def vStatusValid_def split: if_splits)
qed

definition demo_platform :: platform where
  "demo_platform = \<lparr>fpo = \<lparr>strtod = (\<lambda>s. 0x1000000000000000), fmt_f = (\<lambda>d. ''0.000000''),
      fp_to_int64 = (\<lambda>d. d), int_to_fp = (\<lambda>i. word_of_int i)\<rparr>,
     fp_lt = (\<lambda>a b. sint a < sint b), fp_le = (\<lambda>a b. sint a \<le> sint b), fp_eq = (\<lambda>a b. a = b),
     regexComp = (\<lambda>p. 1), regexExec = (\<lambda>p s. (1, []))\<rparr>"

lemma demo_exact: "exact_integers demo_platform"
proof -
  have s: "sint (word_of_int m :: 64 word) = m" if "\<bar>m\<bar> \<le> 2 ^ 53" for m
    using that unfolding sint_sbintrunc' by (intro signed_take_bit_int_eq_self) simp_all
  have "(word_of_int m :: 64 word) \<noteq> 0x1000000000000000" if m: "\<bar>m\<bar> \<le> 2 ^ 53" for m
  proof
    assume "(word_of_int m :: 64 word) = 0x1000000000000000"
    then have "sint (word_of_int m :: 64 word) = sint (0x1000000000000000 :: 64 word)" by simp
    with s [OF m] m show False by simp
  qed
  with s show ?thesis by (simp add: exact_integers_def demo_platform_def MISSING_FLOAT_VALIDATOR_def)
qed

definition demo_schema :: json where
  "demo_schema = JObject [(''type'', JString ''object''),
     (''properties'', JObject [(''port'', JObject [(''type'', JString ''integer''), (''minimum'', JInt64 1), (''maximum'', JInt64 65535)])]),
     (''required'', JArray [JString ''port''])]"

theorem schema_validation_witness:
  "\<exists>sch st e s e' s'. jsonBuildSchema demo_platform 1 demo_schema [] = Inr (sch, st) \<and>
     jsonValidateSchema demo_platform st (\<lambda>p. 0) 100 (JObject [(''port'', JInt64 7554)]) sch [] = Some (0, e, s) \<and>
     jsonValidateSchema demo_platform st (\<lambda>p. 0) 100 (JObject [(''port'', JInt64 0)]) sch [] = Some (4, Some e', s')"
proof -
  have "isl (jsonBuildSchema demo_platform 1 demo_schema []) = False" by code_simp
  then obtain sch st where b: "jsonBuildSchema demo_platform 1 demo_schema [] = Inr (sch, st)"
    by (cases "jsonBuildSchema demo_platform 1 demo_schema []") auto
  have p: "plain_schema demo_schema" "size demo_schema < 100" by code_simp+
  have c: "conforms demo_platform demo_schema (JObject [(''port'', JInt64 7554)])"
    "\<not> conforms demo_platform demo_schema (JObject [(''port'', JInt64 0)])" by code_simp+
  note run = schema_validation [OF b p(1) demo_exact p(2), where addr = "\<lambda>p. 0" and others = "[]"]
  from run [of "JObject [(''port'', JInt64 7554)]"] c(1) obtain e s where
    "jsonValidateSchema demo_platform st (\<lambda>p. 0) 100 (JObject [(''port'', JInt64 7554)]) sch [] = Some (0, e, s)"
    by (auto simp: JSON_VALIDATOR_NO_EXCEPTIONS_def)
  moreover from run [of "JObject [(''port'', JInt64 0)]"] c(2) obtain e' s' where
    "jsonValidateSchema demo_platform st (\<lambda>p. 0) 100 (JObject [(''port'', JInt64 0)]) sch [] = Some (4, Some e', s')"
    by (auto simp: JSON_VALIDATOR_HAS_EXCEPTIONS_def)
  ultimately show ?thesis using b by blast
qed

end
