(* ===== verification/SchemaSafety.thy ===== *)
theory SchemaSafety
  imports SchemaVerdict
begin

section \<open>Validations that stay within their buffers\<close>

text \<open>
  Conditions under which a validation never leaves the behaviour that C defines: no \<open>oneOf\<close>, enumerations whose
  texts fit in their buffer, and values whose property names fit in the access path and hold no percent
  sign. The state of the validation keeps an invariant through every function of the validator.
\<close>

subsection \<open>The invariant\<close>




named_theorems bounds_intros














subsection \<open>Values\<close>










subsection \<open>Specs\<close>
















subsection \<open>A whole validation\<close>







end
