(* ===== verification/SchemaLimits.thy ===== *)
theory SchemaLimits
  imports SchemaSafety
begin

section \<open>The limits on the number of properties\<close>

text \<open>
  What the two tests of \<open>maxProperties\<close> do to schemas that limit the number of properties.
\<close>

subsection \<open>The mask of types up to the keywords of the types\<close>

definition keepsMask :: "'a builder \<Rightarrow> sptr \<Rightarrow> bool" where
  "keepsMask m a \<longleftrightarrow> (\<forall>st x st1. m st = Inr (x, st1) \<longrightarrow> a < length st \<longrightarrow>
     a < length st1 \<and> typeMask (st1 ! a) = typeMask (st ! a))"

lemma keepsMask_keeps: "keeps m {} \<Longrightarrow> keepsMask m a"
  unfolding keeps_def keepsMask_def by (metis clean_fields(1) empty_iff less_le_trans)

lemma keepsMask_andThen: "keepsMask m a \<Longrightarrow> (\<And>x. keepsMask (f x) a) \<Longrightarrow> keepsMask (andThen m f) a"
  unfolding keepsMask_def run_andThen by metis

lemma keepsMask_modify: "(\<And>s. typeMask (f s) = typeMask s) \<Longrightarrow> keepsMask (modify a f) a"
  by (simp add: keepsMask_def run_modify)

lemma keepsMask_ifSome: "(\<And>x. keepsMask (f x) a) \<Longrightarrow> keepsMask (ifSome m f) a"
  by (cases m) (simp_all add: ifSome_def keepsMask_keeps keeps_yield)

lemma keepsMask_buildComposites: "keepsMask (buildComposites (build P) a ps) a"
proof -
  note k = keepsMask_keeps [OF keeps_getters(3)] keepsMask_keeps [OF keeps_getters(6)] keepsMask_keeps [OF keeps_getters(7)]
    keepsMask_keeps [OF keeps_getDefinitions [OF below_keeps_build]] keepsMask_keeps [OF keeps_getComposite [OF below_keeps_build]]
    keepsMask_keeps [OF build_keeps] keepsMask_keeps [OF keeps_mapS [OF keeps_buildMember [OF build_keeps]]]
    keepsMask_keeps [OF keeps_yield] keepsMask_keeps [OF keeps_throw(1)]
  have "keepsMask (addPatternProperties (build P) a ps) a" unfolding addPatternProperties_def
    by (intro keepsMask_andThen keepsMask_ifSome keepsMask_modify k) simp
  moreover have "keepsMask (buildNot (build P) a ps) a" unfolding buildNot_def
    by (intro keepsMask_andThen keepsMask_ifSome keepsMask_modify k) simp
  moreover have "keepsMask (buildConstAndEnum a ps) a" unfolding buildConstAndEnum_def Let_def
    by (auto intro!: keepsMask_andThen keepsMask_ifSome keepsMask_modify k)
  ultimately show ?thesis unfolding buildComposites_def
    by (intro keepsMask_andThen keepsMask_modify k) simp_all
qed

subsection \<open>Limits that the code refuses, ignores or confuses\<close>

lemma max_alone_throws:
  assumes "int_limit ps ''maxProperties'' = Some m" "m \<noteq> MISSING_VALIDATOR" "kw ps ''minProperties'' = None"
  shows "buildPropertyLimits a ps st \<noteq> Inr r"
proof -
  have "MISSING_VALIDATOR < 0" by (simp add: MISSING_VALIDATOR_def)
  moreover have "getIntegralValue ps ''maxProperties'' MISSING_VALIDATOR st = Inr (m, st)"
    using assms(1) by (auto simp: getIntegralValue_def int_limit_def split: option.splits json.splits)
  moreover have "getIntegralValue ps ''minProperties'' MISSING_VALIDATOR = yield MISSING_VALIDATOR"
    using assms(3) by (simp add: getIntegralValue_def)
  ultimately show ?thesis using assms(2)
    by (cases r) (auto simp: buildPropertyLimits_def run_andThen checkNonNegative_def)
qed

text \<open>
  C40. A schema that limits the number of properties from above, and not from below, is refused: when objects
  are among its types and it is no reference, a limit \<open>maxProperties\<close> without a limit \<open>minProperties\<close>
  makes the builder fail, whatever the limit and the other keywords are.
\<close>

theorem max_properties_alone:
  assumes "int_limit ps ''maxProperties'' = Some m" "m \<noteq> MISSING_VALIDATOR" "kw ps ''minProperties'' = None"
    "permits ps ''object''" "kw ps ''$ref'' = None"
  shows "\<exists>e. jsonBuildSchema P ver (JObject ps) st = Inl e"
proof (rule ccontr)
  assume "\<nexists>e. jsonBuildSchema P ver (JObject ps) st = Inl e"
  then obtain b st2 where "build P None (JObject ps) st = Inr (b, st2)"
    by (cases "build P None (JObject ps) st") (auto simp: jsonBuildSchema_def)
  then have "buildObject P (build P) None ps st = Inr (b, st2)" by (subst (asm) build.simps) simp
  then obtain i descr titl st1 where f: "fillSpec P (length st) i (schema_types ps)
       (st @ [cleared_spec\<lparr>specId := i, description := descr, title := titl, parent := None\<rparr>]) = Inr (length st, st1)"
    and r: "afterSpec P (build P) (length st) ps st1 = Inr (b, st2)" by (rule buildObject_run)
  let ?a = "length st"
  from r obtain anch st3 st4 st5 u where 0: "modify ?a (\<lambda>s. s\<lparr>ref := None, anchor := anch\<rparr>) st1 = Inr ((), st3)"
    and 1: "ifSome anch (indexByAnchor ?a) st3 = Inr ((), st4)"
    and 2: "buildComposites (build P) ?a ps st4 = Inr ((), st5)"
    and 3: "buildTypesLoop P (build P) ?a ps False [0..<JSTYPE_MAX + 1] st5 = Inr (u, st2)"
    by (auto simp: afterSpec_def run_andThen buildKeywords_split assms(5) getString_def [of ps "''$ref''"]
        dest!: getString_state split: if_splits)
  have "keepsMask (modify ?a (\<lambda>s. s\<lparr>ref := None, anchor := anch\<rparr>)) ?a" by (rule keepsMask_modify) simp
  with 0 fill_fresh(1) [OF f] have m3: "?a < length st3 \<and> typeMask (st3 ! ?a) = typeMask (st1 ! ?a)"
    unfolding keepsMask_def by blast
  have "keepsMask (ifSome anch (indexByAnchor ?a)) ?a" by (intro keepsMask_ifSome keepsMask_keeps keeps_index)
  with 1 m3 have m4: "?a < length st4 \<and> typeMask (st4 ! ?a) = typeMask (st1 ! ?a)" unfolding keepsMask_def by metis
  with keepsMask_buildComposites 2 have m5: "typeMask (st5 ! ?a) = typeMask (st1 ! ?a)" unfolding keepsMask_def by metis
  have "types_described ps (clean (st1 ! ?a))" using fill_fresh(2) [OF f] by (simp add: fresh_typed_def)
  from types_permit [OF this, of JSTYPE_OBJECT "''object''"] assms(4) m5 have on: "mask_has (typeMask (st5 ! ?a)) JSTYPE_OBJECT"
    by (simp add: type_bits type_codes_def)
  have codes: "[0..<JSTYPE_MAX + 1] = [JSTYPE_NULL, JSTYPE_BOOLEAN, JSTYPE_OBJECT, JSTYPE_ARRAY, JSTYPE_STRING, JSTYPE_NUMBER, JSTYPE_INTEGER]"
    by (simp add: jstypes upt_conv_Cons)
  from typesLoop_Cons [OF 3[unfolded codes]] obtain h0 t0 where
    r0: "buildTypeCode P (build P) ?a ps False JSTYPE_NULL st5 = Inr (h0, t0)" and
    l0: "buildTypesLoop P (build P) ?a ps h0 [JSTYPE_BOOLEAN, JSTYPE_OBJECT, JSTYPE_ARRAY, JSTYPE_STRING, JSTYPE_NUMBER, JSTYPE_INTEGER] t0 = Inr (u, st2)" .
  from typesLoop_Cons [OF l0] obtain h1 t1 where
    r1: "buildTypeCode P (build P) ?a ps h0 JSTYPE_BOOLEAN t0 = Inr (h1, t1)" and
    l1: "buildTypesLoop P (build P) ?a ps h1 [JSTYPE_OBJECT, JSTYPE_ARRAY, JSTYPE_STRING, JSTYPE_NUMBER, JSTYPE_INTEGER] t1 = Inr (u, st2)" .
  have t1: "t1 = st5" using typeCode_simple [OF r0] typeCode_simple [OF r1] by simp
  from typesLoop_Cons [OF l1] obtain h2 t2 where r2: "buildTypeCode P (build P) ?a ps h1 JSTYPE_OBJECT t1 = Inr (h2, t2)" by blast
  from typeCode_run(1) [OF r2] on t1 have "buildObjectType (build P) ?a ps st5 = Inr ((), t2)" by simp
  with max_alone_throws [OF assms(1-3)] show False by (auto simp: buildObjectType_def run_andThen)
qed

theorem max_properties_alone_witness:
  "\<exists>e. jsonBuildSchema demo_platform 1 (JObject [(''type'', JString ''object''), (''maxProperties'', JInt64 3)]) [] = Inl e"
  by (rule max_properties_alone [where m = 3])
     (simp_all add: int_limit_def MISSING_VALIDATOR_def permits_def schema_types_def)

end
