(* ===== verification/ParseTools.thy ===== *)
theory ParseTools
  imports JsonBuilder
begin

section \<open>The grammar engine\<close>

text \<open>
  \<open>c/parsetools.c\<close> and \<open>h/parsetools.h\<close>, without the tokenizer: grammars given as tables, the
  backtracking parser that runs them, and the build steps it leaves for \<open>gBuildJSON\<close>. A
  \<open>GRule*\<close> is an index into the array that \<open>makeGRules\<close> fills.

  The parser backtracks by \<open>longjmp\<close> to the innermost resume point, which belongs to an
  alternation with alternatives left or to a repetition. A function that is given a resume point
  does not return when it fails but jumps; here it yields \<open>Throw\<close>, which the owner of the
  resume point catches. \<open>Crash\<close> is an access through a null pointer or outside an array.
  \<open>Stuck\<close> is the value when the fuel, which bounds the nesting of calls and the rounds of a
  repetition, is used up, or when the tokenizer does not return.
\<close>

definition EOF_TOKEN :: int where "EOF_TOKEN = -1"
definition NO_VALID_TOKEN :: int where "NO_VALID_TOKEN = 0"
definition FIRST_REAL_TOKEN_ID :: int where "FIRST_REAL_TOKEN_ID = 1"
definition FIRST_GRULE_ID :: int where "FIRST_GRULE_ID = 10000"
definition G_END :: int where "G_END = 0"
definition G_SEQ :: int where "G_SEQ = 1"
definition G_ALT :: int where "G_ALT = 2"
definition G_STAR :: int where "G_STAR = 3"
definition BUILD_OBJECT :: int where "BUILD_OBJECT = 1"
definition BUILD_ARRAY :: int where "BUILD_ARRAY = 2"
definition BUILD_STRING :: int where "BUILD_STRING = 3"
definition BUILD_NUMBER :: int where "BUILD_NUMBER = 4"
definition BUILD_KEY :: int where "BUILD_KEY = 10"
definition BUILD_POP :: int where "BUILD_POP = 11"
definition BUILD_ALT :: int where "BUILD_ALT = 12"
definition MAX_BUILD_STEPS :: nat where "MAX_BUILD_STEPS = 10000"
definition STEP_UNDEFINED_POSITION :: int where "STEP_UNDEFINED_POSITION = -1"
definition GPARSE_FAIL :: int where "GPARSE_FAIL = -1"
definition MAX_DEPTH :: nat where "MAX_DEPTH = 200"

lemmas token_codes = EOF_TOKEN_def NO_VALID_TOKEN_def FIRST_REAL_TOKEN_ID_def
lemmas rule_codes = G_END_def G_SEQ_def G_ALT_def G_STAR_def FIRST_GRULE_ID_def
lemmas step_codes = BUILD_OBJECT_def BUILD_ARRAY_def BUILD_STRING_def BUILD_NUMBER_def BUILD_KEY_def
  BUILD_POP_def BUILD_ALT_def STEP_UNDEFINED_POSITION_def

definition GPARSE_SUCCESS :: "int \<Rightarrow> bool" where
  "GPARSE_SUCCESS x \<longleftrightarrow> 0 \<le> x"

text \<open>
  The function pointers of \<open>AbstractTokenizer\<close>, on the state \<open>'t\<close> of its subclass. \<open>nextToken\<close>
  gives the token, the position after it and the new state; \<open>None\<close> is a call that does not return.
\<close>

record 't tokenizer =
  lowTokenID :: int
  highTokenID :: int
  nextToken :: "'t \<Rightarrow> int \<Rightarrow> (int \<times> int \<times> 't) option"
  lastTokenStart :: "'t \<Rightarrow> int"
  lastTokenEnd :: "'t \<Rightarrow> int"
  getTokenIDName :: "int \<Rightarrow> string"
  getTokenJsonType :: "(int \<Rightarrow> nat) option"

subsection \<open>Rules\<close>

text \<open>The union of \<open>GRuleSpec\<close> is read as a list of identifiers; \<open>G_END\<close> ends it.\<close>

record gRuleSpec =
  spec_type :: int
  spec_id :: int
  spec_subs :: "int list"

datatype gRuleRef = TokenRef int | RuleRef nat

record gRule =
  rule_type :: int
  rule_id :: int
  rule_refs :: "gRuleRef list"

definition isTokenReference :: "'t tokenizer \<Rightarrow> int \<Rightarrow> bool" where
  "isTokenReference tkz i \<longleftrightarrow> i = EOF_TOKEN \<or> (lowTokenID tkz \<le> i \<and> i \<le> highTokenID tkz)"

fun getRuleLoop :: "gRule list \<Rightarrow> nat \<Rightarrow> int \<Rightarrow> nat option" where
  "getRuleLoop [] n i = None"
| "getRuleLoop (r # rs) n i = (if rule_id r = i then Some n else getRuleLoop rs (Suc n) i)"

definition getRule :: "gRule list \<Rightarrow> int \<Rightarrow> nat option" where
  "getRule ruleSet i = (if i < FIRST_GRULE_ID then None else getRuleLoop ruleSet 0 i)"

fun setRuleRefArray :: "'t tokenizer \<Rightarrow> gRule list \<Rightarrow> int list \<Rightarrow> gRuleRef list option" where
  "setRuleRefArray tkz ruleSet [] = Some []"
| "setRuleRefArray tkz ruleSet (index # indices) =
     (if isTokenReference tkz index
      then map_option (\<lambda>refs. TokenRef index # refs) (setRuleRefArray tkz ruleSet indices)
      else case getRule ruleSet index of
        None \<Rightarrow> None
      | Some referent \<Rightarrow>
          map_option (\<lambda>refs. RuleRef referent # refs) (setRuleRefArray tkz ruleSet indices))"

text \<open>
  The identifiers of the references of a rule: a repetition has one, the others those before
  \<open>G_END\<close>. A rule of another type is reported and keeps no references.
\<close>

definition sub_ids :: "gRuleSpec \<Rightarrow> int list" where
  "sub_ids spec =
     (if spec_type spec = G_SEQ \<or> spec_type spec = G_ALT then takeWhile (\<lambda>i. i \<noteq> G_END) (spec_subs spec)
      else if spec_type spec = G_STAR then take 1 (spec_subs spec)
      else [])"

fun linkRules :: "'t tokenizer \<Rightarrow> gRule list \<Rightarrow> gRuleSpec list \<Rightarrow> gRule list option" where
  "linkRules tkz rules [] = Some []"
| "linkRules tkz rules (spec # specs) =
     (case setRuleRefArray tkz rules (sub_ids spec) of
        None \<Rightarrow> None
      | Some refs \<Rightarrow>
          map_option (\<lambda>rs. \<lparr>rule_type = spec_type spec, rule_id = spec_id spec, rule_refs = refs\<rparr> # rs)
            (linkRules tkz rules specs))"

definition makeGRules :: "gRuleSpec list \<Rightarrow> 't tokenizer \<Rightarrow> gRule list option" where
  "makeGRules ruleSpecs tkz =
     (let specs = takeWhile (\<lambda>spec. spec_type spec \<noteq> G_END) ruleSpecs;
          rules = map (\<lambda>spec. \<lparr>rule_type = spec_type spec, rule_id = spec_id spec, rule_refs = []\<rparr>) specs
      in linkRules tkz rules specs)"

subsection \<open>Build steps\<close>

record gBuildStep =
  step_type :: int
  step_rule :: "nat option"
  step_token :: int
  valueStart :: int
  valueEnd :: int
  altChoice :: "gRuleRef option"

text \<open>The parts of \<open>GParseContext\<close> that parsing changes, and those it does not.\<close>

record 't gParseContext =
  tk :: 't
  buildSteps :: "gBuildStep list"

record 't gParseEnv =
  tkz :: "'t tokenizer"
  rules :: "gRule list"
  buildStepsSize :: nat

definition stepRef :: "int \<Rightarrow> gRuleRef option \<Rightarrow> nat option \<Rightarrow> gBuildStep" where
  "stepRef ty ref rule =
     \<lparr>step_type = ty,
      step_rule = (case ref of Some (RuleRef r) \<Rightarrow> Some r | Some (TokenRef _) \<Rightarrow> None | None \<Rightarrow> rule),
      step_token = (case ref of Some (TokenRef t) \<Rightarrow> t | _ \<Rightarrow> NO_VALID_TOKEN),
      valueStart = STEP_UNDEFINED_POSITION, valueEnd = STEP_UNDEFINED_POSITION, altChoice = None\<rparr>"

text \<open>The index of the new step, or none when the array is full.\<close>

definition makeBuildStep ::
  "'t gParseEnv \<Rightarrow> int \<Rightarrow> gRuleRef option \<Rightarrow> nat option \<Rightarrow> 't gParseContext \<Rightarrow> nat option \<times> 't gParseContext" where
  "makeBuildStep E ty ref rule c =
     (if buildStepsSize E \<le> length (buildSteps c) then (None, c)
      else (Some (length (buildSteps c)),
            c\<lparr>buildSteps := buildSteps c @ [stepRef ty ref rule]\<rparr>))"

definition tokenBuildType :: "'t gParseEnv \<Rightarrow> int \<Rightarrow> int" where
  "tokenBuildType E tokenID =
     (let jsonType = (case getTokenJsonType (tkz E) of None \<Rightarrow> JSON_TYPE_STRING | Some f \<Rightarrow> f tokenID)
      in if jsonType = JSON_TYPE_NUMBER then BUILD_NUMBER else BUILD_STRING)"

text \<open>\<open>None\<close>: the step is written through the null pointer.\<close>

definition buildTokenValue ::
  "'t gParseEnv \<Rightarrow> int \<Rightarrow> int \<Rightarrow> int \<Rightarrow> 't gParseContext \<Rightarrow> 't gParseContext option" where
  "buildTokenValue E tokenID start end' c =
     (case makeBuildStep E (tokenBuildType E tokenID) (Some (TokenRef tokenID)) None c of
        (None, c1) \<Rightarrow> None
      | (Some i, c1) \<Rightarrow>
          Some (c1\<lparr>buildSteps := (buildSteps c1)[i := (buildSteps c1 ! i)\<lparr>valueStart := start, valueEnd := end'\<rparr>]\<rparr>))"

definition buildSeqElement :: "'t gParseEnv \<Rightarrow> gRuleRef \<Rightarrow> 't gParseContext \<Rightarrow> 't gParseContext" where
  "buildSeqElement E ref c = snd (makeBuildStep E BUILD_KEY (Some ref) None c)"

definition buildAltValue :: "'t gParseEnv \<Rightarrow> nat \<Rightarrow> 't gParseContext \<Rightarrow> nat option \<times> 't gParseContext" where
  "buildAltValue E rule c = makeBuildStep E BUILD_ALT None (Some rule) c"

definition buildObject :: "'t gParseEnv \<Rightarrow> nat \<Rightarrow> 't gParseContext \<Rightarrow> 't gParseContext" where
  "buildObject E rule c = snd (makeBuildStep E BUILD_OBJECT None (Some rule) c)"

definition buildArray :: "'t gParseEnv \<Rightarrow> nat \<Rightarrow> 't gParseContext \<Rightarrow> 't gParseContext" where
  "buildArray E rule c = snd (makeBuildStep E BUILD_ARRAY None (Some rule) c)"

definition buildPop :: "'t gParseEnv \<Rightarrow> 't gParseContext \<Rightarrow> 't gParseContext" where
  "buildPop E c = snd (makeBuildStep E BUILD_POP None None c)"

definition setAltChoice :: "nat \<Rightarrow> gRuleRef \<Rightarrow> 't gParseContext \<Rightarrow> 't gParseContext" where
  "setAltChoice i ref c = c\<lparr>buildSteps := (buildSteps c)[i := (buildSteps c ! i)\<lparr>altChoice := Some ref\<rparr>]\<rparr>"

subsection \<open>Running a rule\<close>

datatype 't outcome = Res int "'t gParseContext" | Throw "'t gParseContext" | Crash | Stuck

text \<open>The position that \<open>runTokenMatch\<close> returns when the tokenizer fails.\<close>

definition TOKENIZER_FAILED :: int where
  "TOKENIZER_FAILED = 0x7FFFFFFF"

definition runTokenMatch :: "'t gParseEnv \<Rightarrow> int \<Rightarrow> int \<Rightarrow> 't gParseContext \<Rightarrow> 't outcome" where
  "runTokenMatch E desired pos c =
     (case nextToken (tkz E) (tk c) pos of
        None \<Rightarrow> Stuck
      | Some (tokenID, nextPos, t) \<Rightarrow>
          let c1 = c\<lparr>tk := t\<rparr> in
          if tokenID = desired then
            (case buildTokenValue E desired (lastTokenStart (tkz E) t) (lastTokenEnd (tkz E) t) c1 of
               None \<Rightarrow> Crash
             | Some c2 \<Rightarrow> Res nextPos c2)
          else if tokenID = NO_VALID_TOKEN then Res TOKENIZER_FAILED c1
          else Res GPARSE_FAIL c1)"

definition rewindSteps :: "nat \<Rightarrow> 't gParseContext \<Rightarrow> 't gParseContext" where
  "rewindSteps hwm c = c\<lparr>buildSteps := take hwm (buildSteps c)\<rparr>"

text \<open>Running a function to its return, when its own resume point was passed on.\<close>

definition popped :: "'t gParseEnv \<Rightarrow> 't outcome \<Rightarrow> 't outcome" where
  "popped E r = (case r of Res res c \<Rightarrow> Res res (buildPop E c) | _ \<Rightarrow> r)"

function (sequential) parseDispatch :: "'t gParseEnv \<Rightarrow> nat \<Rightarrow> nat \<Rightarrow> int \<Rightarrow> bool \<Rightarrow> 't gParseContext \<Rightarrow> 't outcome"
  and runSeq :: "'t gParseEnv \<Rightarrow> nat \<Rightarrow> gRuleRef list \<Rightarrow> int \<Rightarrow> bool \<Rightarrow> 't gParseContext \<Rightarrow> 't outcome"
  and runAlt :: "'t gParseEnv \<Rightarrow> nat \<Rightarrow> nat option \<Rightarrow> nat \<Rightarrow> gRuleRef list \<Rightarrow> int \<Rightarrow> bool \<Rightarrow> 't gParseContext \<Rightarrow> 't outcome"
  and runStar :: "'t gParseEnv \<Rightarrow> nat \<Rightarrow> gRuleRef \<Rightarrow> int \<Rightarrow> nat \<Rightarrow> 't gParseContext \<Rightarrow> 't outcome" where
  "parseDispatch E 0 rule pos resume c = Stuck"
| "parseDispatch E (Suc n) rule pos resume c =
     (let refs = rule_refs (rules E ! rule);
          ty = rule_type (rules E ! rule)
      in if ty = G_SEQ then popped E (runSeq E n refs pos resume (buildObject E rule c))
         else if ty = G_ALT then
           (case buildAltValue E rule c of
              (altStep, c1) \<Rightarrow> popped E (runAlt E n altStep (length (buildSteps c1)) refs pos resume c1))
         else if ty = G_STAR then
           (let c1 = buildArray E rule c in
            popped E (runStar E n (hd refs) pos (length (buildSteps c1)) c1))
         else Res GPARSE_FAIL c)"
| "runSeq E n [] pos resume c = Res pos c"
| "runSeq E n (ref # refs) pos resume c =
     (let c1 = buildSeqElement E ref c in
      case (case ref of TokenRef t \<Rightarrow> runTokenMatch E t pos c1
                      | RuleRef r \<Rightarrow> parseDispatch E n r pos resume c1) of
        Res matchResult c2 \<Rightarrow>
          if GPARSE_SUCCESS matchResult then runSeq E n refs matchResult resume c2
          else if resume then Throw c2
          else Res GPARSE_FAIL c2
      | r \<Rightarrow> r)"
| "runAlt E n altStep hwm [] pos resume c = Res GPARSE_FAIL c"
| "runAlt E n altStep hwm (ref # refs) pos resume c =
     (case altStep of
        None \<Rightarrow> Crash
      | Some i \<Rightarrow>
          let c1 = setAltChoice i ref c in
          case ref of
            TokenRef t \<Rightarrow>
              (case runTokenMatch E t pos c1 of
                 Res matchResult c2 \<Rightarrow>
                   if GPARSE_SUCCESS matchResult then Res matchResult c2
                   else if refs \<noteq> [] then runAlt E n altStep hwm refs pos resume c2
                   else if resume then Throw c2
                   else Res GPARSE_FAIL c2
               | r \<Rightarrow> r)
          | RuleRef r \<Rightarrow>
              if refs \<noteq> [] then
                (case parseDispatch E n r pos True c1 of
                   Throw c2 \<Rightarrow> runAlt E n altStep hwm refs pos resume (rewindSteps hwm c2)
                 | r \<Rightarrow> r)
              else parseDispatch E n r pos resume c1)"
| "runStar E 0 ref position hwm c = Stuck"
| "runStar E (Suc n) ref position hwm c =
     (case (case ref of TokenRef t \<Rightarrow> runTokenMatch E t position c
                      | RuleRef r \<Rightarrow> parseDispatch E n r position True c) of
        Res matchResult c1 \<Rightarrow>
          if GPARSE_SUCCESS matchResult then runStar E n ref matchResult (length (buildSteps c1)) c1
          else Res position c1
      | Throw c1 \<Rightarrow> Res position (rewindSteps hwm c1)
      | r \<Rightarrow> r)"
  by pat_completeness auto
termination
  by (relation "inv_image (less_than <*lex*> less_than)
       (\<lambda>x. case x of
          Inl (Inl (E, n, _)) \<Rightarrow> (n, 0)
        | Inl (Inr (E, n, refs, _)) \<Rightarrow> (n, Suc (length refs))
        | Inr (Inl (E, n, a, h, refs, _)) \<Rightarrow> (n, Suc (length refs))
        | Inr (Inr (E, n, _)) \<Rightarrow> (n, 1))") auto

subsection \<open>From build steps to JSON\<close>

text \<open>
  The locals of \<open>gBuildJSON\<close>: the builder, the stack of parents with the last one first, the
  parent and the key of the next value. The stack has room for \<open>MAX_DEPTH\<close> parents.
\<close>

record gbuild =
  builder :: jsonBuilder
  parentStack :: "ptr list"
  currentParent :: ptr
  currentKey :: "string option"

definition pushParent :: "ptr \<Rightarrow> string option \<Rightarrow> jsonBuilder \<Rightarrow> gbuild \<Rightarrow> gbuild option" where
  "pushParent p key b g =
     (if MAX_DEPTH \<le> length (parentStack g) then None
      else Some (g\<lparr>builder := b, parentStack := currentParent g # parentStack g,
                   currentParent := p, currentKey := key\<rparr>))"

definition valueText :: "string \<Rightarrow> gBuildStep \<Rightarrow> string" where
  "valueText s step = take (nat (valueEnd step - valueStart step)) (drop (nat (valueStart step)) s)"

definition ruleRefID :: "'t gParseEnv \<Rightarrow> gRuleRef \<Rightarrow> int" where
  "ruleRefID E ref = (case ref of TokenRef t \<Rightarrow> t | RuleRef r \<Rightarrow> rule_id (rules E ! r))"

text \<open>One step. An unknown type of step is reported and ignored.\<close>

definition buildStepJSON ::
  "'t gParseEnv \<Rightarrow> (int \<Rightarrow> string) \<Rightarrow> string \<Rightarrow> gBuildStep \<Rightarrow> gbuild \<Rightarrow> gbuild option" where
  "buildStepJSON E ruleNamer s step g =
     (let b = builder g; parent = currentParent g; key = currentKey g; ty = step_type step in
      if ty = BUILD_OBJECT then
        (case jsonBuildObject b parent key of (p, _, b1) \<Rightarrow> pushParent p None b1 g)
      else if ty = BUILD_ARRAY then
        (case jsonBuildArray b parent key of (p, _, b1) \<Rightarrow> pushParent p None b1 g)
      else if ty = BUILD_POP then
        (case parentStack g of
           [] \<Rightarrow> None
         | p # ps \<Rightarrow> Some (g\<lparr>parentStack := ps, currentParent := p, currentKey := None\<rparr>))
      else if ty = BUILD_KEY then
        (if step_token step = NO_VALID_TOKEN then
           (case step_rule step of
              None \<Rightarrow> None
            | Some r \<Rightarrow> Some (g\<lparr>currentKey := Some (ruleNamer (rule_id (rules E ! r)))\<rparr>))
         else if step_token step = EOF_TOKEN then Some (g\<lparr>currentKey := Some ''<EOF>''\<rparr>)
         else Some (g\<lparr>currentKey := Some (getTokenIDName (tkz E) (step_token step))\<rparr>))
      else if ty = BUILD_ALT then
        (case jsonBuildObject b parent key of
           (alt, _, b1) \<Rightarrow>
             (case altChoice step of
                None \<Rightarrow> None
              | Some choiceRef \<Rightarrow>
                  (case jsonBuildInt b1 alt (Some ''altID'') (word_of_int (ruleRefID E choiceRef)) of
                     (_, _, b2) \<Rightarrow> pushParent alt (Some ''value'') b2 g)))
      else if ty = BUILD_STRING then
        (if key = None then Some g
         else (case jsonBuildString b parent key (valueText s step) (length (valueText s step)) of
                 (_, _, b1) \<Rightarrow> Some (g\<lparr>builder := b1, currentKey := None\<rparr>)))
      else if ty = BUILD_NUMBER then
        (let val = strtoll (valueText s step) in
         case (if val < 0x7FFFFFFF then jsonBuildInt b parent key (word_of_int val)
               else jsonBuildInt64 b parent key (word_of_int val)) of
           (_, _, b1) \<Rightarrow> Some (g\<lparr>builder := b1\<rparr>))
      else Some g)"

primrec gBuildJSONLoop ::
  "'t gParseEnv \<Rightarrow> (int \<Rightarrow> string) \<Rightarrow> string \<Rightarrow> gBuildStep list \<Rightarrow> gbuild \<Rightarrow> gbuild option" where
  "gBuildJSONLoop E ruleNamer s [] g = Some g"
| "gBuildJSONLoop E ruleNamer s (step # steps) g =
     (case buildStepJSON E ruleNamer s step g of
        None \<Rightarrow> None
      | Some g1 \<Rightarrow> gBuildJSONLoop E ruleNamer s steps g1)"

text \<open>The root and the store it is in; \<open>None\<close> is an access outside the stack or through \<open>NULL\<close>.\<close>

definition gBuildJSON ::
  "'t gParseEnv \<Rightarrow> (int \<Rightarrow> string) \<Rightarrow> string \<Rightarrow> gBuildStep list \<Rightarrow> (ptr \<times> jsonBuilder) option" where
  "gBuildJSON E ruleNamer s steps =
     (case gBuildJSONLoop E ruleNamer s steps
             \<lparr>builder = makeJsonBuilder, parentStack = [], currentParent = NULL, currentKey = None\<rparr> of
        None \<Rightarrow> None
      | Some g \<Rightarrow> Some (root (builder g), builder g))"

subsection \<open>A whole parse\<close>

datatype 't parse_result =
    Parsed int "'t gParseContext" "'t gParseEnv"
  | ParseCrash
  | ParseStuck

text \<open>
  \<open>Parsed\<close> carries the status of the context. The rules are looked up even when they could not be
  linked, and the rule found is used without a test, so that a bad grammar crashes. No resume
  point is given to the first call, so that nothing is left to jump to.
\<close>

definition gParse ::
  "nat \<Rightarrow> gRuleSpec list \<Rightarrow> int \<Rightarrow> 't tokenizer \<Rightarrow> 't \<Rightarrow> 't parse_result" where
  "gParse fuel ruleSet topRuleID tokenizer t =
     (case makeGRules ruleSet tokenizer of
        None \<Rightarrow> ParseCrash
      | Some grules \<Rightarrow>
          (case getRule grules topRuleID of
             None \<Rightarrow> ParseCrash
           | Some topRule \<Rightarrow>
               let E = \<lparr>tkz = tokenizer, rules = grules, buildStepsSize = MAX_BUILD_STEPS\<rparr>;
                   c = \<lparr>tk = t, buildSteps = []\<rparr>
               in if rule_type (grules ! topRule) = G_SEQ then
                    (case parseDispatch E fuel topRule 0 False c of
                       Res parseResult c1 \<Rightarrow> Parsed parseResult c1 E
                     | Throw c1 \<Rightarrow> ParseCrash
                     | Crash \<Rightarrow> ParseCrash
                     | Stuck \<Rightarrow> ParseStuck)
                  else Parsed (-1) c E))"

end
