(* ===== verification/JqTokenizer.thy ===== *)
theory JqTokenizer
  imports ParseTools
begin

section \<open>The tokenizer for Java-like texts\<close>

text \<open>
  \<open>JQTokenizer\<close> of \<open>h/parsetools.h\<close> and \<open>c/parsetools.c\<close>. The characters are classified by
  tables of 256 entries that are indexed with the \<open>int\<close> of a signed \<open>char\<close>, or with -1 at the end
  of the text. What lies in memory outside the tables is not in the source: \<open>stray\<close> gives the
  words an index outside \<open>charProps\<close> and \<open>cp1047to1208\<close> reads.
\<close>

definition JTOKEN_IDENTIFIER :: int where "JTOKEN_IDENTIFIER = 1"
definition JTOKEN_INTEGER :: int where "JTOKEN_INTEGER = 2"
definition JTOKEN_DQUOTE_STRING :: int where "JTOKEN_DQUOTE_STRING = 3"
definition JTOKEN_SQUOTE_STRING :: int where "JTOKEN_SQUOTE_STRING = 4"
definition JTOKEN_LPAREN :: int where "JTOKEN_LPAREN = 5"
definition JTOKEN_RPAREN :: int where "JTOKEN_RPAREN = 6"
definition JTOKEN_LBRACK :: int where "JTOKEN_LBRACK = 7"
definition JTOKEN_RBRACK :: int where "JTOKEN_RBRACK = 8"
definition JTOKEN_LBRACE :: int where "JTOKEN_LBRACE = 9"
definition JTOKEN_RBRACE :: int where "JTOKEN_RBRACE = 10"
definition JTOKEN_DOT :: int where "JTOKEN_DOT = 11"
definition JTOKEN_COMMA :: int where "JTOKEN_COMMA = 12"
definition JTOKEN_VBAR :: int where "JTOKEN_VBAR = 13"
definition JTOKEN_COLON :: int where "JTOKEN_COLON = 14"
definition JTOKEN_QMARK :: int where "JTOKEN_QMARK = 15"
definition JTOKEN_PLUS :: int where "JTOKEN_PLUS = 16"
definition JTOKEN_DASH :: int where "JTOKEN_DASH = 17"
definition JTOKEN_STAR :: int where "JTOKEN_STAR = 18"
definition JTOKEN_SLASH :: int where "JTOKEN_SLASH = 19"
definition JTOKEN_PERCENT :: int where "JTOKEN_PERCENT = 20"
definition LAST_JTOKEN_ID :: int where "LAST_JTOKEN_ID = JTOKEN_PERCENT"

lemmas jtokens = JTOKEN_IDENTIFIER_def JTOKEN_INTEGER_def JTOKEN_DQUOTE_STRING_def JTOKEN_SQUOTE_STRING_def JTOKEN_LPAREN_def JTOKEN_RPAREN_def JTOKEN_LBRACK_def JTOKEN_RBRACK_def JTOKEN_LBRACE_def JTOKEN_RBRACE_def JTOKEN_DOT_def JTOKEN_COMMA_def JTOKEN_VBAR_def JTOKEN_COLON_def JTOKEN_QMARK_def JTOKEN_PLUS_def JTOKEN_DASH_def JTOKEN_STAR_def JTOKEN_SLASH_def JTOKEN_PERCENT_def LAST_JTOKEN_ID_def

definition UNI_DQUOTE :: int where "UNI_DQUOTE = 0x22"
definition UNI_DOLLAR :: int where "UNI_DOLLAR = 0x24"
definition UNI_PERCENT :: int where "UNI_PERCENT = 0x25"
definition UNI_SQUOTE :: int where "UNI_SQUOTE = 0x27"
definition UNI_LPAREN :: int where "UNI_LPAREN = 0x28"
definition UNI_RPAREN :: int where "UNI_RPAREN = 0x29"
definition UNI_STAR :: int where "UNI_STAR = 0x2A"
definition UNI_PLUS :: int where "UNI_PLUS = 0x2B"
definition UNI_COMMA :: int where "UNI_COMMA = 0x2C"
definition UNI_DASH :: int where "UNI_DASH = 0x2D"
definition UNI_DOT :: int where "UNI_DOT = 0x2E"
definition UNI_SLASH :: int where "UNI_SLASH = 0x2F"
definition UNI_COLON :: int where "UNI_COLON = 0x3A"
definition UNI_QMARK :: int where "UNI_QMARK = 0x3F"
definition UNI_LBRACK :: int where "UNI_LBRACK = 0x5B"
definition UNI_RBRACK :: int where "UNI_RBRACK = 0x5D"
definition UNI_UNDER :: int where "UNI_UNDER = 0x5F"
definition UNI_LBRACE :: int where "UNI_LBRACE = 0x7B"
definition UNI_VBAR :: int where "UNI_VBAR = 0x7C"
definition UNI_RBRACE :: int where "UNI_RBRACE = 0x7D"

lemmas unis = UNI_DQUOTE_def UNI_DOLLAR_def UNI_PERCENT_def UNI_SQUOTE_def UNI_LPAREN_def UNI_RPAREN_def UNI_STAR_def UNI_PLUS_def UNI_COMMA_def UNI_DASH_def UNI_DOT_def UNI_SLASH_def UNI_COLON_def UNI_QMARK_def UNI_LBRACK_def UNI_RBRACK_def UNI_UNDER_def UNI_LBRACE_def UNI_VBAR_def UNI_RBRACE_def

subsection \<open>Classes of characters\<close>

definition CPROP_ALPHA :: cint where "CPROP_ALPHA = 0x0001"
definition CPROP_DIGIT :: cint where "CPROP_DIGIT = 0x0002"
definition CPROP_HEX :: cint where "CPROP_HEX = 0x0004"
definition CPROP_CONTROL :: cint where "CPROP_CONTROL = 0x0008"
definition CPROP_LETTER :: cint where "CPROP_LETTER = 0x0010"
definition CPROP_LOWER :: cint where "CPROP_LOWER = 0x0020"
definition CPROP_WHITE :: cint where "CPROP_WHITE = 0x0040"

text \<open>The runs of equal entries of the table.\<close>

definition charProps :: "cint list" where
  "charProps =
   replicate 9 CPROP_CONTROL @ replicate 5 (CPROP_CONTROL OR CPROP_WHITE) @
   replicate 14 CPROP_CONTROL @ replicate 4 (CPROP_CONTROL OR CPROP_WHITE) @ [CPROP_WHITE] @
   replicate 15 0 @ replicate 10 (CPROP_DIGIT OR CPROP_HEX) @ replicate 7 0 @
   replicate 6 (CPROP_ALPHA OR CPROP_HEX OR CPROP_LETTER) @
   replicate 20 (CPROP_ALPHA OR CPROP_LETTER) @ replicate 6 0 @
   replicate 6 (CPROP_ALPHA OR CPROP_HEX OR CPROP_LETTER OR CPROP_LOWER) @
   replicate 20 (CPROP_ALPHA OR CPROP_LETTER OR CPROP_LOWER) @ replicate 4 0 @
   replicate 33 CPROP_CONTROL @ replicate 10 0 @ [CPROP_ALPHA OR CPROP_LETTER OR CPROP_LOWER] @
   replicate 10 0 @ [CPROP_ALPHA OR CPROP_LETTER OR CPROP_LOWER] @ replicate 4 0 @
   [CPROP_ALPHA OR CPROP_LETTER OR CPROP_LOWER] @ replicate 5 0 @
   replicate 23 (CPROP_ALPHA OR CPROP_LETTER) @ [0] @ replicate 7 (CPROP_ALPHA OR CPROP_LETTER) @
   replicate 24 (CPROP_ALPHA OR CPROP_LETTER OR CPROP_LOWER) @ [0] @
   replicate 8 (CPROP_ALPHA OR CPROP_LETTER OR CPROP_LOWER)"

definition cp1047to1208 :: "int list" where
  "cp1047to1208 =
  [0x00, 0x01, 0x02, 0x03, 0x9c, 0x09, 0x86, 0x7f, 0x97, 0x8d, 0x8e, 0x0b, 0x0c, 0x0d, 0x0e, 0x0f,
   0x10, 0x11, 0x12, 0x13, 0x9d, 0x0a, 0x08, 0x87, 0x18, 0x19, 0x92, 0x8f, 0x1c, 0x1d, 0x1e, 0x1f,
   0x80, 0x81, 0x82, 0x83, 0x84, 0x85, 0x17, 0x1b, 0x88, 0x89, 0x8a, 0x8b, 0x8c, 0x05, 0x06, 0x07,
   0x90, 0x91, 0x16, 0x93, 0x94, 0x95, 0x96, 0x04, 0x98, 0x99, 0x9a, 0x9b, 0x14, 0x15, 0x9e, 0x1a,
   0x20, 0xa0, 0xe2, 0xe4, 0xe0, 0xe1, 0xe3, 0xe5, 0xe7, 0xf1, 0xa2, 0x2e, 0x3c, 0x28, 0x2b, 0x7c,
   0x26, 0xe9, 0xea, 0xeb, 0xe8, 0xed, 0xee, 0xef, 0xec, 0xdf, 0x21, 0x24, 0x2a, 0x29, 0x3b, 0x5e,
   0x2d, 0x2f, 0xc2, 0xc4, 0xc0, 0xc1, 0xc3, 0xc5, 0xc7, 0xd1, 0xa6, 0x2c, 0x25, 0x5f, 0x3e, 0x3f,
   0xf8, 0xc9, 0xca, 0xcb, 0xc8, 0xcd, 0xce, 0xcf, 0xcc, 0x60, 0x3a, 0x23, 0x40, 0x27, 0x3d, 0x22,
   0xd8, 0x61, 0x62, 0x63, 0x64, 0x65, 0x66, 0x67, 0x68, 0x69, 0xab, 0xbb, 0xf0, 0xfd, 0xfe, 0xb1,
   0xb0, 0x6a, 0x6b, 0x6c, 0x6d, 0x6e, 0x6f, 0x70, 0x71, 0x72, 0xaa, 0xba, 0xe6, 0xb8, 0xc6, 0xa4,
   0xb5, 0x7e, 0x73, 0x74, 0x75, 0x76, 0x77, 0x78, 0x79, 0x7a, 0xa1, 0xbf, 0xd0, 0x5b, 0xde, 0xae,
   0xac, 0xa3, 0xa5, 0xb7, 0xa9, 0xa7, 0xb6, 0xbc, 0xbd, 0xbe, 0xdd, 0xa8, 0xaf, 0x5d, 0xb4, 0xd7,
   0x7b, 0x41, 0x42, 0x43, 0x44, 0x45, 0x46, 0x47, 0x48, 0x49, 0xad, 0xf4, 0xf6, 0xf2, 0xf3, 0xf5,
   0x7d, 0x4a, 0x4b, 0x4c, 0x4d, 0x4e, 0x4f, 0x50, 0x51, 0x52, 0xb9, 0xfb, 0xfc, 0xf9, 0xfa, 0xff,
   0x5c, 0xf7, 0x53, 0x54, 0x55, 0x56, 0x57, 0x58, 0x59, 0x5a, 0xb2, 0xd4, 0xd6, 0xd2, 0xd3, 0xd5,
   0x30, 0x31, 0x32, 0x33, 0x34, 0x35, 0x36, 0x37, 0x38, 0x39, 0xb3, 0xdb, 0xdc, 0xd9, 0xda, 0x9f]"

record stray =
  stray_props :: "int \<Rightarrow> cint"
  stray_1047 :: "int \<Rightarrow> int"

definition charPropsAt :: "stray \<Rightarrow> int \<Rightarrow> cint" where
  "charPropsAt m i = (if 0 \<le> i \<and> i < 256 then charProps ! nat i else stray_props m i)"

definition cp1047At :: "stray \<Rightarrow> int \<Rightarrow> int" where
  "cp1047At m i = (if 0 \<le> i \<and> i < 256 then cp1047to1208 ! nat i else stray_1047 m i)"

definition IBM1047 :: int where "IBM1047 = 1047"
definition UTF8 :: int where "UTF8 = 1208"

definition testCharProp :: "stray \<Rightarrow> int \<Rightarrow> int \<Rightarrow> cint \<Rightarrow> bool" where
  "testCharProp m ccsid c prop =
     (if ccsid = IBM1047 then charPropsAt m (cp1047At m c) AND prop \<noteq> 0
      else if ccsid = UTF8 then charPropsAt m c AND prop \<noteq> 0
      else False)"

subsection \<open>The tokenizer\<close>

datatype tokenState = STATE_INITIAL | STATE_INTEGER | STATE_IDENTIFIER | STATE_SQUOTE | STATE_DQUOTE

text \<open>\<open>mem\<close> is the memory around the tables; \<open>data\<close> holds the \<open>length\<close> characters of the text.\<close>

record jqTokenizer =
  mem :: stray
  ccsid :: int
  tokenState :: tokenState
  data :: string
  jpos :: int
  tokStart :: int
  tokEnd :: int

definition isLetter :: "jqTokenizer \<Rightarrow> int \<Rightarrow> bool" where
  "isLetter jqt c = testCharProp (mem jqt) (ccsid jqt) c CPROP_LETTER"

definition isDigit :: "jqTokenizer \<Rightarrow> int \<Rightarrow> bool" where
  "isDigit jqt c = testCharProp (mem jqt) (ccsid jqt) c CPROP_DIGIT"

definition isWhite :: "jqTokenizer \<Rightarrow> int \<Rightarrow> bool" where
  "isWhite jqt c = testCharProp (mem jqt) (ccsid jqt) c CPROP_WHITE"

definition punctuation :: "int \<Rightarrow> int" where
  "punctuation c =
     (if c = UNI_LPAREN then JTOKEN_LPAREN
      else if c = UNI_RPAREN then JTOKEN_RPAREN
      else if c = UNI_LBRACK then JTOKEN_LBRACK
      else if c = UNI_RBRACK then JTOKEN_RBRACK
      else if c = UNI_LBRACE then JTOKEN_LBRACE
      else if c = UNI_RBRACE then JTOKEN_RBRACE
      else if c = UNI_DOT then JTOKEN_DOT
      else if c = UNI_COMMA then JTOKEN_COMMA
      else if c = UNI_COLON then JTOKEN_COLON
      else if c = UNI_VBAR then JTOKEN_VBAR
      else if c = UNI_QMARK then JTOKEN_QMARK
      else if c = UNI_PLUS then JTOKEN_PLUS
      else if c = UNI_DASH then JTOKEN_DASH
      else if c = UNI_STAR then JTOKEN_STAR
      else if c = UNI_SLASH then JTOKEN_SLASH
      else if c = UNI_PERCENT then JTOKEN_PERCENT
      else NO_VALID_TOKEN)"

definition identifierChar :: "jqTokenizer \<Rightarrow> int \<Rightarrow> bool" where
  "identifierChar jqt c \<longleftrightarrow> isLetter jqt c \<or> c = UNI_DOLLAR \<or> c = UNI_UNDER"

text \<open>
  One round of the loop of \<open>jqtToken\<close>, for the character \<open>c\<close> read at \<open>charPos\<close>: go on, return a
  token after the tail of the loop, or return at once. \<open>STATE_SQUOTE\<close> falls through to the panic
  of the default case, so that it always fails.
\<close>

datatype round = GoOn jqTokenizer | Token int jqTokenizer | Failed jqTokenizer

definition jqtRound :: "int \<Rightarrow> int \<Rightarrow> jqTokenizer \<Rightarrow> round" where
  "jqtRound c charPos jqt =
     (case tokenState jqt of
        STATE_INITIAL \<Rightarrow>
          if c = -1 then Token EOF_TOKEN (jqt\<lparr>tokStart := int (length (data jqt))\<rparr>)
          else if identifierChar jqt c then GoOn (jqt\<lparr>tokenState := STATE_IDENTIFIER, tokStart := charPos\<rparr>)
          else if isDigit jqt c then GoOn (jqt\<lparr>tokenState := STATE_INTEGER, tokStart := charPos\<rparr>)
          else if isWhite jqt c then GoOn jqt
          else if c = UNI_DQUOTE then GoOn (jqt\<lparr>tokenState := STATE_DQUOTE, tokStart := charPos\<rparr>)
          else if c = UNI_SQUOTE then GoOn (jqt\<lparr>tokenState := STATE_SQUOTE, tokStart := charPos\<rparr>)
          else if punctuation c = NO_VALID_TOKEN then Failed jqt
          else Token (punctuation c) (jqt\<lparr>tokStart := charPos\<rparr>)
      | STATE_INTEGER \<Rightarrow>
          if \<not> isDigit jqt c then Token JTOKEN_INTEGER (if c \<noteq> -1 then jqt\<lparr>jpos := jpos jqt - 1\<rparr> else jqt)
          else GoOn jqt
      | STATE_IDENTIFIER \<Rightarrow>
          if identifierChar jqt c then GoOn jqt
          else Token JTOKEN_IDENTIFIER (if c \<noteq> -1 then jqt\<lparr>jpos := jpos jqt - 1\<rparr> else jqt)
      | STATE_DQUOTE \<Rightarrow>
          if c = -1 then Failed jqt
          else if c = UNI_DQUOTE then Token JTOKEN_DQUOTE_STRING jqt
          else GoOn jqt
      | STATE_SQUOTE \<Rightarrow> Failed jqt)"

text \<open>
  The loop. At the end of the text a round that goes on leaves everything as it is, so that the loop
  does not end: the value is \<open>None\<close>.
\<close>

definition tokenDone :: "int \<Rightarrow> jqTokenizer \<Rightarrow> int \<times> jqTokenizer" where
  "tokenDone tokenID jqt = (tokenID, jqt\<lparr>tokEnd := jpos jqt, tokenState := STATE_INITIAL\<rparr>)"

function jqtLoop :: "jqTokenizer \<Rightarrow> (int \<times> jqTokenizer) option" where
  "jqtLoop jqt =
     (if 0 \<le> jpos jqt \<and> jpos jqt < int (length (data jqt)) then
        (case jqtRound (char_code (data jqt ! nat (jpos jqt))) (jpos jqt) (jqt\<lparr>jpos := jpos jqt + 1\<rparr>) of
           GoOn t \<Rightarrow> jqtLoop (t\<lparr>jpos := jpos jqt + 1, data := data jqt\<rparr>)
         | Token i t \<Rightarrow> Some (tokenDone i t)
         | Failed t \<Rightarrow> Some (NO_VALID_TOKEN, t))
      else
        (case jqtRound (-1) (jpos jqt) jqt of
           GoOn t \<Rightarrow> None
         | Token i t \<Rightarrow> Some (tokenDone i t)
         | Failed t \<Rightarrow> Some (NO_VALID_TOKEN, t)))"
  by pat_completeness auto
termination
  by (relation "measure (\<lambda>jqt. nat (int (length (data jqt)) - jpos jqt))") auto

declare jqtLoop.simps [simp del]

definition jqtToken :: "jqTokenizer \<Rightarrow> (int \<times> jqTokenizer) option" where
  "jqtToken jqt =
     (if int (length (data jqt)) \<le> jpos jqt
      then Some (EOF_TOKEN, jqt\<lparr>tokStart := jpos jqt, tokEnd := jpos jqt\<rparr>)
      else jqtLoop jqt)"

definition getNextJToken :: "jqTokenizer \<Rightarrow> int \<Rightarrow> (int \<times> int \<times> jqTokenizer) option" where
  "getNextJToken jqt pos =
     map_option (\<lambda>(i, t). (i, jpos t, t)) (jqtToken (jqt\<lparr>jpos := pos\<rparr>))"

definition getJTokenName :: "int \<Rightarrow> string" where
  "getJTokenName i =
     (if i = EOF_TOKEN then ''EOF''
      else if i = JTOKEN_IDENTIFIER then ''ID''
      else if i = JTOKEN_INTEGER then ''INTEGER''
      else if i = JTOKEN_DQUOTE_STRING then ''DQUOTE_STRING''
      else if i = JTOKEN_SQUOTE_STRING then ''SQUOTE_STRING''
      else if i = JTOKEN_LPAREN then ''LPAREN''
      else if i = JTOKEN_RPAREN then ''RPAREN''
      else if i = JTOKEN_LBRACK then ''LBRACK''
      else if i = JTOKEN_RBRACK then ''RBRACK''
      else if i = JTOKEN_LBRACE then ''LBRACE''
      else if i = JTOKEN_RBRACE then ''RBRACE''
      else if i = JTOKEN_DOT then ''DOT''
      else if i = JTOKEN_COMMA then ''COMMA''
      else if i = JTOKEN_VBAR then ''VBAR''
      else if i = JTOKEN_COLON then ''COLON''
      else if i = JTOKEN_QMARK then ''QMARK''
      else if i = JTOKEN_PLUS then ''PLUS''
      else if i = JTOKEN_DASH then ''DASH''
      else if i = JTOKEN_STAR then ''STAR''
      else if i = JTOKEN_SLASH then ''SLASH''
      else if i = JTOKEN_PERCENT then ''PERCENT''
      else ''BAD_TOKEN'')"

definition getJTokenJsonType :: "int \<Rightarrow> nat" where
  "getJTokenJsonType tokenID =
     (if tokenID = JTOKEN_INTEGER then JSON_TYPE_NUMBER else JSON_TYPE_STRING)"

end
