(* ===== verification/JqLexing.thy ===== *)
theory JqLexing
  imports JqTokenizer
begin

section \<open>What the jq tokenizer finds\<close>

text \<open>
  The tokenizer on the text ahead of a position: single characters, names and numbers, the end of
  the text, and characters that start no token.
\<close>

subsection \<open>Tokens\<close>

text \<open>\<open>quiet m\<close>: the word before the table of the character classes has neither class set.\<close>

definition quiet :: "stray \<Rightarrow> bool" where
  "quiet m \<longleftrightarrow> stray_props m (-1) AND CPROP_LETTER = 0 \<and> stray_props m (-1) AND CPROP_DIGIT = 0"

definition lexer :: "stray \<Rightarrow> string \<Rightarrow> int \<Rightarrow> int \<Rightarrow> int \<Rightarrow> jqTokenizer" where
  "lexer m s q a b = \<lparr>mem = m, ccsid = UTF8, tokenState = STATE_INITIAL, data = s, jpos = q, tokStart = a, tokEnd = b\<rparr>"

definition ahead :: "string \<Rightarrow> int \<Rightarrow> string \<Rightarrow> bool" where
  "ahead s p u \<longleftrightarrow> 0 \<le> p \<and> p \<le> int (length s) \<and> drop (nat p) s = u"

lemma ahead_0: "ahead s 0 s"
  by (simp add: ahead_def)

lemma ahead_Cons:
  "ahead s p (c # u) \<Longrightarrow> p < int (length s) \<and> s ! nat p = c \<and> ahead s (p + 1) u"
proof -
  assume a: "ahead s p (c # u)"
  then have d: "drop (nat p) s = c # u" and "0 \<le> p" by (auto simp: ahead_def)
  then have l: "nat p < length s" by (metis drop_all linorder_not_less list.distinct(1))
  with d have "s ! nat p = c" by (metis Cons_nth_drop_Suc list.inject)
  moreover have "drop (Suc (nat p)) s = u" using d l by (metis Cons_nth_drop_Suc list.inject)
  moreover have "nat (p + 1) = Suc (nat p)" using \<open>0 \<le> p\<close> by simp
  moreover have "p < int (length s)" using l \<open>0 \<le> p\<close> by linarith
  ultimately show ?thesis using \<open>0 \<le> p\<close> by (simp add: ahead_def)
qed

lemma ahead_append: "ahead s p (v @ u) \<Longrightarrow> ahead s (p + int (length v)) u"
proof (induction v arbitrary: p)
  case (Cons c v)
  from Cons.IH [of "p + 1"] ahead_Cons [of s p c "v @ u"] Cons.prems show ?case by (simp add: algebra_simps)
qed simp

lemma ahead_Nil: "ahead s p [] \<longleftrightarrow> p = int (length s)"
  by (auto simp: ahead_def)

lemma charProps_letter:
  assumes "0 \<le> c" "c < 128"
  shows "(charProps ! nat c) AND CPROP_LETTER \<noteq> 0 \<longleftrightarrow> isalpha c"
proof -
  have "list_all (\<lambda>i. ((charProps ! i) AND CPROP_LETTER \<noteq> 0) = isalpha (int i)) [0..<128]" by code_simp
  then show ?thesis using assms by (auto simp: list_all_iff dest!: bspec [of _ _ "nat c"])
qed

lemma charProps_digit:
  assumes "0 \<le> c" "c < 128"
  shows "(charProps ! nat c) AND CPROP_DIGIT \<noteq> 0 \<longleftrightarrow> isdigit c"
proof -
  have "list_all (\<lambda>i. ((charProps ! i) AND CPROP_DIGIT \<noteq> 0) = isdigit (int i)) [0..<128]" by code_simp
  then show ?thesis using assms by (auto simp: list_all_iff dest!: bspec [of _ _ "nat c"])
qed

lemma charProps_white:
  assumes "0 \<le> c" "c < 128"
  shows "(charProps ! nat c) AND CPROP_WHITE \<noteq> 0 \<longleftrightarrow> isspace c \<or> (28 \<le> c \<and> c \<le> 31)"
proof -
  have "list_all (\<lambda>i. ((charProps ! i) AND CPROP_WHITE \<noteq> 0) =
      (isspace (int i) \<or> (28 \<le> int i \<and> int i \<le> 31))) [0..<128]" by code_simp
  then show ?thesis using assms by (auto simp: list_all_iff dest!: bspec [of _ _ "nat c"])
qed

lemma classes:
  assumes "ccsid jqt = UTF8" "0 \<le> c" "c < 128"
  shows "isLetter jqt c \<longleftrightarrow> isalpha c" "isDigit jqt c \<longleftrightarrow> isdigit c"
    "isWhite jqt c \<longleftrightarrow> isspace c \<or> (28 \<le> c \<and> c \<le> 31)"
  using assms charProps_letter [of c] charProps_digit [of c] charProps_white [of c]
  by (auto simp: isLetter_def isDigit_def isWhite_def testCharProp_def charPropsAt_def UTF8_def IBM1047_def)

lemma quiet_classes:
  assumes "ccsid jqt = UTF8" "quiet (mem jqt)"
  shows "\<not> isLetter jqt (-1)" "\<not> isDigit jqt (-1)"
  using assms
  by (auto simp: isLetter_def isDigit_def testCharProp_def charPropsAt_def UTF8_def IBM1047_def quiet_def)

text \<open>\<open>lexes s p i q\<close>: at \<open>p\<close> there is the token \<open>i\<close>, which ends before \<open>q\<close>.\<close>

definition lexes :: "stray \<Rightarrow> string \<Rightarrow> int \<Rightarrow> int \<Rightarrow> int \<Rightarrow> bool" where
  "lexes m s p i q \<longleftrightarrow> (\<forall>a b c. getNextJToken (lexer m s a b c) p = Some (i, q, lexer m s q p q))"

text \<open>\<open>illegal m s p\<close>: at \<open>p\<close> there is a character that starts no token.\<close>

definition illegal :: "stray \<Rightarrow> string \<Rightarrow> int \<Rightarrow> bool" where
  "illegal m s p \<longleftrightarrow>
     (\<forall>a b c. getNextJToken (lexer m s a b c) p = Some (NO_VALID_TOKEN, p + 1, lexer m s (p + 1) b c))"

lemmas lexer_simps = lexer_def getNextJToken_def jqtToken_def tokenDone_def

lemma lex_end: "int (length s) \<le> p \<Longrightarrow> lexes m s p EOF_TOKEN p"
  by (simp add: lexes_def lexer_simps)

lemma jqtLoop_at:
  assumes "ahead s p (c # u)" "jpos jqt = p" "data jqt = s"
  shows "jqtLoop jqt =
     (case jqtRound (char_code c) p (jqt\<lparr>jpos := p + 1\<rparr>) of
        GoOn t \<Rightarrow> jqtLoop (t\<lparr>jpos := p + 1, data := s\<rparr>)
      | Token i t \<Rightarrow> Some (tokenDone i t)
      | Failed t \<Rightarrow> Some (NO_VALID_TOKEN, t))"
  using ahead_Cons [OF assms(1)] assms by (subst jqtLoop.simps) (simp add: ahead_def cong: round.case_cong)

lemma jqtLoop_end:
  assumes "jpos jqt = int (length (data jqt))"
  shows "jqtLoop jqt =
        (case jqtRound (-1) (jpos jqt) jqt of
           GoOn t \<Rightarrow> None
         | Token i t \<Rightarrow> Some (tokenDone i t)
         | Failed t \<Rightarrow> Some (NO_VALID_TOKEN, t))"
  using assms by (subst jqtLoop.simps) simp

lemma getNextJToken_at:
  assumes "ahead s p (c # u)"
  shows "getNextJToken (lexer m s a b d) p = map_option (\<lambda>(i, t). (i, jpos t, t)) (jqtLoop (lexer m s p b d))"
  using ahead_Cons [OF assms] by (simp add: getNextJToken_def jqtToken_def lexer_def)

text \<open>A character of ASCII that starts nothing longer than itself.\<close>

definition ascii :: "char \<Rightarrow> bool" where
  "ascii c \<longleftrightarrow> 0 \<le> char_code c \<and> char_code c < 128"

definition lone :: "char \<Rightarrow> bool" where
  "lone c \<longleftrightarrow> ascii c \<and> \<not> isalpha (char_code c) \<and> \<not> isdigit (char_code c) \<and> \<not> isspace (char_code c) \<and>
     \<not> (28 \<le> char_code c \<and> char_code c \<le> 31) \<and>
     char_code c \<notin> {UNI_DOLLAR, UNI_UNDER, UNI_DQUOTE, UNI_SQUOTE}"

lemma lex_lone:
  assumes "ahead s p (c # u)" "lone c"
  shows "punctuation (char_code c) \<noteq> NO_VALID_TOKEN \<Longrightarrow> lexes m s p (punctuation (char_code c)) (p + 1)"
    and "punctuation (char_code c) = NO_VALID_TOKEN \<Longrightarrow> illegal m s p"
proof -
  have c: "0 \<le> char_code c" "char_code c < 128" "char_code c \<noteq> -1" using assms(2) by (auto simp: lone_def ascii_def)
  have r: "jqtRound (char_code c) p (lexer m s (p + 1) b d) =
      (if punctuation (char_code c) = NO_VALID_TOKEN then Failed (lexer m s (p + 1) b d)
       else Token (punctuation (char_code c)) (lexer m s (p + 1) p d))" for b d
    using assms(2) c by (simp add: jqtRound_def lexer_def identifierChar_def classes lone_def)
  have "jqtLoop (lexer m s p b d) =
      (if punctuation (char_code c) = NO_VALID_TOKEN then Some (NO_VALID_TOKEN, lexer m s (p + 1) b d)
       else Some (punctuation (char_code c), lexer m s (p + 1) p (p + 1)))" for b d
    using jqtLoop_at [OF assms(1), of "lexer m s p b d"] r [of b d]
    by (simp add: lexer_def tokenDone_def)
  then have g: "getNextJToken (lexer m s a b d) p =
      (if punctuation (char_code c) = NO_VALID_TOKEN then Some (NO_VALID_TOKEN, p + 1, lexer m s (p + 1) b d)
       else Some (punctuation (char_code c), p + 1, lexer m s (p + 1) p (p + 1)))" for a b d
    using getNextJToken_at [OF assms(1), of m a b d] by (simp add: lexer_def)
  show "punctuation (char_code c) \<noteq> NO_VALID_TOKEN \<Longrightarrow> lexes m s p (punctuation (char_code c)) (p + 1)"
    by (simp add: lexes_def g)
  show "punctuation (char_code c) = NO_VALID_TOKEN \<Longrightarrow> illegal m s p"
    by (simp add: illegal_def g)
qed

lemma lone_punctuation:
  "lone CHR ''.''" "lone CHR ''[''" "lone CHR '']''" "lone CHR ''|''"
  "punctuation (char_code CHR ''.'') = JTOKEN_DOT" "punctuation (char_code CHR ''['') = JTOKEN_LBRACK"
  "punctuation (char_code CHR '']'') = JTOKEN_RBRACK" "punctuation (char_code CHR ''|'') = JTOKEN_VBAR"
  by code_simp+

lemma lex_dot: "ahead s p (CHR ''.'' # u) \<Longrightarrow> lexes m s p JTOKEN_DOT (p + 1)"
  using lex_lone(1) [of s p "CHR ''.''"] by (simp add: lone_punctuation jtokens token_codes)

lemma lex_lbrack: "ahead s p (CHR ''['' # u) \<Longrightarrow> lexes m s p JTOKEN_LBRACK (p + 1)"
  using lex_lone(1) [of s p "CHR ''[''"] by (simp add: lone_punctuation jtokens token_codes)

lemma lex_rbrack: "ahead s p (CHR '']'' # u) \<Longrightarrow> lexes m s p JTOKEN_RBRACK (p + 1)"
  using lex_lone(1) [of s p "CHR '']''"] by (simp add: lone_punctuation jtokens token_codes)

lemma lex_vbar: "ahead s p (CHR ''|'' # u) \<Longrightarrow> lexes m s p JTOKEN_VBAR (p + 1)"
  using lex_lone(1) [of s p "CHR ''|''"] by (simp add: lone_punctuation jtokens token_codes)

subsection \<open>Identifiers and numbers\<close>

definition name_char :: "char \<Rightarrow> bool" where
  "name_char c \<longleftrightarrow> ascii c \<and> (isalpha (char_code c) \<or> char_code c = UNI_DOLLAR \<or> char_code c = UNI_UNDER)"

text \<open>What may follow a path: nothing, or a character that continues no name and no number.\<close>

definition stops :: "string \<Rightarrow> bool" where
  "stops u \<longleftrightarrow> (case u of [] \<Rightarrow> True | c # _ \<Rightarrow> lone c)"

text \<open>The tokenizer inside a token that began at \<open>a\<close>.\<close>

definition inside :: "stray \<Rightarrow> string \<Rightarrow> tokenState \<Rightarrow> int \<Rightarrow> int \<Rightarrow> int \<Rightarrow> jqTokenizer" where
  "inside m s st q a b = (lexer m s q a b)\<lparr>tokenState := st\<rparr>"

lemma inside_fields [simp]:
  "jpos (inside m s st p a b) = p" "data (inside m s st p a b) = s" "mem (inside m s st p a b) = m"
  "tokenState (inside m s st p a b) = st" "ccsid (inside m s st p a b) = UTF8"
  "(inside m s st p a b)\<lparr>jpos := q\<rparr> = inside m s st q a b"
  "(inside m s st p a b)\<lparr>data := s\<rparr> = inside m s st p a b"
  "tokenDone i (inside m s st p a b) = (i, lexer m s p a p)"
  by (simp_all add: inside_def lexer_def tokenDone_def)

lemma inside_stop:
  assumes "ahead s p u" "stops u" "quiet m" "st = STATE_IDENTIFIER \<and> i = JTOKEN_IDENTIFIER \<or> st = STATE_INTEGER \<and> i = JTOKEN_INTEGER"
  shows "jqtLoop (inside m s st p a b) = Some (i, lexer m s p a p)"
proof (cases u)
  case Nil
  then have "p = int (length s)" using assms(1) by (simp add: ahead_Nil)
  then show ?thesis using assms(3,4) jqtLoop_end [of "inside m s st p a b"]
    by (auto simp: jqtRound_def identifierChar_def quiet_classes unis)
next
  case (Cons c v)
  then have c: "0 \<le> char_code c" "char_code c < 128" "char_code c \<noteq> -1" "lone c"
    using assms(2) by (auto simp: stops_def lone_def ascii_def)
  have r: "jqtRound (char_code c) p (inside m s st (p + 1) a b) = Token i (inside m s st p a b)"
    using assms(4) c unfolding jqtRound_def identifierChar_def inside_fields classes [OF inside_fields(5) c(1,2)]
    by (auto simp: lone_def)
  then show ?thesis
    using jqtLoop_at [OF assms(1) [unfolded Cons], of "inside m s st p a b"] by simp
qed

lemma inside_go:
  assumes "ahead s p (c # u)" "st = STATE_IDENTIFIER \<and> name_char c \<or> st = STATE_INTEGER \<and> isdigit (char_code c)"
  shows "jqtLoop (inside m s st p a b) = jqtLoop (inside m s st (p + 1) a b)"
proof -
  have c: "0 \<le> char_code c" "char_code c < 128"
    using assms(2) by (auto simp: name_char_def ascii_def isdigit_def)
  have "jqtRound (char_code c) p (inside m s st (p + 1) a b) = GoOn (inside m s st (p + 1) a b)"
    using assms(2)
  proof
    assume "st = STATE_IDENTIFIER \<and> name_char c"
    then show ?thesis unfolding jqtRound_def identifierChar_def inside_fields classes [OF inside_fields(5) c]
      by (simp add: name_char_def)
  next
    assume "st = STATE_INTEGER \<and> isdigit (char_code c)"
    then show ?thesis unfolding jqtRound_def inside_fields classes [OF inside_fields(5) c] by simp
  qed
  then show ?thesis using jqtLoop_at [OF assms(1), of "inside m s st p a b"] by simp
qed

lemma inside_run:
  "ahead s p (v @ u) \<Longrightarrow> stops u \<Longrightarrow> quiet m \<Longrightarrow>
   st = STATE_IDENTIFIER \<and> i = JTOKEN_IDENTIFIER \<and> list_all name_char v \<or>
   st = STATE_INTEGER \<and> i = JTOKEN_INTEGER \<and> list_all (\<lambda>c. isdigit (char_code c)) v \<Longrightarrow>
     jqtLoop (inside m s st p a b) = Some (i, lexer m s (p + int (length v)) a (p + int (length v)))"
proof (induction v arbitrary: p)
  case Nil
  then show ?case using inside_stop [of s p u m st i a b] by auto
next
  case (Cons c v)
  have "ahead s (p + 1) (v @ u)" using ahead_Cons [of s p c "v @ u"] Cons.prems(1) by simp
  moreover have "jqtLoop (inside m s st p a b) = jqtLoop (inside m s st (p + 1) a b)"
    using inside_go [of s p c "v @ u" st] Cons.prems(1,4) by auto
  ultimately show ?case using Cons.IH [of "p + 1"] Cons.prems by (auto simp: algebra_simps)
qed

lemma lex_word:
  assumes "ahead s p ((c # v) @ u)" "stops u" "quiet m"
    "st = STATE_IDENTIFIER \<and> i = JTOKEN_IDENTIFIER \<and> list_all name_char (c # v) \<or>
     st = STATE_INTEGER \<and> i = JTOKEN_INTEGER \<and> list_all (\<lambda>c. isdigit (char_code c)) (c # v)"
  shows "lexes m s p i (p + int (length (c # v)))"
proof -
  have c: "0 \<le> char_code c" "char_code c < 128" "char_code c \<noteq> -1"
    using assms(4) by (auto simp: name_char_def ascii_def isdigit_def)
  have a: "ahead s p (c # v @ u)" using assms(1) by simp
  have b: "ahead s (p + 1) (v @ u)" using ahead_Cons [OF a] by simp
  have cl: "ccsid (lexer m s (p + 1) b d) = UTF8" "tokenState (lexer m s (p + 1) b d) = STATE_INITIAL"
      "(lexer m s (p + 1) b d)\<lparr>tokenState := st, tokStart := p\<rparr> = inside m s st (p + 1) p d" for b d
    by (simp_all add: inside_def lexer_def)
  have r: "jqtRound (char_code c) p (lexer m s (p + 1) b d) = GoOn (inside m s st (p + 1) p d)" for b d
    using assms(4)
  proof (elim disjE conjE)
    assume "st = STATE_IDENTIFIER" "list_all name_char (c # v)"
    then show ?thesis using c cl(3) [of b d]
      by (simp add: jqtRound_def cl(2) identifierChar_def classes(1) [OF cl(1) c(1,2)] name_char_def)
  next
    assume "st = STATE_INTEGER" and d: "list_all (\<lambda>c. isdigit (char_code c)) (c # v)"
    then have "isdigit (char_code c)" "\<not> isalpha (char_code c)" "char_code c \<noteq> UNI_DOLLAR" "char_code c \<noteq> UNI_UNDER"
      by (auto simp: isdigit_def isalpha_def unis)
    then show ?thesis using c cl(3) [of b d] \<open>st = STATE_INTEGER\<close>
      by (simp add: jqtRound_def cl(2) identifierChar_def classes(1,2) [OF cl(1) c(1,2)])
  qed
  have "jqtLoop (lexer m s p b d) = jqtLoop (inside m s st (p + 1) p d)" for b d
    using jqtLoop_at [OF a, of "lexer m s p b d"] r [of b d] by (simp add: lexer_def)
  then have "jqtLoop (lexer m s p b d) = Some (i, lexer m s (p + 1 + int (length v)) p (p + 1 + int (length v)))" for b d
    using inside_run [OF b assms(2,3), of st i p d] assms(4) by auto
  then show ?thesis using getNextJToken_at [OF a] by (simp add: lexes_def lexer_def algebra_simps)
qed

end
