(* ===== verification/MicroJq.thy ===== *)
theory MicroJq
  imports JqTokenizer JsonPrinter
begin

section \<open>The jq subset\<close>

text \<open>
  \<open>c/microjq.c\<close>: the grammar of filters, \<open>parseJQ\<close>, and \<open>evalJQ\<close>, which walks the JSON tree that
  the parser built and prints what it selects. The \<open>jq\<close> command of \<open>c/configmgr.c\<close> calls the two
  one after the other.
\<close>

subsection \<open>The grammar\<close>

definition TOP :: int where "TOP = FIRST_GRULE_ID + 0"
definition EXPR :: int where "EXPR = FIRST_GRULE_ID + 1"
definition EXPR_TAIL :: int where "EXPR_TAIL = FIRST_GRULE_ID + 2"
definition EXPR_PIPE_OP :: int where "EXPR_PIPE_OP = FIRST_GRULE_ID + 3"
definition OPERATION :: int where "OPERATION = FIRST_GRULE_ID + 4"
definition CREATE_ARRAY :: int where "CREATE_ARRAY = FIRST_GRULE_ID + 5"
definition CREATE_ARRAY_TAIL :: int where "CREATE_ARRAY_TAIL = FIRST_GRULE_ID + 6"
definition COMMA_EXPR :: int where "COMMA_EXPR = FIRST_GRULE_ID + 7"
definition CREATE_OBJECT :: int where "CREATE_OBJECT = FIRST_GRULE_ID + 8"
definition CREATE_OBJECT_TAIL :: int where "CREATE_OBJECT_TAIL = FIRST_GRULE_ID + 9"
definition COMMA_KEY_VALUE :: int where "COMMA_KEY_VALUE = FIRST_GRULE_ID + 10"
definition KEY_VALUE :: int where "KEY_VALUE = FIRST_GRULE_ID + 11"
definition FILTER :: int where "FILTER = FIRST_GRULE_ID + 12"
definition TRAVERSAL :: int where "TRAVERSAL = FIRST_GRULE_ID + 13"
definition MORE_TRAVERSALS :: int where "MORE_TRAVERSALS = FIRST_GRULE_ID + 14"
definition INDEX :: int where "INDEX = FIRST_GRULE_ID + 15"
definition PICK :: int where "PICK = FIRST_GRULE_ID + 16"
definition EXPLODE :: int where "EXPLODE = FIRST_GRULE_ID + 17"
definition CONTEXT :: int where "CONTEXT = FIRST_GRULE_ID + 18"

lemmas jq_rule_ids = TOP_def EXPR_def EXPR_TAIL_def EXPR_PIPE_OP_def OPERATION_def CREATE_ARRAY_def CREATE_ARRAY_TAIL_def COMMA_EXPR_def CREATE_OBJECT_def CREATE_OBJECT_TAIL_def COMMA_KEY_VALUE_def KEY_VALUE_def FILTER_def TRAVERSAL_def MORE_TRAVERSALS_def INDEX_def PICK_def EXPLODE_def CONTEXT_def

definition getJQRuleName :: "int \<Rightarrow> string" where
  "getJQRuleName i =
     (if i = TOP then ''TOP''
      else if i = EXPR then ''EXPR''
      else if i = EXPR_TAIL then ''EXPR_TAIL''
      else if i = EXPR_PIPE_OP then ''EXPR_PIPE_OP''
      else if i = OPERATION then ''OPERATION''
      else if i = CREATE_ARRAY then ''CREATE_ARRAY''
      else if i = CREATE_ARRAY_TAIL then ''CREATE_ARRAY_TAIL''
      else if i = COMMA_EXPR then ''COMMA_EXPR''
      else if i = CREATE_OBJECT then ''CREATE_OBJECT''
      else if i = CREATE_OBJECT_TAIL then ''CREATE_OBJECT_TAIL''
      else if i = COMMA_KEY_VALUE then ''COMMA_KEY_VALUE''
      else if i = KEY_VALUE then ''KEY_VALUE''
      else if i = FILTER then ''FILTER''
      else if i = TRAVERSAL then ''TRAVERSAL''
      else if i = MORE_TRAVERSALS then ''MORE_TRAVERSALS''
      else if i = INDEX then ''INDEX''
      else if i = PICK then ''PICK''
      else if i = EXPLODE then ''EXPLODE''
      else if i = CONTEXT then ''CONTEXT''
      else ''UNKNOWN_RULE'')"

abbreviation gSpec :: "int \<Rightarrow> int \<Rightarrow> int list \<Rightarrow> gRuleSpec" where
  "gSpec ty i subs \<equiv> \<lparr>spec_type = ty, spec_id = i, spec_subs = subs\<rparr>"

definition jqGrammar :: "gRuleSpec list" where
  "jqGrammar =
    [gSpec G_SEQ TOP [EXPR, EOF_TOKEN, G_END],
     gSpec G_SEQ EXPR [OPERATION, EXPR_TAIL, G_END],
     gSpec G_STAR EXPR_TAIL [EXPR_PIPE_OP],
     gSpec G_SEQ EXPR_PIPE_OP [JTOKEN_VBAR, OPERATION, G_END],
     gSpec G_ALT OPERATION [JTOKEN_INTEGER, FILTER, G_END],
     gSpec G_SEQ CREATE_ARRAY [JTOKEN_LBRACK, EXPR, CREATE_ARRAY_TAIL, JTOKEN_RBRACK, G_END],
     gSpec G_STAR CREATE_ARRAY_TAIL [COMMA_EXPR],
     gSpec G_SEQ COMMA_EXPR [JTOKEN_COMMA, EXPR, G_END],
     gSpec G_SEQ CREATE_OBJECT [JTOKEN_LBRACE, KEY_VALUE, CREATE_OBJECT_TAIL, JTOKEN_RBRACE, G_END],
     gSpec G_STAR CREATE_OBJECT_TAIL [COMMA_KEY_VALUE],
     gSpec G_SEQ COMMA_KEY_VALUE [JTOKEN_COMMA, KEY_VALUE, G_END],
     gSpec G_SEQ KEY_VALUE [JTOKEN_IDENTIFIER, JTOKEN_COLON, EXPR, G_END],
     gSpec G_SEQ FILTER [TRAVERSAL, MORE_TRAVERSALS, G_END],
     gSpec G_ALT TRAVERSAL [INDEX, PICK, EXPLODE, CONTEXT, G_END],
     gSpec G_STAR MORE_TRAVERSALS [TRAVERSAL],
     gSpec G_SEQ INDEX [JTOKEN_LBRACK, JTOKEN_INTEGER, JTOKEN_RBRACK, G_END],
     gSpec G_SEQ PICK [JTOKEN_DOT, JTOKEN_IDENTIFIER, G_END],
     gSpec G_SEQ EXPLODE [JTOKEN_LBRACK, JTOKEN_RBRACK, G_END],
     gSpec G_SEQ CONTEXT [JTOKEN_DOT, G_END],
     gSpec G_END 0 []]"

definition jqAbstractTokenizer :: "jqTokenizer tokenizer" where
  "jqAbstractTokenizer =
     \<lparr>lowTokenID = FIRST_REAL_TOKEN_ID, highTokenID = LAST_JTOKEN_ID, nextToken = getNextJToken,
      lastTokenStart = tokStart, lastTokenEnd = tokEnd, getTokenIDName = getJTokenName,
      getTokenJsonType = Some getJTokenJsonType\<rparr>"

text \<open>The tree and its store, no tree, a crash, or no answer.\<close>

datatype jq_parse = JqTree ptr jsonBuilder | JqNull | JqCrash | JqStuck

definition parseJQ :: "nat \<Rightarrow> jqTokenizer \<Rightarrow> jq_parse" where
  "parseJQ fuel jqt =
     (case gParse fuel jqGrammar TOP jqAbstractTokenizer jqt of
        ParseStuck \<Rightarrow> JqStuck
      | ParseCrash \<Rightarrow> JqCrash
      | Parsed status c E \<Rightarrow>
          if 0 < status then
            (case gBuildJSON E getJQRuleName (data jqt) (buildSteps c) of
               None \<Rightarrow> JqCrash
             | Some (r, b) \<Rightarrow> JqTree r b)
          else JqNull)"

subsection \<open>Evaluation\<close>

definition JQ_SUCCESS :: int where "JQ_SUCCESS = 0"
definition JQ_MISSING_PROPERTY :: int where "JQ_MISSING_PROPERTY = 8"
definition JQ_BAD_PROPERTY_TYPE :: int where "JQ_BAD_PROPERTY_TYPE = 12"
definition JQ_NOT_AN_OBJECT :: int where "JQ_NOT_AN_OBJECT = 16"
definition JQ_NOT_AN_ARRAY :: int where "JQ_NOT_AN_ARRAY = 20"
definition JQ_UNEXPECTED_OPERATION :: int where "JQ_UNEXPECTED_OPERATION = 24"
definition JQ_INTERNAL_NULL_POINTER :: int where "JQ_INTERNAL_NULL_POINTER = 28"
definition JQ_NON_INTEGER_ARRAY_INDEX_NOT_YET_SUPPORTED :: int where
  "JQ_NON_INTEGER_ARRAY_INDEX_NOT_YET_SUPPORTED = 32"
definition JQ_ARRAY_INDEX_OUT_OF_BOUNDS :: int where "JQ_ARRAY_INDEX_OUT_OF_BOUNDS = 36"

lemmas jq_codes = JQ_SUCCESS_def JQ_MISSING_PROPERTY_def JQ_BAD_PROPERTY_TYPE_def JQ_NOT_AN_OBJECT_def
  JQ_NOT_AN_ARRAY_def JQ_UNEXPECTED_OPERATION_def JQ_INTERNAL_NULL_POINTER_def
  JQ_NON_INTEGER_ARRAY_INDEX_NOT_YET_SUPPORTED_def JQ_ARRAY_INDEX_OUT_OF_BOUNDS_def

text \<open>
  \<open>JQEvalContext\<close>. Text goes out two ways: \<open>fprintf\<close> on the stream \<open>out\<close>, and the JSON printer,
  which writes to the descriptor of that stream and so past its buffer. \<open>events\<close> keeps the order
  of both. \<open>rawStrings\<close> is the flag \<open>JQ_FLAG_RAW_STRINGS\<close>.
\<close>

datatype jq_event = ToStream string | ToDescriptor string

record jqEvalContext =
  env :: json_env
  rawStrings :: bool
  printer :: jsonPrinter
  events :: "jq_event list"

text \<open>A step of the evaluation returns, jumps to \<open>evalJQ\<close> with an error code, or crashes.\<close>

datatype 'a jq_result = Done 'a | Raise int | EvalCrash

definition jqBind :: "'a jq_result \<Rightarrow> ('a \<Rightarrow> 'b jq_result) \<Rightarrow> 'b jq_result" where
  "jqBind m f = (case m of Done x \<Rightarrow> f x | Raise e \<Rightarrow> Raise e | EvalCrash \<Rightarrow> EvalCrash)"

lemma jqBind_simps [simp]:
  "jqBind (Done x) f = f x" "jqBind (Raise e) f = Raise e" "jqBind EvalCrash f = EvalCrash"
  by (simp_all add: jqBind_def)

definition getJQProperty :: "property list option \<Rightarrow> string \<Rightarrow> bool \<Rightarrow> json option jq_result" where
  "getJQProperty value key isRequired =
     (case value of
        None \<Rightarrow> Raise JQ_INTERNAL_NULL_POINTER
      | Some ps \<Rightarrow>
          if isRequired \<and> jsonObjectGetPropertyValue ps key = None then Raise JQ_MISSING_PROPERTY
          else Done (jsonObjectGetPropertyValue ps key))"

text \<open>The four typed lookups test the type through the pointer, whether it is null or not.\<close>

definition getJQInt :: "property list option \<Rightarrow> string \<Rightarrow> bool \<Rightarrow> cint \<Rightarrow> cint jq_result" where
  "getJQInt value key isRequired defaultValue =
     jqBind (getJQProperty value key isRequired)
       (\<lambda>p. case p of
          None \<Rightarrow> EvalCrash
        | Some j \<Rightarrow> if jsonIsNumber j then Done (jsonAsNumber j)
                    else if isRequired then Raise JQ_BAD_PROPERTY_TYPE else Done defaultValue)"

definition getJQString :: "property list option \<Rightarrow> string \<Rightarrow> bool \<Rightarrow> string option jq_result" where
  "getJQString value key isRequired =
     jqBind (getJQProperty value key isRequired)
       (\<lambda>p. case p of
          None \<Rightarrow> EvalCrash
        | Some j \<Rightarrow> if jsonIsString j then Done (jsonAsString j)
                    else if isRequired then Raise JQ_BAD_PROPERTY_TYPE else Done None)"

definition getJQArray :: "property list option \<Rightarrow> string \<Rightarrow> bool \<Rightarrow> json list option jq_result" where
  "getJQArray value key isRequired =
     jqBind (getJQProperty value key isRequired)
       (\<lambda>p. case p of
          None \<Rightarrow> EvalCrash
        | Some j \<Rightarrow> if jsonIsArray j then Done (jsonAsArray j)
                    else if isRequired then Raise JQ_BAD_PROPERTY_TYPE else Done None)"

definition getJQObject :: "property list option \<Rightarrow> string \<Rightarrow> bool \<Rightarrow> property list option jq_result" where
  "getJQObject value key isRequired =
     jqBind (getJQProperty value key isRequired)
       (\<lambda>p. case p of
          None \<Rightarrow> EvalCrash
        | Some j \<Rightarrow> if jsonIsObject j then Done (jsonAsObject j)
                    else if isRequired then Raise JQ_BAD_PROPERTY_TYPE else Done None)"

definition jqCastToObject :: "json option \<Rightarrow> property list option jq_result" where
  "jqCastToObject v =
     (case v of
        None \<Rightarrow> Raise JQ_INTERNAL_NULL_POINTER
      | Some j \<Rightarrow> if jsonIsObject j then Done (jsonAsObject j) else Raise JQ_NOT_AN_OBJECT)"

definition jqCastToArray :: "json option \<Rightarrow> json list jq_result" where
  "jqCastToArray v =
     (case v of
        None \<Rightarrow> EvalCrash
      | Some j \<Rightarrow> (case jsonAsArray j of Some js \<Rightarrow> Done js | None \<Rightarrow> Raise JQ_NOT_AN_ARRAY))"

type_synonym jq_step = "jqEvalContext \<Rightarrow> unit jq_result \<times> jqEvalContext"

definition jqPrint :: "json option \<Rightarrow> jq_step" where
  "jqPrint json ctx =
     (case json of
        None \<Rightarrow> (EvalCrash, ctx)
      | Some j \<Rightarrow>
          if jsonIsString j \<and> rawStrings ctx then
            (Done (), ctx\<lparr>events := events ctx @ [ToStream (the (jsonAsString j))]\<rparr>)
          else
            (let p = jsonPrint (env ctx) (printer ctx) j in
             (Done (), ctx\<lparr>printer := p,
                           events := events ctx @ [ToDescriptor (drop (length (pout (printer ctx))) (pout p))]\<rparr>)))"

text \<open>\<open>jsonArrayGetItem\<close> with the signed index of the code: a negative one reads before the vector.\<close>

definition jqItem :: "json list \<Rightarrow> int \<Rightarrow> json option jq_result" where
  "jqItem js n =
     (if n < int (length js) then (if n < 0 then EvalCrash else Done (Some (js ! nat n))) else Done None)"

text \<open>
  What \<open>evalTraversal\<close> reads from the tree of the filter: the kind of the step and its details.
\<close>

definition traversalAt :: "json option \<Rightarrow> nat \<Rightarrow> (cint \<times> json option) jq_result" where
  "traversalAt filt index =
     jqBind (jqCastToObject filt) (\<lambda>filterObject.
     jqBind (getJQProperty filterObject ''TRAVERSAL'' True) (\<lambda>firstTraversal.
     jqBind (getJQArray filterObject ''MORE_TRAVERSALS'' True) (\<lambda>moreTraversals.
     jqBind (if index = 0 then Done firstTraversal
             else case moreTraversals of
                    None \<Rightarrow> EvalCrash
                  | Some js \<Rightarrow> jqItem js (int index - 1)) (\<lambda>traversal.
     jqBind (jqCastToObject traversal) (\<lambda>traversalObject.
     jqBind (getJQInt traversalObject ''altID'' True 0) (\<lambda>traversalType.
     jqBind (getJQProperty traversalObject ''value'' True) (\<lambda>traversalDetails.
     Done (traversalType, traversalDetails))))))))"

text \<open>The value that an index selects: the test of the bounds is always true.\<close>

definition indexedValue :: "json option \<Rightarrow> json option \<Rightarrow> json option jq_result" where
  "indexedValue value traversalDetails =
     jqBind (jqCastToObject traversalDetails) (\<lambda>detailsObject.
     jqBind (getJQInt detailsObject ''INTEGER'' False (- 1)) (\<lambda>arrayIndex.
       if arrayIndex = - 1 then Raise JQ_NON_INTEGER_ARRAY_INDEX_NOT_YET_SUPPORTED
       else jqBind (jqCastToArray value) (\<lambda>valueArray.
         if 0 \<le> sint arrayIndex \<or> sint arrayIndex < int (length valueArray)
         then jqItem valueArray (sint arrayIndex)
         else Raise JQ_ARRAY_INDEX_OUT_OF_BOUNDS)))"

definition pickedValue :: "json option \<Rightarrow> json option \<Rightarrow> json option jq_result" where
  "pickedValue value traversalDetails =
     jqBind (jqCastToObject traversalDetails) (\<lambda>detailsObject.
     jqBind (getJQString detailsObject ''ID'' True) (\<lambda>identifier.
     jqBind (jqCastToObject value) (\<lambda>valueObject.
       case identifier of
         None \<Rightarrow> EvalCrash
       | Some k \<Rightarrow> getJQProperty valueObject k True)))"

definition failStep :: "'a jq_result \<Rightarrow> unit jq_result" where
  "failStep r = (case r of Done _ \<Rightarrow> Done () | Raise e \<Rightarrow> Raise e | EvalCrash \<Rightarrow> EvalCrash)"

function evalTraversal :: "json option \<Rightarrow> json option \<Rightarrow> nat \<Rightarrow> nat \<Rightarrow> jq_step"
  and explodeLoop :: "json list \<Rightarrow> json option \<Rightarrow> nat \<Rightarrow> nat \<Rightarrow> jq_step" where
  "evalTraversal value filt index moreCount ctx =
     (case traversalAt filt index of
        Done (traversalType, traversalDetails) \<Rightarrow>
          (if sint traversalType = INDEX then
             (case indexedValue value traversalDetails of
                Done v \<Rightarrow> if index + 1 \<le> moreCount then evalTraversal v filt (index + 1) moreCount ctx
                          else jqPrint v ctx
              | r \<Rightarrow> (failStep r, ctx))
           else if sint traversalType = PICK then
             (case pickedValue value traversalDetails of
                Done v \<Rightarrow> if index + 1 \<le> moreCount then evalTraversal v filt (index + 1) moreCount ctx
                          else jqPrint v ctx
              | r \<Rightarrow> (failStep r, ctx))
           else if sint traversalType = EXPLODE then
             (case jqCastToArray value of
                Done js \<Rightarrow> explodeLoop js filt index moreCount ctx
              | r \<Rightarrow> (failStep r, ctx))
           else if sint traversalType = CONTEXT then
             (if index + 1 \<le> moreCount then evalTraversal value filt (index + 1) moreCount ctx
              else jqPrint value ctx)
           else (Raise JQ_UNEXPECTED_OPERATION, ctx))
      | r \<Rightarrow> (failStep r, ctx))"
| "explodeLoop [] filt index moreCount ctx = (Done (), ctx)"
| "explodeLoop (element # others) filt index moreCount ctx =
     (let ctx1 = ctx\<lparr>printer := jsonPrinterReset (printer ctx)\<rparr> in
      case (if index + 1 \<le> moreCount then evalTraversal (Some element) filt (index + 1) moreCount ctx1
            else jqPrint (Some element) ctx1) of
        (Done _, ctx2) \<Rightarrow>
          explodeLoop others filt index moreCount
            (ctx2\<lparr>events := events ctx2 @ [ToStream [CHR 0x0A]]\<rparr>)
      | (r, ctx2) \<Rightarrow> (r, ctx2))"
  by pat_completeness auto
termination
  by (relation "inv_image (less_than <*lex*> less_than)
       (\<lambda>x. case x of
          Inl (value, filt, index, moreCount, ctx) \<Rightarrow> (2 * (moreCount - index) + 1, 0)
        | Inr (others, filt, index, moreCount, ctx) \<Rightarrow> (2 * (moreCount - index), Suc (length others)))")
    auto

declare evalTraversal.simps [simp del]

definition evalFilter :: "json option \<Rightarrow> json option \<Rightarrow> jq_step" where
  "evalFilter value filt ctx =
     (case jqBind (jqCastToObject filt) (\<lambda>filterObject. getJQArray filterObject ''MORE_TRAVERSALS'' True) of
        Done (Some moreTraversals) \<Rightarrow> evalTraversal value filt 0 (length moreTraversals) ctx
      | Done None \<Rightarrow> (EvalCrash, ctx)
      | r \<Rightarrow> (failStep r, ctx))"

definition evalOperation :: "json option \<Rightarrow> json option \<Rightarrow> jq_step" where
  "evalOperation value operation ctx =
     (case jqBind (jqCastToObject operation) (\<lambda>operationObject.
           jqBind (getJQInt operationObject ''altID'' True (- 1)) (\<lambda>altID.
             if sint altID = FILTER then getJQProperty operationObject ''value'' True
             else Raise JQ_UNEXPECTED_OPERATION)) of
        Done filt \<Rightarrow> evalFilter value filt ctx
      | r \<Rightarrow> (failStep r, ctx))"

text \<open>The rest of a pipe is looked up and not used.\<close>

definition evalJQExpr :: "json option \<Rightarrow> json option \<Rightarrow> jq_step" where
  "evalJQExpr value expr ctx =
     (case jqBind (jqCastToObject expr) (\<lambda>exprObject.
           jqBind (getJQProperty exprObject ''OPERATION'' True) (\<lambda>operation.
           jqBind (getJQProperty exprObject ''EXPR_TAIL'' True) (\<lambda>exprTail. Done operation))) of
        Done operation \<Rightarrow> evalOperation value operation ctx
      | r \<Rightarrow> (failStep r, ctx))"

text \<open>
  \<open>evalJQ\<close> gives the error code, or \<open>None\<close> for a crash, and what was written. \<open>answers\<close> are the
  results of the calls of \<open>write\<close> on the descriptor.
\<close>

definition evalJQ ::
  "json_env \<Rightarrow> int list \<Rightarrow> bool \<Rightarrow> bool \<Rightarrow> json option \<Rightarrow> json option \<Rightarrow> int option \<times> jqEvalContext" where
  "evalJQ environment answers raw pretty value jqTree =
     (let p = makeJsonPrinter answers;
          ctx = \<lparr>env = environment, rawStrings = raw,
                 printer = (if pretty then jsonEnablePrettyPrint p else p), events = []\<rparr>
      in case jqBind (jqCastToObject jqTree) (\<lambda>tree. getJQProperty tree ''EXPR'' True) of
           Done expr \<Rightarrow>
             (case evalJQExpr value expr ctx of
                (Done _, ctx1) \<Rightarrow> (Some JQ_SUCCESS, ctx1)
              | (Raise e, ctx1) \<Rightarrow> (Some e, ctx1)
              | (EvalCrash, ctx1) \<Rightarrow> (None, ctx1))
         | Raise e \<Rightarrow> (Some e, ctx)
         | EvalCrash \<Rightarrow> (None, ctx))"

subsection \<open>The command\<close>

text \<open>The value at an address; the children of a node have greater addresses.\<close>

fun json_at :: "(ptr \<Rightarrow> node option) \<Rightarrow> nat \<Rightarrow> ptr \<Rightarrow> json option" where
  "json_at m 0 a = None"
| "json_at m (Suc n) a =
     (case m a of
        None \<Rightarrow> None
      | Some (NScalar j) \<Rightarrow> Some j
      | Some (NObject ps) \<Rightarrow> map_option JObject (those (map (\<lambda>(k, p). map_option (Pair k) (json_at m n p)) ps))
      | Some (NArray arr) \<Rightarrow> map_option JArray (those (map (json_at m n) (array_items arr))))"

text \<open>
  The branch of \<open>c/configmgr.c\<close> for the command \<open>jq\<close>: the exit code with what was written, no code
  for a crash, or no answer. The last component says whether the printer failed to write.
\<close>

definition ZCFG_SUCCESS :: int where "ZCFG_SUCCESS = 0"
definition ZCFG_JQ_PARSE_ERROR :: int where "ZCFG_JQ_PARSE_ERROR = 15"

datatype jq_outcome = Exit "int option" "jq_event list" bool | NoAnswer

definition jqTokenizerFor :: "stray \<Rightarrow> string \<Rightarrow> jqTokenizer" where
  "jqTokenizerFor m text =
     \<lparr>mem = m, ccsid = 1208, tokenState = STATE_INITIAL, data = text, jpos = 0, tokStart = 0, tokEnd = 0\<rparr>"

definition jqCommand ::
  "stray \<Rightarrow> json_env \<Rightarrow> int list \<Rightarrow> bool \<Rightarrow> bool \<Rightarrow> nat \<Rightarrow> string \<Rightarrow> json option \<Rightarrow> jq_outcome" where
  "jqCommand m environment answers jqRaw jqCompact fuel filt value =
     (case parseJQ fuel (jqTokenizerFor m filt) of
        JqStuck \<Rightarrow> NoAnswer
      | JqCrash \<Rightarrow> Exit None [] False
      | JqNull \<Rightarrow> Exit (Some ZCFG_JQ_PARSE_ERROR) [] False
      | JqTree r b \<Rightarrow>
          (case evalJQ environment answers jqRaw (\<not> jqCompact) value (json_at (nodes b) (next_node b) r) of
             (evalStatus, ctx) \<Rightarrow> Exit evalStatus (events ctx) (ioErrorFlag (printer ctx))))"

end
