(* ===== verification/JqParse.thy ===== *)
theory JqParse
  imports JqLexing MicroJq
begin

section \<open>Parsing paths of the jq subset\<close>

text \<open>
  A path is a sequence of steps, its text their concatenation. The grammar engine is described by
  one equation for each kind of step, which names the build steps that it leaves.
\<close>

subsection \<open>The rules, linked\<close>

abbreviation gRuleOf :: "int \<Rightarrow> int \<Rightarrow> gRuleRef list \<Rightarrow> gRule" where
  "gRuleOf ty i refs \<equiv> \<lparr>rule_type = ty, rule_id = i, rule_refs = refs\<rparr>"

definition jqRules :: "gRule list" where
  "jqRules =
    [gRuleOf G_SEQ TOP [RuleRef 1, TokenRef EOF_TOKEN],
     gRuleOf G_SEQ EXPR [RuleRef 4, RuleRef 2],
     gRuleOf G_STAR EXPR_TAIL [RuleRef 3],
     gRuleOf G_SEQ EXPR_PIPE_OP [TokenRef JTOKEN_VBAR, RuleRef 4],
     gRuleOf G_ALT OPERATION [TokenRef JTOKEN_INTEGER, RuleRef 12],
     gRuleOf G_SEQ CREATE_ARRAY [TokenRef JTOKEN_LBRACK, RuleRef 1, RuleRef 6, TokenRef JTOKEN_RBRACK],
     gRuleOf G_STAR CREATE_ARRAY_TAIL [RuleRef 7],
     gRuleOf G_SEQ COMMA_EXPR [TokenRef JTOKEN_COMMA, RuleRef 1],
     gRuleOf G_SEQ CREATE_OBJECT [TokenRef JTOKEN_LBRACE, RuleRef 11, RuleRef 9, TokenRef JTOKEN_RBRACE],
     gRuleOf G_STAR CREATE_OBJECT_TAIL [RuleRef 10],
     gRuleOf G_SEQ COMMA_KEY_VALUE [TokenRef JTOKEN_COMMA, RuleRef 11],
     gRuleOf G_SEQ KEY_VALUE [TokenRef JTOKEN_IDENTIFIER, TokenRef JTOKEN_COLON, RuleRef 1],
     gRuleOf G_SEQ FILTER [RuleRef 13, RuleRef 14],
     gRuleOf G_ALT TRAVERSAL [RuleRef 15, RuleRef 16, RuleRef 17, RuleRef 18],
     gRuleOf G_STAR MORE_TRAVERSALS [RuleRef 13],
     gRuleOf G_SEQ INDEX [TokenRef JTOKEN_LBRACK, TokenRef JTOKEN_INTEGER, TokenRef JTOKEN_RBRACK],
     gRuleOf G_SEQ PICK [TokenRef JTOKEN_DOT, TokenRef JTOKEN_IDENTIFIER],
     gRuleOf G_SEQ EXPLODE [TokenRef JTOKEN_LBRACK, TokenRef JTOKEN_RBRACK],
     gRuleOf G_SEQ CONTEXT [TokenRef JTOKEN_DOT]]"

lemma jqGrammar_linked: "makeGRules jqGrammar jqAbstractTokenizer = Some jqRules"
  by code_simp

lemma jqTop: "getRule jqRules TOP = Some 0"
  by code_simp

lemma jqRules_at [simp]:
  "rule_type (jqRules ! 0) = G_SEQ" "rule_refs (jqRules ! 0) = [RuleRef 1, TokenRef EOF_TOKEN]" "rule_id (jqRules ! 0) = TOP"
  "rule_type (jqRules ! 1) = G_SEQ" "rule_refs (jqRules ! 1) = [RuleRef 4, RuleRef 2]" "rule_id (jqRules ! 1) = EXPR"
  "rule_type (jqRules ! 2) = G_STAR" "rule_refs (jqRules ! 2) = [RuleRef 3]" "rule_id (jqRules ! 2) = EXPR_TAIL"
  "rule_type (jqRules ! 3) = G_SEQ" "rule_refs (jqRules ! 3) = [TokenRef JTOKEN_VBAR, RuleRef 4]" "rule_id (jqRules ! 3) = EXPR_PIPE_OP"
  "rule_type (jqRules ! 4) = G_ALT" "rule_refs (jqRules ! 4) = [TokenRef JTOKEN_INTEGER, RuleRef 12]" "rule_id (jqRules ! 4) = OPERATION"
  "rule_type (jqRules ! 5) = G_SEQ" "rule_refs (jqRules ! 5) = [TokenRef JTOKEN_LBRACK, RuleRef 1, RuleRef 6, TokenRef JTOKEN_RBRACK]" "rule_id (jqRules ! 5) = CREATE_ARRAY"
  "rule_type (jqRules ! 6) = G_STAR" "rule_refs (jqRules ! 6) = [RuleRef 7]" "rule_id (jqRules ! 6) = CREATE_ARRAY_TAIL"
  "rule_type (jqRules ! 7) = G_SEQ" "rule_refs (jqRules ! 7) = [TokenRef JTOKEN_COMMA, RuleRef 1]" "rule_id (jqRules ! 7) = COMMA_EXPR"
  "rule_type (jqRules ! 8) = G_SEQ" "rule_refs (jqRules ! 8) = [TokenRef JTOKEN_LBRACE, RuleRef 11, RuleRef 9, TokenRef JTOKEN_RBRACE]" "rule_id (jqRules ! 8) = CREATE_OBJECT"
  "rule_type (jqRules ! 9) = G_STAR" "rule_refs (jqRules ! 9) = [RuleRef 10]" "rule_id (jqRules ! 9) = CREATE_OBJECT_TAIL"
  "rule_type (jqRules ! 10) = G_SEQ" "rule_refs (jqRules ! 10) = [TokenRef JTOKEN_COMMA, RuleRef 11]" "rule_id (jqRules ! 10) = COMMA_KEY_VALUE"
  "rule_type (jqRules ! 11) = G_SEQ" "rule_refs (jqRules ! 11) = [TokenRef JTOKEN_IDENTIFIER, TokenRef JTOKEN_COLON, RuleRef 1]" "rule_id (jqRules ! 11) = KEY_VALUE"
  "rule_type (jqRules ! 12) = G_SEQ" "rule_refs (jqRules ! 12) = [RuleRef 13, RuleRef 14]" "rule_id (jqRules ! 12) = FILTER"
  "rule_type (jqRules ! 13) = G_ALT" "rule_refs (jqRules ! 13) = [RuleRef 15, RuleRef 16, RuleRef 17, RuleRef 18]" "rule_id (jqRules ! 13) = TRAVERSAL"
  "rule_type (jqRules ! 14) = G_STAR" "rule_refs (jqRules ! 14) = [RuleRef 13]" "rule_id (jqRules ! 14) = MORE_TRAVERSALS"
  "rule_type (jqRules ! 15) = G_SEQ" "rule_refs (jqRules ! 15) = [TokenRef JTOKEN_LBRACK, TokenRef JTOKEN_INTEGER, TokenRef JTOKEN_RBRACK]" "rule_id (jqRules ! 15) = INDEX"
  "rule_type (jqRules ! 16) = G_SEQ" "rule_refs (jqRules ! 16) = [TokenRef JTOKEN_DOT, TokenRef JTOKEN_IDENTIFIER]" "rule_id (jqRules ! 16) = PICK"
  "rule_type (jqRules ! 17) = G_SEQ" "rule_refs (jqRules ! 17) = [TokenRef JTOKEN_LBRACK, TokenRef JTOKEN_RBRACK]" "rule_id (jqRules ! 17) = EXPLODE"
  "rule_type (jqRules ! 18) = G_SEQ" "rule_refs (jqRules ! 18) = [TokenRef JTOKEN_DOT]" "rule_id (jqRules ! 18) = CONTEXT"
  by (simp_all add: jqRules_def)

lemma jqRules_at_1 [simp]:
  "rule_type (jqRules ! Suc 0) = G_SEQ" "rule_refs (jqRules ! Suc 0) = [RuleRef 4, RuleRef 2]"
  "rule_id (jqRules ! Suc 0) = EXPR"
  by (simp_all add: jqRules_def)

definition jqEnv :: "jqTokenizer gParseEnv" where
  "jqEnv = \<lparr>tkz = jqAbstractTokenizer, rules = jqRules, buildStepsSize = MAX_BUILD_STEPS\<rparr>"

lemma jqEnv_simps [simp]:
  "tkz jqEnv = jqAbstractTokenizer" "rules jqEnv = jqRules" "buildStepsSize jqEnv = MAX_BUILD_STEPS"
  by (simp_all add: jqEnv_def)

lemma jqAbstractTokenizer_simps [simp]:
  "nextToken jqAbstractTokenizer = getNextJToken" "lastTokenStart jqAbstractTokenizer = tokStart"
  "lastTokenEnd jqAbstractTokenizer = tokEnd" "getTokenIDName jqAbstractTokenizer = getJTokenName"
  "getTokenJsonType jqAbstractTokenizer = Some getJTokenJsonType"
  by (simp_all add: jqAbstractTokenizer_def)

subsection \<open>Build steps and contexts\<close>

abbreviation ctx :: "stray \<Rightarrow> string \<Rightarrow> int \<Rightarrow> int \<Rightarrow> int \<Rightarrow> gBuildStep list \<Rightarrow> jqTokenizer gParseContext" where
  "ctx m s q a b ss \<equiv> \<lparr>tk = lexer m s q a b, buildSteps = ss\<rparr>"

definition s_object :: "nat \<Rightarrow> gBuildStep" where "s_object r = stepRef BUILD_OBJECT None (Some r)"
definition s_array :: "nat \<Rightarrow> gBuildStep" where "s_array r = stepRef BUILD_ARRAY None (Some r)"
definition s_pop :: gBuildStep where "s_pop = stepRef BUILD_POP None None"
definition s_key :: "gRuleRef \<Rightarrow> gBuildStep" where "s_key ref = stepRef BUILD_KEY (Some ref) None"

definition s_alt :: "nat \<Rightarrow> gRuleRef \<Rightarrow> gBuildStep" where
  "s_alt r ref = (stepRef BUILD_ALT None (Some r))\<lparr>altChoice := Some ref\<rparr>"

definition s_token :: "int \<Rightarrow> int \<Rightarrow> int \<Rightarrow> gBuildStep" where
  "s_token t p q = (stepRef (tokenBuildType jqEnv t) (Some (TokenRef t)) None)\<lparr>valueStart := p, valueEnd := q\<rparr>"

text \<open>A part \<open>ref\<close> of a sequence that is a token.\<close>

abbreviation s_part :: "int \<Rightarrow> int \<Rightarrow> int \<Rightarrow> gBuildStep list" where
  "s_part t p q \<equiv> [s_key (TokenRef t), s_token t p q]"

lemma makeBuildStep_room:
  "length ss < MAX_BUILD_STEPS \<Longrightarrow>
     makeBuildStep jqEnv ty ref rule (ctx m s q a b ss) =
       (Some (length ss), ctx m s q a b (ss @ [stepRef ty ref rule]))"
  by (simp add: makeBuildStep_def)

lemma build_simps:
  assumes "length ss < MAX_BUILD_STEPS"
  shows "buildSeqElement jqEnv ref (ctx m s q a b ss) = ctx m s q a b (ss @ [s_key ref])"
    "buildObject jqEnv r (ctx m s q a b ss) = ctx m s q a b (ss @ [s_object r])"
    "buildArray jqEnv r (ctx m s q a b ss) = ctx m s q a b (ss @ [s_array r])"
    "buildPop jqEnv (ctx m s q a b ss) = ctx m s q a b (ss @ [s_pop])"
    "buildTokenValue jqEnv t p p' (ctx m s q a b ss) = Some (ctx m s q a b (ss @ [s_token t p p']))"
    "buildAltValue jqEnv r (ctx m s q a b ss) =
       (Some (length ss), ctx m s q a b (ss @ [stepRef BUILD_ALT None (Some r)]))"
  using makeBuildStep_room [OF assms]
  by (simp_all add: buildSeqElement_def buildObject_def buildArray_def buildPop_def buildTokenValue_def
      buildAltValue_def s_key_def s_object_def s_array_def s_pop_def s_token_def nth_append)

lemma setAltChoice_simps:
  "setAltChoice (length ss) ref (ctx m s q a b (ss @ [stepRef BUILD_ALT None (Some r)])) =
     ctx m s q a b (ss @ [s_alt r ref])"
  "setAltChoice (length ss) ref (ctx m s q a b (ss @ [s_alt r ref'])) = ctx m s q a b (ss @ [s_alt r ref])"
  by (simp_all add: setAltChoice_def s_alt_def nth_append)

subsection \<open>Running a token\<close>

lemma run_token:
  assumes "lexes m s p t q"
  shows "runTokenMatch jqEnv t p (ctx m s x a b ss) =
      (if length ss < MAX_BUILD_STEPS then Res q (ctx m s q p q (ss @ [s_token t p q])) else Crash)"
proof -
  have "getNextJToken (lexer m s x a b) p = Some (t, q, lexer m s q p q)"
    using assms by (simp add: lexes_def)
  moreover have "tokStart (lexer m s q p q) = p" "tokEnd (lexer m s q p q) = q" by (simp_all add: lexer_def)
  ultimately show ?thesis
    by (simp add: runTokenMatch_def build_simps) (simp add: buildTokenValue_def makeBuildStep_def)
qed

lemma run_other_token:
  assumes "lexes m s p t q" "t \<noteq> t'" "t \<noteq> NO_VALID_TOKEN"
  shows "runTokenMatch jqEnv t' p (ctx m s x a b ss) = Res GPARSE_FAIL (ctx m s q p q ss)"
proof -
  have "getNextJToken (lexer m s x a b) p = Some (t, q, lexer m s q p q)"
    using assms by (simp add: lexes_def)
  then show ?thesis using assms by (simp add: runTokenMatch_def)
qed

lemma run_illegal_token:
  assumes "illegal m s p" "t \<noteq> NO_VALID_TOKEN"
  shows "runTokenMatch jqEnv t p (ctx m s x a b ss) = Res TOKENIZER_FAILED (ctx m s (p + 1) a b ss)"
proof -
  have "getNextJToken (lexer m s x a b) p = Some (NO_VALID_TOKEN, p + 1, lexer m s (p + 1) a b)"
    using assms by (simp add: illegal_def)
  then show ?thesis using assms by (simp add: runTokenMatch_def)
qed

subsection \<open>One traversal\<close>

lemma seq_token:
  assumes "lexes m s p t q" "length ss + 2 \<le> MAX_BUILD_STEPS" "0 \<le> q"
  shows "runSeq jqEnv n (TokenRef t # refs) p resume (ctx m s x a b ss) =
      runSeq jqEnv n refs q resume (ctx m s q p q (ss @ s_part t p q))"
  using assms by (simp add: build_simps run_token GPARSE_SUCCESS_def)

definition failed :: "bool \<Rightarrow> 't gParseContext \<Rightarrow> 't outcome" where
  "failed resume c = (if resume then Throw c else Res GPARSE_FAIL c)"

lemma seq_other:
  assumes "lexes m s p t q" "t \<noteq> t'" "t \<noteq> NO_VALID_TOKEN" "length ss + 2 \<le> MAX_BUILD_STEPS"
  shows "runSeq jqEnv n (TokenRef t' # refs) p resume (ctx m s x a b ss) =
      failed resume (ctx m s q p q (ss @ [s_key (TokenRef t')]))"
  using assms by (simp add: build_simps run_other_token [OF assms(1-3)] GPARSE_SUCCESS_def GPARSE_FAIL_def failed_def)

lemma seq_illegal:
  assumes "illegal m s p" "t \<noteq> NO_VALID_TOKEN" "length ss + 2 \<le> MAX_BUILD_STEPS"
  shows "runSeq jqEnv n (TokenRef t # refs) p resume (ctx m s x a b ss) =
      runSeq jqEnv n refs TOKENIZER_FAILED resume (ctx m s (p + 1) a b (ss @ [s_key (TokenRef t)]))"
  using assms by (simp add: build_simps run_illegal_token GPARSE_SUCCESS_def TOKENIZER_FAILED_def)

text \<open>The steps of a rule that is a sequence, and of an alternative of \<open>TRAVERSAL\<close>.\<close>

definition in_object :: "nat \<Rightarrow> gBuildStep list \<Rightarrow> gBuildStep list" where
  "in_object r body = s_object r # body @ [s_pop]"

definition in_array :: "nat \<Rightarrow> gBuildStep list \<Rightarrow> gBuildStep list" where
  "in_array r body = s_array r # body @ [s_pop]"

definition in_alt :: "nat \<Rightarrow> gRuleRef \<Rightarrow> gBuildStep list \<Rightarrow> gBuildStep list" where
  "in_alt r ref body = s_alt r ref # body @ [s_pop]"

lemma dispatch_seq:
  assumes "rule_type (jqRules ! r) = G_SEQ" "length ss < MAX_BUILD_STEPS"
  shows "parseDispatch jqEnv (Suc n) r p resume (ctx m s x a b ss) =
      popped jqEnv (runSeq jqEnv n (rule_refs (jqRules ! r)) p resume (ctx m s x a b (ss @ [s_object r])))"
  using assms by (simp add: build_simps)

lemma dispatch_alt:
  assumes "rule_type (jqRules ! r) = G_ALT" "length ss < MAX_BUILD_STEPS"
  shows "parseDispatch jqEnv (Suc n) r p resume (ctx m s x a b ss) =
      popped jqEnv (runAlt jqEnv n (Some (length ss)) (Suc (length ss)) (rule_refs (jqRules ! r)) p resume
        (ctx m s x a b (ss @ [stepRef BUILD_ALT None (Some r)])))"
  using assms by (simp add: build_simps rule_codes)

lemma dispatch_star:
  assumes "rule_type (jqRules ! r) = G_STAR" "length ss < MAX_BUILD_STEPS"
  shows "parseDispatch jqEnv (Suc n) r p resume (ctx m s x a b ss) =
      popped jqEnv (runStar jqEnv n (hd (rule_refs (jqRules ! r))) p (Suc (length ss))
        (ctx m s x a b (ss @ [s_array r])))"
  using assms by (simp add: build_simps rule_codes)

lemma popped_simps:
  "length ss < MAX_BUILD_STEPS \<Longrightarrow> popped jqEnv (Res p (ctx m s x a b ss)) = Res p (ctx m s x a b (ss @ [s_pop]))"
  "popped jqEnv (Throw c) = Throw c"
  by (simp_all add: popped_def build_simps)

lemma failed_simps: "failed True c = Throw c" "popped jqEnv (failed True c) = Throw c"
  by (simp_all add: failed_def popped_def)

text \<open>An alternative that throws is undone up to the step of the alternation.\<close>

lemma alt_next:
  assumes "refs \<noteq> []" "alt = stepRef BUILD_ALT None (Some rule) \<or> alt = s_alt rule ref'"
    "parseDispatch jqEnv n r p True (ctx m s x a b (ss @ [s_alt rule (RuleRef r)])) =
       Throw (ctx m s x' a' b' (ss @ s_alt rule (RuleRef r) # junk))"
  shows "runAlt jqEnv n (Some (length ss)) (Suc (length ss)) (RuleRef r # refs) p resume (ctx m s x a b (ss @ [alt])) =
      runAlt jqEnv n (Some (length ss)) (Suc (length ss)) refs p resume (ctx m s x' a' b' (ss @ [s_alt rule (RuleRef r)]))"
  using assms by (auto simp: setAltChoice_simps rewindSteps_def)

lemma alt_take:
  assumes "refs \<noteq> []" "alt = stepRef BUILD_ALT None (Some rule) \<or> alt = s_alt rule ref'"
    "parseDispatch jqEnv n r p True (ctx m s x a b (ss @ [s_alt rule (RuleRef r)])) = Res q c"
  shows "runAlt jqEnv n (Some (length ss)) (Suc (length ss)) (RuleRef r # refs) p resume (ctx m s x a b (ss @ [alt])) = Res q c"
  using assms by (auto simp: setAltChoice_simps)

lemma alt_last:
  assumes "alt = stepRef BUILD_ALT None (Some rule) \<or> alt = s_alt rule ref'"
  shows "runAlt jqEnv n (Some (length ss)) (Suc (length ss)) [RuleRef r] p resume (ctx m s x a b (ss @ [alt])) =
    parseDispatch jqEnv n r p resume (ctx m s x a b (ss @ [s_alt rule (RuleRef r)]))"
  using assms by (auto simp: setAltChoice_simps)

declare parseDispatch.simps [simp del] runSeq.simps [simp del] runAlt.simps [simp del] runStar.simps [simp del]

lemma seq_done [simp]: "runSeq E n [] p resume c = Res p c"
  by (simp add: runSeq.simps)

text \<open>The four alternatives of \<open>TRAVERSAL\<close>, by the tokens at the position.\<close>

lemma index_taken:
  assumes "lexes m s p JTOKEN_LBRACK p1" "lexes m s p1 JTOKEN_INTEGER p2" "lexes m s p2 JTOKEN_RBRACK p3"
    "length ss + 8 \<le> MAX_BUILD_STEPS" "0 \<le> p1" "0 \<le> p2" "0 \<le> p3"
  shows "parseDispatch jqEnv (Suc n) 15 p True (ctx m s x a b ss) =
    Res p3 (ctx m s p3 p2 p3 (ss @ in_object 15
      (s_part JTOKEN_LBRACK p p1 @ s_part JTOKEN_INTEGER p1 p2 @ s_part JTOKEN_RBRACK p2 p3)))"
  using assms by (simp add: dispatch_seq seq_token popped_simps in_object_def)

lemma index_refused:
  assumes "lexes m s p t p1" "t \<noteq> JTOKEN_LBRACK" "t \<noteq> NO_VALID_TOKEN" "length ss + 8 \<le> MAX_BUILD_STEPS"
  shows "parseDispatch jqEnv (Suc n) 15 p True (ctx m s x a b ss) =
    Throw (ctx m s p1 p p1 (ss @ [s_object 15, s_key (TokenRef JTOKEN_LBRACK)]))"
  using assms by (simp add: dispatch_seq seq_other [OF assms(1)] failed_simps popped_simps)

lemma index_empty:
  assumes "lexes m s p JTOKEN_LBRACK p1" "lexes m s p1 t p2" "t \<noteq> JTOKEN_INTEGER" "t \<noteq> NO_VALID_TOKEN"
    "length ss + 8 \<le> MAX_BUILD_STEPS" "0 \<le> p1"
  shows "parseDispatch jqEnv (Suc n) 15 p True (ctx m s x a b ss) =
    Throw (ctx m s p2 p1 p2 (ss @ s_object 15 # s_part JTOKEN_LBRACK p p1 @ [s_key (TokenRef JTOKEN_INTEGER)]))"
  using assms
  by (simp add: dispatch_seq seq_token seq_other [OF assms(2)] failed_simps popped_simps)

lemma pick_taken:
  assumes "lexes m s p JTOKEN_DOT p1" "lexes m s p1 JTOKEN_IDENTIFIER p2"
    "length ss + 8 \<le> MAX_BUILD_STEPS" "0 \<le> p1" "0 \<le> p2"
  shows "parseDispatch jqEnv (Suc n) 16 p True (ctx m s x a b ss) =
    Res p2 (ctx m s p2 p1 p2 (ss @ in_object 16 (s_part JTOKEN_DOT p p1 @ s_part JTOKEN_IDENTIFIER p1 p2)))"
  using assms by (simp add: dispatch_seq seq_token popped_simps in_object_def)

lemma pick_refused:
  assumes "lexes m s p t p1" "t \<noteq> JTOKEN_DOT" "t \<noteq> NO_VALID_TOKEN" "length ss + 8 \<le> MAX_BUILD_STEPS"
  shows "parseDispatch jqEnv (Suc n) 16 p True (ctx m s x a b ss) =
    Throw (ctx m s p1 p p1 (ss @ [s_object 16, s_key (TokenRef JTOKEN_DOT)]))"
  using assms by (simp add: dispatch_seq seq_other [OF assms(1)] failed_simps popped_simps)

lemma pick_nameless:
  assumes "lexes m s p JTOKEN_DOT p1" "lexes m s p1 t p2" "t \<noteq> JTOKEN_IDENTIFIER" "t \<noteq> NO_VALID_TOKEN"
    "length ss + 8 \<le> MAX_BUILD_STEPS" "0 \<le> p1"
  shows "parseDispatch jqEnv (Suc n) 16 p True (ctx m s x a b ss) =
    Throw (ctx m s p2 p1 p2 (ss @ s_object 16 # s_part JTOKEN_DOT p p1 @ [s_key (TokenRef JTOKEN_IDENTIFIER)]))"
  using assms
  by (simp add: dispatch_seq seq_token seq_other [OF assms(2)] failed_simps popped_simps)

lemma explode_taken:
  assumes "lexes m s p JTOKEN_LBRACK p1" "lexes m s p1 JTOKEN_RBRACK p2"
    "length ss + 8 \<le> MAX_BUILD_STEPS" "0 \<le> p1" "0 \<le> p2"
  shows "parseDispatch jqEnv (Suc n) 17 p True (ctx m s x a b ss) =
    Res p2 (ctx m s p2 p1 p2 (ss @ in_object 17 (s_part JTOKEN_LBRACK p p1 @ s_part JTOKEN_RBRACK p1 p2)))"
  using assms by (simp add: dispatch_seq seq_token popped_simps in_object_def)

lemma explode_refused:
  assumes "lexes m s p t p1" "t \<noteq> JTOKEN_LBRACK" "t \<noteq> NO_VALID_TOKEN" "length ss + 8 \<le> MAX_BUILD_STEPS"
  shows "parseDispatch jqEnv (Suc n) 17 p True (ctx m s x a b ss) =
    Throw (ctx m s p1 p p1 (ss @ [s_object 17, s_key (TokenRef JTOKEN_LBRACK)]))"
  using assms by (simp add: dispatch_seq seq_other [OF assms(1)] failed_simps popped_simps)

lemma context_taken:
  assumes "lexes m s p JTOKEN_DOT p1" "length ss + 8 \<le> MAX_BUILD_STEPS" "0 \<le> p1"
  shows "parseDispatch jqEnv (Suc n) 18 p resume (ctx m s x a b ss) =
    Res p1 (ctx m s p1 p p1 (ss @ in_object 18 (s_part JTOKEN_DOT p p1)))"
  using assms by (simp add: dispatch_seq seq_token popped_simps in_object_def)

lemma context_refused:
  assumes "lexes m s p t p1" "t \<noteq> JTOKEN_DOT" "t \<noteq> NO_VALID_TOKEN" "length ss + 8 \<le> MAX_BUILD_STEPS"
  shows "parseDispatch jqEnv (Suc n) 18 p True (ctx m s x a b ss) =
    Throw (ctx m s p1 p p1 (ss @ [s_object 18, s_key (TokenRef JTOKEN_DOT)]))"
  using assms by (simp add: dispatch_seq seq_other [OF assms(1)] failed_simps popped_simps)

subsection \<open>Paths and their text\<close>

datatype path_step = PIndex nat | PPick string | PExplode | PContext

fun step_text :: "path_step \<Rightarrow> string" where
  "step_text (PIndex n) = CHR ''['' # show_nat n @ '']''"
| "step_text (PPick k) = CHR ''.'' # k"
| "step_text PExplode = ''[]''"
| "step_text PContext = ''.''"

definition path_text :: "path_step list \<Rightarrow> string" where
  "path_text ps = concat (map step_text ps)"

fun step_ok :: "path_step \<Rightarrow> bool" where
  "step_ok (PPick k) \<longleftrightarrow> k \<noteq> [] \<and> list_all name_char k"
| "step_ok _ \<longleftrightarrow> True"

text \<open>The build steps of a step whose text begins at \<open>p\<close>.\<close>

fun step_rule_of :: "path_step \<Rightarrow> nat" where
  "step_rule_of (PIndex n) = 15"
| "step_rule_of (PPick k) = 16"
| "step_rule_of PExplode = 17"
| "step_rule_of PContext = 18"

fun step_parts :: "int \<Rightarrow> path_step \<Rightarrow> gBuildStep list" where
  "step_parts p (PIndex n) =
     (let q = p + 1 + int (length (show_nat n)) in
      s_part JTOKEN_LBRACK p (p + 1) @ s_part JTOKEN_INTEGER (p + 1) q @ s_part JTOKEN_RBRACK q (q + 1))"
| "step_parts p (PPick k) =
     s_part JTOKEN_DOT p (p + 1) @ s_part JTOKEN_IDENTIFIER (p + 1) (p + 1 + int (length k))"
| "step_parts p PExplode = s_part JTOKEN_LBRACK p (p + 1) @ s_part JTOKEN_RBRACK (p + 1) (p + 2)"
| "step_parts p PContext = s_part JTOKEN_DOT p (p + 1)"

definition step_builds :: "int \<Rightarrow> path_step \<Rightarrow> gBuildStep list" where
  "step_builds p st =
     in_alt 13 (RuleRef (step_rule_of st)) (in_object (step_rule_of st) (step_parts p st))"

abbreviation step_end :: "int \<Rightarrow> path_step \<Rightarrow> int" where
  "step_end p st \<equiv> p + int (length (step_text st))"

lemma lex_name:
  assumes "ahead s p (k @ u)" "stops u" "quiet m" "k \<noteq> []" "list_all name_char k"
  shows "lexes m s p JTOKEN_IDENTIFIER (p + int (length k))"
  using assms lex_word [of s p "hd k" "tl k" u m STATE_IDENTIFIER JTOKEN_IDENTIFIER] by (cases k) auto

lemma lex_number:
  assumes "ahead s p (show_nat n @ CHR '']'' # u)" "quiet m"
  shows "lexes m s p JTOKEN_INTEGER (p + int (length (show_nat n)))"
proof -
  obtain d ds where "show_nat n = d # ds" by (cases "show_nat n") auto
  moreover have "list_all (\<lambda>c. isdigit (char_code c)) (show_nat n)"
    using show_nat_digits by (simp add: list_all_iff)
  moreover have "stops (CHR '']'' # u)" by (simp add: stops_def lone_punctuation)
  ultimately show ?thesis
    using assms lex_word [of s p d ds "CHR '']'' # u" m STATE_INTEGER JTOKEN_INTEGER] by simp
qed

text \<open>What is behind a lone dot: a token that is no name.\<close>

definition nameless :: "stray \<Rightarrow> string \<Rightarrow> int \<Rightarrow> bool" where
  "nameless m s p \<longleftrightarrow> (\<exists>t q. lexes m s p t q \<and> t \<noteq> JTOKEN_IDENTIFIER \<and> t \<noteq> NO_VALID_TOKEN)"

lemmas distinct_tokens = jtokens token_codes

lemma traversal_index:
  assumes "ahead s p (step_text (PIndex n) @ u)" "quiet m" "length ss + 12 \<le> MAX_BUILD_STEPS"
  shows "\<exists>a'. parseDispatch jqEnv (Suc (Suc f)) 13 p resume (ctx m s x a b ss) =
    Res (step_end p (PIndex n)) (ctx m s (step_end p (PIndex n)) a' (step_end p (PIndex n)) (ss @ step_builds p (PIndex n)))"
proof -
  let ?q = "p + 1 + int (length (show_nat n))"
  have p: "0 \<le> p" using assms(1) by (simp add: ahead_def)
  have e: "step_end p (PIndex n) = ?q + 1" by simp
  have a1: "ahead s (p + 1) (show_nat n @ CHR '']'' # u)" using assms(1) ahead_Cons by auto
  have 1: "lexes m s p JTOKEN_LBRACK (p + 1)" using assms(1) by (auto intro: lex_lbrack)
  have 2: "lexes m s (p + 1) JTOKEN_INTEGER ?q" using lex_number [OF a1 assms(2)] .
  have 3: "lexes m s ?q JTOKEN_RBRACK (?q + 1)" using ahead_append [OF a1] by (rule lex_rbrack)
  have "parseDispatch jqEnv (Suc f) 15 p True (ctx m s x a b (ss @ [s_alt 13 (RuleRef 15)])) =
      Res (?q + 1) (ctx m s (?q + 1) ?q (?q + 1) ((ss @ [s_alt 13 (RuleRef 15)]) @ in_object 15
        (s_part JTOKEN_LBRACK p (p + 1) @ s_part JTOKEN_INTEGER (p + 1) ?q @ s_part JTOKEN_RBRACK ?q (?q + 1))))"
    using assms(3) p by (intro index_taken [OF 1 2 3]) simp_all
  note t = alt_take [OF _ disjI1 [OF refl] this]
  show ?thesis using assms(3) unfolding e
    by (intro exI [of _ ?q])
       (simp add: dispatch_alt t popped_simps step_builds_def in_alt_def in_object_def Let_def)
qed

lemma traversal_pick:
  assumes "ahead s p (step_text (PPick k) @ u)" "stops u" "step_ok (PPick k)" "quiet m"
    "length ss + 12 \<le> MAX_BUILD_STEPS"
  shows "\<exists>a'. parseDispatch jqEnv (Suc (Suc f)) 13 p resume (ctx m s x a b ss) =
    Res (step_end p (PPick k)) (ctx m s (step_end p (PPick k)) a' (step_end p (PPick k)) (ss @ step_builds p (PPick k)))"
proof -
  let ?q = "p + 1 + int (length k)"
  have p: "0 \<le> p" using assms(1) by (simp add: ahead_def)
  have e: "step_end p (PPick k) = ?q" by simp
  have a1: "ahead s (p + 1) (k @ u)" using assms(1) ahead_Cons by auto
  have 1: "lexes m s p JTOKEN_DOT (p + 1)" using assms(1) by (auto intro: lex_dot)
  have 2: "lexes m s (p + 1) JTOKEN_IDENTIFIER ?q" using lex_name [OF a1 assms(2,4)] assms(3) by simp
  have "parseDispatch jqEnv (Suc f) 15 p True (ctx m s x a b (ss @ [s_alt 13 (RuleRef 15)])) =
      Throw (ctx m s (p + 1) p (p + 1) ((ss @ [s_alt 13 (RuleRef 15)]) @ [s_object 15, s_key (TokenRef JTOKEN_LBRACK)]))"
    using assms(5) by (intro index_refused [OF 1]) (simp_all add: distinct_tokens)
  note n1 = alt_next [OF _ disjI1 [OF refl] this [simplified]]
  have "parseDispatch jqEnv (Suc f) 16 p True (ctx m s (p + 1) p (p + 1) (ss @ [s_alt 13 (RuleRef 16)])) =
      Res ?q (ctx m s ?q (p + 1) ?q ((ss @ [s_alt 13 (RuleRef 16)]) @ in_object 16
        (s_part JTOKEN_DOT p (p + 1) @ s_part JTOKEN_IDENTIFIER (p + 1) ?q)))"
    using assms(5) p by (intro pick_taken [OF 1 2]) simp_all
  note t = alt_take [OF _ disjI2 [OF refl] this]
  show ?thesis using assms(5) unfolding e
    by (intro exI [of _ "p + 1"])
       (simp add: dispatch_alt n1 t popped_simps step_builds_def in_alt_def in_object_def)
qed

lemma traversal_explode:
  assumes "ahead s p (step_text PExplode @ u)" "length ss + 12 \<le> MAX_BUILD_STEPS"
  shows "\<exists>a'. parseDispatch jqEnv (Suc (Suc f)) 13 p resume (ctx m s x a b ss) =
    Res (step_end p PExplode) (ctx m s (step_end p PExplode) a' (step_end p PExplode) (ss @ step_builds p PExplode))"
proof -
  have p: "0 \<le> p" using assms(1) by (simp add: ahead_def)
  have e: "step_end p PExplode = p + 2" by simp
  have a1: "ahead s (p + 1) (CHR '']'' # u)" using assms(1) ahead_Cons by auto
  have 1: "lexes m s p JTOKEN_LBRACK (p + 1)" using assms(1) by (auto intro: lex_lbrack)
  have 2: "lexes m s (p + 1) JTOKEN_RBRACK (p + 2)" using lex_rbrack [OF a1] by (simp add: add.commute)
  have "parseDispatch jqEnv (Suc f) 15 p True (ctx m s x a b (ss @ [s_alt 13 (RuleRef 15)])) =
      Throw (ctx m s (p + 2) (p + 1) (p + 2) ((ss @ [s_alt 13 (RuleRef 15)]) @
        s_object 15 # s_part JTOKEN_LBRACK p (p + 1) @ [s_key (TokenRef JTOKEN_INTEGER)]))"
    using assms(2) p by (intro index_empty [OF 1 2]) (simp_all add: distinct_tokens)
  note n1 = alt_next [OF _ disjI1 [OF refl] this [simplified]]
  have "parseDispatch jqEnv (Suc f) 16 p True (ctx m s (p + 2) (p + 1) (p + 2) (ss @ [s_alt 13 (RuleRef 16)])) =
      Throw (ctx m s (p + 1) p (p + 1) ((ss @ [s_alt 13 (RuleRef 16)]) @ [s_object 16, s_key (TokenRef JTOKEN_DOT)]))"
    using assms(2) by (intro pick_refused [OF 1]) (simp_all add: distinct_tokens)
  note n2 = alt_next [OF _ disjI2 [OF refl] this [simplified]]
  have "parseDispatch jqEnv (Suc f) 17 p True (ctx m s (p + 1) p (p + 1) (ss @ [s_alt 13 (RuleRef 17)])) =
      Res (p + 2) (ctx m s (p + 2) (p + 1) (p + 2) ((ss @ [s_alt 13 (RuleRef 17)]) @ in_object 17
        (s_part JTOKEN_LBRACK p (p + 1) @ s_part JTOKEN_RBRACK (p + 1) (p + 2))))"
    using assms(2) p by (intro explode_taken [OF 1 2]) simp_all
  note t = alt_take [OF _ disjI2 [OF refl] this]
  show ?thesis using assms(2) unfolding e
    by (intro exI [of _ "p + 1"])
       (simp add: dispatch_alt n1 n2 t popped_simps step_builds_def in_alt_def in_object_def)
qed

lemma traversal_context:
  assumes "ahead s p (step_text PContext @ u)" "nameless m s (p + 1)" "length ss + 12 \<le> MAX_BUILD_STEPS"
  shows "\<exists>a'. parseDispatch jqEnv (Suc (Suc f)) 13 p resume (ctx m s x a b ss) =
    Res (step_end p PContext) (ctx m s (step_end p PContext) a' (step_end p PContext) (ss @ step_builds p PContext))"
proof -
  have p: "0 \<le> p" using assms(1) by (simp add: ahead_def)
  have e: "step_end p PContext = p + 1" by simp
  have 1: "lexes m s p JTOKEN_DOT (p + 1)" using assms(1) by (auto intro: lex_dot)
  obtain t q where 2: "lexes m s (p + 1) t q" "t \<noteq> JTOKEN_IDENTIFIER" "t \<noteq> NO_VALID_TOKEN"
    using assms(2) by (auto simp: nameless_def)
  have "parseDispatch jqEnv (Suc f) 15 p True (ctx m s x a b (ss @ [s_alt 13 (RuleRef 15)])) =
      Throw (ctx m s (p + 1) p (p + 1) ((ss @ [s_alt 13 (RuleRef 15)]) @ [s_object 15, s_key (TokenRef JTOKEN_LBRACK)]))"
    using assms(3) by (intro index_refused [OF 1]) (simp_all add: distinct_tokens)
  note n1 = alt_next [OF _ disjI1 [OF refl] this [simplified]]
  have "parseDispatch jqEnv (Suc f) 16 p True (ctx m s (p + 1) p (p + 1) (ss @ [s_alt 13 (RuleRef 16)])) =
      Throw (ctx m s q (p + 1) q ((ss @ [s_alt 13 (RuleRef 16)]) @
        s_object 16 # s_part JTOKEN_DOT p (p + 1) @ [s_key (TokenRef JTOKEN_IDENTIFIER)]))"
    using assms(3) p by (intro pick_nameless [OF 1 2]) simp_all
  note n2 = alt_next [OF _ disjI2 [OF refl] this [simplified]]
  have "parseDispatch jqEnv (Suc f) 17 p True (ctx m s q (p + 1) q (ss @ [s_alt 13 (RuleRef 17)])) =
      Throw (ctx m s (p + 1) p (p + 1) ((ss @ [s_alt 13 (RuleRef 17)]) @ [s_object 17, s_key (TokenRef JTOKEN_LBRACK)]))"
    using assms(3) by (intro explode_refused [OF 1]) (simp_all add: distinct_tokens)
  note n3 = alt_next [OF _ disjI2 [OF refl] this [simplified]]
  have t: "parseDispatch jqEnv (Suc f) 18 p resume (ctx m s (p + 1) p (p + 1) (ss @ [s_alt 13 (RuleRef 18)])) =
      Res (p + 1) (ctx m s (p + 1) p (p + 1) ((ss @ [s_alt 13 (RuleRef 18)]) @ in_object 18 (s_part JTOKEN_DOT p (p + 1))))"
    using assms(3) p by (intro context_taken [OF 1]) simp_all
  show ?thesis using assms(3) unfolding e
    by (intro exI [of _ p])
       (simp add: dispatch_alt n1 n2 n3 alt_last [OF disjI2 [OF refl]] t popped_simps step_builds_def
         in_alt_def in_object_def)
qed

text \<open>Any step, in front of something that ends names and, behind a lone dot, starts a token.\<close>

lemma traversal_step:
  assumes "ahead s p (step_text st @ u)" "step_ok st" "quiet m" "stops u"
    "st = PContext \<Longrightarrow> nameless m s (p + 1)" "length ss + 12 \<le> MAX_BUILD_STEPS"
  shows "\<exists>a'. parseDispatch jqEnv (Suc (Suc f)) 13 p resume (ctx m s x a b ss) =
    Res (step_end p st) (ctx m s (step_end p st) a' (step_end p st) (ss @ step_builds p st))"
proof (cases st)
  case (PIndex n)
  with assms traversal_index [of s p n u m ss f resume x a b] show ?thesis by auto
next
  case (PPick k)
  with assms traversal_pick [of s p k u m ss f resume x a b] show ?thesis by auto
next
  case PExplode
  with assms traversal_explode [of s p u ss f resume m x a b] show ?thesis by auto
next
  case PContext
  with assms traversal_context [of s p u m ss f resume x a b] show ?thesis by auto
qed

text \<open>At another token the last alternative is undone as well, by the repetition around it.\<close>

lemma traversal_refused:
  assumes "lexes m s p t q" "t \<noteq> JTOKEN_LBRACK" "t \<noteq> JTOKEN_DOT" "t \<noteq> NO_VALID_TOKEN"
    "length ss + 12 \<le> MAX_BUILD_STEPS"
  obtains junk where "parseDispatch jqEnv (Suc (Suc f)) 13 p True (ctx m s x a b ss) =
    Throw (ctx m s q p q (ss @ junk))"
proof -
  have i: "parseDispatch jqEnv (Suc f) 15 p True (ctx m s x a b (ss @ [s_alt 13 (RuleRef 15)])) =
      Throw (ctx m s q p q ((ss @ [s_alt 13 (RuleRef 15)]) @ [s_object 15, s_key (TokenRef JTOKEN_LBRACK)]))"
    for x a b using assms by (intro index_refused [OF assms(1)]) simp_all
  have d: "parseDispatch jqEnv (Suc f) 16 p True (ctx m s x a b (ss @ [s_alt 13 (RuleRef 16)])) =
      Throw (ctx m s q p q ((ss @ [s_alt 13 (RuleRef 16)]) @ [s_object 16, s_key (TokenRef JTOKEN_DOT)]))"
    for x a b using assms by (intro pick_refused [OF assms(1)]) simp_all
  have e: "parseDispatch jqEnv (Suc f) 17 p True (ctx m s x a b (ss @ [s_alt 13 (RuleRef 17)])) =
      Throw (ctx m s q p q ((ss @ [s_alt 13 (RuleRef 17)]) @ [s_object 17, s_key (TokenRef JTOKEN_LBRACK)]))"
    for x a b using assms by (intro explode_refused [OF assms(1)]) simp_all
  have c: "parseDispatch jqEnv (Suc f) 18 p True (ctx m s x a b (ss @ [s_alt 13 (RuleRef 18)])) =
      Throw (ctx m s q p q ((ss @ [s_alt 13 (RuleRef 18)]) @ [s_object 18, s_key (TokenRef JTOKEN_DOT)]))"
    for x a b using assms by (intro context_refused [OF assms(1)]) simp_all
  note n = alt_next [OF _ disjI1 [OF refl] i [simplified]] alt_next [OF _ disjI2 [OF refl] d [simplified]]
    alt_next [OF _ disjI2 [OF refl] e [simplified]]
  show ?thesis using assms(5)
    by (intro that) (simp add: dispatch_alt n alt_last [OF disjI2 [OF refl]] c popped_simps)
qed

text \<open>
  At a character that starts no token the failure of the tokenizer counts as a match: the sequence
  goes on behind the end of the text, and \<open>CONTEXT\<close>, which has one token only, succeeds.
\<close>

lemma seq_illegal_other:
  assumes "illegal m s p" "t \<noteq> NO_VALID_TOKEN" "t' \<noteq> EOF_TOKEN" "int (length s) \<le> TOKENIZER_FAILED"
    "length ss + 4 \<le> MAX_BUILD_STEPS"
  shows "runSeq jqEnv n (TokenRef t # TokenRef t' # refs) p True (ctx m s x a b ss) =
    Throw (ctx m s TOKENIZER_FAILED TOKENIZER_FAILED TOKENIZER_FAILED (ss @ [s_key (TokenRef t), s_key (TokenRef t')]))"
proof -
  have 2: "lexes m s TOKENIZER_FAILED EOF_TOKEN TOKENIZER_FAILED" using assms(4) by (rule lex_end)
  show ?thesis using assms
    by (simp add: seq_illegal [OF assms(1,2)] seq_other [OF 2] failed_simps token_codes)
qed

lemma traversal_illegal:
  assumes "illegal m s p" "int (length s) \<le> TOKENIZER_FAILED" "length ss + 12 \<le> MAX_BUILD_STEPS"
  obtains y a' b' where "parseDispatch jqEnv (Suc (Suc f)) 13 p resume (ctx m s x a b ss) =
    Res TOKENIZER_FAILED (ctx m s y a' b' (ss @ in_alt 13 (RuleRef 18) (in_object 18 [s_key (TokenRef JTOKEN_DOT)])))"
proof -
  let ?e = TOKENIZER_FAILED
  have i: "parseDispatch jqEnv (Suc f) 15 p True (ctx m s x a b (ss @ [s_alt 13 (RuleRef 15)])) =
      Throw (ctx m s ?e ?e ?e (ss @ s_alt 13 (RuleRef 15) #
        [s_object 15, s_key (TokenRef JTOKEN_LBRACK), s_key (TokenRef JTOKEN_INTEGER)]))"
    for x a b using assms
    by (simp add: dispatch_seq seq_illegal_other distinct_tokens popped_simps)
  have d: "parseDispatch jqEnv (Suc f) 16 p True (ctx m s x a b (ss @ [s_alt 13 (RuleRef 16)])) =
      Throw (ctx m s ?e ?e ?e (ss @ s_alt 13 (RuleRef 16) #
        [s_object 16, s_key (TokenRef JTOKEN_DOT), s_key (TokenRef JTOKEN_IDENTIFIER)]))"
    for x a b using assms
    by (simp add: dispatch_seq seq_illegal_other distinct_tokens popped_simps)
  have e: "parseDispatch jqEnv (Suc f) 17 p True (ctx m s x a b (ss @ [s_alt 13 (RuleRef 17)])) =
      Throw (ctx m s ?e ?e ?e (ss @ s_alt 13 (RuleRef 17) #
        [s_object 17, s_key (TokenRef JTOKEN_LBRACK), s_key (TokenRef JTOKEN_RBRACK)]))"
    for x a b using assms
    by (simp add: dispatch_seq seq_illegal_other distinct_tokens popped_simps)
  have c: "parseDispatch jqEnv (Suc f) 18 p resume (ctx m s x a b (ss @ [s_alt 13 (RuleRef 18)])) =
      Res ?e (ctx m s (p + 1) a b (ss @ s_alt 13 (RuleRef 18) # in_object 18 [s_key (TokenRef JTOKEN_DOT)]))"
    for x a b using assms
    by (simp add: dispatch_seq seq_illegal distinct_tokens popped_simps in_object_def)
  note n = alt_next [OF _ disjI1 [OF refl] i] alt_next [OF _ disjI2 [OF refl] d]
    alt_next [OF _ disjI2 [OF refl] e]
  show ?thesis using assms(3)
    by (intro that) (simp add: dispatch_alt n alt_last [OF disjI2 [OF refl]] c popped_simps in_alt_def in_object_def)
qed

subsection \<open>Paths\<close>

fun path_builds :: "int \<Rightarrow> path_step list \<Rightarrow> gBuildStep list" where
  "path_builds p [] = []"
| "path_builds p (st # ps) = step_builds p st @ path_builds (step_end p st) ps"

abbreviation path_end :: "int \<Rightarrow> path_step list \<Rightarrow> int" where
  "path_end p ps \<equiv> p + int (length (path_text ps))"

lemma path_text_simps [simp]:
  "path_text [] = []" "path_text (st # ps) = step_text st @ path_text ps"
  by (simp_all add: path_text_def)

lemma length_step_builds: "length (step_builds p st) \<le> 10"
  by (cases st) (simp_all add: step_builds_def in_alt_def in_object_def Let_def)

lemma length_path_builds: "length (path_builds p ps) \<le> 10 * length ps"
  using length_step_builds by (induction ps arbitrary: p) (force intro: add_mono)+

text \<open>A path begins with a character that ends names and is a token.\<close>

lemma stops_path: "stops u \<Longrightarrow> stops (path_text ps @ u)"
proof (cases ps)
  case (Cons st qs)
  then show ?thesis by (cases st) (simp_all add: stops_def lone_punctuation)
qed simp

lemma lex_step:
  assumes "ahead s p (step_text st @ u)"
  obtains t where "lexes m s p t (p + 1)" "t = JTOKEN_DOT \<or> t = JTOKEN_LBRACK"
  using assms lex_dot lex_lbrack by (cases st) fastforce+

lemma nameless_path:
  assumes "ahead s p (path_text ps @ u)" "ps = [] \<Longrightarrow> nameless m s p"
  shows "nameless m s p"
proof (cases ps)
  case (Cons st qs)
  then have "ahead s p (step_text st @ path_text qs @ u)" using assms(1) by simp
  then obtain t where "lexes m s p t (p + 1)" "t = JTOKEN_DOT \<or> t = JTOKEN_LBRACK" by (rule lex_step)
  then show ?thesis unfolding nameless_def
    by (intro exI [of _ t] exI [of _ "p + 1"]) (auto simp: distinct_tokens)
qed (use assms in simp)

lemma star_step:
  assumes "parseDispatch jqEnv n r p True (ctx m s x a b ss) = Res q (ctx m s x' a' b' ss')" "0 \<le> q"
  shows "runStar jqEnv (Suc n) (RuleRef r) p h (ctx m s x a b ss) =
    runStar jqEnv n (RuleRef r) q (length ss') (ctx m s x' a' b' ss')"
  using assms by (simp add: runStar.simps GPARSE_SUCCESS_def)

lemma star_stop:
  assumes "parseDispatch jqEnv n r p True (ctx m s x a b ss) = Throw (ctx m s x' a' b' (ss @ junk))"
  shows "runStar jqEnv (Suc n) (RuleRef r) p (length ss) (ctx m s x a b ss) = Res p (ctx m s x' a' b' ss)"
  using assms by (simp add: runStar.simps rewindSteps_def)

lemma star_path:
  "ahead s p (path_text ps @ u) \<Longrightarrow> list_all step_ok ps \<Longrightarrow> quiet m \<Longrightarrow> stops u \<Longrightarrow>
   (ps \<noteq> [] \<Longrightarrow> last ps = PContext \<Longrightarrow> nameless m s (path_end p ps)) \<Longrightarrow>
   length ss + 12 * length ps + 12 \<le> MAX_BUILD_STEPS \<Longrightarrow>
     \<exists>x' a' b'. runStar jqEnv (length ps + Suc (Suc (Suc f))) (RuleRef 13) p (length ss) (ctx m s x a b ss) =
       runStar jqEnv (Suc (Suc (Suc f))) (RuleRef 13) (path_end p ps) (length (ss @ path_builds p ps))
         (ctx m s x' a' b' (ss @ path_builds p ps))"
proof (induction ps arbitrary: p ss x a b)
  case Nil
  show ?case by auto
next
  case (Cons st ps)
  let ?e = "step_end p st"
  have a: "ahead s p (step_text st @ (path_text ps @ u))" using Cons.prems(1) by simp
  have e: "ahead s ?e (path_text ps @ u)" using ahead_append [OF a] .
  have nl: "nameless m s (p + 1)" if c: "st = PContext"
  proof -
    have "nameless m s ?e"
      by (rule nameless_path [OF e]) (use Cons.prems(5) c in simp)
    then show ?thesis using c by simp
  qed
  have room: "length ss + 12 \<le> MAX_BUILD_STEPS" using Cons.prems(6) by simp
  obtain a' where d: "parseDispatch jqEnv (Suc (Suc (length ps + Suc f))) 13 p True (ctx m s x a b ss) =
      Res ?e (ctx m s ?e a' ?e (ss @ step_builds p st))"
    using traversal_step [OF a _ Cons.prems(3) stops_path [OF Cons.prems(4)] nl room, of "length ps + Suc f" True x a b]
      Cons.prems(2) by auto
  have pos: "0 \<le> ?e" using a by (simp add: ahead_def)
  have s: "runStar jqEnv (length (st # ps) + Suc (Suc (Suc f))) (RuleRef 13) p (length ss) (ctx m s x a b ss) =
      runStar jqEnv (length ps + Suc (Suc (Suc f))) (RuleRef 13) ?e (length (ss @ step_builds p st))
        (ctx m s ?e a' ?e (ss @ step_builds p st))"
    using star_step [OF d pos, of "length ss"] by simp
  have "\<exists>x' a'' b'. runStar jqEnv (length ps + Suc (Suc (Suc f))) (RuleRef 13) ?e (length (ss @ step_builds p st))
        (ctx m s ?e a' ?e (ss @ step_builds p st)) =
      runStar jqEnv (Suc (Suc (Suc f))) (RuleRef 13) (path_end ?e ps)
        (length ((ss @ step_builds p st) @ path_builds ?e ps))
        (ctx m s x' a'' b' ((ss @ step_builds p st) @ path_builds ?e ps))"
  proof (rule Cons.IH [OF e])
    show "nameless m s (path_end ?e ps)" if "ps \<noteq> []" "last ps = PContext"
      using Cons.prems(5) that by (simp add: add.assoc)
    show "length (ss @ step_builds p st) + 12 * length ps + 12 \<le> MAX_BUILD_STEPS"
      using Cons.prems(6) length_step_builds [of p st] by simp
  qed (use Cons.prems in simp_all)
  then show ?case unfolding s by (simp add: add.assoc)
qed

text \<open>How a path ends: at another token, or at a character that starts none.\<close>

definition junk_builds :: "gBuildStep list" where
  "junk_builds = in_alt 13 (RuleRef 18) (in_object 18 [s_key (TokenRef JTOKEN_DOT)])"

definition path_ends :: "stray \<Rightarrow> string \<Rightarrow> int \<Rightarrow> int \<Rightarrow> gBuildStep list \<Rightarrow> bool" where
  "path_ends m s q q' extra \<longleftrightarrow> 0 \<le> q \<and>
     ((\<exists>t q1. lexes m s q t q1 \<and> t \<notin> {JTOKEN_LBRACK, JTOKEN_DOT, JTOKEN_IDENTIFIER, NO_VALID_TOKEN} \<and>
          q' = q \<and> extra = []) \<or>
      (illegal m s q \<and> int (length s) \<le> TOKENIZER_FAILED \<and> q' = TOKENIZER_FAILED \<and> extra = junk_builds))"

lemma length_junk_builds: "length junk_builds = 5"
  by (simp add: junk_builds_def in_alt_def in_object_def)

lemma path_ends_extra: "path_ends m s q q' extra \<Longrightarrow> length extra \<le> 5 \<and> 0 \<le> q'"
  by (auto simp: path_ends_def length_junk_builds TOKENIZER_FAILED_def)

lemma star_end:
  assumes "path_ends m s q q' extra" "length ss + 20 \<le> MAX_BUILD_STEPS"
  shows "\<exists>x' a' b'. runStar jqEnv (Suc (Suc (Suc (Suc f)))) (RuleRef 13) q (length ss) (ctx m s x a b ss) =
    Res q' (ctx m s x' a' b' (ss @ extra))"
proof -
  consider t q1 where "lexes m s q t q1" "t \<noteq> JTOKEN_LBRACK" "t \<noteq> JTOKEN_DOT" "t \<noteq> NO_VALID_TOKEN" "q' = q" "extra = []"
    | "illegal m s q" "int (length s) \<le> TOKENIZER_FAILED" "q' = TOKENIZER_FAILED" "extra = junk_builds"
    using assms(1) by (auto simp: path_ends_def)
  then show ?thesis
  proof cases
    case 1
    obtain junk where "parseDispatch jqEnv (Suc (Suc (Suc f))) 13 q True (ctx m s x a b ss) =
        Throw (ctx m s q1 q q1 (ss @ junk))"
      using traversal_refused [OF 1(1-4), of ss "Suc f" x a b] assms(2) by force
    from star_stop [OF this] 1 show ?thesis by auto
  next
    case 2
    obtain y a' b' where d: "parseDispatch jqEnv (Suc (Suc (Suc f))) 13 q True (ctx m s x a b ss) =
        Res TOKENIZER_FAILED (ctx m s y a' b' (ss @ junk_builds))"
      using traversal_illegal [OF 2(1,2), of ss "Suc f" True x a b] assms(2) unfolding junk_builds_def by force
    have l: "lexes m s TOKENIZER_FAILED EOF_TOKEN TOKENIZER_FAILED" using 2(2) by (rule lex_end)
    obtain junk where t: "parseDispatch jqEnv (Suc (Suc f)) 13 TOKENIZER_FAILED True (ctx m s y a' b' (ss @ junk_builds)) =
        Throw (ctx m s TOKENIZER_FAILED TOKENIZER_FAILED TOKENIZER_FAILED ((ss @ junk_builds) @ junk))"
      using traversal_refused [OF l, of "ss @ junk_builds" f y a' b'] assms(2)
      by (force simp: distinct_tokens length_junk_builds)
    show ?thesis using star_step [OF d, of "length ss"] star_stop [OF t] 2 by (simp add: TOKENIZER_FAILED_def) blast
  qed
qed

subsection \<open>Operations and pipes\<close>

lemma seq_rule:
  assumes "parseDispatch jqEnv n r p resume (ctx m s x a b (ss @ [s_key (RuleRef r)])) = Res q c" "0 \<le> q"
    "length ss < MAX_BUILD_STEPS"
  shows "runSeq jqEnv n (RuleRef r # refs) p resume (ctx m s x a b ss) = runSeq jqEnv n refs q resume c"
  using assms by (simp add: runSeq.simps build_simps GPARSE_SUCCESS_def)

definition op_builds :: "int \<Rightarrow> path_step \<Rightarrow> path_step list \<Rightarrow> gBuildStep list \<Rightarrow> gBuildStep list" where
  "op_builds p st ps extra = in_alt 4 (RuleRef 12) (in_object 12
     (s_key (RuleRef 13) # step_builds p st @
      s_key (RuleRef 14) # in_array 14 (path_builds (step_end p st) ps @ extra)))"

lemma operation_parsed:
  assumes a: "ahead s p (path_text (st # ps) @ u)" and ok: "list_all step_ok (st # ps)" and m: "quiet m"
    and u: "stops u" and ends: "path_ends m s (path_end p (st # ps)) q' extra"
    and nl: "last (st # ps) = PContext \<Longrightarrow> nameless m s (path_end p (st # ps))"
    and room: "length ss + 12 * length ps + 50 \<le> MAX_BUILD_STEPS"
    and fuel: "length ps + 8 \<le> n"
  shows "\<exists>x' a' b'. parseDispatch jqEnv n 4 p resume (ctx m s x a b ss) =
    Res q' (ctx m s x' a' b' (ss @ op_builds p st ps extra))"
proof -
  obtain f where n: "n = length ps + 8 + f" using fuel le_Suc_ex by blast
  let ?e = "step_end p st"
  let ?o = "ss @ [s_alt 4 (RuleRef 12)]"
  let ?f = "?o @ [s_object 12]"
  let ?g = "(?f @ [s_key (RuleRef 13)]) @ step_builds p st"
  let ?h = "?g @ [s_key (RuleRef 14)]"
  let ?i = "?h @ [s_array 14]"
  let ?j = "?i @ path_builds ?e ps"
  have l: "length (step_builds p st) \<le> 10" "length (path_builds ?e ps) \<le> 10 * length ps"
    by (rule length_step_builds, rule length_path_builds)
  have at: "ahead s p (step_text st @ (path_text ps @ u))" using a by simp
  have e: "ahead s ?e (path_text ps @ u)" using ahead_append [OF at] .
  have pos: "0 \<le> ?e" using at by (simp add: ahead_def)
  have pe: "path_end ?e ps = path_end p (st # ps)" by simp
  have ex: "length extra \<le> 5" "0 \<le> q'" using path_ends_extra [OF ends] by auto
  obtain t where t: "lexes m s p t (p + 1)" "t = JTOKEN_DOT \<or> t = JTOKEN_LBRACK" using at by (rule lex_step)
  have tok: "runTokenMatch jqEnv JTOKEN_INTEGER p (ctx m s x a b (ss @ [s_alt 4 (TokenRef JTOKEN_INTEGER)])) =
      Res GPARSE_FAIL (ctx m s (p + 1) p (p + 1) (ss @ [s_alt 4 (TokenRef JTOKEN_INTEGER)]))"
    by (rule run_other_token [OF t(1)]) (use t(2) in \<open>auto simp: distinct_tokens\<close>)
  have "\<exists>a1. parseDispatch jqEnv (Suc (Suc (length ps + 4 + f))) 13 p resume
      (ctx m s (p + 1) p (p + 1) (?f @ [s_key (RuleRef 13)])) =
    Res ?e (ctx m s ?e a1 ?e ((?f @ [s_key (RuleRef 13)]) @ step_builds p st))"
  proof (rule traversal_step [OF at _ m stops_path [OF u]])
    show "nameless m s (p + 1)" if c: "st = PContext"
    proof -
      have "nameless m s ?e" by (rule nameless_path [OF e]) (use nl c in simp)
      then show ?thesis using c by simp
    qed
    show "length (?f @ [s_key (RuleRef 13)]) + 12 \<le> MAX_BUILD_STEPS" using room by simp
  qed (use ok in simp)
  then obtain a1 where trav: "parseDispatch jqEnv (Suc (Suc (length ps + 4 + f))) 13 p resume
      (ctx m s (p + 1) p (p + 1) (?f @ [s_key (RuleRef 13)])) = Res ?e (ctx m s ?e a1 ?e ?g)" by blast
  have sp: "\<exists>x' a' b'. runStar jqEnv (length ps + Suc (Suc (Suc (f + 2)))) (RuleRef 13) ?e (length ?i) (ctx m s ?e a1 ?e ?i) =
      runStar jqEnv (Suc (Suc (Suc (f + 2)))) (RuleRef 13) (path_end ?e ps) (length ?j) (ctx m s x' a' b' ?j)"
  proof (rule star_path [OF e])
    show "nameless m s (path_end ?e ps)" if "ps \<noteq> []" "last ps = PContext" using nl that by (simp add: add.assoc)
    show "length ?i + 12 * length ps + 12 \<le> MAX_BUILD_STEPS" using room l by simp
  qed (use ok m u in simp_all)
  then obtain x2 a2 b2 where s1: "runStar jqEnv (length ps + Suc (Suc (Suc (f + 2)))) (RuleRef 13) ?e (length ?i) (ctx m s ?e a1 ?e ?i) =
      runStar jqEnv (Suc (Suc (Suc (f + 2)))) (RuleRef 13) (path_end ?e ps) (length ?j) (ctx m s x2 a2 b2 ?j)"
    by blast
  have "length ?j + 20 \<le> MAX_BUILD_STEPS" using room l by simp
  from star_end [OF ends this, of "f + 1" x2 a2 b2] obtain x3 a3 b3 where
    s2: "runStar jqEnv (Suc (Suc (Suc (f + 2)))) (RuleRef 13) (path_end p (st # ps)) (length ?j) (ctx m s x2 a2 b2 ?j) =
      Res q' (ctx m s x3 a3 b3 (?j @ extra))" by auto
  define k where "k = length ps + 5 + f"
  have k: "Suc (length ps + 4 + f) = k" "length ps + Suc (Suc (Suc (f + 2))) = k" "n = Suc (Suc (Suc k))"
    by (simp_all add: k_def n)
  have star: "runStar jqEnv k (RuleRef 13) ?e (length ?i) (ctx m s ?e a1 ?e ?i) =
      Res q' (ctx m s x3 a3 b3 (?j @ extra))"
    using s1 s2 unfolding pe k(2) by (rule trans)
  have more: "parseDispatch jqEnv (Suc k) 14 ?e resume (ctx m s ?e a1 ?e ?h) =
      Res q' (ctx m s x3 a3 b3 (?j @ extra @ [s_pop]))"
    using star room l ex by (simp add: dispatch_star popped_simps)
  have filt: "parseDispatch jqEnv (Suc (Suc k)) 12 p resume (ctx m s (p + 1) p (p + 1) ?o) =
      Res q' (ctx m s x3 a3 b3 (?j @ extra @ [s_pop, s_pop]))"
    using seq_rule [OF trav [unfolded k] pos, of "[RuleRef 14]"] seq_rule [OF more ex(2), of "[]"] room l ex
    by (simp add: dispatch_seq popped_simps)
  have "parseDispatch jqEnv n 4 p resume (ctx m s x a b ss) =
      Res q' (ctx m s x3 a3 b3 (?j @ extra @ [s_pop, s_pop, s_pop]))"
    using tok filt room l ex unfolding k(3)
    by (simp add: dispatch_alt runAlt.simps setAltChoice_simps popped_simps GPARSE_SUCCESS_def GPARSE_FAIL_def)
  then show ?thesis by (auto simp: op_builds_def in_alt_def in_object_def in_array_def)
qed

definition pipe_text :: "path_step list list \<Rightarrow> string" where
  "pipe_text qs = concat (map (\<lambda>q. CHR ''|'' # path_text q) qs)"

definition path_ok :: "path_step list \<Rightarrow> bool" where
  "path_ok ps \<longleftrightarrow> ps \<noteq> [] \<and> list_all step_ok ps"

fun pipe_builds :: "int \<Rightarrow> path_step list list \<Rightarrow> gBuildStep list" where
  "pipe_builds p [] = []"
| "pipe_builds p (q # qs) =
     in_object 3 (s_part JTOKEN_VBAR p (p + 1) @ s_key (RuleRef 4) # op_builds (p + 1) (hd q) (tl q) []) @
     pipe_builds (path_end (p + 1) q) qs"

text \<open>A bound of the build steps and of the depth that paths need.\<close>

definition path_room :: "path_step list \<Rightarrow> nat" where
  "path_room q = 12 * length q + 60"

definition pipe_room :: "path_step list list \<Rightarrow> nat" where
  "pipe_room qs = sum_list (map path_room qs)"

lemma pipe_simps [simp]:
  "pipe_text [] = []" "pipe_text (q # qs) = CHR ''|'' # path_text q @ pipe_text qs"
  "pipe_room [] = 0" "pipe_room (q # qs) = path_room q + pipe_room qs"
  by (simp_all add: pipe_text_def pipe_room_def)

lemma length_op_builds: "length extra \<le> 5 \<Longrightarrow> length (op_builds p st ps extra) \<le> 10 * length ps + 40"
  using length_step_builds [of p st] length_path_builds [of "step_end p st" ps]
  by (simp add: op_builds_def in_alt_def in_object_def in_array_def)

text \<open>What follows a path in a pipe: the end, or a bar.\<close>

lemma ends_at_token:
  assumes "lexes m s p t q" "0 \<le> p" "t \<notin> {JTOKEN_LBRACK, JTOKEN_DOT, JTOKEN_IDENTIFIER, NO_VALID_TOKEN}"
  shows "path_ends m s p p []" "nameless m s p"
  unfolding path_ends_def nameless_def using assms by blast+

lemma before_pipe:
  assumes "ahead s p (pipe_text qs)"
  shows "path_ends m s p p []" "nameless m s p" "stops (pipe_text qs)"
proof -
  have "\<exists>t q. lexes m s p t q \<and> t \<notin> {JTOKEN_LBRACK, JTOKEN_DOT, JTOKEN_IDENTIFIER, NO_VALID_TOKEN}"
  proof (cases qs)
    case Nil
    then have "lexes m s p EOF_TOKEN p" using assms by (intro lex_end) (simp add: ahead_Nil)
    moreover have "EOF_TOKEN \<notin> {JTOKEN_LBRACK, JTOKEN_DOT, JTOKEN_IDENTIFIER, NO_VALID_TOKEN}"
      by (simp add: distinct_tokens)
    ultimately show ?thesis by blast
  next
    case (Cons q qs')
    then have "lexes m s p JTOKEN_VBAR (p + 1)" using assms by (auto intro: lex_vbar)
    moreover have "JTOKEN_VBAR \<notin> {JTOKEN_LBRACK, JTOKEN_DOT, JTOKEN_IDENTIFIER, NO_VALID_TOKEN}"
      by (simp add: distinct_tokens)
    ultimately show ?thesis by blast
  qed
  then show "path_ends m s p p []" "nameless m s p"
    using ends_at_token assms by (auto simp: ahead_def)
  show "stops (pipe_text qs)" by (cases qs) (simp_all add: stops_def lone_punctuation)
qed

lemma pipe_end:
  assumes "lexes m s p t q" "t \<noteq> JTOKEN_VBAR" "t \<noteq> NO_VALID_TOKEN" "length ss + 20 \<le> MAX_BUILD_STEPS"
  shows "runStar jqEnv (Suc (Suc n)) (RuleRef 3) p (length ss) (ctx m s x a b ss) = Res p (ctx m s q p q ss)"
proof -
  have "parseDispatch jqEnv (Suc n) 3 p True (ctx m s x a b ss) =
      Throw (ctx m s q p q (ss @ [s_object 3, s_key (TokenRef JTOKEN_VBAR)]))"
    using assms by (simp add: dispatch_seq seq_other [OF assms(1)] failed_simps popped_simps)
  then show ?thesis by (rule star_stop)
qed

lemma pipes_parsed:
  "ahead s p (pipe_text qs) \<Longrightarrow> list_all path_ok qs \<Longrightarrow> quiet m \<Longrightarrow>
   length ss + pipe_room qs + 50 \<le> MAX_BUILD_STEPS \<Longrightarrow> pipe_room qs + 12 \<le> n \<Longrightarrow>
     \<exists>x' a' b'. runStar jqEnv n (RuleRef 3) p (length ss) (ctx m s x a b ss) =
       Res (p + int (length (pipe_text qs))) (ctx m s x' a' b' (ss @ pipe_builds p qs))"
proof (induction qs arbitrary: p ss x a b n)
  case Nil
  have l: "lexes m s p EOF_TOKEN p" using Nil.prems(1) by (intro lex_end) (simp add: ahead_Nil)
  obtain n' where "n = Suc (Suc n')" using Nil.prems(5) by (cases n; cases "n - 1") auto
  then show ?case using pipe_end [OF l, of ss] Nil.prems(4) by (auto simp: distinct_tokens)
next
  case (Cons q qs)
  let ?e = "path_end (p + 1) q"
  let ?b = "(ss @ [s_object 3]) @ s_part JTOKEN_VBAR p (p + 1)"
  let ?o = "op_builds (p + 1) (hd q) (tl q) []"
  have q: "hd q # tl q = q" "path_room q = 12 * length (tl q) + 72"
    using Cons.prems(2) by (cases q; simp add: path_ok_def path_room_def)+
  have a1: "ahead s (p + 1) (path_text q @ pipe_text qs)" using Cons.prems(1) ahead_Cons by auto
  have pos: "0 \<le> p" using Cons.prems(1) by (simp add: ahead_def)
  have e: "ahead s ?e (pipe_text qs)" using ahead_append [OF a1] .
  have bar: "lexes m s p JTOKEN_VBAR (p + 1)" using Cons.prems(1) by (auto intro: lex_vbar)
  obtain n1 where n: "n = Suc (Suc n1)" "length (tl q) + 8 \<le> n1" "pipe_room qs + 12 \<le> Suc n1"
    using Cons.prems(5) q(2) by (cases n; cases "n - 1") auto
  have ok: "list_all step_ok q" "quiet m" using Cons.prems by (auto simp: path_ok_def)
  have room: "length (?b @ [s_key (RuleRef 4)]) + 12 * length (tl q) + 50 \<le> MAX_BUILD_STEPS"
    using Cons.prems(4) q(2) by simp
  have "\<exists>x' a' b'. parseDispatch jqEnv n1 4 (p + 1) True (ctx m s (p + 1) p (p + 1) (?b @ [s_key (RuleRef 4)])) =
      Res ?e (ctx m s x' a' b' ((?b @ [s_key (RuleRef 4)]) @ ?o))"
    by (rule operation_parsed [of s "p + 1" "hd q" "tl q", unfolded q(1), OF a1 ok before_pipe(3) [OF e]
        before_pipe(1) [OF e] before_pipe(2) [OF e] room n(2)])
  then obtain x1 a1 b1 where o: "parseDispatch jqEnv n1 4 (p + 1) True
      (ctx m s (p + 1) p (p + 1) (?b @ [s_key (RuleRef 4)])) =
      Res ?e (ctx m s x1 a1 b1 ((?b @ [s_key (RuleRef 4)]) @ ?o))" by blast
  have l: "length ?o \<le> 10 * length (tl q) + 40" by (rule length_op_builds) simp
  have d: "parseDispatch jqEnv (Suc n1) 3 p True (ctx m s x a b ss) =
      Res ?e (ctx m s x1 a1 b1 (ss @ in_object 3 (s_part JTOKEN_VBAR p (p + 1) @ s_key (RuleRef 4) # ?o)))"
    using seq_rule [OF o, of "[]"] Cons.prems(4) q(2) l pos
    by (simp add: dispatch_seq seq_token [OF bar] popped_simps in_object_def)
  let ?s1 = "ss @ in_object 3 (s_part JTOKEN_VBAR p (p + 1) @ s_key (RuleRef 4) # ?o)"
  have "\<exists>x' a' b'. runStar jqEnv (Suc n1) (RuleRef 3) ?e (length ?s1) (ctx m s x1 a1 b1 ?s1) =
       Res (?e + int (length (pipe_text qs))) (ctx m s x' a' b' (?s1 @ pipe_builds ?e qs))"
    using Cons.prems q(2) l n by (intro Cons.IH [OF e]) (simp_all add: in_object_def)
  then show ?case using star_step [OF d, of "length ss"] pos n(1) by (simp add: algebra_simps)
qed

subsection \<open>Whole expressions\<close>

definition top_builds :: "path_step list \<Rightarrow> gBuildStep list \<Rightarrow> int \<Rightarrow> path_step list list \<Rightarrow> int \<Rightarrow> gBuildStep list" where
  "top_builds q extra q' qs e = in_object 0 (s_key (RuleRef 1) #
     in_object 1 (s_key (RuleRef 4) # op_builds 0 (hd q) (tl q) extra @
                  s_key (RuleRef 2) # in_array 2 (pipe_builds q' qs)) @
     s_part EOF_TOKEN e e)"

lemma length_pipe_builds: "length (pipe_builds p qs) \<le> pipe_room qs"
proof (induction qs arbitrary: p)
  case (Cons q qs)
  have "length (op_builds (p + 1) (hd q) (tl q) []) \<le> 10 * length (tl q) + 40"
    by (rule length_op_builds) simp
  then show ?case using Cons [of "path_end (p + 1) q"] by (simp add: in_object_def path_room_def)
qed simp

lemma expression_parsed:
  assumes a: "ahead s 0 (path_text q @ u)" and ok: "path_ok q" and m: "quiet m" and u: "stops u"
    and ends: "path_ends m s (path_end 0 q) q' extra"
    and nl: "last q = PContext \<Longrightarrow> nameless m s (path_end 0 q)"
    and tail: "\<And>n x a b ss. length ss + pipe_room qs + 50 \<le> MAX_BUILD_STEPS \<Longrightarrow> pipe_room qs + 12 \<le> n \<Longrightarrow>
      \<exists>x' a' b'. runStar jqEnv n (RuleRef 3) q' (length ss) (ctx m s x a b ss) =
        Res e (ctx m s x' a' b' (ss @ pipe_builds q' qs))"
    and eof: "lexes m s e EOF_TOKEN e" "0 \<le> e"
    and room: "path_room q + pipe_room qs + 100 \<le> MAX_BUILD_STEPS"
    and fuel: "path_room q + pipe_room qs \<le> n"
  shows "\<exists>x' a' b'. parseDispatch jqEnv n 0 0 False (ctx m s x a b []) =
    Res e (ctx m s x' a' b' (top_builds q extra q' qs e))"
proof -
  have q: "hd q # tl q = q" "path_room q = 12 * length (tl q) + 72" "list_all step_ok q"
    using ok by (cases q; simp add: path_ok_def path_room_def)+
  let ?o = "op_builds 0 (hd q) (tl q) extra"
  let ?b = "[s_object 0, s_key (RuleRef 1), s_object 1]"
  let ?c = "(?b @ [s_key (RuleRef 4)]) @ ?o"
  let ?d = "(?c @ [s_key (RuleRef 2)]) @ [s_array 2]"
  define k where "k = n - 3"
  have k: "n = Suc (Suc (Suc k))" "length (tl q) + 8 \<le> Suc k" "pipe_room qs + 12 \<le> k"
    using fuel q(2) by (simp_all add: k_def)
  have ex: "length extra \<le> 5" "0 \<le> q'" using path_ends_extra [OF ends] by auto
  have l: "length ?o \<le> 10 * length (tl q) + 40" "length (pipe_builds q' qs) \<le> pipe_room qs"
    by (rule length_op_builds [OF ex(1)], rule length_pipe_builds)
  have room': "length (?b @ [s_key (RuleRef 4)]) + 12 * length (tl q) + 50 \<le> MAX_BUILD_STEPS"
    using room q(2) by simp
  obtain x1 a1 b1 where op: "parseDispatch jqEnv (Suc k) 4 0 False (ctx m s x a b (?b @ [s_key (RuleRef 4)])) =
      Res q' (ctx m s x1 a1 b1 ?c)"
    using operation_parsed [of s 0 "hd q" "tl q", unfolded q(1), OF a q(3) m u ends nl room' k(2)] by blast
  have "length ?d + pipe_room qs + 50 \<le> MAX_BUILD_STEPS" using room l q(2) by simp
  then obtain x2 a2 b2 where star: "runStar jqEnv k (RuleRef 3) q' (length ?d) (ctx m s x1 a1 b1 ?d) =
      Res e (ctx m s x2 a2 b2 (?d @ pipe_builds q' qs))"
    using tail [OF _ k(3)] by blast
  have tl: "parseDispatch jqEnv (Suc k) 2 q' False (ctx m s x1 a1 b1 (?c @ [s_key (RuleRef 2)])) =
      Res e (ctx m s x2 a2 b2 (?d @ pipe_builds q' qs @ [s_pop]))"
    using star room l q(2) by (simp add: dispatch_star popped_simps)
  have ex: "parseDispatch jqEnv (Suc (Suc k)) 1 0 False (ctx m s x a b [s_object 0, s_key (RuleRef 1)]) =
      Res e (ctx m s x2 a2 b2 (?d @ pipe_builds q' qs @ [s_pop, s_pop]))"
    using seq_rule [OF op ex(2), of "[RuleRef 2]"] seq_rule [OF tl eof(2), of "[]"] room l q(2)
    by (simp add: dispatch_seq popped_simps)
  have "parseDispatch jqEnv n 0 0 False (ctx m s x a b []) =
      Res e (ctx m s e e e (?d @ pipe_builds q' qs @ [s_pop, s_pop] @ s_part EOF_TOKEN e e @ [s_pop]))"
    using seq_rule [where ss = "[s_object 0]" and refs = "[TokenRef EOF_TOKEN]", OF _ eof(2)] ex room l q(2)
    unfolding k(1)
    by (simp add: dispatch_seq seq_token [OF eof(1) _ eof(2)] popped_simps)
  then show ?thesis by (auto simp: top_builds_def in_object_def in_array_def)
qed

lemma gParse_jq:
  assumes "parseDispatch jqEnv n 0 0 False (ctx m s x a b []) = Res e c"
  shows "gParse n jqGrammar TOP jqAbstractTokenizer (lexer m s x a b) = Parsed e c jqEnv"
  using assms
  by (simp add: gParse_def jqGrammar_linked jqTop jqEnv_def [symmetric] del: jqEnv_simps)

end
