(* ===== verification/JqTree.thy ===== *)
theory JqTree
  imports JqParse
begin

section \<open>The JSON tree of a path\<close>

text \<open>
  What \<open>gBuildJSON\<close> makes of the build steps of a path, composed from what it makes of their parts:
  \<open>builds\<close> for the steps of one value and \<open>fills\<close> and \<open>fills_array\<close> for those that fill an object
  or an array. The last part reads the tree back from the store of the builder.
\<close>

text \<open>
  \<open>builds s d steps key j\<close>: when the parent takes a value under the key and the stack has room for
  \<open>d\<close> more parents, the steps attach the value \<open>j\<close> and leave the parent and the stack as they were.
\<close>

abbreviation loop :: "string \<Rightarrow> gBuildStep list \<Rightarrow> gbuild \<Rightarrow> gbuild option" where
  "loop s steps g \<equiv> gBuildJSONLoop jqEnv getJQRuleName s steps g"

definition builds :: "string \<Rightarrow> nat \<Rightarrow> gBuildStep list \<Rightarrow> string option \<Rightarrow> json \<Rightarrow> bool" where
  "builds s d steps key j \<longleftrightarrow>
     (\<forall>g rest. currentKey g = key \<longrightarrow> can_add (builder g) (currentParent g) key \<longrightarrow>
        length (parentStack g) + d \<le> MAX_DEPTH \<longrightarrow>
        (\<exists>b' k'. loop s (steps @ rest) g = loop s rest (g\<lparr>builder := b', currentKey := k'\<rparr>) \<and>
           (k' = None \<or> k' = key) \<and> grown (builder g) b' (currentParent g) key j))"

definition fills :: "string \<Rightarrow> nat \<Rightarrow> gBuildStep list \<Rightarrow> property list \<Rightarrow> bool" where
  "fills s d steps ps \<longleftrightarrow>
     (\<forall>g rest. obj_at (builder g) (currentParent g) \<longrightarrow> length (parentStack g) + d \<le> MAX_DEPTH \<longrightarrow>
        (\<exists>b' k'. loop s (steps @ rest) g = loop s rest (g\<lparr>builder := b', currentKey := k'\<rparr>) \<and>
           props_added (builder g) b' (currentParent g) ps))"

definition fills_array :: "string \<Rightarrow> nat \<Rightarrow> gBuildStep list \<Rightarrow> json list \<Rightarrow> bool" where
  "fills_array s d steps js \<longleftrightarrow>
     (\<forall>g rest. arr_at (builder g) (currentParent g) \<longrightarrow> currentKey g = None \<longrightarrow>
        length (parentStack g) + d \<le> MAX_DEPTH \<longrightarrow>
        (\<exists>b'. loop s (steps @ rest) g = loop s rest (g\<lparr>builder := b'\<rparr>) \<and>
           elems_added (builder g) b' (currentParent g) js))"

definition part_key :: "gRuleRef \<Rightarrow> string" where
  "part_key ref =
     (case ref of
        TokenRef t \<Rightarrow> if t = EOF_TOKEN then ''<EOF>'' else getJTokenName t
      | RuleRef r \<Rightarrow> getJQRuleName (rule_id (jqRules ! r)))"

lemma build_key:
  assumes "ref \<noteq> TokenRef NO_VALID_TOKEN"
  shows "loop s (s_key ref # rest) g = loop s rest (g\<lparr>currentKey := Some (part_key ref)\<rparr>)"
  using assms
  by (cases ref) (auto simp: s_key_def stepRef_def buildStepJSON_def step_codes part_key_def token_codes)

lemma build_pop:
  "parentStack g = p # ps \<Longrightarrow>
     loop s (s_pop # rest) g = loop s rest (g\<lparr>parentStack := ps, currentParent := p, currentKey := None\<rparr>)"
  by (simp add: s_pop_def stepRef_def buildStepJSON_def step_codes)

lemma fills_Nil: "fills s d [] []"
  unfolding fills_def
proof (intro allI impI)
  fix g :: gbuild and rest
  assume o: "obj_at (builder g) (currentParent g)"
  have "g = g\<lparr>builder := builder g, currentKey := currentKey g\<rparr>" by simp
  then show "\<exists>b' k'. loop s ([] @ rest) g = loop s rest (g\<lparr>builder := b', currentKey := k'\<rparr>) \<and>
      props_added (builder g) b' (currentParent g) []"
    using obj_at_Nil [OF o] by (metis append_Nil)
qed

lemma fills_Cons:
  assumes "ref \<noteq> TokenRef NO_VALID_TOKEN" "builds s d steps (Some (part_key ref)) j" "fills s d rst ps"
  shows "fills s d (s_key ref # steps @ rst) ((part_key ref, j) # ps)"
  unfolding fills_def
proof (intro allI impI)
  fix g :: gbuild and rest
  assume o: "obj_at (builder g) (currentParent g)" and d: "length (parentStack g) + d \<le> MAX_DEPTH"
  let ?g = "g\<lparr>currentKey := Some (part_key ref)\<rparr>"
  obtain b1 k1 where 1: "loop s (steps @ rst @ rest) ?g = loop s (rst @ rest) (g\<lparr>builder := b1, currentKey := k1\<rparr>)"
      "grown (builder g) b1 (currentParent g) (Some (part_key ref)) j"
    using assms(2) obj_at_can_add [OF o] d unfolding builds_def
    by (auto dest!: spec [of _ ?g] spec [of _ "rst @ rest"])
  have o1: "obj_at b1 (currentParent g)" using props_added_obj_at [OF obj_at_grown [OF o 1(2)]] .
  obtain b2 k2 where 2: "loop s (rst @ rest) (g\<lparr>builder := b1, currentKey := k1\<rparr>) =
      loop s rest (g\<lparr>builder := b2, currentKey := k2\<rparr>)" "props_added b1 b2 (currentParent g) ps"
    using assms(3) o1 d unfolding fills_def
    by (auto dest!: spec [of _ "g\<lparr>builder := b1, currentKey := k1\<rparr>"] spec [of _ rest])
  show "\<exists>b' k'. loop s ((s_key ref # steps @ rst) @ rest) g = loop s rest (g\<lparr>builder := b', currentKey := k'\<rparr>) \<and>
      props_added (builder g) b' (currentParent g) ((part_key ref, j) # ps)"
    using build_key [OF assms(1), of s "steps @ rst @ rest" g] 1(1) 2 props_added_step [OF o 1(2), of b2 ps]
    by auto
qed

lemma builds_object:
  assumes "fills s d body ps"
  shows "builds s (Suc d) (in_object r body) key (JObject ps)"
  unfolding builds_def
proof (intro allI impI)
  fix g :: gbuild and rest
  assume k: "currentKey g = key" and c: "can_add (builder g) (currentParent g) key"
    and d: "length (parentStack g) + Suc d \<le> MAX_DEPTH"
  obtain a e b1 where b1: "jsonBuildObject (builder g) (currentParent g) key = (a, e, b1)" by (metis prod_cases3)
  let ?g = "g\<lparr>builder := b1, parentStack := currentParent g # parentStack g, currentParent := a, currentKey := None\<rparr>"
  have s: "loop s (s_object r # body @ s_pop # rest) g = loop s (body @ s_pop # rest) ?g"
    using b1 k d by (simp add: s_object_def stepRef_def buildStepJSON_def step_codes pushParent_def Let_def)
  obtain b2 k2 where 2: "loop s (body @ s_pop # rest) ?g = loop s (s_pop # rest) (?g\<lparr>builder := b2, currentKey := k2\<rparr>)"
      "props_added b1 b2 a ps"
    using assms new_object [OF c b1] d unfolding fills_def
    by (auto dest!: spec [of _ ?g] spec [of _ "s_pop # rest"])
  have "loop s (s_pop # rest) (?g\<lparr>builder := b2, currentKey := k2\<rparr>) = loop s rest (g\<lparr>builder := b2, currentKey := None\<rparr>)"
    by (cases g) (subst build_pop, simp_all)
  then show "\<exists>b' k'. loop s (in_object r body @ rest) g = loop s rest (g\<lparr>builder := b', currentKey := k'\<rparr>) \<and>
      (k' = None \<or> k' = key) \<and> grown (builder g) b' (currentParent g) key (JObject ps)"
    using s 2 grown_object [OF c b1 2(2)] by (auto simp: in_object_def)
qed

lemma builds_array:
  assumes "fills_array s d body js"
  shows "builds s (Suc d) (in_array r body) key (JArray js)"
  unfolding builds_def
proof (intro allI impI)
  fix g :: gbuild and rest
  assume k: "currentKey g = key" and c: "can_add (builder g) (currentParent g) key"
    and d: "length (parentStack g) + Suc d \<le> MAX_DEPTH"
  obtain a e b1 where b1: "jsonBuildArray (builder g) (currentParent g) key = (a, e, b1)" by (metis prod_cases3)
  let ?g = "g\<lparr>builder := b1, parentStack := currentParent g # parentStack g, currentParent := a, currentKey := None\<rparr>"
  have s: "loop s (s_array r # body @ s_pop # rest) g = loop s (body @ s_pop # rest) ?g"
    using b1 k d by (simp add: s_array_def stepRef_def buildStepJSON_def step_codes pushParent_def Let_def)
  obtain b2 where 2: "loop s (body @ s_pop # rest) ?g = loop s (s_pop # rest) (?g\<lparr>builder := b2\<rparr>)"
      "elems_added b1 b2 a js"
    using assms new_array [OF c b1] d unfolding fills_array_def
    by (auto dest!: spec [of _ ?g] spec [of _ "s_pop # rest"])
  have "loop s (s_pop # rest) (?g\<lparr>builder := b2\<rparr>) = loop s rest (g\<lparr>builder := b2, currentKey := None\<rparr>)"
    by (cases g) (subst build_pop, simp_all)
  then show "\<exists>b' k'. loop s (in_array r body @ rest) g = loop s rest (g\<lparr>builder := b', currentKey := k'\<rparr>) \<and>
      (k' = None \<or> k' = key) \<and> grown (builder g) b' (currentParent g) key (JArray js)"
    using s 2 grown_array [OF c b1 2(2)] by (auto simp: in_array_def)
qed

lemma fills_array_Nil: "fills_array s d [] []"
  unfolding fills_array_def
proof (intro allI impI)
  fix g :: gbuild and rest
  assume o: "arr_at (builder g) (currentParent g)"
  have "g = g\<lparr>builder := builder g\<rparr>" by simp
  then show "\<exists>b'. loop s ([] @ rest) g = loop s rest (g\<lparr>builder := b'\<rparr>) \<and>
      elems_added (builder g) b' (currentParent g) []"
    using arr_at_Nil [OF o] by (metis append_Nil)
qed

lemma fills_array_append:
  assumes "builds s d steps None j" "fills_array s d rst js"
  shows "fills_array s d (steps @ rst) (j # js)"
  unfolding fills_array_def
proof (intro allI impI)
  fix g :: gbuild and rest
  assume o: "arr_at (builder g) (currentParent g)" and k: "currentKey g = None"
    and d: "length (parentStack g) + d \<le> MAX_DEPTH"
  obtain b1 k1 where 1: "loop s (steps @ rst @ rest) g = loop s (rst @ rest) (g\<lparr>builder := b1, currentKey := k1\<rparr>)"
      "k1 = None" "grown (builder g) b1 (currentParent g) None j"
    using assms(1) arr_at_can_add [OF o] k d unfolding builds_def
    by (auto dest!: spec [of _ g] spec [of _ "rst @ rest"])
  have g: "g\<lparr>builder := b1, currentKey := k1\<rparr> = g\<lparr>builder := b1\<rparr>" using k 1(2) by (cases g) simp
  have o1: "arr_at b1 (currentParent g)" using elems_added_arr_at [OF arr_at_grown [OF o 1(3)]] .
  obtain b2 where 2: "loop s (rst @ rest) (g\<lparr>builder := b1\<rparr>) = loop s rest (g\<lparr>builder := b2\<rparr>)"
      "elems_added b1 b2 (currentParent g) js"
    using assms(2) o1 k d unfolding fills_array_def
    by (auto dest!: spec [of _ "g\<lparr>builder := b1\<rparr>"] spec [of _ rest])
  show "\<exists>b'. loop s ((steps @ rst) @ rest) g = loop s rest (g\<lparr>builder := b'\<rparr>) \<and>
      elems_added (builder g) b' (currentParent g) (j # js)"
    using 1(1) 2 g elems_added_step [OF o 1(3), of b2 js] by auto
qed

lemma builds_alt:
  assumes "builds s d body (Some ''value'') j"
  shows "builds s (Suc d) (in_alt r ref body) key
    (JObject [(''altID'', JNumber (word_of_int (ruleRefID jqEnv ref))), (''value'', j)])"
  unfolding builds_def
proof (intro allI impI)
  fix g :: gbuild and rest
  assume k: "currentKey g = key" and c: "can_add (builder g) (currentParent g) key"
    and d: "length (parentStack g) + Suc d \<le> MAX_DEPTH"
  let ?alt = "JNumber (word_of_int (ruleRefID jqEnv ref))"
  obtain a e b1 where b1: "jsonBuildObject (builder g) (currentParent g) key = (a, e, b1)" by (metis prod_cases3)
  obtain n1 n2 b2 where b2: "jsonBuildInt b1 a (Some ''altID'') (word_of_int (ruleRefID jqEnv ref)) = (n1, n2, b2)"
    by (metis prod_cases3)
  let ?g = "g\<lparr>builder := b2, parentStack := currentParent g # parentStack g, currentParent := a, currentKey := Some ''value''\<rparr>"
  have s: "loop s (s_alt r ref # body @ s_pop # rest) g = loop s (body @ s_pop # rest) ?g"
    using b1 b2 k d by (simp add: s_alt_def stepRef_def buildStepJSON_def step_codes pushParent_def Let_def)
  have o: "obj_at b1 a" using new_object [OF c b1] .
  have "grown b1 (snd (snd (jsonBuildInt b1 a (Some ''altID'') (word_of_int (ruleRefID jqEnv ref))))) a (Some ''altID'') ?alt"
    unfolding jsonBuildInt_def by (rule grown_scalar [OF obj_at_can_add [OF o]]) simp
  then have 2: "grown b1 b2 a (Some ''altID'') ?alt" using b2 by simp
  have o2: "obj_at b2 a" using props_added_obj_at [OF obj_at_grown [OF o 2]] .
  obtain b3 k3 where 3: "loop s (body @ s_pop # rest) ?g = loop s (s_pop # rest) (?g\<lparr>builder := b3, currentKey := k3\<rparr>)"
      "grown b2 b3 a (Some ''value'') j"
    using assms obj_at_can_add [OF o2] d unfolding builds_def
    by (auto dest!: spec [of _ ?g] spec [of _ "s_pop # rest"])
  have p: "loop s (s_pop # rest) (?g\<lparr>builder := b3, currentKey := k3\<rparr>) = loop s rest (g\<lparr>builder := b3, currentKey := None\<rparr>)"
    by (cases g) (subst build_pop, simp_all)
  have "props_added b1 b3 a [(''altID'', ?alt), (''value'', j)]"
    using props_added_step [OF o 2 obj_at_grown [OF _ 3(2)]] .
  from grown_object [OF c b1 this]
  show "\<exists>b' k'. loop s (in_alt r ref body @ rest) g = loop s rest (g\<lparr>builder := b', currentKey := k'\<rparr>) \<and>
      (k' = None \<or> k' = key) \<and> grown (builder g) b' (currentParent g) key (JObject [(''altID'', ?alt), (''value'', j)])"
    using s 3(1) p by (auto simp: in_alt_def)
qed

subsection \<open>Tokens\<close>

definition span :: "string \<Rightarrow> int \<Rightarrow> int \<Rightarrow> string" where
  "span s p q = take (nat (q - p)) (drop (nat p) s)"

lemma builds_text:
  assumes "t \<noteq> JTOKEN_INTEGER"
  shows "builds s d [s_token t p q] (Some k) (JString (span s p q))"
  unfolding builds_def
proof (intro allI impI)
  fix g :: gbuild and rest
  assume g: "currentKey g = Some k" and c: "can_add (builder g) (currentParent g) (Some k)"
  let ?v = "span s p q"
  obtain n1 n2 b1 where b: "jsonBuildString (builder g) (currentParent g) (Some k) ?v (length ?v) = (n1, n2, b1)"
    by (metis prod_cases3)
  have "grown (builder g) (snd (snd (jsonBuildString (builder g) (currentParent g) (Some k) ?v (length ?v))))
      (currentParent g) (Some k) (JString ?v)"
    unfolding jsonBuildString_def using grown_scalar [OF c, of "JString ?v"] by simp
  then have "grown (builder g) b1 (currentParent g) (Some k) (JString ?v)" using b by simp
  moreover have "valueText s (s_token t p q) = ?v" by (simp add: valueText_def s_token_def stepRef_def span_def)
  moreover have "step_type (s_token t p q) = BUILD_STRING" using assms
    by (simp add: s_token_def stepRef_def tokenBuildType_def getJTokenJsonType_def json_type_codes)
  ultimately show "\<exists>b' k'. loop s ([s_token t p q] @ rest) g = loop s rest (g\<lparr>builder := b', currentKey := k'\<rparr>) \<and>
      (k' = None \<or> k' = Some k) \<and> grown (builder g) b' (currentParent g) (Some k) (JString ?v)"
    using b g by (auto simp: buildStepJSON_def step_codes Let_def)
qed

text \<open>The value of a number token, by \<open>strtoll\<close>.\<close>

definition number_json :: "string \<Rightarrow> json" where
  "number_json v = (if strtoll v < 0x7FFFFFFF then JNumber (word_of_int (strtoll v)) else JInt64 (word_of_int (strtoll v)))"

lemma builds_number: "builds s d [s_token JTOKEN_INTEGER p q] (Some k) (number_json (span s p q))"
  unfolding builds_def
proof (intro allI impI)
  fix g :: gbuild and rest
  assume g: "currentKey g = Some k" and c: "can_add (builder g) (currentParent g) (Some k)"
  let ?v = "span s p q"
  define r where "r = (if strtoll ?v < 0x7FFFFFFF
    then jsonBuildInt (builder g) (currentParent g) (Some k) (word_of_int (strtoll ?v))
    else jsonBuildInt64 (builder g) (currentParent g) (Some k) (word_of_int (strtoll ?v)))"
  obtain n1 n2 b1 where b: "r = (n1, n2, b1)" by (metis prod_cases3)
  have "grown (builder g) (snd (snd r)) (currentParent g) (Some k) (number_json ?v)"
    using grown_scalar [OF c, of "number_json ?v"]
    by (auto simp: r_def number_json_def jsonBuildInt_def jsonBuildInt64_def split: if_splits)
  then have gr: "grown (builder g) b1 (currentParent g) (Some k) (number_json ?v)" using b by simp
  have "valueText s (s_token JTOKEN_INTEGER p q) = ?v"
    by (simp add: valueText_def s_token_def stepRef_def span_def)
  moreover have "step_type (s_token JTOKEN_INTEGER p q) = BUILD_NUMBER"
    by (simp add: s_token_def stepRef_def tokenBuildType_def getJTokenJsonType_def json_type_codes)
  ultimately have "loop s ([s_token JTOKEN_INTEGER p q] @ rest) g = loop s rest (g\<lparr>builder := b1\<rparr>)"
    using b g unfolding r_def by (simp add: buildStepJSON_def step_codes Let_def)
  also have "g\<lparr>builder := b1\<rparr> = g\<lparr>builder := b1, currentKey := Some k\<rparr>" using g by (cases g) simp
  finally show "\<exists>b' k'. loop s ([s_token JTOKEN_INTEGER p q] @ rest) g =
        loop s rest (g\<lparr>builder := b', currentKey := k'\<rparr>) \<and>
      (k' = None \<or> k' = Some k) \<and> grown (builder g) b' (currentParent g) (Some k) (number_json ?v)"
    using gr by blast
qed

lemma fills_key:
  assumes "ref \<noteq> TokenRef NO_VALID_TOKEN"
  shows "fills s d [s_key ref] []"
  unfolding fills_def
proof (intro allI impI)
  fix g :: gbuild and rest
  assume o: "obj_at (builder g) (currentParent g)"
  have "loop s ([s_key ref] @ rest) g = loop s rest (g\<lparr>builder := builder g, currentKey := Some (part_key ref)\<rparr>)"
    using build_key [OF assms, of s rest g] by (cases g) simp
  then show "\<exists>b' k'. loop s ([s_key ref] @ rest) g = loop s rest (g\<lparr>builder := b', currentKey := k'\<rparr>) \<and>
      props_added (builder g) b' (currentParent g) []"
    using obj_at_Nil [OF o] by blast
qed

subsection \<open>Trees of paths\<close>

fun step_detail :: "path_step \<Rightarrow> property list" where
  "step_detail (PIndex n) =
     [(''LBRACK'', JString ''[''), (''INTEGER'', number_json (show_nat n)), (''RBRACK'', JString '']'')]"
| "step_detail (PPick k) = [(''DOT'', JString ''.''), (''ID'', JString k)]"
| "step_detail PExplode = [(''LBRACK'', JString ''[''), (''RBRACK'', JString '']'')]"
| "step_detail PContext = [(''DOT'', JString ''.'')]"

fun step_id :: "path_step \<Rightarrow> int" where
  "step_id (PIndex n) = INDEX"
| "step_id (PPick k) = PICK"
| "step_id PExplode = EXPLODE"
| "step_id PContext = CONTEXT"

definition alt_tree :: "int \<Rightarrow> json \<Rightarrow> json" where
  "alt_tree i v = JObject [(''altID'', JNumber (word_of_int i)), (''value'', v)]"

definition step_tree :: "path_step \<Rightarrow> json" where
  "step_tree st = alt_tree (step_id st) (JObject (step_detail st))"

definition junk_tree :: json where
  "junk_tree = alt_tree CONTEXT (JObject [])"

definition op_tree :: "path_step list \<Rightarrow> json list \<Rightarrow> json" where
  "op_tree q extra = alt_tree FILTER (JObject [(''TRAVERSAL'', step_tree (hd q)),
     (''MORE_TRAVERSALS'', JArray (map step_tree (tl q) @ extra))])"

definition pipe_tree :: "path_step list \<Rightarrow> json" where
  "pipe_tree q = JObject [(''VBAR'', JString ''|''), (''OPERATION'', op_tree q [])]"

definition top_tree :: "path_step list \<Rightarrow> json list \<Rightarrow> path_step list list \<Rightarrow> json" where
  "top_tree q extra qs = JObject
     [(''EXPR'', JObject [(''OPERATION'', op_tree q extra), (''EXPR_TAIL'', JArray (map pipe_tree qs))]),
      (''<EOF>'', JString [])]"

lemma part_keys:
  "part_key (TokenRef JTOKEN_LBRACK) = ''LBRACK''" "part_key (TokenRef JTOKEN_INTEGER) = ''INTEGER''"
  "part_key (TokenRef JTOKEN_RBRACK) = ''RBRACK''" "part_key (TokenRef JTOKEN_DOT) = ''DOT''"
  "part_key (TokenRef JTOKEN_IDENTIFIER) = ''ID''" "part_key (TokenRef JTOKEN_VBAR) = ''VBAR''"
  "part_key (TokenRef EOF_TOKEN) = ''<EOF>''" "part_key (RuleRef 1) = ''EXPR''"
  "part_key (RuleRef 4) = ''OPERATION''" "part_key (RuleRef 2) = ''EXPR_TAIL''"
  "part_key (RuleRef 13) = ''TRAVERSAL''" "part_key (RuleRef 14) = ''MORE_TRAVERSALS''"
  by code_simp+

lemma rule_ref_ids:
  "ruleRefID jqEnv (RuleRef 12) = FILTER" "ruleRefID jqEnv (RuleRef (step_rule_of st)) = step_id st"
  "ruleRefID jqEnv (RuleRef 18) = CONTEXT"
  by (simp_all add: ruleRefID_def) (cases st; simp)

lemma span_at: "ahead s p (v @ u) \<Longrightarrow> q = p + int (length v) \<Longrightarrow> span s p q = v"
  by (auto simp: span_def ahead_def)

lemma fills_text:
  assumes "ahead s p (v @ u)" "q = p + int (length v)" "t \<noteq> JTOKEN_INTEGER" "t \<noteq> NO_VALID_TOKEN" "fills s d rst ps"
  shows "fills s d (s_part t p q @ rst) ((part_key (TokenRef t), JString v) # ps)"
  using fills_Cons [of "TokenRef t", OF _ builds_text [OF assms(3)] assms(5), of p q] assms(4)
    span_at [OF assms(1,2)] by simp

lemma fills_number:
  assumes "ahead s p (v @ u)" "q = p + int (length v)" "fills s d rst ps"
  shows "fills s d (s_part JTOKEN_INTEGER p q @ rst) ((''INTEGER'', number_json v) # ps)"
  using fills_Cons [of "TokenRef JTOKEN_INTEGER", OF _ builds_number assms(3), of p q]
    span_at [OF assms(1,2)] by (simp add: distinct_tokens part_keys [unfolded distinct_tokens])

lemma not_integer:
  "JTOKEN_LBRACK \<noteq> JTOKEN_INTEGER" "JTOKEN_RBRACK \<noteq> JTOKEN_INTEGER" "JTOKEN_DOT \<noteq> JTOKEN_INTEGER"
  "JTOKEN_IDENTIFIER \<noteq> JTOKEN_INTEGER" "JTOKEN_VBAR \<noteq> JTOKEN_INTEGER" "EOF_TOKEN \<noteq> JTOKEN_INTEGER"
  "JTOKEN_LBRACK \<noteq> NO_VALID_TOKEN" "JTOKEN_RBRACK \<noteq> NO_VALID_TOKEN" "JTOKEN_DOT \<noteq> NO_VALID_TOKEN"
  "JTOKEN_IDENTIFIER \<noteq> NO_VALID_TOKEN" "JTOKEN_VBAR \<noteq> NO_VALID_TOKEN" "EOF_TOKEN \<noteq> NO_VALID_TOKEN"
  by (simp_all add: distinct_tokens)

lemma fills_step:
  assumes "ahead s p (step_text st @ u)"
  shows "fills s d (step_parts p st) (step_detail st)"
proof (cases st)
  case (PIndex n)
  let ?q = "p + 1 + int (length (show_nat n))"
  have a0: "ahead s p (''['' @ show_nat n @ '']'' @ u)" using assms PIndex by simp
  have a1: "ahead s (p + 1) (show_nat n @ '']'' @ u)" using ahead_append [OF a0] by simp
  have a2: "ahead s ?q ('']'' @ u)" using ahead_append [OF a1] by simp
  have "fills s d (s_part JTOKEN_RBRACK ?q (?q + 1) @ []) [(part_key (TokenRef JTOKEN_RBRACK), JString '']'')]"
    by (rule fills_text [OF a2 _ not_integer(2,8) fills_Nil]) simp
  from fills_text [OF a0 _ not_integer(1,7) fills_number [OF a1 _ this], of "p + 1" ?q]
  show ?thesis unfolding PIndex by (simp add: part_keys Let_def)
next
  case (PPick k)
  let ?q = "p + 1 + int (length k)"
  have a0: "ahead s p (''.'' @ k @ u)" using assms PPick by simp
  have a1: "ahead s (p + 1) (k @ u)" using ahead_append [OF a0] by simp
  have "fills s d (s_part JTOKEN_IDENTIFIER (p + 1) ?q @ []) [(part_key (TokenRef JTOKEN_IDENTIFIER), JString k)]"
    by (rule fills_text [OF a1 _ not_integer(4,10) fills_Nil]) simp
  from fills_text [OF a0 _ not_integer(3,9) this, of "p + 1"]
  show ?thesis unfolding PPick by (simp add: part_keys)
next
  case PExplode
  have a0: "ahead s p (''['' @ '']'' @ u)" using assms PExplode by simp
  have a1: "ahead s (p + 1) ('']'' @ u)" using ahead_append [OF a0] by simp
  have "fills s d (s_part JTOKEN_RBRACK (p + 1) (p + 2) @ []) [(part_key (TokenRef JTOKEN_RBRACK), JString '']'')]"
    by (rule fills_text [OF a1 _ not_integer(2,8) fills_Nil]) simp
  from fills_text [OF a0 _ not_integer(1,7) this, of "p + 1"]
  show ?thesis unfolding PExplode by (simp add: part_keys)
next
  case PContext
  have a0: "ahead s p (''.'' @ u)" using assms PContext by simp
  have "fills s d (s_part JTOKEN_DOT p (p + 1) @ []) [(part_key (TokenRef JTOKEN_DOT), JString ''.'')]"
    by (rule fills_text [OF a0 _ not_integer(3,9) fills_Nil]) simp
  then show ?thesis unfolding PContext by (simp add: part_keys)
qed

lemma builds_step:
  assumes "ahead s p (step_text st @ u)"
  shows "builds s (Suc (Suc d)) (step_builds p st) key (step_tree st)"
  using builds_alt [where r = 13 and ref = "RuleRef (step_rule_of st)",
      OF builds_object [where r = "step_rule_of st", OF fills_step [OF assms, of d]], of key]
  by (simp add: step_builds_def step_tree_def alt_tree_def rule_ref_ids)

lemma builds_junk: "builds s (Suc (Suc d)) junk_builds key junk_tree"
  using builds_alt [where r = 13 and ref = "RuleRef 18",
      OF builds_object [where r = 18, OF fills_key [where ref = "TokenRef JTOKEN_DOT" and d = d and s = s]], of key]
  by (simp add: junk_builds_def junk_tree_def alt_tree_def rule_ref_ids not_integer)

lemma fills_path:
  "ahead s p (path_text ps @ u) \<Longrightarrow> fills_array s (Suc (Suc d)) rst js \<Longrightarrow>
     fills_array s (Suc (Suc d)) (path_builds p ps @ rst) (map step_tree ps @ js)"
proof (induction ps arbitrary: p)
  case (Cons st ps)
  have a: "ahead s p (step_text st @ (path_text ps @ u))" using Cons.prems(1) by simp
  from fills_array_append [OF builds_step [OF a] Cons.IH [OF ahead_append [OF a] Cons.prems(2)]]
  show ?case by simp
qed simp

definition extra_trees :: "gBuildStep list \<Rightarrow> json list" where
  "extra_trees extra = (if extra = [] then [] else [junk_tree])"

lemma fills_extra:
  "extra = [] \<or> extra = junk_builds \<Longrightarrow> fills_array s (Suc (Suc d)) extra (extra_trees extra)"
  using fills_array_Nil fills_array_append [OF builds_junk fills_array_Nil]
  by (auto simp: extra_trees_def junk_builds_def in_alt_def)

lemma builds_op:
  assumes "ahead s p (path_text q @ u)" "path_ok q" "extra = [] \<or> extra = junk_builds"
  shows "builds s 6 (op_builds p (hd q) (tl q) extra) key (op_tree q (extra_trees extra))"
proof -
  have a: "ahead s p (step_text (hd q) @ (path_text (tl q) @ u))"
    using assms by (cases q) (simp_all add: path_ok_def)
  have arr: "builds s 4 (in_array 14 (path_builds (step_end p (hd q)) (tl q) @ extra)) (Some ''MORE_TRAVERSALS'')
      (JArray (map step_tree (tl q) @ extra_trees extra))"
    using builds_array [OF fills_path [OF ahead_append [OF a] fills_extra [OF assms(3)]], of 1] by (simp add: numeral_eq_Suc)
  have "builds s 4 (step_builds p (hd q)) (Some ''TRAVERSAL'') (step_tree (hd q))"
    using builds_step [OF a, of 2] by (simp add: numeral_eq_Suc)
  from builds_alt [where r = 4 and ref = "RuleRef 12" and key = key, OF builds_object [where r = 12, OF
      fills_Cons [where ref = "RuleRef 13", OF _ this [folded part_keys(11)]
        fills_Cons [where ref = "RuleRef 14", OF _ arr [folded part_keys(12)] fills_Nil]]]]
  show ?thesis
    by (simp add: op_builds_def op_tree_def alt_tree_def rule_ref_ids part_keys)
qed

lemma builds_pipe:
  assumes "ahead s p (CHR ''|'' # path_text q @ u)" "path_ok q"
  shows "builds s 7 (in_object 3 (s_part JTOKEN_VBAR p (p + 1) @ s_key (RuleRef 4) # op_builds (p + 1) (hd q) (tl q) []))
    key (pipe_tree q)"
proof -
  have a0: "ahead s p (''|'' @ path_text q @ u)" using assms(1) by simp
  have a1: "ahead s (p + 1) (path_text q @ u)" using ahead_append [OF a0] by simp
  have o: "builds s 6 (op_builds (p + 1) (hd q) (tl q) []) (Some (part_key (RuleRef 4))) (op_tree q [])"
    using builds_op [OF a1 assms(2), of "[]"] by (simp add: extra_trees_def)
  have "fills s 6 (s_key (RuleRef 4) # op_builds (p + 1) (hd q) (tl q) [] @ []) [(part_key (RuleRef 4), op_tree q [])]"
    by (rule fills_Cons [OF _ o fills_Nil]) simp
  from builds_object [where r = 3, OF fills_text [OF a0 _ not_integer(5,11) this, of "p + 1"]]
  show ?thesis by (simp add: pipe_tree_def part_keys)
qed

lemma fills_pipes:
  "ahead s p (pipe_text qs) \<Longrightarrow> list_all path_ok qs \<Longrightarrow> fills_array s 7 (pipe_builds p qs) (map pipe_tree qs)"
proof (induction qs arbitrary: p)
  case Nil
  show ?case using fills_array_Nil by simp
next
  case (Cons q qs)
  have a: "ahead s p (CHR ''|'' # path_text q @ pipe_text qs)" using Cons.prems(1) by simp
  have "ahead s (path_end (p + 1) q) (pipe_text qs)"
    using ahead_append [of s "p + 1" "path_text q"] ahead_Cons [OF a] by simp
  from fills_array_append [OF builds_pipe [OF a] Cons.IH [OF this]] Cons.prems(2) show ?case by simp
qed

lemma builds_top:
  assumes "ahead s 0 (path_text q @ u)" "path_ok q" "extra = [] \<or> extra = junk_builds"
    "qs = [] \<or> ahead s q' (pipe_text qs)" "list_all path_ok qs"
  shows "builds s 10 (top_builds q extra q' qs e) key (top_tree q (extra_trees extra) qs)"
proof -
  have arr: "fills_array s 7 (pipe_builds q' qs) (map pipe_tree qs)"
    using assms(4) fills_pipes [OF _ assms(5)] fills_array_Nil by auto
  have t: "builds s 8 (in_array 2 (pipe_builds q' qs)) (Some (part_key (RuleRef 2))) (JArray (map pipe_tree qs))"
    using builds_array [OF arr] by simp
  have w: "builds s d' steps k j \<Longrightarrow> d' \<le> d \<Longrightarrow> builds s d steps k j" for d' d steps k j
    by (fastforce simp: builds_def)
  have o: "builds s 8 (op_builds 0 (hd q) (tl q) extra) (Some (part_key (RuleRef 4))) (op_tree q (extra_trees extra))"
    by (rule w [OF builds_op [OF assms(1-3)]]) simp
  have "fills s 8 (s_key (RuleRef 4) # op_builds 0 (hd q) (tl q) extra @ s_key (RuleRef 2) # in_array 2 (pipe_builds q' qs) @ [])
      [(part_key (RuleRef 4), op_tree q (extra_trees extra)), (part_key (RuleRef 2), JArray (map pipe_tree qs))]"
    by (rule fills_Cons [OF _ o fills_Cons [OF _ t fills_Nil]]) simp_all
  note ex = w [OF builds_object [where r = 1, OF this], of 9]
  have "builds s 9 [s_token EOF_TOKEN e e] (Some (part_key (TokenRef EOF_TOKEN))) (JString [])"
    using builds_text [OF not_integer(6), of s 9 e e] by (simp add: span_def)
  from builds_object [where r = 0, OF fills_Cons [where ref = "RuleRef 1", OF _ ex
      fills_Cons [where ref = "TokenRef EOF_TOKEN", OF _ this fills_Nil]]]
  show ?thesis by (simp add: top_builds_def top_tree_def part_keys not_integer part_keys [simplified])
qed

lemma gBuildJSON_tree:
  assumes "builds s 10 steps None j"
  obtains r b where "gBuildJSON jqEnv getJQRuleName s steps = Some (r, b)" "is_tree (nodes b) 1 (next_node b) j r"
proof -
  let ?g = "\<lparr>builder = makeJsonBuilder, parentStack = [], currentParent = NULL, currentKey = None\<rparr>"
  have "can_add (builder ?g) (currentParent ?g) None" by (simp add: can_add_def makeJsonBuilder_def)
  then obtain b' k' where l: "loop s (steps @ []) ?g = loop s [] (?g\<lparr>builder := b', currentKey := k'\<rparr>)"
      and gr: "grown makeJsonBuilder b' NULL None j"
    using assms unfolding builds_def by (auto simp: MAX_DEPTH_def dest!: spec [of _ ?g] spec [of _ "[]"])
  have "gBuildJSON jqEnv getJQRuleName s steps = Some (root b', b')" using l by (simp add: gBuildJSON_def)
  moreover have "is_tree (nodes b') 1 (next_node b') j (root b')"
    using gr by (simp add: grown_def placed_def makeJsonBuilder_def)
  ultimately show ?thesis by (rule that)
qed

subsection \<open>Reading the tree\<close>

lemma json_at_scalar: "m a = Some (NScalar j) \<Longrightarrow> a < hi \<Longrightarrow> hi \<le> n + a \<Longrightarrow> json_at m n a = Some j"
  by (cases n) auto

lemma is_tree_bounds: "is_tree m lo hi j a \<Longrightarrow> lo \<le> a \<and> a < hi"
  by (cases j) auto

lemma is_tree_json_at:
  "is_tree m lo hi j a \<Longrightarrow> hi \<le> n + a \<Longrightarrow> json_at m n a = Some j"
  "are_props m lo hi ps qs \<Longrightarrow> hi \<le> n + lo \<Longrightarrow>
     those (map (\<lambda>(k, p). map_option (Pair k) (json_at m n p)) qs) = Some ps"
  "are_elems m lo hi js as \<Longrightarrow> hi \<le> n + lo \<Longrightarrow> those (map (json_at m n) as) = Some js"
proof (induction m lo hi j a and m lo hi ps qs and m lo hi js as arbitrary: n and n and n
    rule: is_tree_are_props_are_elems.induct)
  case (1 m lo hi ps a)
  obtain k where n: "n = Suc k" using 1(2,3) by (cases n) auto
  with 1 show ?case by (auto split: option.splits node.splits)
next
  case (2 m lo hi js a)
  obtain k where n: "n = Suc k" using 2(2,3) by (cases n) auto
  with 2 show ?case by (auto split: option.splits node.splits)
next
  case (5 m lo hi k j ps k' a qs)
  have b: "lo \<le> a" using 5(3) is_tree_bounds by auto
  have "json_at m n a = Some j" using 5 b by (intro 5(1)) auto
  then show ?case using 5 by simp
next
  case (8 m lo hi j js a as)
  have b: "lo \<le> a" using 8(3) is_tree_bounds by auto
  have "json_at m n a = Some j" using 8 b by (intro 8(1)) auto
  then show ?case using 8 by simp
qed (auto intro: json_at_scalar)

end
