(* ===== verification/JqEval.thy ===== *)
theory JqEval
  imports JqTree
begin

section \<open>Evaluating paths of the jq subset\<close>

text \<open>
  The meaning of a path as a function of the value alone, and the proof that the command \<open>jq\<close>, from
  the text of the filter to the calls that write, computes it.
\<close>

subsection \<open>What a path selects\<close>

text \<open>
  A path yields values in order, with an end of line behind each element of an exploded array, and
  then is done, raises an error, or crashes. \<open>None\<close> is the null pointer that an index behind the
  end of an array gives.
\<close>

datatype jq_out = Value json | Line

text \<open>The \<open>int\<close> that the code takes for the number \<open>n\<close> in brackets.\<close>

definition index_of :: "nat \<Rightarrow> int" where
  "index_of n = sint (word_of_int (strtoll (show_nat n)) :: cint)"

fun each_out :: "(jq_out list \<times> unit jq_result) list \<Rightarrow> jq_out list \<times> unit jq_result" where
  "each_out [] = ([], Done ())"
| "each_out ((os, Done u) # rs) = (case each_out rs of (os', r) \<Rightarrow> (os @ Line # os', r))"
| "each_out ((os, r) # rs) = (os, r)"

fun path_out :: "path_step list \<Rightarrow> json option \<Rightarrow> jq_out list \<times> unit jq_result" where
  "path_out [] v = (case v of None \<Rightarrow> ([], EvalCrash) | Some j \<Rightarrow> ([Value j], Done ()))"
| "path_out (PContext # ps) v = path_out ps v"
| "path_out (PPick k # ps) v =
     (case v of
        None \<Rightarrow> ([], Raise JQ_INTERNAL_NULL_POINTER)
      | Some (JObject props) \<Rightarrow>
          (case jsonObjectGetPropertyValue props k of
             None \<Rightarrow> ([], Raise JQ_MISSING_PROPERTY)
           | Some w \<Rightarrow> path_out ps (Some w))
      | Some _ \<Rightarrow> ([], Raise JQ_NOT_AN_OBJECT))"
| "path_out (PIndex n # ps) v =
     (if index_of n = -1 then ([], Raise JQ_NON_INTEGER_ARRAY_INDEX_NOT_YET_SUPPORTED)
      else case v of
        None \<Rightarrow> ([], EvalCrash)
      | Some (JArray js) \<Rightarrow>
          if index_of n \<ge> int (length js) then path_out ps None
          else if index_of n < 0 then ([], EvalCrash)
          else path_out ps (Some (js ! nat (index_of n)))
      | Some _ \<Rightarrow> ([], Raise JQ_NOT_AN_ARRAY))"
| "path_out (PExplode # ps) v =
     (case v of
        None \<Rightarrow> ([], EvalCrash)
      | Some (JArray js) \<Rightarrow> each_out (map (\<lambda>j. path_out ps (Some j)) js)
      | Some _ \<Rightarrow> ([], Raise JQ_NOT_AN_ARRAY))"

text \<open>How an output is written.\<close>

fun out_event :: "json_env \<Rightarrow> bool \<Rightarrow> bool \<Rightarrow> jq_out \<Rightarrow> jq_event" where
  "out_event e raw pretty Line = ToStream [CHR 0x0A]"
| "out_event e raw pretty (Value j) =
     (if raw \<and> jsonIsString j then ToStream (the (jsonAsString j))
      else ToDescriptor (value_text e jsonEscapeNative pretty 0 j))"

definition exit_code :: "unit jq_result \<Rightarrow> int option" where
  "exit_code r = (case r of Done _ \<Rightarrow> Some JQ_SUCCESS | Raise e \<Rightarrow> Some e | EvalCrash \<Rightarrow> None)"

subsection \<open>Writing a value\<close>

text \<open>The printer stays in error once it is.\<close>

lemma print_stays_failed:
  "ioErrorFlag p \<Longrightarrow> ioErrorFlag (jsonPrintInternal e p key j)"
  "ioErrorFlag p \<Longrightarrow> ioErrorFlag (jsonPrintObject e p ps)"
  "ioErrorFlag p \<Longrightarrow> ioErrorFlag (jsonPrintArray e p js)"
  by (induction e p key j and e p ps and e p js rule: jsonPrintInternal_jsonPrintObject_jsonPrintArray.induct)
     (simp_all add: jsonAddInt_def jsonAddInt64_def jsonAddDouble_def jsonAddString_def jsonAddBoolean_def
        jsonAddNull_def jsonStartObject_def jsonEndObject_def jsonStartArray_def jsonEndArray_def)

definition settings :: "json_env \<Rightarrow> bool \<Rightarrow> bool \<Rightarrow> jqEvalContext \<Rightarrow> bool" where
  "settings e raw pretty c \<longleftrightarrow> env c = e \<and> rawStrings c = raw \<and> prettyPrint (printer c) = pretty"

definition fresh :: "json_env \<Rightarrow> bool \<Rightarrow> bool \<Rightarrow> jqEvalContext \<Rightarrow> bool" where
  "fresh e raw pretty c \<longleftrightarrow> settings e raw pretty c \<and> mode (printer c) = NativeCharset \<and>
     isFirstLine (printer c) \<and> depth (printer c) = 0"

definition failing :: "jqEvalContext \<Rightarrow> bool" where
  "failing c \<longleftrightarrow> ioErrorFlag (printer c)"

abbreviation clean :: "json option \<Rightarrow> bool" where
  "clean v \<equiv> (case v of None \<Rightarrow> True | Some j \<Rightarrow> JsonPrinter.no_error j)"

text \<open>\<open>conforms f ps\<close>: on a fresh printer \<open>f\<close> writes what the path \<open>ps\<close> selects and ends as it does.\<close>

definition conforms :: "json_env \<Rightarrow> bool \<Rightarrow> bool \<Rightarrow> (json option \<Rightarrow> jq_step) \<Rightarrow> path_step list \<Rightarrow> bool" where
  "conforms e raw pretty f ps \<longleftrightarrow>
     (\<forall>v c r c'. fresh e raw pretty c \<longrightarrow> clean v \<longrightarrow> f v c = (r, c') \<longrightarrow> \<not> failing c' \<longrightarrow>
        settings e raw pretty c' \<and>
        (\<exists>os. path_out ps v = (os, r) \<and> events c' = events c @ map (out_event e raw pretty) os))"

lemma jsonPrint_fresh:
  assumes "fresh e raw pretty c" "JsonPrinter.no_error j" "\<not> ioErrorFlag (jsonPrint e (printer c) j)"
  shows "pout (jsonPrint e (printer c) j) =
      pout (printer c) @ value_text e jsonEscapeNative pretty 0 j"
    "prettyPrint (jsonPrint e (printer c) j) = pretty"
proof -
  let ?p = "printer c"
  have p: "plain ?p" "isFirstLine ?p" "mode ?p = NativeCharset" "depth ?p = 0" "prettyPrint ?p = pretty"
    using assms(1) by (auto simp: fresh_def settings_def plain_def)
  from jsonPrint_wrote(1) [of ?p j e None] p assms(2,3)
  have w: "wrote (after j ?p) (jsonPrint e ?p j) (key_of ?p None @ value_text e (esc_of ?p) pretty 0 j)"
    by (simp add: jsonPrint_def)
  have k: "key_of ?p None = []" using p(2) by (simp add: key_of_def sep_def key_text_def)
  have a: "pout (after j ?p) = pout ?p" "prettyPrint (after j ?p) = pretty"
    using p(5) by (simp_all add: after_def closed_def settled_def)
  show "pout (jsonPrint e ?p j) = pout ?p @ value_text e jsonEscapeNative pretty 0 j"
    using w k a p(3) by (simp add: wrote_def esc_of_def)
  show "prettyPrint (jsonPrint e ?p j) = pretty" using wrote_fields(6) [OF w] a by simp
qed

lemma conforms_print: "conforms e raw pretty jqPrint []"
  unfolding conforms_def
proof (intro allI impI)
  fix v c r c'
  assume f: "fresh e raw pretty c" and v: "clean v" and p: "jqPrint v c = (r, c')" and io: "\<not> failing c'"
  have s: "settings e raw pretty c" using f by (simp add: fresh_def)
  show "settings e raw pretty c' \<and>
      (\<exists>os. path_out [] v = (os, r) \<and> events c' = events c @ map (out_event e raw pretty) os)"
  proof (cases v)
    case None
    then show ?thesis using p s io by (auto simp: jqPrint_def)
  next
    case (Some j)
    show ?thesis
    proof (cases "jsonIsString j \<and> raw")
      case True
      then show ?thesis using Some p s io by (auto simp: jqPrint_def settings_def failing_def)
    next
      case False
      then have c': "c' = c\<lparr>printer := jsonPrint e (printer c) j, events := events c @
          [ToDescriptor (drop (length (pout (printer c))) (pout (jsonPrint e (printer c) j)))]\<rparr>" "r = Done ()"
        using Some p s by (auto simp: jqPrint_def settings_def Let_def)
      then have "\<not> ioErrorFlag (jsonPrint e (printer c) j)" using io by (simp add: failing_def)
      from jsonPrint_fresh [OF f _ this] v Some have
        "pout (jsonPrint e (printer c) j) = pout (printer c) @ value_text e jsonEscapeNative pretty 0 j"
        "prettyPrint (jsonPrint e (printer c) j) = pretty" by auto
      then show ?thesis using c' Some s False by (auto simp: settings_def)
    qed
  qed
qed

subsection \<open>One step\<close>

definition nextStep :: "json option \<Rightarrow> nat \<Rightarrow> nat \<Rightarrow> json option \<Rightarrow> jq_step" where
  "nextStep filt i m v c = (if i + 1 \<le> m then evalTraversal v filt (i + 1) m c else jqPrint v c)"

lemma explodeLoop_Cons:
  "explodeLoop (j # js) filt i m c =
     (case nextStep filt i m (Some j) (c\<lparr>printer := jsonPrinterReset (printer c)\<rparr>) of
        (Done _, c2) \<Rightarrow> explodeLoop js filt i m (c2\<lparr>events := events c2 @ [ToStream [CHR 0x0A]]\<rparr>)
      | (r, c2) \<Rightarrow> (r, c2))"
  by (simp add: nextStep_def Let_def)

lemma evalTraversal_next:
  "evalTraversal v filt i m c =
     (case traversalAt filt i of
        Done (ty, details) \<Rightarrow>
          (if sint ty = INDEX then
             (case indexedValue v details of Done w \<Rightarrow> nextStep filt i m w c | r \<Rightarrow> (failStep r, c))
           else if sint ty = PICK then
             (case pickedValue v details of Done w \<Rightarrow> nextStep filt i m w c | r \<Rightarrow> (failStep r, c))
           else if sint ty = EXPLODE then
             (case jqCastToArray v of Done js \<Rightarrow> explodeLoop js filt i m c | r \<Rightarrow> (failStep r, c))
           else if sint ty = CONTEXT then nextStep filt i m v c
           else (Raise JQ_UNEXPECTED_OPERATION, c))
      | r \<Rightarrow> (failStep r, c))"
  by (subst evalTraversal.simps) (simp only: nextStep_def)

lemma reset_fresh: "settings e raw pretty c \<Longrightarrow> fresh e raw pretty (c\<lparr>printer := jsonPrinterReset (printer c)\<rparr>)"
  by (simp add: fresh_def settings_def jsonPrinterReset_def)

lemma stays_failing:
  "failing c \<Longrightarrow> failing (snd (evalTraversal v filt i m c))"
  "failing c \<Longrightarrow> failing (snd (explodeLoop js filt i m c))"
proof (induction v filt i m c and js filt i m c rule: evalTraversal_explodeLoop.induct)
  case (1 v filt i m c)
  have p: "failing (snd (jqPrint w c))" for w
    using "1.prems" print_stays_failed(1)
    by (auto simp: jqPrint_def failing_def jsonPrint_def Let_def split: option.split)
  show ?case
    using 1 p by (subst evalTraversal.simps) (auto split: jq_result.splits)
next
  case (3 j js filt i m c)
  let ?c = "c\<lparr>printer := jsonPrinterReset (printer c)\<rparr>"
  have f: "failing ?c" using "3.prems" by (simp add: failing_def jsonPrinterReset_def)
  have p: "failing (snd (jqPrint w ?c))" for w
    using f print_stays_failed(1)
    by (auto simp: jqPrint_def failing_def jsonPrint_def Let_def split: option.split)
  obtain r1 c1 where n: "(if i + 1 \<le> m then evalTraversal (Some j) filt (i + 1) m ?c else jqPrint (Some j) ?c) = (r1, c1)"
    by fastforce
  have c1: "failing c1"
    using n p [of "Some j"] "3.IH"(1) [OF refl _ f] by (auto split: if_splits)
  show ?case
  proof (cases "\<exists>u. r1 = Done u")
    case True
    then show ?thesis using n c1 "3.IH"(2) [OF refl n [symmetric]] by (auto simp: failing_def)
  next
    case False
    then show ?thesis using n c1 by (cases r1) auto
  qed
qed simp

lemma conformsD:
  assumes "conforms e raw pretty f ps" "fresh e raw pretty c" "clean v" "f v c = (r, c')" "\<not> failing c'"
  shows "settings e raw pretty c'"
    "\<exists>os. path_out ps v = (os, r) \<and> events c' = events c @ map (out_event e raw pretty) os"
  using assms unfolding conforms_def by blast+

lemma explode_conforms:
  assumes "conforms e raw pretty (nextStep filt i m) ps"
  shows "settings e raw pretty c \<Longrightarrow> \<forall>j\<in>set js. JsonPrinter.no_error j \<Longrightarrow> explodeLoop js filt i m c = (r, c') \<Longrightarrow>
     \<not> failing c' \<Longrightarrow> settings e raw pretty c' \<and>
        (\<exists>os. each_out (map (\<lambda>j. path_out ps (Some j)) js) = (os, r) \<and>
              events c' = events c @ map (out_event e raw pretty) os)"
proof (induction js arbitrary: c)
  case Nil
  then show ?case by auto
next
  case (Cons j js)
  let ?c = "c\<lparr>printer := jsonPrinterReset (printer c)\<rparr>"
  have f: "fresh e raw pretty ?c" using Cons.prems(1) by (rule reset_fresh)
  obtain r1 c1 where n: "nextStep filt i m (Some j) ?c = (r1, c1)" by fastforce
  have step: "settings e raw pretty c1 \<and>
      (\<exists>os. path_out ps (Some j) = (os, r1) \<and> events c1 = events c @ map (out_event e raw pretty) os)"
    if "\<not> failing c1"
  proof -
    have v: "clean (Some j)" using Cons.prems(2) by simp
    have ev: "events ?c = events c" by simp
    show ?thesis using conformsD(1) [OF assms f v n that] conformsD(2) [OF assms f v n that]
      by (simp only: ev)
  qed
  show ?case
  proof (cases "\<exists>u. r1 = Done u")
    case False
    have "explodeLoop (j # js) filt i m c = (r1, c1)"
      unfolding explodeLoop_Cons n using False by (cases r1) simp_all
    then have "r = r1" "c' = c1" using Cons.prems(3) by simp_all
    moreover have "each_out ((os, r1) # rs) = (os, r1)" for os rs using False by (cases r1) auto
    ultimately show ?thesis using step Cons.prems(4) by auto
  next
    case True
    let ?c1 = "c1\<lparr>events := events c1 @ [ToStream [CHR 0x0A]]\<rparr>"
    have l: "explodeLoop js filt i m ?c1 = (r, c')" 
      using True Cons.prems(3) n unfolding explodeLoop_Cons by auto
    have nf: "\<not> failing c1"
      using stays_failing(2) [of ?c1 js filt i m] l Cons.prems(4) by (auto simp: failing_def)
    have "settings e raw pretty ?c1" using step [OF nf] by (simp add: settings_def)
    from Cons.IH [OF this _ l Cons.prems(4)] Cons.prems(2) step [OF nf] True show ?thesis
      by (auto split: prod.splits)
  qed
qed

lemma conforms_context:
  assumes "conforms e raw pretty (nextStep filt i m) ps"
    "traversalAt filt i = Done (word_of_int CONTEXT, details)"
  shows "conforms e raw pretty (\<lambda>v. evalTraversal v filt i m) (PContext # ps)"
  using assms unfolding conforms_def
  by (subst evalTraversal_next) (simp add: jq_rule_ids rule_codes)

lemma conforms_explode:
  assumes "conforms e raw pretty (nextStep filt i m) ps"
    "traversalAt filt i = Done (word_of_int EXPLODE, details)"
  shows "conforms e raw pretty (\<lambda>v. evalTraversal v filt i m) (PExplode # ps)"
  unfolding conforms_def
proof (intro allI impI)
  fix v c r c'
  assume f: "fresh e raw pretty c" and v: "clean v" and ev: "evalTraversal v filt i m c = (r, c')" and io: "\<not> failing c'"
  have s: "settings e raw pretty c" using f by (simp add: fresh_def)
  have ev': "(case jqCastToArray v of Done js \<Rightarrow> explodeLoop js filt i m c | r \<Rightarrow> (failStep r, c)) = (r, c')"
    using ev by (subst (asm) evalTraversal_next) (simp add: assms(2) jq_rule_ids rule_codes)
  show "settings e raw pretty c' \<and>
      (\<exists>os. path_out (PExplode # ps) v = (os, r) \<and> events c' = events c @ map (out_event e raw pretty) os)"
  proof (cases v)
    case None
    then show ?thesis using ev' s by (auto simp: jqCastToArray_def failStep_def)
  next
    case (Some j)
    show ?thesis
    proof (cases "\<exists>js. j = JArray js")
      case True
      then obtain js where j: "j = JArray js" by blast
      have l: "explodeLoop js filt i m c = (r, c')" using ev' Some j by (simp add: jqCastToArray_def)
      from explode_conforms [OF assms(1) s _ l io] v Some j show ?thesis by simp
    next
      case False
      then show ?thesis using ev' s Some by (cases j) (auto simp: jqCastToArray_def failStep_def)
    qed
  qed
qed

lemma clean_property: "clean (Some (JObject ps)) \<Longrightarrow> jsonObjectGetPropertyValue ps k = Some w \<Longrightarrow> clean (Some w)"
  using getPropertyValue_set by fastforce

lemma conforms_pick:
  assumes n: "conforms e raw pretty (nextStep filt i m) ps"
    and t: "traversalAt filt i = Done (word_of_int PICK, Some (JObject (step_detail (PPick k))))"
  shows "conforms e raw pretty (\<lambda>v. evalTraversal v filt i m) (PPick k # ps)"
  unfolding conforms_def
proof (intro allI impI)
  fix v c r c'
  assume f: "fresh e raw pretty c" and v: "clean v" and ev: "evalTraversal v filt i m c = (r, c')" and io: "\<not> failing c'"
  have s: "settings e raw pretty c" using f by (simp add: fresh_def)
  let ?p = "pickedValue v (Some (JObject (step_detail (PPick k))))"
  have ev': "(case ?p of Done w \<Rightarrow> nextStep filt i m w c | r \<Rightarrow> (failStep r, c)) = (r, c')"
    using ev by (subst (asm) evalTraversal_next) (simp add: t jq_rule_ids rule_codes)
  have p: "?p = (case v of
        None \<Rightarrow> Raise JQ_INTERNAL_NULL_POINTER
      | Some (JObject props) \<Rightarrow>
          (case jsonObjectGetPropertyValue props k of None \<Rightarrow> Raise JQ_MISSING_PROPERTY | Some w \<Rightarrow> Done (Some w))
      | Some _ \<Rightarrow> Raise JQ_NOT_AN_OBJECT)"
    by (auto simp: pickedValue_def jqCastToObject_def getJQString_def getJQProperty_def jsonIsObject_def
        jsonIsString_def json_type_codes split: option.splits json.splits)
  show "settings e raw pretty c' \<and>
      (\<exists>os. path_out (PPick k # ps) v = (os, r) \<and> events c' = events c @ map (out_event e raw pretty) os)"
  proof (cases "\<exists>props w. v = Some (JObject props) \<and> jsonObjectGetPropertyValue props k = Some w")
    case True
    then obtain props w where w: "v = Some (JObject props)" "jsonObjectGetPropertyValue props k = Some w" by blast
    have "clean (Some w)" using clean_property [OF _ w(2)] v w(1) by simp
    moreover have "nextStep filt i m (Some w) c = (r, c')" using ev' unfolding p by (simp add: w)
    ultimately show ?thesis using conformsD [OF n f _ _ io, of "Some w" r] w by simp
  next
    case False
    then have "(\<exists>x. ?p = Raise x \<and> path_out (PPick k # ps) v = ([], Raise x))"
      unfolding p by (auto split: option.splits json.splits)
    then show ?thesis using ev' s by (auto simp: failStep_def)
  qed
qed

lemma jsonAsNumber_number: "jsonIsNumber (number_json t) \<and> jsonAsNumber (number_json t) = word_of_int (strtoll t)"
proof -
  have "ucast (word_of_int k :: 64 word) = (word_of_int k :: cint)" for k
    by (rule bit_word_eqI) (simp add: bit_ucast_iff bit_word_of_int_iff)
  then show ?thesis by (cases "strtoll t < 0x7FFFFFFF") (simp_all add: number_json_def jsonIsNumber_def)
qed

lemma conforms_index:
  assumes n: "conforms e raw pretty (nextStep filt i m) ps"
    and t: "traversalAt filt i = Done (word_of_int INDEX, Some (JObject (step_detail (PIndex x))))"
  shows "conforms e raw pretty (\<lambda>v. evalTraversal v filt i m) (PIndex x # ps)"
  unfolding conforms_def
proof (intro allI impI)
  fix v c r c'
  assume f: "fresh e raw pretty c" and v: "clean v" and ev: "evalTraversal v filt i m c = (r, c')" and io: "\<not> failing c'"
  have s: "settings e raw pretty c" using f by (simp add: fresh_def)
  let ?p = "indexedValue v (Some (JObject (step_detail (PIndex x))))"
  let ?w = "word_of_int (strtoll (show_nat x)) :: cint"
  have ev': "(case ?p of Done w \<Rightarrow> nextStep filt i m w c | r \<Rightarrow> (failStep r, c)) = (r, c')"
    using ev by (subst (asm) evalTraversal_next) (simp add: t jq_rule_ids rule_codes)
  have m1: "?w = - 1 \<longleftrightarrow> index_of x = - 1" unfolding index_of_def by (metis signed_word_eqI sint_n1)
  have p: "?p = (if index_of x = -1 then Raise JQ_NON_INTEGER_ARRAY_INDEX_NOT_YET_SUPPORTED
      else case v of
        None \<Rightarrow> EvalCrash
      | Some (JArray js) \<Rightarrow>
          if index_of x \<ge> int (length js) then Done None
          else if index_of x < 0 then EvalCrash else Done (Some (js ! nat (index_of x)))
      | Some _ \<Rightarrow> Raise JQ_NOT_AN_ARRAY)"
    using jsonAsNumber_number [of "show_nat x"] m1
    by (auto simp: indexedValue_def jqCastToObject_def jqCastToArray_def getJQInt_def getJQProperty_def jsonIsObject_def
        json_type_codes jqItem_def index_of_def split: option.splits json.splits)
  show "settings e raw pretty c' \<and>
      (\<exists>os. path_out (PIndex x # ps) v = (os, r) \<and> events c' = events c @ map (out_event e raw pretty) os)"
  proof (cases "\<exists>w. ?p = Done w")
    case True
    then obtain w where w: "?p = Done w" by blast
    have "clean w \<and> path_out (PIndex x # ps) v = path_out ps w"
      using w v unfolding p by (auto split: if_splits option.splits json.splits)
    moreover have "nextStep filt i m w c = (r, c')" using ev' w by simp
    ultimately show ?thesis using conformsD [OF n f _ _ io, of w r] by simp
  next
    case False
    then have "path_out (PIndex x # ps) v = ([], failStep ?p) \<and> (r, c') = (failStep ?p, c)"
      using ev' unfolding p by (auto simp: failStep_def split: if_splits option.splits json.splits)
    then show ?thesis using s by auto
  qed
qed

subsection \<open>A whole path\<close>

lemma conforms_step:
  assumes "conforms e raw pretty (nextStep filt i m) ps"
    and "traversalAt filt i = Done (word_of_int (step_id st), Some (JObject d))"
    and "d = step_detail st \<or> st = PContext"
  shows "conforms e raw pretty (\<lambda>v. evalTraversal v filt i m) (st # ps)"
  using assms by (cases st) (auto intro: conforms_index conforms_pick conforms_explode conforms_context)

definition filter_tree :: "json list \<Rightarrow> json" where
  "filter_tree ts = JObject [(''TRAVERSAL'', hd ts), (''MORE_TRAVERSALS'', JArray (tl ts))]"

lemma traversalAt_tree:
  assumes "i < length ts" "ts ! i = alt_tree k d"
  shows "traversalAt (Some (filter_tree ts)) i = Done (word_of_int k, Some d)"
proof (cases i)
  case 0
  then have "hd ts = alt_tree k d" using assms by (cases ts) auto
  then show ?thesis using 0
    by (simp add: traversalAt_def jqCastToObject_def getJQProperty_def getJQArray_def getJQInt_def filter_tree_def
        alt_tree_def jsonIsObject_def jsonIsArray_def jsonIsNumber_def)
next
  case (Suc n)
  then have "tl ts ! n = alt_tree k d" "n < length (tl ts)" using assms by (cases ts; simp)+
  then show ?thesis using Suc
    by (simp add: traversalAt_def jqCastToObject_def getJQProperty_def getJQArray_def getJQInt_def filter_tree_def
        alt_tree_def jsonIsObject_def jsonIsArray_def jsonIsNumber_def jqItem_def)
qed

text \<open>The trees \<open>ts\<close> are those of the steps \<open>sts\<close>; of a lone dot the details do not matter.\<close>

definition tree_of :: "path_step \<Rightarrow> json \<Rightarrow> bool" where
  "tree_of st t \<longleftrightarrow> (\<exists>d. t = alt_tree (step_id st) (JObject d) \<and> (d = step_detail st \<or> st = PContext))"

lemma conforms_path:
  assumes t: "list_all2 tree_of sts ts" and m: "length ts = Suc m" and i: "i \<le> m"
  shows "conforms e raw pretty (\<lambda>v. evalTraversal v (Some (filter_tree ts)) i m) (drop i sts)"
  using i
proof (induction i rule: inc_induct)
  have l: "length sts = length ts" using t by (rule list_all2_lengthD)
  have at: "\<exists>d. traversalAt (Some (filter_tree ts)) k = Done (word_of_int (step_id (sts ! k)), Some (JObject d)) \<and>
      (d = step_detail (sts ! k) \<or> sts ! k = PContext)" if "k \<le> m" for k
    using list_all2_nthD2 [OF t, of k] traversalAt_tree [of k ts] that m by (auto simp: tree_of_def)
  {
    case base
    have "conforms e raw pretty (nextStep (Some (filter_tree ts)) m m) []"
      using conforms_print by (simp add: nextStep_def [abs_def])
    moreover have "drop m sts = [sts ! m]" using l m by (simp add: Cons_nth_drop_Suc [symmetric])
    ultimately show ?case using at [of m] conforms_step by auto
  next
    case (step k)
    have "conforms e raw pretty (nextStep (Some (filter_tree ts)) k m) (drop (Suc k) sts)"
      using step by (simp add: nextStep_def [abs_def])
    moreover have "drop k sts = sts ! k # drop (Suc k) sts" using step l m by (simp add: Cons_nth_drop_Suc)
    ultimately show ?case using at [of k] step conforms_step by auto
  }
qed

lemma each_out_cong:
  "(\<And>j. j \<in> set js \<Longrightarrow> f j = g j) \<Longrightarrow> each_out (map f js) = each_out (map g js)"
  by (metis map_eq_conv)

lemma path_out_context: "path_out (q @ [PContext]) v = path_out q v"
  by (induction q v rule: path_out.induct) (auto split: option.splits json.splits intro!: each_out_cong)

lemma evalJQ_path:
  assumes q: "q \<noteq> []" and x: "extra = [] \<or> extra = [junk_tree]" and v: "clean v"
    and ev: "evalJQ environment answers raw pretty v (Some (top_tree q extra qs)) = (code, c)"
    and io: "\<not> ioErrorFlag (printer c)"
  shows "\<exists>os r. path_out q v = (os, r) \<and> code = exit_code r \<and> events c = map (out_event environment raw pretty) os"
proof -
  let ?ts = "map step_tree q @ extra"
  let ?sts = "q @ (if extra = [] then [] else [PContext])"
  let ?p = "if pretty then jsonEnablePrettyPrint (makeJsonPrinter answers) else makeJsonPrinter answers"
  let ?c = "\<lparr>env = environment, rawStrings = raw, printer = ?p, events = []\<rparr>"
  obtain m where m: "length ?ts = Suc m" using q by (cases q) auto
  have tl: "length (tl ?ts) = m" using m by simp
  have op: "op_tree q extra = alt_tree FILTER (filter_tree ?ts)"
    using q by (cases q) (simp_all add: op_tree_def filter_tree_def)
  have f: "fresh environment raw pretty ?c"
    by (simp add: fresh_def settings_def makeJsonPrinter_def jsonEnablePrettyPrint_def
        jsonPrinterReset_def blankPrinter_def)
  have t: "list_all2 tree_of ?sts ?ts"
    using x by (auto simp: list_all2_append list_all2_map2 tree_of_def step_tree_def junk_tree_def intro!: list.rel_refl)
  obtain r c1 where r: "evalTraversal v (Some (filter_tree ?ts)) 0 m ?c = (r, c1)" by fastforce
  have "evalJQ environment answers raw pretty v (Some (top_tree q extra qs)) = (exit_code r, c1)"
    using r tl
    by (auto simp: evalJQ_def Let_def top_tree_def jqCastToObject_def getJQProperty_def 
        jsonIsObject_def evalJQExpr_def evalOperation_def op alt_tree_def getJQInt_def jsonIsNumber_def jq_rule_ids
        rule_codes evalFilter_def getJQArray_def filter_tree_def jsonIsArray_def exit_code_def split: jq_result.splits)
  then have c: "code = exit_code r" "c = c1" using ev by simp_all
  have out: "path_out ?sts v = path_out q v" using path_out_context by auto
  from conformsD(2) [OF conforms_path [OF t m, of 0, simplified] f v r] io c out
  show ?thesis by (auto simp: failing_def)
qed

end
