(* ===== verification/JqCommand.thy ===== *)
theory JqCommand
  imports JqEval
begin

section \<open>The command jq\<close>

text \<open>
  From the text of a filter to the calls that write: what the command does with a path, with the pipe
  behind it, and with text that is no filter.
\<close>












end
