(* ===== verification/ParseTotal.thy ===== *)
theory ParseTotal
  imports ParseTools
begin

section \<open>The grammar engine ends\<close>

text \<open>
  The contract between the engine of \<open>c/parsetools.c\<close> and what it is given: a tokenizer that
  returns and moves on, and a grammar without left recursion whose repetitions repeat something
  that takes a token. Under it the engine needs no more fuel than the text is long, up to a
  constant of the grammar.
\<close>

lemma tk_kept [simp]:
  "tk (buildSeqElement E ref c) = tk c" "tk (buildObject E r c) = tk c" "tk (buildArray E r c) = tk c"
  "tk (buildPop E c) = tk c" "tk (snd (buildAltValue E r c)) = tk c" "tk (setAltChoice i ref c) = tk c"
  "tk (rewindSteps h c) = tk c"
  by (auto simp: buildSeqElement_def buildObject_def buildArray_def buildPop_def buildAltValue_def
      setAltChoice_def rewindSteps_def makeBuildStep_def)

lemma tk_token: "buildTokenValue E t p q c = Some c' \<Longrightarrow> tk c' = tk c"
  by (auto simp: buildTokenValue_def makeBuildStep_def split: if_splits)

locale token_source =
  fixes E :: "'t gParseEnv" and good :: "'t \<Rightarrow> bool" and len :: int
  assumes token: "good t \<Longrightarrow> 0 \<le> p \<Longrightarrow>
    \<exists>i q t'. nextToken (tkz E) t p = Some (i, q, t') \<and> good t' \<and>
      (if i = EOF_TOKEN then p \<le> q else p < len \<and> p < q)"
    and len: "len \<le> TOKENIZER_FAILED"

text \<open>\<open>rank\<close> falls from a rule to the rules it refers to; \<open>eats\<close> are rules that take a token.\<close>

locale ranked_grammar =
  fixes E :: "'t gParseEnv" and rank :: "nat \<Rightarrow> nat" and eats :: "nat \<Rightarrow> bool"
  assumes refs: "r < length (rules E) \<Longrightarrow> RuleRef r' \<in> set (rule_refs (rules E ! r)) \<Longrightarrow>
      r' < length (rules E) \<and> rank r' < rank r"
    and star: "r < length (rules E) \<Longrightarrow> rule_type (rules E ! r) = G_STAR \<Longrightarrow>
      rule_refs (rules E ! r) \<noteq> [] \<and>
      (case hd (rule_refs (rules E ! r)) of TokenRef t \<Rightarrow> t \<noteq> EOF_TOKEN | RuleRef r' \<Rightarrow> eats r')"
    and eating: "r < length (rules E) \<Longrightarrow> eats r \<Longrightarrow> rule_type (rules E ! r) = G_STAR \<Longrightarrow> False"
      "r < length (rules E) \<Longrightarrow> eats r \<Longrightarrow> rule_type (rules E ! r) = G_SEQ \<Longrightarrow>
        rule_refs (rules E ! r) \<noteq> [] \<and>
        (case hd (rule_refs (rules E ! r)) of TokenRef t \<Rightarrow> t \<noteq> EOF_TOKEN | RuleRef r' \<Rightarrow> eats r')"
      "r < length (rules E) \<Longrightarrow> eats r \<Longrightarrow> rule_type (rules E ! r) = G_ALT \<Longrightarrow>
        ref \<in> set (rule_refs (rules E ! r)) \<Longrightarrow>
        (case ref of TokenRef t \<Rightarrow> t \<noteq> EOF_TOKEN | RuleRef r' \<Rightarrow> eats r')"

locale total_parser = token_source E good len + ranked_grammar E rank eats
  for E :: "'t gParseEnv" and good :: "'t \<Rightarrow> bool" and len :: int and rank :: "nat \<Rightarrow> nat" and eats :: "nat \<Rightarrow> bool"
begin

definition ref_eats :: "gRuleRef \<Rightarrow> bool" where
  "ref_eats ref = (case ref of TokenRef t \<Rightarrow> t \<noteq> EOF_TOKEN | RuleRef r \<Rightarrow> eats r)"

lemma ref_eats_simps [simp]: "ref_eats (TokenRef t) \<longleftrightarrow> t \<noteq> EOF_TOKEN" "ref_eats (RuleRef r) \<longleftrightarrow> eats r"
  by (simp_all add: ref_eats_def)

definition below :: "nat \<Rightarrow> gRuleRef \<Rightarrow> bool" where
  "below k ref = (case ref of TokenRef t \<Rightarrow> True | RuleRef r \<Rightarrow> r < length (rules E) \<and> rank r < k)"

definition fair :: "int \<Rightarrow> bool \<Rightarrow> 't outcome \<Rightarrow> bool" where
  "fair p b out = (case out of
     Stuck \<Rightarrow> False
   | Crash \<Rightarrow> True
   | Throw c \<Rightarrow> good (tk c)
   | Res q c \<Rightarrow> good (tk c) \<and> (q < 0 \<or> (if b then p < len \<and> p < q else p \<le> q)))"

lemma fair_simps [simp]:
  "\<not> fair p b Stuck" "fair p b Crash" "fair p b (Throw c) = good (tk c)"
  "fair p b (Res q c) = (good (tk c) \<and> (q < 0 \<or> (if b then p < len \<and> p < q else p \<le> q)))"
  by (simp_all add: fair_def)

lemma fair_weak: "fair p b out \<Longrightarrow> fair p False out"
  by (cases out) (auto split: if_splits)

lemma fair_popped: "fair p b (popped E' out) = fair p b out"
  by (cases out) (simp_all add: popped_def)

lemma fair_later: "fair q False out \<Longrightarrow> p \<le> q \<Longrightarrow> (b \<Longrightarrow> p < len \<and> p < q) \<Longrightarrow> fair p b out"
  by (cases out) auto

lemma fair_token:
  assumes "good (tk c)" "0 \<le> p"
  shows "fair p (t \<noteq> EOF_TOKEN) (runTokenMatch E t p c)"
proof -
  obtain i q t' where n: "nextToken (tkz E) (tk c) p = Some (i, q, t')" "good t'"
      "if i = EOF_TOKEN then p \<le> q else p < len \<and> p < q"
    using token [OF assms] by blast
  have f: "GPARSE_FAIL < 0" "NO_VALID_TOKEN \<noteq> EOF_TOKEN" by (simp_all add: GPARSE_FAIL_def token_codes)
  show ?thesis
    using n f len by (auto simp: runTokenMatch_def Let_def dest!: tk_token split: option.splits if_splits)
qed

lemma run_fair:
  "E' = E \<Longrightarrow> r < length (rules E) \<Longrightarrow> good (tk c) \<Longrightarrow> 0 \<le> p \<Longrightarrow> 2 * rank r + nat (len - p) + 2 \<le> n \<Longrightarrow>
     fair p (eats r) (parseDispatch E' n r p resume c)"
  "E' = E \<Longrightarrow> list_all (below k) refs \<Longrightarrow> good (tk c) \<Longrightarrow> 0 \<le> p \<Longrightarrow> 2 * k + nat (len - p) \<le> n \<Longrightarrow>
     fair p (refs \<noteq> [] \<and> ref_eats (hd refs)) (runSeq E' n refs p resume c)"
  "E' = E \<Longrightarrow> list_all (below k) refs \<Longrightarrow> good (tk c) \<Longrightarrow> 0 \<le> p \<Longrightarrow> 2 * k + nat (len - p) \<le> n \<Longrightarrow>
     fair p (list_all ref_eats refs) (runAlt E' n alt hwm refs p resume c)"
  "E' = E \<Longrightarrow> below k ref \<Longrightarrow> ref_eats ref \<Longrightarrow> good (tk c) \<Longrightarrow> 0 \<le> p \<Longrightarrow> 2 * k + nat (len - p) + 1 \<le> n \<Longrightarrow>
     fair p False (runStar E' n ref p hwm c)"
proof (induction E' n r p resume c and E' n refs p resume c and E' n alt hwm refs p resume c and E' n ref p hwm c
    arbitrary: and k and k and k rule: parseDispatch_runSeq_runAlt_runStar.induct)
  case (1 E' r p resume c)
  then show ?case by simp
next
  case (2 E' n r p resume c)
  note E = 2(4) and r = 2(5) and g = 2(6) and p = 2(7)
  note IH = "2.IH" [unfolded E, OF refl refl]
  let ?ty = "rule_type (rules E ! r)" and ?refs = "rule_refs (rules E ! r)"
  have n: "2 * rank r + nat (len - p) + 1 \<le> n" using 2(8) by simp
  have b: "list_all (below (rank r)) ?refs"
    using refs [OF r] by (auto simp: list_all_iff below_def split: gRuleRef.splits)
  consider "?ty = G_SEQ" | "?ty = G_ALT" "?ty \<noteq> G_SEQ" | "?ty = G_STAR" "?ty \<noteq> G_SEQ" "?ty \<noteq> G_ALT"
    | "?ty \<noteq> G_SEQ" "?ty \<noteq> G_ALT" "?ty \<noteq> G_STAR" by blast
  then show ?case
  proof cases
    case 1
    then have "fair p (?refs \<noteq> [] \<and> ref_eats (hd ?refs)) (runSeq E n ?refs p resume (buildObject E r c))"
      using IH(1) [OF 1 refl b _ p] g n by simp
    moreover have "eats r \<Longrightarrow> ?refs \<noteq> [] \<and> ref_eats (hd ?refs)"
      using eating(2) [OF r _ 1] by (simp add: ref_eats_def)
    ultimately show ?thesis using 1 fair_weak by (cases "eats r") (auto simp: E fair_popped)
  next
    case 2
    obtain a c1 where a: "buildAltValue E r c = (a, c1)" by fastforce
    then have "tk c1 = tk c" by (metis snd_conv tk_kept(5))
    then have "fair p (list_all ref_eats ?refs) (runAlt E n a (length (buildSteps c1)) ?refs p resume c1)"
      using IH(2) [OF 2(2,1) a [symmetric] refl b _ p] g n by simp
    moreover have "eats r \<Longrightarrow> list_all ref_eats ?refs"
      using eating(3) [OF r _ 2(1)] by (auto simp: list_all_iff ref_eats_def)
    ultimately show ?thesis using 2 a fair_weak by (cases "eats r") (auto simp: E fair_popped)
  next
    case 3
    have h: "?refs \<noteq> []" "ref_eats (hd ?refs)" using star [OF r 3(1)] by (simp_all add: ref_eats_def)
    then have "below (rank r) (hd ?refs)" using b by (cases ?refs) simp_all
    then have "fair p False (runStar E n (hd ?refs) p (length (buildSteps (buildArray E r c))) (buildArray E r c))"
      using IH(3) [OF 3(2,3,1) refl refl _ h(2) _ p] g n by simp
    moreover have "\<not> eats r" using eating(1) [OF r _ 3(1)] by blast
    ultimately show ?thesis using 3 by (simp add: E fair_popped Let_def)
  next
    case 4
    then show ?thesis using g by (simp add: E GPARSE_FAIL_def)
  qed
next
  case (3 E' n p resume c)
  then show ?case by (simp add: runSeq.simps)
next
  case (4 E' n ref refs p resume c)
  note E = 4(3) and b = 4(4) and g = 4(5) and p = 4(6) and n = 4(7)
  note IH = "4.IH" [unfolded E, OF refl]
  have b': "list_all (below k) refs" using b by simp
  let ?c = "buildSeqElement E ref c"
  let ?out = "case ref of TokenRef t \<Rightarrow> runTokenMatch E t p ?c | RuleRef r \<Rightarrow> parseDispatch E n r p resume ?c"
  have out: "fair p (ref_eats ref) ?out"
  proof (cases ref)
    case (TokenRef t)
    then show ?thesis using fair_token [of ?c p t] g p by (simp add: ref_eats_def)
  next
    case (RuleRef r)
    then show ?thesis using IH(1) [OF RuleRef refl _ _ p] b g n by (simp add: below_def ref_eats_def)
  qed
  show ?case
  proof (cases ?out)
    case (Res q c2)
    show ?thesis
    proof (cases "GPARSE_SUCCESS q")
      case True
      then have q: "p \<le> q" "ref_eats ref \<Longrightarrow> p < len \<and> p < q" "good (tk c2)"
        using out Res by (auto simp: GPARSE_SUCCESS_def split: if_splits)
      have "fair q (refs \<noteq> [] \<and> ref_eats (hd refs)) (runSeq E n refs q resume c2)"
        using IH(2) [OF Res True refl b' q(3)] q(1) p n by simp
      from fair_later [OF fair_weak [OF this] q(1), of "ref_eats ref"] q(2) show ?thesis
        using Res True by (simp add: E)
    next
      case False
      then show ?thesis using out Res by (simp add: E GPARSE_FAIL_def)
    qed
  qed (use out in \<open>simp_all add: E\<close>)
next
  case (5 E' n alt hwm p resume c)
  then show ?case by (simp add: GPARSE_FAIL_def)
next
  case (6 E' n alt hwm ref refs p resume c)
  note E = 6(5) and b = 6(6) and g = 6(7) and p = 6(8) and n = 6(9)
  note IH = "6.IH" [unfolded E]
  have b': "list_all (below k) refs" using b by simp
  show ?case
  proof (cases alt)
    case None
    then show ?thesis by simp
  next
    case (Some i)
    let ?c = "setAltChoice i ref c"
    show ?thesis
    proof (cases ref)
      case (TokenRef t)
      have out: "fair p (t \<noteq> EOF_TOKEN) (runTokenMatch E t p ?c)" using fair_token [of ?c p t] g p by simp
      show ?thesis
      proof (cases "runTokenMatch E t p ?c")
        case (Res q c2)
        have "fair p (list_all ref_eats refs) (runAlt E n alt hwm refs p resume c2)"
          if "\<not> GPARSE_SUCCESS q" "refs \<noteq> []"
          using IH(1) [OF Some refl TokenRef Res that refl b' _ p n] out Res by simp
        then show ?thesis using out Res TokenRef Some
          by (auto simp: E GPARSE_SUCCESS_def GPARSE_FAIL_def dest: fair_weak split: if_splits)
      qed (use out TokenRef Some in \<open>simp_all add: E\<close>)
    next
      case (RuleRef r)
      have r: "r < length (rules E)" "2 * rank r + nat (len - p) + 2 \<le> n" using b n RuleRef by (simp_all add: below_def)
      show ?thesis
      proof (cases "refs = []")
        case True
        then show ?thesis using IH(4) [OF Some refl RuleRef _ refl r(1) _ p r(2)] g RuleRef Some
          by (simp add: E)
      next
        case False
        have out: "fair p (eats r) (parseDispatch E n r p True ?c)"
          using IH(2) [OF Some refl RuleRef False refl r(1) _ p r(2)] g by simp
        show ?thesis
        proof (cases "parseDispatch E n r p True ?c")
          case (Throw c2)
          have "fair p (list_all ref_eats refs) (runAlt E n alt hwm refs p resume (rewindSteps hwm c2))"
            using IH(3) [OF Some refl RuleRef False Throw refl b' _ p n] out Throw by simp
          then show ?thesis using Throw False RuleRef Some
            by (cases "eats r") (auto simp: E dest: fair_weak)
        qed (use out False RuleRef Some in \<open>auto simp: E split: if_splits\<close>)
      qed
    qed
  qed
next
  case (7 E' ref p hwm c)
  then show ?case by simp
next
  case (8 E' n ref p hwm c)
  note E = 8(3) and b = 8(4) and e = 8(5) and g = 8(6) and p = 8(7) and n = 8(8)
  note IH = "8.IH" [unfolded E]
  let ?out = "case ref of TokenRef t \<Rightarrow> runTokenMatch E t p c | RuleRef r \<Rightarrow> parseDispatch E n r p True c"
  have out: "fair p True ?out"
  proof (cases ref)
    case (TokenRef t)
    then show ?thesis using fair_token [OF g p, of t] e by (simp add: ref_eats_def)
  next
    case (RuleRef r)
    then show ?thesis using IH(1) [OF RuleRef refl _ g p] b e n by (simp add: below_def ref_eats_def)
  qed
  show ?case
  proof (cases ?out)
    case (Res q c2)
    show ?thesis
    proof (cases "GPARSE_SUCCESS q")
      case True
      then have q: "p < q" "p < len" "good (tk c2)" using out Res by (auto simp: GPARSE_SUCCESS_def)
      have "fair q False (runStar E n ref q (length (buildSteps c2)) c2)"
        using IH(2) [OF Res True refl b e q(3)] q(1,2) p n by simp
      from fair_later [OF this, of p False] q(1) show ?thesis using Res True by (simp add: E)
    next
      case False
      then show ?thesis using out Res by (simp add: E)
    qed
  qed (use out in \<open>simp_all add: E\<close>)
qed

lemma run_ends:
  assumes "r < length (rules E)" "good (tk c)" "0 \<le> p" "2 * rank r + nat (len - p) + 2 \<le> n"
  shows "parseDispatch E n r p resume c \<noteq> Stuck"
  using run_fair(1) [OF refl assms, of resume] by (cases "parseDispatch E n r p resume c") simp_all

end

end
