(* ===== verification/JqTotal.thy ===== *)
theory JqTotal
  imports JqCommand ParseTotal
begin

section \<open>Every filter is answered\<close>

text \<open>
  The contract of \<open>ParseTotal\<close> for the tokenizer of \<open>c/parsetools.c\<close> and the grammar of
  \<open>c/microjq.c\<close>: the parser ends on any text at all.
\<close>

text \<open>
  A tokenizer between two calls, over a text of at most \<open>n\<close> characters. A call that fails inside a
  string leaves its state behind for the next one.
\<close>

definition readable :: "int \<Rightarrow> jqTokenizer \<Rightarrow> bool" where
  "readable n jqt \<longleftrightarrow> ccsid jqt = UTF8 \<and> quiet (mem jqt) \<and> int (length (data jqt)) \<le> n \<and>
     tokenState jqt \<in> {STATE_INITIAL, STATE_DQUOTE, STATE_SQUOTE}"

text \<open>A tokenizer inside a call that began at \<open>p\<close>.\<close>

definition reading :: "int \<Rightarrow> int \<Rightarrow> jqTokenizer \<Rightarrow> bool" where
  "reading n p jqt \<longleftrightarrow> ccsid jqt = UTF8 \<and> quiet (mem jqt) \<and> int (length (data jqt)) \<le> n \<and>
     0 \<le> p \<and> p \<le> jpos jqt \<and> jpos jqt \<le> int (length (data jqt)) \<and> p < int (length (data jqt)) \<and>
     (tokenState jqt \<in> {STATE_INTEGER, STATE_IDENTIFIER} \<longrightarrow> p < jpos jqt)"

definition read_ok :: "int \<Rightarrow> int \<Rightarrow> (int \<times> jqTokenizer) option \<Rightarrow> bool" where
  "read_ok n p out = (case out of
     None \<Rightarrow> False
   | Some (i, t) \<Rightarrow> readable n t \<and> (if i = EOF_TOKEN then p \<le> jpos t else p < jpos t))"

lemma round_ends:
  assumes "reading n p jqt" "jpos jqt = int (length (data jqt))"
  shows "case jqtRound (-1) (jpos jqt) jqt of GoOn t \<Rightarrow> False
    | Token i t \<Rightarrow> read_ok n p (Some (tokenDone i t)) | Failed t \<Rightarrow> read_ok n p (Some (NO_VALID_TOKEN, t))"
  using assms quiet_classes [of jqt]
  by (cases "tokenState jqt")
     (auto simp: jqtRound_def reading_def read_ok_def readable_def tokenDone_def identifierChar_def distinct_tokens
       UNI_DOLLAR_def UNI_UNDER_def)

lemma punctuation_not_end: "punctuation c \<noteq> EOF_TOKEN"
  by (simp add: punctuation_def distinct_tokens)

lemma round_goes_on:
  assumes "reading n p jqt" "jpos jqt < int (length (data jqt))"
  shows "case jqtRound c (jpos jqt) (jqt\<lparr>jpos := jpos jqt + 1\<rparr>) of
      GoOn t \<Rightarrow> reading n p (t\<lparr>jpos := jpos jqt + 1, data := data jqt\<rparr>)
    | Token i t \<Rightarrow> read_ok n p (Some (tokenDone i t)) | Failed t \<Rightarrow> read_ok n p (Some (NO_VALID_TOKEN, t))"
  using assms punctuation_not_end [of c]
  by (cases "tokenState jqt")
     (auto simp: jqtRound_def reading_def read_ok_def readable_def tokenDone_def distinct_tokens)

lemma jqtLoop_reads: "reading n p jqt \<Longrightarrow> read_ok n p (jqtLoop jqt)"
proof (induction jqt rule: jqtLoop.induct)
  case (1 jqt)
  show ?case
  proof (cases "jpos jqt < int (length (data jqt))")
    case True
    let ?r = "jqtRound (char_code (data jqt ! nat (jpos jqt))) (jpos jqt) (jqt\<lparr>jpos := jpos jqt + 1\<rparr>)"
    have "0 \<le> jpos jqt" using 1(2) by (simp add: reading_def)
    moreover have "read_ok n p (jqtLoop (t\<lparr>jpos := jpos jqt + 1, data := data jqt\<rparr>))" if "?r = GoOn t" for t
      using 1(1) [OF _ that] round_goes_on [OF 1(2) True, of "char_code (data jqt ! nat (jpos jqt))"] that True calculation
      by simp
    ultimately show ?thesis
      using round_goes_on [OF 1(2) True, of "char_code (data jqt ! nat (jpos jqt))"] True
      by (subst jqtLoop.simps) (simp split: round.splits)
  next
    case False
    then have "jpos jqt = int (length (data jqt))" using 1(2) by (simp add: reading_def)
    then show ?thesis using round_ends [OF 1(2)] by (subst jqtLoop.simps) (simp split: round.splits)
  qed
qed

lemma getNextJToken_progress:
  assumes "readable n jqt" "0 \<le> p"
  shows "\<exists>i q t'. getNextJToken jqt p = Some (i, q, t') \<and> readable n t' \<and>
    (if i = EOF_TOKEN then p \<le> q else p < n \<and> p < q)"
proof (cases "int (length (data jqt)) \<le> p")
  case True
  then show ?thesis using assms by (simp add: getNextJToken_def jqtToken_def readable_def)
next
  case False
  then have "reading n p (jqt\<lparr>jpos := p\<rparr>)" using assms by (auto simp: readable_def reading_def)
  from jqtLoop_reads [OF this] obtain i t where "jqtLoop (jqt\<lparr>jpos := p\<rparr>) = Some (i, t)" "readable n t"
      "if i = EOF_TOKEN then p \<le> jpos t else p < jpos t"
    by (auto simp: read_ok_def split: option.splits)
  then show ?thesis using False assms by (auto simp: getNextJToken_def jqtToken_def readable_def split: if_splits)
qed

text \<open>The contracts of \<open>ParseTotal\<close>: ranks for the rules of the grammar, and the rules that take a token.\<close>

definition jq_rank :: "nat \<Rightarrow> nat" where
  "jq_rank r = [9, 8, 7, 6, 5, 11, 10, 9, 13, 12, 11, 9, 4, 2, 3, 1, 1, 1, 1] ! r"

definition jq_eats :: "nat \<Rightarrow> bool" where
  "jq_eats r \<longleftrightarrow> r \<in> {3, 5, 7, 8, 10, 11, 13, 15, 16, 17, 18}"

interpretation jq_tokens: token_source jqEnv "readable (min n TOKENIZER_FAILED)" "min n TOKENIZER_FAILED" for n
  by unfold_locales (use getNextJToken_progress in \<open>auto simp: jqEnv_def\<close>)

definition jq_ref_eats :: "gRuleRef \<Rightarrow> bool" where
  "jq_ref_eats ref = (case ref of TokenRef t \<Rightarrow> t \<noteq> EOF_TOKEN | RuleRef r \<Rightarrow> jq_eats r)"

lemma jq_ranked:
  "list_all (\<lambda>r. list_all (\<lambda>ref. case ref of TokenRef t \<Rightarrow> True
      | RuleRef r' \<Rightarrow> r' < length jqRules \<and> jq_rank r' < jq_rank r) (rule_refs (jqRules ! r))) [0..<length jqRules]"
  "list_all (\<lambda>r. rule_type (jqRules ! r) = G_STAR \<longrightarrow>
      rule_refs (jqRules ! r) \<noteq> [] \<and> jq_ref_eats (hd (rule_refs (jqRules ! r)))) [0..<length jqRules]"
  "list_all (\<lambda>r. jq_eats r \<longrightarrow> rule_type (jqRules ! r) \<noteq> G_STAR) [0..<length jqRules]"
  "list_all (\<lambda>r. jq_eats r \<and> rule_type (jqRules ! r) = G_SEQ \<longrightarrow>
      rule_refs (jqRules ! r) \<noteq> [] \<and> jq_ref_eats (hd (rule_refs (jqRules ! r)))) [0..<length jqRules]"
  "list_all (\<lambda>r. jq_eats r \<and> rule_type (jqRules ! r) = G_ALT \<longrightarrow>
      list_all jq_ref_eats (rule_refs (jqRules ! r))) [0..<length jqRules]"
  by code_simp+

interpretation jq_rules: ranked_grammar jqEnv jq_rank jq_eats
proof
  fix r r'
  assume r: "r < length (rules jqEnv)" "RuleRef r' \<in> set (rule_refs (rules jqEnv ! r))"
  then show "r' < length (rules jqEnv) \<and> jq_rank r' < jq_rank r"
    using jq_ranked(1) by (auto simp: list_all_iff dest!: bspec [of _ _ r] bspec [of _ _ "RuleRef r'"])
next
  fix r
  assume r: "r < length (rules jqEnv)" "rule_type (rules jqEnv ! r) = G_STAR"
  then show "rule_refs (rules jqEnv ! r) \<noteq> [] \<and>
      (case hd (rule_refs (rules jqEnv ! r)) of TokenRef t \<Rightarrow> t \<noteq> EOF_TOKEN | RuleRef r' \<Rightarrow> jq_eats r')"
    using jq_ranked(2) unfolding jq_ref_eats_def list_all_iff by simp
next
  fix r
  assume "r < length (rules jqEnv)" "jq_eats r" "rule_type (rules jqEnv ! r) = G_STAR"
  then show False using jq_ranked(3) unfolding list_all_iff by simp
next
  fix r
  assume "r < length (rules jqEnv)" "jq_eats r" "rule_type (rules jqEnv ! r) = G_SEQ"
  then show "rule_refs (rules jqEnv ! r) \<noteq> [] \<and>
      (case hd (rule_refs (rules jqEnv ! r)) of TokenRef t \<Rightarrow> t \<noteq> EOF_TOKEN | RuleRef r' \<Rightarrow> jq_eats r')"
    using jq_ranked(4) unfolding jq_ref_eats_def list_all_iff by simp
next
  fix r ref
  assume "r < length (rules jqEnv)" "jq_eats r" "rule_type (rules jqEnv ! r) = G_ALT"
    "ref \<in> set (rule_refs (rules jqEnv ! r))"
  then show "case ref of TokenRef t \<Rightarrow> t \<noteq> EOF_TOKEN | RuleRef r' \<Rightarrow> jq_eats r'"
    using jq_ranked(5) unfolding jq_ref_eats_def list_all_iff by simp
qed




end
