(* ===== verification/Spec2Isabelle.thy ===== *)
theory Spec2Isabelle
  imports FixedBlock LongHash LRU Queues JsonRoundTrip JsonBuilder JsonPointer Encodings HttpRequests SchemaLimits JqTotal
begin

text \<open>
  A verification library of the Zowe common C runtime, the C code that the servers of Zowe share:
  collections, JSON, HTTP, encodings and JSON schemas.

  The parts and how they interact. The containers of \<open>c/collections.c\<close> stand at the bottom: a hash table
  takes its entries from a fixed block manager, the LRU cache keeps a hash table and a list over the same
  elements, and the queues have three implementations behind one interface. \<open>c/json.c\<close> reads text with a
  tokenizer and a recursive parser into values, writes values through a printer that grows buffers,
  escapes and converts character sets, and builds, copies and merges trees of values.
  \<open>c/httpserver.c\<close> turns the bytes of a connection into requests by a state machine.
  \<open>c/utils.c\<close> holds the searches, scanners and encodings that these use. \<open>c/jsonschema.c\<close> builds a graph
  of specifications from the JSON of a schema and validates values against it; the configuration
  manager is its client. Its command \<open>jq\<close> runs \<open>c/microjq.c\<close>, which hands a grammar and a tokenizer to the
  parser of \<open>c/parsetools.c\<close>, builds JSON from the steps it leaves with the builder of \<open>c/json.c\<close>, and
  prints what a filter selects with its printer.

  Theories and code.
    \<^item> \<open>CPrelude\<close>, \<open>CStrings\<close>: the heap of addresses with its allocator, C integers, characters, decimal output
      and \<open>strtoll\<close>; the contract of the C library that the rest uses.
    \<^item> \<open>FixedBlock\<close> (\<open>fbMgr...\<close>), \<open>HashTable\<close> (\<open>ht...\<close>), \<open>LongHash\<close> (\<open>lht...\<close>), \<open>LRU\<close> (\<open>lru...\<close>), \<open>Queues\<close> (\<open>q...\<close>, with the
      transactional and the compare-and-swap versions), and the array list in \<open>JsonPointer\<close>:
      \<open>c/collections.c\<close>. State is passed explicitly; pointers are addresses in stores.
    \<^item> \<open>JsonData\<close> (values and accessors), \<open>JsonPrinter\<close> (\<open>jsonPrinter\<close> and buffers), \<open>JsonTokenizer\<close>, \<open>JsonParser\<close>,
      \<open>JsonBuilder\<close> (\<open>jsonBuild...\<close>, \<open>jsonCopy\<close>, \<open>jsonMerge\<close>), \<open>JsonPointer\<close>: \<open>c/json.c\<close>.
    \<^item> \<open>StrUtils\<close> and \<open>Encodings\<close>: the string searches, the \<open>tkn\<close> scanners, and hexadecimal, percent, base64
      and base32 in \<open>c/utils.c\<close>.
    \<^item> \<open>HttpParser\<close>: \<open>processHttpFragment\<close> with one definition for each state; \<open>HttpRequests\<close> states what a
      stream of requests means.
    \<^item> \<open>JsonSchema\<close> (the builder, \<open>getStringOrFail\<close> to \<open>jsonBuildSchema\<close>) and \<open>SchemaValidator\<close> (the validator,
      \<open>accessPathPushIndex\<close> to \<open>jsonValidateSchema\<close>): \<open>c/jsonschema.c\<close>.
    \<^item> \<open>ParseTools\<close> (rules, \<open>gParse\<close>, build steps, \<open>gBuildJSON\<close>) and \<open>JqTokenizer\<close> (\<open>jqtToken\<close>):
      \<open>c/parsetools.c\<close>. \<open>MicroJq\<close>: \<open>c/microjq.c\<close> and the branch for \<open>jq\<close> in \<open>c/configmgr.c\<close>. A jump by
      \<open>longjmp\<close> is a value that the owner of the resume point catches.

  What the lemmas show.
    \<^item> Containers: invariants of the blocks, chains and lists that every operation keeps; lookups after
      insertions and removals; the long hash table and the LRU cache as refinements of maps and of a
      list in order of use; first-in first-out order of the queues, and linearizability of the
      compare-and-swap queue for every interleaving of its threads.
    \<^item> JSON text: the printer writes the text that a reference gives; the parser ends on every input; what
      is printed from a readable value is parsed back to it; copies and merges refine a merge of
      values; pointers, base64 and percent encoding come back.
    \<^item> HTTP: a stream of well-formed requests, in whatever fragments it arrives, is parsed into exactly the
      requests that were sent.
    \<^item> JSON schemas: \<open>SchemaMeaning\<close> gives the meaning of a schema, read off its JSON. \<open>SchemaBuild\<close>,
      \<open>SchemaDescribed\<close> and \<open>SchemaCorrect\<close> show that what the builder leaves in its store is right for
      the schema (\<open>represents\<close>), by the updates that each phase makes at the address of the new spec.
      \<open>SchemaVerdict\<close> shows that each function of the validator decides the test of the reference on a
      right spec, and so does the whole. \<open>SchemaSafety\<close> carries an invariant of the state through the
      validator, and \<open>SchemaLimits\<close> follows a limit that the builder mistakes.
    \<^item> The jq subset: \<open>JqLexing\<close>, \<open>JqParse\<close> and \<open>JqTree\<close> follow the text of a path through tokenizer, parser and
      builder to its tree, \<open>JqEval\<close> shows that the tree is evaluated to what the path selects, and
      \<open>JqCommand\<close> joins them. \<open>ParseTotal\<close> states as locales what the parser needs of a tokenizer and of a
      grammar in order to end, and \<open>JqTotal\<close> shows that those of jq give it.
    \<^item> Where the code does not do what it means to, the property states what it does: the expiry test of
      \<open>htIntGet\<close>, buffers written past their end, characters lost in conversion and parsing, header names
      matched by prefix, text behind a filter ignored, base32 of bytes from 128 on, \<open>maxProperties\<close> without \<open>minProperties\<close>.

  Bounds and fuel. Loops over data are structural. The parser has fuel, a number that \<open>parse_fuel\<close> derives
  from the input left and that is proved to suffice; the printer and the builders recurse on the size
  of values. The walks along the parents of a spec are bounded by the number of specs, which is
  enough because parents are older than their children. \<open>validateJSON\<close> has fuel, as references between
  schemas may lead in circles; for a schema without references more fuel than its size suffices.
  The grammar parser has fuel for nested calls and rounds of repetitions; for the grammar of jq the
  length of the text and a constant are enough.
  \<open>convertToUtf8\<close> retries as often as the code does.

  Parameters. Not in the repository, and so arguments of the definitions: floating point (\<open>fp_ops\<close>), the
  conversion of character sets, the operations on file descriptors, and regular expressions
  (\<open>platform\<close>). What a property needs of them is a named hypothesis.

  Not modelled. Files that only call the operating system (sockets, data sets, recovery, cross-memory
  services, security), most of them in inline assembler; tracing and dumping; the
  scripting engine and the services of the HTTP server. Of the modelled files: \<open>arrayListSort\<close>, the
  functions that only free, \<open>jsonParseUnterminatedUtf8String\<close>, and in \<open>c/utils.c\<close> the string lists and the
  character streams over sockets. Allocation succeeds, except where a definition says otherwise.
\<close>

end
